(* ===== verification/Prelude.thy ===== *)
theory Prelude
  imports Main "HOL-Library.Word" "HOL-Library.State_Monad" "HOL-Library.Sublist"
begin

text \<open>
  Shared vocabulary of the development.

  Effects: an operation of the program that reads or changes state is a computation of
  the library's state monad. A Go call that returns \<open>(x, err)\<close> is a computation of type
  \<open>('s, 'e + 'a) state\<close>, and \<open>check m k\<close> is the idiom
  \<^verbatim>\<open>x, err := m; if err != nil { return err }; k(x)\<close>.

  Strings: Go strings are byte strings, here lists of \<open>char\<close>. The functions of the Go
  packages strings, strconv and math/big that the sources use are defined below, on bytes;
  case mapping and white space are those of ASCII.
\<close>

section \<open>Collections of rules\<close>

named_theorems run_simps \<open>equations that execute the primitive computations\<close>
named_theorems io_rules \<open>closure of a step relation under the combinators\<close>
named_theorems str_simps \<open>facts on the byte-string functions\<close>

type_synonym u64 = "64 word"

section \<open>Computations\<close>

definition ok :: "'a \<Rightarrow> ('s, 'e + 'a) state" where
  "ok x = State_Monad.return (Inr x)"

definition fail :: "'e \<Rightarrow> ('s, 'e + 'a) state" where
  "fail e = State_Monad.return (Inl e)"

definition check :: "('s, 'e + 'a) state \<Rightarrow> ('a \<Rightarrow> ('s, 'e + 'b) state) \<Rightarrow> ('s, 'e + 'b) state" where
  "check m k = do { r \<leftarrow> m; (case r of Inl e \<Rightarrow> fail e | Inr x \<Rightarrow> k x) }"

definition skip :: "('s, unit) state" where
  "skip = State_Monad.return ()"

definition modify :: "('s \<Rightarrow> 's) \<Rightarrow> ('s, unit) state" where
  "modify f = State_Monad.update f"

definition gets :: "('s \<Rightarrow> 'a) \<Rightarrow> ('s, 'a) state" where
  "gets f = do { s \<leftarrow> State_Monad.get; State_Monad.return (f s) }"

lemma run_ok [simp, run_simps]: "run_state (ok x) s = (Inr x, s)"
  by (simp add: ok_def)

lemma run_fail [simp, run_simps]: "run_state (fail e) s = (Inl e, s)"
  by (simp add: fail_def)

lemma skip_code [code_unfold]: "skip = State_Monad.return ()"
  by (simp add: skip_def)

lemma run_skip [simp, run_simps]: "run_state skip s = ((), s)"
  by (simp add: skip_def)

lemma run_modify [simp, run_simps]: "run_state (modify f) s = ((), f s)"
  by (simp add: modify_def State_Monad.update_def)

lemma run_gets [simp, run_simps]: "run_state (gets f) s = (f s, s)"
  by (simp add: gets_def)

lemma run_check [run_simps]:
  "run_state (check m k) s =
     (case run_state m s of (Inl e, s') \<Rightarrow> (Inl e, s') | (Inr x, s') \<Rightarrow> run_state (k x) s')"
  by (simp add: check_def split: prod.splits sum.splits)

lemma check_cong [fundef_cong]:
  "m = m' \<Longrightarrow> (\<And>x. k x = k' x) \<Longrightarrow> check m k = check m' k'"
  by (simp add: check_def cong: sum.case_cong)

text \<open>Running a computation on each element of a list, stopping at the first error: the
  Go loop \<^verbatim>\<open>for _, x := range xs { if err := f(x); err != nil { return err } }\<close>.\<close>

primrec for_each :: "('a \<Rightarrow> ('s, 'e + unit) state) \<Rightarrow> 'a list \<Rightarrow> ('s, 'e + unit) state" where
  "for_each f [] = ok ()"
| "for_each f (x # xs) = check (f x) (\<lambda>_. for_each f xs)"

lemma for_each_append:
  "run_state (for_each f (xs @ ys)) s = run_state (check (for_each f xs) (\<lambda>_. for_each f ys)) s"
  by (induction xs arbitrary: s) (auto simp: run_check split: prod.splits sum.splits)

text \<open>
  A step relation between the state before and after that is reflexive and transitive is
  kept by every program whose primitive steps keep it. Growth of a trace, the frame
  "this field is not written" and "this invariant is preserved" are all instances.
\<close>

locale step_order =
  fixes R :: "'s \<Rightarrow> 's \<Rightarrow> bool"
  assumes R_refl: "R s s"
    and R_trans: "R s t \<Longrightarrow> R t u \<Longrightarrow> R s u"
begin

lemma io_return: "state_io_rel R (State_Monad.return x)"
  by (auto simp: R_refl)

lemma io_ok: "state_io_rel R (ok x)"
  by (auto simp: R_refl ok_def)

lemma io_fail: "state_io_rel R (fail x)"
  by (auto simp: R_refl fail_def)

lemma io_skip: "state_io_rel R skip"
  by (auto simp: R_refl)

lemma io_gets: "state_io_rel R (gets f)"
  by (auto simp: R_refl)

lemma io_modify: "(\<And>s. R s (f s)) \<Longrightarrow> state_io_rel R (modify f)"
  by (auto simp: state_io_rel_def)

lemma io_bind:
  assumes "state_io_rel R m" and "\<And>x. state_io_rel R (k x)"
  shows "state_io_rel R (State_Monad.bind m k)"
proof
  fix a s s'
  assume "run_state (State_Monad.bind m k) s = (a, s')"
  then obtain x t where "run_state m s = (x, t)" and "run_state (k x) t = (a, s')"
    by (auto split: prod.splits)
  with assms show "R s s'" by (meson R_trans state_io_relD)
qed

lemma io_check:
  assumes "state_io_rel R m" and "\<And>x. state_io_rel R (k x)"
  shows "state_io_rel R (check m k)"
  unfolding check_def
  by (rule io_bind [OF assms(1)]) (auto split: sum.split simp: assms(2) io_fail)

lemma io_if:
  "(b \<Longrightarrow> state_io_rel R m) \<Longrightarrow> (\<not> b \<Longrightarrow> state_io_rel R n) \<Longrightarrow> state_io_rel R (if b then m else n)"
  by simp

lemma io_for_each: "(\<And>x. x \<in> set xs \<Longrightarrow> state_io_rel R (f x)) \<Longrightarrow> state_io_rel R (for_each f xs)"
  by (induction xs) (auto intro: io_ok io_check)

lemma io_case_sum:
  "(\<And>e. r = Inl e \<Longrightarrow> state_io_rel R (f e)) \<Longrightarrow> (\<And>x. r = Inr x \<Longrightarrow> state_io_rel R (g x)) \<Longrightarrow>
     state_io_rel R (case r of Inl e \<Rightarrow> f e | Inr x \<Rightarrow> g x)"
  by (cases r) auto

lemma io_case_option:
  "(r = None \<Longrightarrow> state_io_rel R f) \<Longrightarrow> (\<And>x. r = Some x \<Longrightarrow> state_io_rel R (g x)) \<Longrightarrow>
     state_io_rel R (case r of None \<Rightarrow> f | Some x \<Rightarrow> g x)"
  by (cases r) auto

lemma io_case_list:
  "(r = [] \<Longrightarrow> state_io_rel R f) \<Longrightarrow> (\<And>x xs. r = x # xs \<Longrightarrow> state_io_rel R (g x xs)) \<Longrightarrow>
     state_io_rel R (case r of [] \<Rightarrow> f | x # xs \<Rightarrow> g x xs)"
  by (cases r) auto

lemma io_case_prod: "(\<And>x y. r = (x, y) \<Longrightarrow> state_io_rel R (f x y)) \<Longrightarrow> state_io_rel R (case r of (x, y) \<Rightarrow> f x y)"
  by (cases r) auto

lemma io_let: "(\<And>x. x = r \<Longrightarrow> state_io_rel R (f x)) \<Longrightarrow> state_io_rel R (Let r f)"
  by simp

lemmas io_intros = io_return io_ok io_fail io_skip io_gets io_bind io_check io_if io_for_each
  io_case_sum io_case_option io_case_list io_case_prod io_let

end

section \<open>Bytes and strings\<close>

definition code_of :: "char \<Rightarrow> nat" where
  "code_of c = of_char c"

definition lower_char :: "char \<Rightarrow> char" where
  "lower_char c = (if 65 \<le> code_of c \<and> code_of c \<le> 90 then char_of (code_of c + 32) else c)"

definition upper_char :: "char \<Rightarrow> char" where
  "upper_char c = (if 97 \<le> code_of c \<and> code_of c \<le> 122 then char_of (code_of c - 32) else c)"

definition to_lower :: "string \<Rightarrow> string" where "to_lower = map lower_char"
definition to_upper :: "string \<Rightarrow> string" where "to_upper = map upper_char"

text \<open>\<^verbatim>\<open>strings.EqualFold\<close>\<close>
definition equal_fold :: "string \<Rightarrow> string \<Rightarrow> bool" where
  "equal_fold a b \<longleftrightarrow> to_lower a = to_lower b"

lemma code_of_lower_char: "code_of (lower_char c) =
    (if 65 \<le> code_of c \<and> code_of c \<le> 90 then code_of c + 32 else code_of c)"
  by (simp add: lower_char_def code_of_def)

lemma code_of_inject: "code_of a = code_of b \<longleftrightarrow> a = b"
  by (simp add: code_of_def of_char_eq_iff)

lemma lower_char_idem [simp]: "lower_char (lower_char c) = lower_char c"
  by (simp add: code_of_inject [symmetric] code_of_lower_char)

lemma to_lower_idem [simp, str_simps]: "to_lower (to_lower s) = to_lower s"
  by (simp add: to_lower_def)

lemma to_lower_Nil [simp]: "to_lower [] = []"
  by (simp add: to_lower_def)

lemma to_lower_eq_Nil [simp]: "to_lower s = [] \<longleftrightarrow> s = []"
  by (simp add: to_lower_def)

lemma equal_fold_refl [simp]: "equal_fold a a"
  by (simp add: equal_fold_def)

lemma equal_fold_sym: "equal_fold a b \<Longrightarrow> equal_fold b a"
  by (simp add: equal_fold_def)

lemma equal_fold_trans: "equal_fold a b \<Longrightarrow> equal_fold b c \<Longrightarrow> equal_fold a c"
  by (simp add: equal_fold_def)

definition has_prefix :: "'a list \<Rightarrow> 'a list \<Rightarrow> bool" where
  "has_prefix p s \<longleftrightarrow> take (length p) s = p"

definition has_suffix :: "'a list \<Rightarrow> 'a list \<Rightarrow> bool" where
  "has_suffix p s \<longleftrightarrow> has_prefix (rev p) (rev s)"

definition trim_prefix :: "'a list \<Rightarrow> 'a list \<Rightarrow> 'a list" where
  "trim_prefix p s = (if has_prefix p s then drop (length p) s else s)"

definition trim_suffix :: "'a list \<Rightarrow> 'a list \<Rightarrow> 'a list" where
  "trim_suffix p s = (if has_suffix p s then take (length s - length p) s else s)"

lemma has_prefix_iff: "has_prefix p s \<longleftrightarrow> (\<exists>r. s = p @ r)"
  unfolding has_prefix_def by (metis append_eq_conv_conj)

lemma has_suffix_iff: "has_suffix p s \<longleftrightarrow> (\<exists>r. s = r @ p)"
  unfolding has_suffix_def has_prefix_iff
  by (metis append_eq_append_conv2 rev_append rev_rev_ident)

lemma has_prefix_append [simp]: "has_prefix p (p @ s)"
  by (auto simp: has_prefix_iff)

lemma has_suffix_append [simp]: "has_suffix p (s @ p)"
  by (auto simp: has_suffix_iff)

lemma trim_prefix_append [simp]: "trim_prefix p (p @ s) = s"
  by (simp add: trim_prefix_def)

lemma trim_suffix_append [simp]: "trim_suffix p (s @ p) = s"
  by (simp add: trim_suffix_def)

fun contains :: "'a list \<Rightarrow> 'a list \<Rightarrow> bool" where
  "contains sub [] = (sub = [])"
| "contains sub (c # s) = (has_prefix sub (c # s) \<or> contains sub s)"

lemma contains_iff: "contains sub s \<longleftrightarrow> (\<exists>a b. s = a @ sub @ b)"
proof (induction s)
  case Nil
  then show ?case by auto
next
  case (Cons c s)
  have "(\<exists>a b. c # s = a @ sub @ b) \<longleftrightarrow> (\<exists>b. c # s = sub @ b) \<or> (\<exists>a b. s = a @ sub @ b)"
    by (auto simp: Cons_eq_append_conv)
  then show ?case by (simp add: Cons.IH has_prefix_iff)
qed

fun index_byte :: "char \<Rightarrow> string \<Rightarrow> nat option" where
  "index_byte c [] = None"
| "index_byte c (d # s) = (if c = d then Some 0 else map_option Suc (index_byte c s))"

lemma index_byte_None: "index_byte c s = None \<longleftrightarrow> c \<notin> set s"
  by (induction s) auto

lemmas index_byte_absent = index_byte_None [THEN iffD2]

lemma index_byte_append: "c \<notin> set p \<Longrightarrow> index_byte c (p @ c # s) = Some (length p)"
  by (induction p) auto

lemma index_byte_Some:
  "index_byte c s = Some i \<Longrightarrow> i < length s \<and> s ! i = c \<and> c \<notin> set (take i s)"
  by (induction s arbitrary: i) (auto split: if_splits simp: nth_Cons')

fun join :: "string \<Rightarrow> string list \<Rightarrow> string" where
  "join sep [] = []"
| "join sep [x] = x"
| "join sep (x # y # xs) = x @ sep @ join sep (y # xs)"

lemma join_Cons: "xs \<noteq> [] \<Longrightarrow> join sep (x # xs) = x @ sep @ join sep xs"
  by (cases xs) auto

definition is_ascii_space :: "char \<Rightarrow> bool" where
  "is_ascii_space c \<longleftrightarrow> code_of c \<in> {9, 10, 11, 12, 13, 32}"

definition trim_space :: "string \<Rightarrow> string" where
  "trim_space s = rev (dropWhile is_ascii_space (rev (dropWhile is_ascii_space s)))"

text \<open>\<^verbatim>\<open>strings.Split\<close> on a one-byte separator.\<close>

fun split_on :: "char \<Rightarrow> string \<Rightarrow> string list" where
  "split_on c [] = [[]]"
| "split_on c (d # s) =
     (if d = c then [] # split_on c s
      else (case split_on c s of [] \<Rightarrow> [[d]] | x # xs \<Rightarrow> (d # x) # xs))"

lemma split_on_not_Nil [simp]: "split_on c s \<noteq> []"
  by (cases s) (auto split: list.splits)

lemma split_on_no_sep: "c \<notin> set s \<Longrightarrow> split_on c s = [s]"
  by (induction s) auto

lemma split_on_append: "c \<notin> set x \<Longrightarrow> split_on c (x @ c # s) = x # split_on c s"
  by (induction x) auto

lemma split_on_join:
  "xs \<noteq> [] \<Longrightarrow> \<forall>x \<in> set xs. c \<notin> set x \<Longrightarrow> split_on c (join [c] xs) = xs"
  by (induction "[c]" xs rule: join.induct) (auto simp: split_on_no_sep split_on_append)

lemma join_split_on: "join [c] (split_on c s) = s"
proof (induction s)
  case (Cons d s)
  then show ?case by (cases "split_on c s"; cases "tl (split_on c s)") (auto simp: join_Cons)
qed simp

lemma split_on_sep_free: "x \<in> set (split_on c s) \<Longrightarrow> c \<notin> set x"
  by (induction s arbitrary: x) (fastforce split: if_splits list.splits)+

lemma join_inject:
  assumes "join [c] xs = join [c] ys" and "xs \<noteq> []" and "ys \<noteq> []"
    and "\<forall>x \<in> set xs. c \<notin> set x" and "\<forall>y \<in> set ys. c \<notin> set y"
  shows "xs = ys"
  using assms split_on_join by metis

end
