(* ===== verification/Numerals.thy ===== *)
theory Numerals
  imports Prelude
begin

text \<open>
  Numbers as the sources print and parse them: \<^verbatim>\<open>strconv.Itoa\<close>, \<^verbatim>\<open>strconv.FormatUint\<close>,
  \<^verbatim>\<open>(*big.Int).Text\<close> and \<^verbatim>\<open>(*big.Int).SetString\<close> in an explicit base,
  \<^verbatim>\<open>encoding/hex\<close> and \<^verbatim>\<open>(*big.Int).SetBytes\<close>, with the round trips between them.
\<close>

type_synonym byte = "8 word"

section \<open>Digits\<close>

definition digit_char :: "nat \<Rightarrow> char" where
  "digit_char d = (if d < 10 then char_of (48 + d) else char_of (87 + d))"

definition digit_val :: "char \<Rightarrow> nat option" where
  "digit_val c =
     (let n = code_of c in
      if 48 \<le> n \<and> n \<le> 57 then Some (n - 48)
      else if 97 \<le> n \<and> n \<le> 122 then Some (n - 87)
      else if 65 \<le> n \<and> n \<le> 90 then Some (n - 55)
      else None)"

lemma code_of_char_of [simp]: "n < 256 \<Longrightarrow> code_of (char_of n) = n"
  by (simp add: code_of_def)

lemma digit_val_digit_char [simp]: "d < 36 \<Longrightarrow> digit_val (digit_char d) = Some d"
  by (auto simp: digit_val_def digit_char_def Let_def)

lemma digit_char_inject: "d < 36 \<Longrightarrow> e < 36 \<Longrightarrow> digit_char d = digit_char e \<longleftrightarrow> d = e"
  by (metis digit_val_digit_char option.inject)

lemma digit_val_lower: "digit_val (lower_char c) = digit_val c"
  by (auto simp: digit_val_def code_of_lower_char Let_def)

section \<open>Printing and parsing in a base\<close>

fun show_base :: "nat \<Rightarrow> nat \<Rightarrow> string" where
  "show_base b n =
     (if b < 2 \<or> n < b then [digit_char n] else show_base b (n div b) @ [digit_char (n mod b)])"

declare show_base.simps [simp del]

definition show_nat :: "nat \<Rightarrow> string" where "show_nat = show_base 10"

definition show_int :: "int \<Rightarrow> string" where
  "show_int i = (if i < 0 then CHR ''-'' # show_nat (nat (- i)) else show_nat (nat i))"

fun parse_digits :: "nat \<Rightarrow> nat \<Rightarrow> string \<Rightarrow> nat option" where
  "parse_digits b acc [] = Some acc"
| "parse_digits b acc (c # s) =
     (case digit_val c of
        None \<Rightarrow> None
      | Some d \<Rightarrow> if d < b then parse_digits b (acc * b + d) s else None)"

definition set_string :: "nat \<Rightarrow> string \<Rightarrow> int option" where
  "set_string b s =
     (case s of
        [] \<Rightarrow> None
      | c # t \<Rightarrow>
          if c = CHR ''-'' then (if t = [] then None else map_option (\<lambda>n. - int n) (parse_digits b 0 t))
          else if c = CHR ''+'' then (if t = [] then None else map_option int (parse_digits b 0 t))
          else map_option int (parse_digits b 0 s))"

lemma parse_digits_append:
  "parse_digits b acc (s @ t) = Option.bind (parse_digits b acc s) (\<lambda>n. parse_digits b n t)"
  by (induction s arbitrary: acc) (auto split: option.splits)

lemma parse_show_base: "2 \<le> b \<Longrightarrow> b \<le> 36 \<Longrightarrow> parse_digits b 0 (show_base b n) = Some n"
proof (induction b n rule: show_base.induct)
  case (1 b n)
  show ?case
  proof (cases "n < b")
    case True
    with 1 show ?thesis by (simp add: show_base.simps [of b n])
  next
    case False
    with 1 have "parse_digits b 0 (show_base b (n div b)) = Some (n div b)" by simp
    moreover have lt: "n mod b < b" using 1 by simp
    then have "n mod b < 36" using 1 by linarith
    then have "digit_val (digit_char (n mod b)) = Some (n mod b)" by (rule digit_val_digit_char)
    moreover have "show_base b n = show_base b (n div b) @ [digit_char (n mod b)]"
      using False 1 by (simp add: show_base.simps [of b n])
    ultimately show ?thesis using lt
      by (simp add: parse_digits_append del: digit_val_digit_char)
  qed
qed

lemma show_base_not_Nil [simp]: "show_base b n \<noteq> []"
  by (subst show_base.simps) simp

lemma show_base_inject: "2 \<le> b \<Longrightarrow> b \<le> 36 \<Longrightarrow> show_base b m = show_base b n \<longleftrightarrow> m = n"
  by (metis option.inject parse_show_base)

lemma show_base_digits:
  "2 \<le> b \<Longrightarrow> b \<le> 36 \<Longrightarrow> c \<in> set (show_base b n) \<Longrightarrow> \<exists>d < b. c = digit_char d"
proof (induction b n rule: show_base.induct)
  case (1 b n)
  show ?case
  proof (cases "n < b")
    case True
    with 1 show ?thesis by (auto simp: show_base.simps [of b n])
  next
    case False
    then have "c \<in> set (show_base b (n div b)) \<or> c = digit_char (n mod b)"
      using 1 by (auto simp: show_base.simps [of b n])
    then show ?thesis
    proof
      assume "c \<in> set (show_base b (n div b))"
      with 1 False show ?thesis by simp
    next
      assume "c = digit_char (n mod b)"
      moreover have "n mod b < b" using 1 by simp
      ultimately show ?thesis by blast
    qed
  qed
qed

lemma show_nat_inject [simp]: "show_nat m = show_nat n \<longleftrightarrow> m = n"
  by (simp add: show_nat_def show_base_inject)

lemma show_nat_not_Nil [simp]: "show_nat n \<noteq> []"
  by (simp add: show_nat_def)

lemma show_nat_chars: "c \<in> set (show_nat n) \<Longrightarrow> 48 \<le> code_of c \<and> code_of c \<le> 57"
  using show_base_digits [of 10 c n] by (auto simp: show_nat_def digit_char_def)

lemma sign_codes [simp]: "code_of CHR ''-'' = 45" "code_of CHR ''+'' = 43" "code_of CHR ''|'' = 124"
    "code_of CHR ''_'' = 95" "code_of CHR ''.'' = 46" "code_of CHR '','' = 44"
  by (simp_all add: code_of_def of_char_def)

lemma show_nat_no: "code_of c < 48 \<or> 57 < code_of c \<Longrightarrow> c \<notin> set (show_nat n)"
  using show_nat_chars by fastforce

lemma show_int_inject [simp]: "show_int i = show_int j \<longleftrightarrow> i = j"
proof -
  have "hd (show_nat n) \<noteq> CHR ''-''" for n
  proof
    assume "hd (show_nat n) = CHR ''-''"
    then have "CHR ''-'' \<in> set (show_nat n)" by (metis hd_in_set show_nat_not_Nil)
    then show False using show_nat_no [of "CHR ''-''" n] by simp
  qed
  then have "CHR ''-'' # s \<noteq> show_nat n" "show_nat n \<noteq> CHR ''-'' # s" for s n
    by (metis list.sel(1))+
  then show ?thesis by (simp add: show_int_def eq_nat_nat_iff)
qed

lemma show_int_chars: "c \<in> set (show_int i) \<Longrightarrow> c = CHR ''-'' \<or> 48 \<le> code_of c \<and> code_of c \<le> 57"
  using show_nat_chars by (auto simp: show_int_def split: if_splits)

lemma show_int_no_bar [simp]: "CHR ''|'' \<notin> set (show_int i)"
  using show_int_chars [of "CHR ''|''" i] by auto

lemma show_nat_no_bar [simp]: "CHR ''|'' \<notin> set (show_nat i)"
  by (rule show_nat_no) simp

text \<open>What is printed in base 10 parses back to the same number.\<close>

lemma set_string_show_int: "set_string 10 (show_int i) = Some i"
proof (cases "i < 0")
  case True
  then show ?thesis by (simp add: set_string_def show_int_def show_nat_def parse_show_base)
next
  case False
  obtain c t where ct: "show_nat (nat i) = c # t" by (metis show_nat_not_Nil neq_Nil_conv)
  then have "c \<noteq> CHR ''-''" and "c \<noteq> CHR ''+''"
    using show_nat_no [of "CHR ''-''" "nat i"] show_nat_no [of "CHR ''+''" "nat i"] by auto
  then show ?thesis using False ct parse_show_base [of 10 "nat i"]
    by (simp add: set_string_def show_int_def show_nat_def)
qed

section \<open>Hexadecimal bytes\<close>

definition hex_byte :: "byte \<Rightarrow> string" where
  "hex_byte b = [digit_char (unat b div 16), digit_char (unat b mod 16)]"

definition hex_encode :: "byte list \<Rightarrow> string" where
  "hex_encode bs = concat (map hex_byte bs)"

definition hex_digit :: "char \<Rightarrow> nat option" where
  "hex_digit c = (case digit_val c of Some d \<Rightarrow> if d < 16 then Some d else None | None \<Rightarrow> None)"

text \<open>\<^verbatim>\<open>hex.DecodeString\<close>: None for an odd length or a byte that is not a hex digit.\<close>

fun hex_decode :: "string \<Rightarrow> byte list option" where
  "hex_decode [] = Some []"
| "hex_decode [c] = None"
| "hex_decode (c # d # s) =
     (case (hex_digit c, hex_digit d) of
        (Some h, Some l) \<Rightarrow> map_option ((#) (word_of_nat (16 * h + l))) (hex_decode s)
      | _ \<Rightarrow> None)"

lemma hex_digit_digit_char [simp]: "d < 16 \<Longrightarrow> hex_digit (digit_char d) = Some d"
  by (simp add: hex_digit_def)

lemma unat_byte_bound: "unat (b :: byte) < 256"
  using unsigned_less [of b] by simp

lemma hex_decode_encode: "hex_decode (hex_encode bs) = Some bs"
proof (induction bs)
  case Nil
  then show ?case by (simp add: hex_encode_def)
next
  case (Cons b bs)
  have "unat b div 16 < 16" using unat_byte_bound [of b] by simp
  moreover have "word_of_nat (16 * (unat b div 16) + unat b mod 16) = b"
    by (subst mult_div_mod_eq) simp
  ultimately show ?case using Cons.IH by (simp add: hex_encode_def hex_byte_def)
qed

lemma length_hex_encode [simp]: "length (hex_encode bs) = 2 * length bs"
  by (induction bs) (auto simp: hex_encode_def hex_byte_def)

lemma length_hex_decode: "hex_decode s = Some bs \<Longrightarrow> length s = 2 * length bs"
  by (induction s arbitrary: bs rule: hex_decode.induct) (auto split: option.splits)

lemma hex_encode_inject: "hex_encode a = hex_encode b \<longleftrightarrow> a = b"
  by (metis hex_decode_encode option.inject)

section \<open>Big-endian integers\<close>

definition set_bytes :: "byte list \<Rightarrow> nat" where
  "set_bytes bs = foldl (\<lambda>acc b. acc * 256 + unat b) 0 bs"

lemma foldl_bytes: "foldl (\<lambda>acc b. acc * 256 + unat (b :: byte)) a bs = a * 256 ^ length bs + set_bytes bs"
proof (induction bs arbitrary: a)
  case Nil
  then show ?case by (simp add: set_bytes_def)
next
  case (Cons b bs)
  have "set_bytes (b # bs) = unat b * 256 ^ length bs + set_bytes bs"
    using Cons.IH [of "unat b"] by (simp add: set_bytes_def)
  moreover have "foldl (\<lambda>acc b. acc * 256 + unat b) a (b # bs) =
      (a * 256 + unat b) * 256 ^ length bs + set_bytes bs"
    using Cons.IH [of "a * 256 + unat b"] by simp
  ultimately show ?case by (simp add: algebra_simps)
qed

lemma set_bytes_Nil [simp]: "set_bytes [] = 0"
  by (simp add: set_bytes_def)

lemma set_bytes_Cons: "set_bytes (b # bs) = unat b * 256 ^ length bs + set_bytes bs"
  using foldl_bytes [of "unat b" bs] by (simp add: set_bytes_def)

lemma set_bytes_append: "set_bytes (as @ bs) = set_bytes as * 256 ^ length bs + set_bytes bs"
  using foldl_bytes [of "set_bytes as" bs] by (simp add: set_bytes_def)

lemma set_bytes_bound: "set_bytes bs < 256 ^ length bs"
proof (induction bs)
  case (Cons b bs)
  have "unat b * 256 ^ length bs + set_bytes bs < (unat b + 1) * 256 ^ length bs"
    using Cons.IH by simp
  also have "\<dots> \<le> 256 * 256 ^ length bs"
    using unat_byte_bound [of b] by (intro mult_right_mono) auto
  finally show ?case by (simp add: set_bytes_Cons)
qed simp

text \<open>The \<open>k\<close> big-endian bytes of a number: the shape of an ABI word.\<close>

fun be_bytes :: "nat \<Rightarrow> nat \<Rightarrow> byte list" where
  "be_bytes 0 n = []"
| "be_bytes (Suc k) n = be_bytes k (n div 256) @ [word_of_nat (n mod 256)]"

lemma length_be_bytes [simp]: "length (be_bytes k n) = k"
  by (induction k arbitrary: n) auto

lemma set_bytes_be_bytes: "n < 256 ^ k \<Longrightarrow> set_bytes (be_bytes k n) = n"
proof (induction k arbitrary: n)
  case (Suc k)
  then have "n div 256 < 256 ^ k" by (simp add: less_mult_imp_div_less mult.commute)
  then show ?case
    by (simp add: Suc.IH set_bytes_append set_bytes_Cons unat_of_nat mult.commute)
qed simp

end
