(* ===== verification/Rpc.thy ===== *)
theory Rpc
  imports Numerals
begin

text \<open>
  The JSON-RPC client (\<^verbatim>\<open>internal/rpc\<close>) and the chain helpers (\<^verbatim>\<open>internal/chain\<close>): hex
  quantities, the decoded blocks, logs, receipts and call frames, one round trip with its
  error precedence, the error categories and the test for a method the node does not offer.
  The network is a parameter: a round trip is the outcome the HTTP client reports.
\<close>

section \<open>Errors and their categories\<close>

datatype rpc_error =
    DeadlineExceeded
  | NetError bool string
  | JsonRpcError int string
  | HTTPError string nat
  | ResponseTooLarge string nat
  | DecodeError string string
  | OtherError string

datatype error_type = ErrorTimeout | ErrorConnection | ErrorRPC | ErrorDecode | ErrorUnknown | ErrorNone

fun error_text :: "rpc_error \<Rightarrow> string" where
  "error_text DeadlineExceeded = ''context deadline exceeded''"
| "error_text (NetError _ s) = s"
| "error_text (JsonRpcError c m) = ''rpc error '' @ show_int c @ '': '' @ m"
| "error_text (HTTPError m st) = ''rpc: '' @ m @ '' http status '' @ show_nat st"
| "error_text (ResponseTooLarge m l) = ''rpc: '' @ m @ '' response exceeds '' @ show_nat l @ ''-byte cap''"
| "error_text (DecodeError op s) = ''rpc: '' @ op @ '' decode response: '' @ s"
| "error_text (OtherError s) = s"

text \<open>\<open>None\<close> is Go's \<^verbatim>\<open>nil\<close> error. A context deadline is tested first, as the source does.\<close>

fun Classify :: "rpc_error option \<Rightarrow> error_type" where
  "Classify None = ErrorNone"
| "Classify (Some DeadlineExceeded) = ErrorTimeout"
| "Classify (Some (DecodeError _ _)) = ErrorDecode"
| "Classify (Some (JsonRpcError _ _)) = ErrorRPC"
| "Classify (Some (NetError timeout _)) = (if timeout then ErrorTimeout else ErrorConnection)"
| "Classify (Some _) = ErrorUnknown"

definition unsupported_status :: "nat \<Rightarrow> bool" where
  "unsupported_status st \<longleftrightarrow> st \<in> {401, 403, 404, 405, 501}"

definition unsupported_phrases :: "string list" where
  "unsupported_phrases = [''-32601'', ''method not found'', ''does not exist'',
     ''method not enabled'', ''unsupported method'']"

definition IsMethodUnsupported :: "rpc_error \<Rightarrow> bool" where
  "IsMethodUnsupported e =
     (case e of HTTPError _ st \<Rightarrow> unsupported_status st
      | _ \<Rightarrow> if Classify (Some e) \<noteq> ErrorRPC then False
            else (let msg = to_lower (error_text e) in
                  list_ex (\<lambda>sub. contains sub msg) unsupported_phrases))"

section \<open>Hex quantities\<close>

definition trim_0x :: "string \<Rightarrow> string" where
  "trim_0x s = trim_prefix ''0X'' (trim_prefix ''0x'' s)"

definition hexUint :: "string \<Rightarrow> rpc_error + u64" where
  "hexUint s =
     (case set_string 16 (trim_0x s) of
        None \<Rightarrow> Inl (OtherError (''invalid hex quantity '' @ s))
      | Some v \<Rightarrow> if \<not> (0 \<le> v \<and> v < 2 ^ 64) then Inl (OtherError (''hex quantity '' @ s @ '' overflows uint64''))
                 else Inr (word_of_int v))"

definition hexBig :: "string \<Rightarrow> rpc_error + int" where
  "hexBig s =
     (case set_string 16 (trim_0x s) of
        None \<Rightarrow> Inl (OtherError (''invalid hex quantity '' @ s))
      | Some v \<Rightarrow> Inr v)"

definition BlockTag :: "u64 \<Rightarrow> string" where
  "BlockTag n = ''0x'' @ show_base 16 (unat n)"

section \<open>Decoded results\<close>

record transaction =
  txHash :: string
  txFrom :: string
  txTo :: string
  txValue :: string

record block =
  bNumber :: string
  bHash :: string
  bParentHash :: string
  bTimestamp :: string
  bTransactions :: "transaction list"

record log =
  lAddress :: string
  lTopics :: "string list"
  lData :: string
  lBlockNumber :: string
  lBlockHash :: string
  lTxHash :: string
  lLogIndex :: string
  lRemoved :: bool

record receipt =
  rStatus :: string
  rTxHash :: string
  rContractAddress :: string

text \<open>The topic filter is a list of positions, each an any-of set of topic hashes.\<close>

record log_filter =
  fFromBlock :: u64
  fToBlock :: u64
  fAddresses :: "string list"
  fTopics :: "string list list"

datatype call_frame = CallFrame (cfType: string) (cfFrom: string) (cfTo: string) (cfValue: string)
    (cfError: string) (cfCalls: "call_frame list")

record tx_trace =
  ttTxHash :: string
  ttResult :: "call_frame option"

record parity_action =
  paCallType :: string
  paFrom :: string
  paTo :: string
  paValue :: string
  paAddress :: string
  paRefundAddress :: string
  paBalance :: string

record parity_trace =
  ptType :: string
  ptAction :: parity_action
  ptResult :: "string option"
  ptError :: string
  ptTraceAddress :: "int list"
  ptTxHash :: string

definition ValueBig :: "transaction \<Rightarrow> rpc_error + int" where
  "ValueBig t = hexBig (txValue t)"

definition BlockNumberUint :: "log \<Rightarrow> rpc_error + u64" where
  "BlockNumberUint l = hexUint (lBlockNumber l)"

definition LogIndexUint :: "log \<Rightarrow> rpc_error + u64" where
  "LogIndexUint l = hexUint (lLogIndex l)"

definition TimestampUint :: "block \<Rightarrow> rpc_error + u64" where
  "TimestampUint b = hexUint (bTimestamp b)"

definition NumberUint :: "block \<Rightarrow> rpc_error + u64" where
  "NumberUint b = hexUint (bNumber b)"

definition frame_ValueBig :: "call_frame \<Rightarrow> rpc_error + int" where
  "frame_ValueBig f = (if cfValue f = '''' \<or> cfValue f = ''0x'' then Inr 0 else hexBig (cfValue f))"

definition Succeeded :: "receipt \<Rightarrow> bool" where
  "Succeeded r = (case hexUint (rStatus r) of Inl _ \<Rightarrow> False | Inr v \<Rightarrow> v = 1)"

section \<open>One round trip\<close>

text \<open>What the HTTP client reports, and the two uses of the JSON decoder (the response
envelope, then its \<^verbatim>\<open>result\<close>), which are parameters.\<close>

datatype http_outcome = TransportFailed rpc_error | BodyFailed rpc_error | Responded nat string

definition callLimited ::
  "(string \<Rightarrow> string + (int \<times> string) option \<times> string) \<Rightarrow> (string \<Rightarrow> string + 'a)
     \<Rightarrow> string \<Rightarrow> nat \<Rightarrow> http_outcome \<Rightarrow> rpc_error + 'a" where
  "callLimited unmarshal decode meth bodyLimit resp =
     (case resp of
        TransportFailed e \<Rightarrow> Inl e
      | BodyFailed e \<Rightarrow> Inl e
      | Responded status full \<Rightarrow>
          (let body = take (bodyLimit + 1) full in
           if status < 200 \<or> status \<ge> 300 then Inl (HTTPError meth status)
           else if length body > bodyLimit then Inl (ResponseTooLarge meth bodyLimit)
           else case unmarshal body of
               Inl uErr \<Rightarrow> Inl (DecodeError meth uErr)
             | Inr (Some (code, msg), _) \<Rightarrow> Inl (JsonRpcError code msg)
             | Inr (None, result) \<Rightarrow>
                 (case decode result of Inl uErr \<Rightarrow> Inl (DecodeError meth uErr) | Inr x \<Rightarrow> Inr x)))"

section \<open>Chain metadata\<close>

definition maxSafeInteger :: int where "maxSafeInteger = 2 ^ 53 - 1"

definition canonicalNames :: "(int \<times> string) list" where
  "canonicalNames = [(1, ''ethereum''), (11155111, ''sepolia''), (17000, ''holesky''),
     (10, ''optimism''), (11155420, ''optimism-sepolia''), (8453, ''base''), (84532, ''base-sepolia''),
     (42161, ''arbitrum''), (42170, ''arbitrum-nova''), (421614, ''arbitrum-sepolia''),
     (137, ''polygon''), (56, ''bsc''), (43114, ''avalanche''), (100, ''gnosis''),
     (324, ''zksync-era''), (59144, ''linea''), (534352, ''scroll''), (5000, ''mantle''),
     (81457, ''blast''), (7777777, ''zora''), (250, ''fantom''), (42220, ''celo'')]"

definition NameForID :: "int \<Rightarrow> string" where
  "NameForID i = (case map_of canonicalNames i of Some n \<Rightarrow> n | None \<Rightarrow> ''chain-'' @ show_int i)"

text \<open>The chain ID is the int64 reading of the quantity the node returns.\<close>

definition ChainID :: "rpc_error + string \<Rightarrow> rpc_error + int" where
  "ChainID resp =
     (case resp of Inl e \<Rightarrow> Inl e
      | Inr hex \<Rightarrow> (case hexUint hex of Inl e \<Rightarrow> Inl (DecodeError ''eth_chainId'' (error_text e))
                    | Inr v \<Rightarrow> Inr (sint v)))"

record chain_info =
  ciName :: string
  ciID :: int

definition chain_Resolve :: "rpc_error + string \<Rightarrow> string \<Rightarrow> rpc_error + chain_info" where
  "chain_Resolve resp name =
     (case ChainID resp of Inl e \<Rightarrow> Inl e
      | Inr i \<Rightarrow>
          if i < 0 \<or> i > maxSafeInteger
          then Inl (OtherError ''chain: resolved chain_id outside the JSON safe-integer range'')
          else Inr \<lparr> ciName = (if trim_space name = [] then NameForID i else name), ciID = i \<rparr>)"

text \<open>\<^verbatim>\<open>time.Unix(int64(ts), 0)\<close>, as seconds.\<close>

definition BlockTime :: "block option \<Rightarrow> int option" where
  "BlockTime ob = (case ob of None \<Rightarrow> None
     | Some b \<Rightarrow> (case TimestampUint b of Inl _ \<Rightarrow> None | Inr ts \<Rightarrow> Some (sint ts)))"

section \<open>Facts\<close>

lemma has_prefix_0X_digits: "2 \<le> b \<Longrightarrow> b \<le> 16 \<Longrightarrow> \<not> has_prefix ''0X'' (show_base b n)"
proof
  assume b: "2 \<le> b" "b \<le> 16" and "has_prefix ''0X'' (show_base b n)"
  then have "CHR ''X'' \<in> set (show_base b n)" by (auto simp: has_prefix_iff)
  then obtain d where "d < b" and d: "CHR ''X'' = digit_char d"
    using show_base_digits b by (metis order.trans [of b 16 36] numeral_le_iff semiring_norm(68,71,72,73))
  then have "code_of CHR ''X'' = (if d < 10 then 48 + d else 87 + d)"
    using b by (simp add: digit_char_def code_of_def)
  moreover have "code_of CHR ''X'' = 88" by (simp add: code_of_def of_char_def)
  ultimately show False using \<open>d < b\<close> b by (auto split: if_splits)
qed

lemma trim_0x_show [simp]: "trim_0x (''0x'' @ show_base 16 n) = show_base 16 n"
  using has_prefix_0X_digits [of 16 n] by (simp add: trim_0x_def trim_prefix_def has_prefix_def)

lemma set_string_show_base: "set_string 16 (show_base 16 n) = Some (int n)"
proof -
  obtain c s where cs: "show_base 16 n = c # s" by (metis show_base_not_Nil neq_Nil_conv)
  then obtain d where "d < 16" and d: "c = digit_char d"
    using show_base_digits [of 16 c n] by auto
  then have "code_of c = (if d < 10 then 48 + d else 87 + d)" by (simp add: digit_char_def)
  then have "c \<noteq> CHR ''-''" and "c \<noteq> CHR ''+''" using sign_codes by (fastforce split: if_splits)+
  then show ?thesis using cs parse_show_base [of 16 n] by (simp add: set_string_def)
qed

lemma trim_0x_show' [simp]: "trim_0x (CHR ''0'' # CHR ''x'' # show_base 16 n) = show_base 16 n"
  using trim_0x_show [of n] by simp

lemma unat_u64_bound: "int (unat (n :: u64)) < 2 ^ 64"
  using unsigned_less [of n, where 'a = int] by simp

lemma hexUint_BlockTag [simp]: "hexUint (BlockTag n) = Inr n"
  using unat_u64_bound [of n] by (simp add: hexUint_def BlockTag_def set_string_show_base)

lemma BlockTag_inject: "BlockTag a = BlockTag b \<longleftrightarrow> a = b"
  by (metis hexUint_BlockTag sum.inject(2))

lemma hexUint_Inr: "hexUint s = Inr v \<longleftrightarrow> set_string 16 (trim_0x s) = Some (uint v)"
  using unsigned_less [of v, where 'a = int]
  by (auto simp: hexUint_def word_of_int_inverse split: option.splits if_splits)

lemma Classify_rpc: "Classify (Some e) = ErrorRPC \<longleftrightarrow> (\<exists>c m. e = JsonRpcError c m)"
  by (cases e) auto

lemma trim_space_Nil: "trim_space s = [] \<longleftrightarrow> (\<forall>c \<in> set s. is_ascii_space c)"
proof -
  have "dropWhile is_ascii_space (rev (dropWhile is_ascii_space s)) = []
      \<longleftrightarrow> (\<forall>c \<in> set (dropWhile is_ascii_space s). is_ascii_space c)" by simp
  also have "\<dots> \<longleftrightarrow> (\<forall>c \<in> set s. is_ascii_space c)"
    by (induction s) auto
  finally show ?thesis by (simp add: trim_space_def)
qed

lemma is_ascii_space_letters [simp]: "\<not> is_ascii_space CHR ''c''"
  by (simp add: is_ascii_space_def code_of_def of_char_def)

lemma canonical_not_blank: "(k, n) \<in> set canonicalNames \<Longrightarrow> trim_space n \<noteq> []"
  by (auto simp: canonicalNames_def trim_space_Nil is_ascii_space_def code_of_def of_char_def)

lemma NameForID_not_blank: "trim_space (NameForID i) \<noteq> []"
  using map_of_SomeD [of canonicalNames i] canonical_not_blank
  by (auto simp: NameForID_def trim_space_Nil split: option.splits)

section \<open>Properties\<close>

text \<open>
A block height sent to the node as a tag reads back as the same height, so the range a
query names is the range that was meant, over all 64-bit heights.
\<close>
theorem block_tag_roundtrip: "hexUint (BlockTag n) = Inr n \<and> (BlockTag n = BlockTag m \<longleftrightarrow> n = m)"
  by (simp add: BlockTag_inject)

text \<open>
A missing trace method is only ever concluded from a definitive answer: an HTTP rejection
of the method, or a JSON-RPC error object with a missing-method phrase. Timeouts, connection
failures, rate limiting, server errors, oversized bodies and undecodable bodies are never
taken for one, so none of them retires a trace backend.
\<close>
theorem unsupported_is_definitive:
  assumes "IsMethodUnsupported e"
  shows "(\<exists>m st. e = HTTPError m st \<and> st \<in> {401, 403, 404, 405, 501})
    \<or> (\<exists>c msg ph. e = JsonRpcError c msg \<and> ph \<in> set unsupported_phrases
          \<and> contains ph (to_lower (error_text e)))"
  using assms unfolding IsMethodUnsupported_def Classify_rpc
  by (cases e) (auto simp: unsupported_status_def list_ex_iff Let_def)

lemma unsupported_is_definitive_witness:
  "(\<exists>m st. HTTPError ''trace_block'' 404 = HTTPError m st \<and> st \<in> {401, 403, 404, 405, 501})
    \<or> (\<exists>c msg ph. HTTPError ''trace_block'' 404 = JsonRpcError c msg \<and> ph \<in> set unsupported_phrases
          \<and> contains ph (to_lower (error_text (HTTPError ''trace_block'' 404))))"
  by (rule unsupported_is_definitive) (simp add: IsMethodUnsupported_def unsupported_status_def)

text \<open>
The outcome of a round trip is decided in a fixed order and within the body cap: it depends
on at most one byte past the cap, a rejection status is reported even for an oversized page,
an oversized success is reported as such, and a result is only returned for a 2xx answer
within the cap that carries no JSON-RPC error.
\<close>
theorem call_outcome:
  "callLimited um dec m lim (Responded st body) = callLimited um dec m lim (Responded st (take (lim + 1) body))
   \<and> (st < 200 \<or> 300 \<le> st \<longrightarrow> callLimited um dec m lim (Responded st body) = Inl (HTTPError m st))
   \<and> (200 \<le> st \<and> st < 300 \<and> lim < length body \<longrightarrow>
        callLimited um dec m lim (Responded st body) = Inl (ResponseTooLarge m lim))
   \<and> (callLimited um dec m lim (Responded st body) = Inr x \<longrightarrow>
        200 \<le> st \<and> st < 300 \<and> length body \<le> lim
        \<and> (\<exists>res. um body = Inr (None, res) \<and> dec res = Inr x))"
  by (auto simp: callLimited_def Let_def min_def split: sum.splits if_splits option.splits)

lemma call_outcome_witness:
  "callLimited (\<lambda>b. Inr (None, b)) Inr ''eth_call'' 4 (Responded 200 ''12345'')
     = (Inl (ResponseTooLarge ''eth_call'' 4) :: rpc_error + string)"
  using call_outcome [where st = 200 and lim = 4 and body = "''12345''" and m = "''eth_call''"
      and um = "\<lambda>b. Inr (None, b)" and dec = "Inr :: string \<Rightarrow> string + string"]
  by simp

text \<open>
A resolved chain has an identifier that a JSON number carries exactly and a label that is
not blank: the operator's label when one is given, otherwise the canonical one.
\<close>
theorem chain_resolved:
  assumes "chain_Resolve resp name = Inr c"
  shows "0 \<le> ciID c \<and> ciID c \<le> 2 ^ 53 - 1 \<and> trim_space (ciName c) \<noteq> []
    \<and> (trim_space name \<noteq> [] \<longrightarrow> ciName c = name)"
  using assms NameForID_not_blank
  by (auto simp: chain_Resolve_def maxSafeInteger_def split: sum.splits if_splits)

lemma chain_resolved_witness: "trim_space (NameForID 10) \<noteq> [] \<and> (0::int) \<le> 10"
  using chain_resolved [of "Inr ''0xa''" "''''" "\<lparr> ciName = ''optimism'', ciID = 10 \<rparr>"]
  by (simp add: chain_Resolve_def ChainID_def hexUint_def trim_0x_def trim_prefix_def has_prefix_def
      set_string_def digit_val_def code_of_def of_char_def trim_space_def maxSafeInteger_def
      NameForID_def canonicalNames_def)

end
