(* ===== verification/Abi.thy ===== *)
theory Abi
  imports Numerals
begin

text \<open>
  Event resolution (\<^verbatim>\<open>internal/stream/abi.go\<close>, \<^verbatim>\<open>builtin_abi.go\<close>, \<^verbatim>\<open>resolve.go\<close>): canonical
  signatures, the signature-override syntax with its top-level comma splitting, the built-in
  token interfaces, and the resolution of a configured contract. Keccak-256, the JSON decoder
  and the file system are parameters.
\<close>

section \<open>Definitions of events\<close>

datatype abi_input = AbiInput (aiName: string) (aiType: string) (aiIndexed: bool)
    (aiComponents: "abi_input list")

record abi_entry =
  aeType :: string
  aeName :: string
  aeAnonymous :: bool
  aeInputs :: "abi_input list"

record event_abi =
  evName :: string
  evSignature :: string
  evTopic0 :: string
  evInputs :: "abi_input list"
  evAnonymous :: bool

fun canonicalType :: "abi_input \<Rightarrow> string" where
  "canonicalType (AbiInput n t ix comps) =
     (if has_prefix ''tuple'' t
      then ''('' @ join '','' (map canonicalType comps) @ '')'' @ trim_prefix ''tuple'' t
      else t)"

definition canonicalSignature :: "string \<Rightarrow> abi_input list \<Rightarrow> string" where
  "canonicalSignature name inputs = name @ ''('' @ join '','' (map canonicalType inputs) @ '')''"

type_synonym keccak = "string \<Rightarrow> byte list"

definition Topic0 :: "keccak \<Rightarrow> string \<Rightarrow> string" where
  "Topic0 keccak signature = ''0x'' @ hex_encode (keccak signature)"

definition event_of_entry :: "keccak \<Rightarrow> abi_entry \<Rightarrow> event_abi" where
  "event_of_entry keccak e =
     (let sig = canonicalSignature (aeName e) (aeInputs e) in
      \<lparr> evName = aeName e, evSignature = sig, evTopic0 = Topic0 keccak sig,
        evInputs = aeInputs e, evAnonymous = aeAnonymous e \<rparr>)"

definition parseABI :: "keccak \<Rightarrow> (string \<Rightarrow> string + abi_entry list) \<Rightarrow> string \<Rightarrow> string + event_abi list" where
  "parseABI keccak unmarshal raw =
     (case unmarshal raw of
        Inl e \<Rightarrow> Inl (''parse abi: '' @ e)
      | Inr entries \<Rightarrow> Inr (map (event_of_entry keccak) (filter (\<lambda>e. aeType e = ''event'') entries)))"

section \<open>Signature overrides\<close>

text \<open>The scan of \<^verbatim>\<open>splitTopLevel\<close>: the current depth, the part being read, the rest.\<close>

fun split_scan :: "int \<Rightarrow> string \<Rightarrow> string \<Rightarrow> string + string list" where
  "split_scan depth cur [] = (if depth \<noteq> 0 then Inl ''unbalanced parentheses'' else Inr [cur])"
| "split_scan depth cur (c # s) =
     (if c = CHR ''('' then split_scan (depth + 1) (cur @ [c]) s
      else if c = CHR '')'' then
        (if depth - 1 < 0 then Inl ''unbalanced parentheses'' else split_scan (depth - 1) (cur @ [c]) s)
      else if c = CHR '','' \<and> depth = 0 then
        (case split_scan depth [] s of Inl e \<Rightarrow> Inl e | Inr parts \<Rightarrow> Inr (cur # parts))
      else split_scan depth (cur @ [c]) s)"

definition splitTopLevel :: "string \<Rightarrow> string + string list" where
  "splitTopLevel s = split_scan 0 [] s"

definition parse_types :: "string \<Rightarrow> string + string list" where
  "parse_types inner = (if trim_space inner \<noteq> [] then splitTopLevel inner else Inr [])"

definition parseSignature :: "keccak \<Rightarrow> string \<Rightarrow> string \<Rightarrow> string + event_abi" where
  "parseSignature keccak name signature =
     (case index_byte CHR ''('' signature of
        None \<Rightarrow> Inl (''invalid event signature '' @ signature)
      | Some open \<Rightarrow>
          if \<not> has_suffix '')'' signature then Inl (''invalid event signature '' @ signature)
          else
            (case parse_types (take (length signature - 1 - (open + 1)) (drop (open + 1) signature)) of
               Inl e \<Rightarrow> Inl (''event signature '' @ signature @ '': '' @ e)
             | Inr types \<Rightarrow>
                 (let inputs = map (\<lambda>t. AbiInput [] (trim_space t) False []) types;
                      canon = canonicalSignature (take open signature) inputs in
                  Inr \<lparr> evName = name, evSignature = canon, evTopic0 = Topic0 keccak canon,
                        evInputs = inputs, evAnonymous = False \<rparr>)))"

section \<open>Built-in interfaces\<close>

definition arg :: "string \<Rightarrow> string \<Rightarrow> bool \<Rightarrow> abi_input" where
  "arg n t ix = AbiInput n t ix []"

definition event_entry :: "string \<Rightarrow> abi_input list \<Rightarrow> abi_entry" where
  "event_entry n ins = \<lparr> aeType = ''event'', aeName = n, aeAnonymous = False, aeInputs = ins \<rparr>"

definition erc20EventABI :: "abi_entry list" where
  "erc20EventABI =
    [event_entry ''Transfer'' [arg ''from'' ''address'' True, arg ''to'' ''address'' True,
       arg ''value'' ''uint256'' False],
     event_entry ''Approval'' [arg ''owner'' ''address'' True, arg ''spender'' ''address'' True,
       arg ''value'' ''uint256'' False]]"

definition erc721EventABI :: "abi_entry list" where
  "erc721EventABI =
    [event_entry ''Transfer'' [arg ''from'' ''address'' True, arg ''to'' ''address'' True,
       arg ''tokenId'' ''uint256'' True],
     event_entry ''Approval'' [arg ''owner'' ''address'' True, arg ''approved'' ''address'' True,
       arg ''tokenId'' ''uint256'' True],
     event_entry ''ApprovalForAll'' [arg ''owner'' ''address'' True, arg ''operator'' ''address'' True,
       arg ''approved'' ''bool'' False]]"

definition erc1155EventABI :: "abi_entry list" where
  "erc1155EventABI =
    [event_entry ''TransferSingle'' [arg ''operator'' ''address'' True, arg ''from'' ''address'' True,
       arg ''to'' ''address'' True, arg ''id'' ''uint256'' False, arg ''value'' ''uint256'' False],
     event_entry ''TransferBatch'' [arg ''operator'' ''address'' True, arg ''from'' ''address'' True,
       arg ''to'' ''address'' True, arg ''ids'' ''uint256[]'' False, arg ''values'' ''uint256[]'' False],
     event_entry ''ApprovalForAll'' [arg ''account'' ''address'' True, arg ''operator'' ''address'' True,
       arg ''approved'' ''bool'' False],
     event_entry ''URI'' [arg ''value'' ''string'' False, arg ''id'' ''uint256'' True]]"

definition builtinEvents :: "keccak \<Rightarrow> event_abi list" where
  "builtinEvents keccak =
     map (event_of_entry keccak) (erc20EventABI @ erc721EventABI @ erc1155EventABI)"

section \<open>Resolution of a contract\<close>

record stream_contract =
  scName :: string
  scAddress :: string
  scEvents :: "string list"
  scABI :: string
  scABIFile :: string
  scSignatures :: "(string \<times> string) list"

record resolved_contract =
  rcName :: string
  rcAddress :: string
  rcByTopic0 :: "string \<rightharpoonup> event_abi"
  rcEvents :: "event_abi list"

definition resolveEventName ::
  "string \<Rightarrow> (string \<Rightarrow> event_abi list) \<Rightarrow> (string \<rightharpoonup> event_abi) \<Rightarrow> string + event_abi" where
  "resolveEventName name byName overrides =
     (case overrides name of
        Some ev \<Rightarrow> Inr ev
      | None \<Rightarrow>
          (let matches = byName name in
           if matches = [] then Inl (''event '' @ name @ '' resolves to no known signature'')
           else if length (remdups (map evSignature matches)) = 1 then Inr (hd matches)
           else Inl (''event '' @ name @ '' is overloaded'')))"

text \<open>The first error of the configured order wins, as in the loops of the source.\<close>

fun parse_overrides :: "keccak \<Rightarrow> (string \<times> string) list \<Rightarrow> (string \<rightharpoonup> event_abi) \<Rightarrow> string + (string \<rightharpoonup> event_abi)" where
  "parse_overrides keccak [] m = Inr m"
| "parse_overrides keccak ((name, sig) # rest) m =
     (case parseSignature keccak name sig of
        Inl e \<Rightarrow> Inl e
      | Inr ev \<Rightarrow> parse_overrides keccak rest (m(name \<mapsto> ev)))"

fun resolve_events ::
  "(string \<Rightarrow> event_abi list) \<Rightarrow> (string \<rightharpoonup> event_abi) \<Rightarrow> string list
     \<Rightarrow> resolved_contract \<Rightarrow> string + resolved_contract" where
  "resolve_events byName overrides [] rc = Inr rc"
| "resolve_events byName overrides (name # names) rc =
     (case resolveEventName name byName overrides of
        Inl e \<Rightarrow> Inl e
      | Inr ev \<Rightarrow>
          if evAnonymous ev then Inl (''event '' @ name @ '' is anonymous'')
          else resolve_events byName overrides names
                 (rc\<lparr> rcByTopic0 := (rcByTopic0 rc)(evTopic0 ev \<mapsto> ev), rcEvents := rcEvents rc @ [ev] \<rparr>))"

record resolve_env =
  reKeccak :: keccak
  reUnmarshal :: "string \<Rightarrow> string + abi_entry list"
  reReadFile :: "string \<Rightarrow> string + string"

definition event_universe :: "resolve_env \<Rightarrow> stream_contract \<Rightarrow> string + event_abi list" where
  "event_universe E c =
     (if scABI c \<noteq> [] then
        (case parseABI (reKeccak E) (reUnmarshal E) (scABI c) of
           Inl e \<Rightarrow> Inl (''inline abi: '' @ e) | Inr evs \<Rightarrow> Inr evs)
      else if scABIFile c \<noteq> [] then
        (case reReadFile E (scABIFile c) of
           Inl e \<Rightarrow> Inl (''read abi_file: '' @ e)
         | Inr raw \<Rightarrow> (case parseABI (reKeccak E) (reUnmarshal E) raw of
             Inl e \<Rightarrow> Inl (''abi_file: '' @ e) | Inr evs \<Rightarrow> Inr evs))
      else Inr (builtinEvents (reKeccak E)))"

definition resolveContract :: "resolve_env \<Rightarrow> stream_contract \<Rightarrow> string + resolved_contract" where
  "resolveContract E c =
     (if scName c = [] then Inl ''missing name''
      else if scAddress c = [] then Inl ''missing address''
      else if scABI c \<noteq> [] \<and> scABIFile c \<noteq> [] then Inl ''set only one of abi or abi_file''
      else case event_universe E c of
        Inl e \<Rightarrow> Inl e
      | Inr universe \<Rightarrow>
          (let byName = (\<lambda>name. filter (\<lambda>e. evName e = name) universe) in
           case parse_overrides (reKeccak E) (scSignatures c) Map.empty of
             Inl e \<Rightarrow> Inl e
           | Inr overrides \<Rightarrow>
               if scEvents c = [] then Inl ''no events configured''
               else resolve_events byName overrides (scEvents c)
                 \<lparr> rcName = scName c, rcAddress = to_lower (scAddress c),
                   rcByTopic0 = Map.empty, rcEvents = [] \<rparr>))"

fun ResolveContracts :: "resolve_env \<Rightarrow> stream_contract list \<Rightarrow> string + resolved_contract list" where
  "ResolveContracts E [] = Inr []"
| "ResolveContracts E (c # cs) =
     (case resolveContract E c of
        Inl e \<Rightarrow> Inl (''contract '' @ scName c @ '': '' @ e)
      | Inr rc \<Rightarrow> (case ResolveContracts E cs of Inl e \<Rightarrow> Inl e | Inr rcs \<Rightarrow> Inr (rc # rcs)))"

section \<open>Splitting a type list\<close>

text \<open>What a part is: parentheses close and no comma stands outside them.\<close>

fun unit_from :: "int \<Rightarrow> string \<Rightarrow> bool" where
  "unit_from d [] = (d = 0)"
| "unit_from d (c # s) =
     (if c = CHR ''('' then unit_from (d + 1) s
      else if c = CHR '')'' then 1 \<le> d \<and> unit_from (d - 1) s
      else if c = CHR '','' \<and> d = 0 then False
      else unit_from d s)"

fun nested :: "int \<Rightarrow> string \<Rightarrow> bool" where
  "nested d [] = (d = 0)"
| "nested d (c # s) =
     (if c = CHR ''('' then nested (d + 1) s
      else if c = CHR '')'' then 1 \<le> d \<and> nested (d - 1) s
      else nested d s)"

abbreviation "unit_type \<equiv> unit_from 0"
abbreviation "well_nested \<equiv> nested 0"

lemma split_scan_sound:
  "split_scan d cur s = Inr parts \<Longrightarrow>
     join '','' parts = cur @ s \<and> (\<exists>r rest. parts = (cur @ r) # rest \<and> unit_from d r
       \<and> (\<forall>p \<in> set rest. unit_type p))"
proof (induction d cur s arbitrary: parts rule: split_scan.induct)
  case (1 depth cur)
  then show ?case by (auto split: if_splits)
next
  case (2 depth cur c s)
  consider "c = CHR ''(''" | "c = CHR '')''" | "c = CHR '','' \<and> depth = 0"
    | "c \<noteq> CHR ''('' \<and> c \<noteq> CHR '')'' \<and> (c \<noteq> CHR '','' \<or> depth \<noteq> 0)" by blast
  then show ?case
  proof cases
    case 1
    with "2.prems" "2.IH"(1) [of parts] show ?thesis by force
  next
    case 2
    with "2.prems" "2.IH"(2) [of parts] show ?thesis by (force split: if_splits)
  next
    case 3
    with "2.prems" obtain ps where ps: "split_scan 0 [] s = Inr ps" and parts: "parts = cur # ps"
      by (auto split: sum.splits)
    with "2.IH"(3) [of ps] 3 obtain r rest where "ps = r # rest" "join '','' ps = s"
      "unit_type r" "\<forall>p \<in> set rest. unit_type p" by auto
    with 3 parts show ?thesis by (auto simp: join_Cons)
  next
    case 4
    with "2.prems" have "split_scan depth (cur @ [c]) s = Inr parts" by auto
    with "2.IH"(4) [of parts] 4 show ?thesis by force
  qed
qed

lemma split_scan_unit:
  "unit_from d p \<Longrightarrow> split_scan d cur p = Inr [cur @ p]"
  by (induction d p arbitrary: cur rule: unit_from.induct) (auto split: if_splits)

lemma split_scan_unit_comma:
  "unit_from d p \<Longrightarrow> split_scan d cur (p @ CHR '','' # s) =
     (case split_scan 0 [] s of Inl e \<Rightarrow> Inl e | Inr ps \<Rightarrow> Inr ((cur @ p) # ps))"
  by (induction d p arbitrary: cur rule: unit_from.induct) (auto split: if_splits sum.splits)

lemma splitTopLevel_join:
  "parts \<noteq> [] \<Longrightarrow> \<forall>p \<in> set parts. unit_type p \<Longrightarrow> splitTopLevel (join '','' parts) = Inr parts"
  unfolding splitTopLevel_def
proof (induction parts)
  case (Cons p ps)
  then show ?case
    by (cases "ps = []") (auto simp: split_scan_unit split_scan_unit_comma join_Cons)
qed simp

lemma split_scan_ok_iff: "0 \<le> d \<Longrightarrow> (\<exists>parts. split_scan d cur s = Inr parts) \<longleftrightarrow> nested d s"
proof (induction d cur s rule: split_scan.induct)
  case (2 depth cur c s)
  show ?case
  proof (cases "c = CHR '','' \<and> depth = 0")
    case True
    with "2.IH"(3) show ?thesis by (auto split: sum.splits)
  next
    case False
    with "2.IH"(1,2,4) "2.prems" show ?thesis by auto
  qed
qed auto

lemma splitTopLevel_inverse:
  assumes "splitTopLevel s = Inr parts"
  shows "join '','' parts = s" "parts \<noteq> []" "\<forall>p \<in> set parts. unit_type p"
  using split_scan_sound [OF assms [unfolded splitTopLevel_def]] by auto

lemma unit_from_append: "unit_from d p \<Longrightarrow> unit_type q \<Longrightarrow> unit_from d (p @ q)"
proof (induction d p rule: unit_from.induct)
  case (1 d)
  then show ?case by simp
qed (auto split: if_splits)

lemma unit_from_shift: "unit_from d s \<Longrightarrow> 0 \<le> d \<Longrightarrow> unit_from (d + 1) (s @ '')'')"
  by (induction d s rule: unit_from.induct) (auto split: if_splits)

lemma nested_in_unit: "nested d s \<Longrightarrow> 0 \<le> d \<Longrightarrow> unit_from (d + 1) (s @ '')'')"
  by (induction d s rule: nested.induct) (auto split: if_splits)

lemma unit_nested: "unit_from d s \<Longrightarrow> nested d s"
  by (induction d s rule: unit_from.induct) (auto split: if_splits)

lemma nested_append: "nested d p \<Longrightarrow> well_nested q \<Longrightarrow> nested d (p @ q)"
  by (induction d p rule: nested.induct) (auto split: if_splits)

lemma nested_join: "\<forall>p \<in> set ps. unit_type p \<Longrightarrow> well_nested (join '','' ps)"
proof (induction ps)
  case (Cons p ps)
  then show ?case
    by (cases "ps = []") (auto simp: join_Cons unit_nested intro!: nested_append)
qed simp

lemma unit_tuple: "\<forall>p \<in> set ps. unit_type p \<Longrightarrow> unit_type (''('' @ join '','' ps @ '')'')"
  using nested_in_unit [of 0] nested_join by simp

section \<open>Canonical text\<close>

definition good_type :: "string \<Rightarrow> bool" where
  "good_type t \<longleftrightarrow> unit_type t \<and> t \<noteq> [] \<and> (\<forall>c \<in> set t. \<not> is_ascii_space c)"

text \<open>Inputs of an ABI as the Solidity compiler writes them: types without white space whose
parentheses close, at every level of the tuples.\<close>

fun plain_input :: "abi_input \<Rightarrow> bool" where
  "plain_input (AbiInput n t ix comps) =
     (if has_prefix ''tuple'' t
      then (\<forall>c \<in> set (trim_prefix ''tuple'' t). \<not> is_ascii_space c) \<and> unit_type (trim_prefix ''tuple'' t)
        \<and> (\<forall>i \<in> set comps. plain_input i)
      else good_type t)"

lemma not_space [simp]: "\<not> is_ascii_space CHR ''(''" "\<not> is_ascii_space CHR '')''" "\<not> is_ascii_space CHR '',''"
  by (simp_all add: is_ascii_space_def code_of_def of_char_def)

lemma set_join_sub: "c \<in> set (join sep xs) \<Longrightarrow> c \<in> set sep \<or> (\<exists>x \<in> set xs. c \<in> set x)"
  by (induction sep xs rule: join.induct) auto

lemma canonicalType_good: "plain_input i \<Longrightarrow> good_type (canonicalType i)"
proof (induction i)
  case (AbiInput n t ix comps)
  show ?case
  proof (cases "has_prefix ''tuple'' t")
    case True
    with AbiInput have g: "\<forall>x \<in> set (map canonicalType comps). good_type x" by auto
    then have "unit_type (''('' @ join '','' (map canonicalType comps) @ '')'')"
      by (intro unit_tuple) (simp add: good_type_def)
    then have "unit_type ((''('' @ join '','' (map canonicalType comps) @ '')'') @ trim_prefix ''tuple'' t)"
      by (rule unit_from_append) (use True AbiInput.prems in auto)
    moreover have "\<forall>c \<in> set (join '','' (map canonicalType comps)). \<not> is_ascii_space c"
      using set_join_sub [of _ "'',''" "map canonicalType comps"] g by (fastforce simp: good_type_def)
    ultimately show ?thesis using True AbiInput.prems by (auto simp: good_type_def)
  qed (use AbiInput.prems in auto)
qed

lemma canonicalType_not_tuple: "\<not> has_prefix ''tuple'' (canonicalType i)"
  by (cases i) (auto simp: has_prefix_def)

lemma no_space_trim: "\<forall>c \<in> set t. \<not> is_ascii_space c \<Longrightarrow> trim_space t = t"
proof -
  assume "\<forall>c \<in> set t. \<not> is_ascii_space c"
  then have "dropWhile is_ascii_space t = t" "dropWhile is_ascii_space (rev t) = rev t"
    by (simp_all add: dropWhile_eq_self_iff hd_rev) (metis last_in_set)
  then show ?thesis by (simp add: trim_space_def)
qed

lemma resolve_events_run:
  "resolve_events byName ov names rc = Inr rc' \<Longrightarrow>
     \<exists>evs. rcEvents rc' = rcEvents rc @ evs
       \<and> list_all2 (\<lambda>n ev. resolveEventName n byName ov = Inr ev \<and> \<not> evAnonymous ev) names evs
       \<and> rcByTopic0 rc' = rcByTopic0 rc ++ map_of (rev (map (\<lambda>ev. (evTopic0 ev, ev)) evs))
       \<and> rcName rc' = rcName rc \<and> rcAddress rc' = rcAddress rc"
proof (induction names arbitrary: rc)
  case Nil
  then show ?case by auto
next
  case (Cons n names)
  then obtain ev where ev: "resolveEventName n byName ov = Inr ev" "\<not> evAnonymous ev"
    and run: "resolve_events byName ov names
      (rc\<lparr> rcByTopic0 := (rcByTopic0 rc)(evTopic0 ev \<mapsto> ev), rcEvents := rcEvents rc @ [ev] \<rparr>) = Inr rc'"
    by (auto split: sum.splits if_splits)
  from Cons.IH [OF run] obtain evs where "rcEvents rc' = rcEvents rc @ ev # evs"
    "list_all2 (\<lambda>n ev. resolveEventName n byName ov = Inr ev \<and> \<not> evAnonymous ev) names evs"
    "rcByTopic0 rc' = (rcByTopic0 rc)(evTopic0 ev \<mapsto> ev) ++ map_of (rev (map (\<lambda>ev. (evTopic0 ev, ev)) evs))"
    "rcName rc' = rcName rc" "rcAddress rc' = rcAddress rc" by (auto simp del: fun_upd_apply)
  with ev show ?case
    by (intro exI [of _ "ev # evs"]) (simp add: map_add_upd_left map_add_assoc)
qed

lemma parseSignature_name: "parseSignature k n s = Inr ev \<Longrightarrow> evName ev = n"
  unfolding parseSignature_def
  by (cases "index_byte CHR ''('' s") (auto simp: Let_def split: if_splits sum.splits)

lemma parse_overrides_run:
  "parse_overrides k sigs m = Inr ov \<Longrightarrow> (\<And>n ev. m n = Some ev \<Longrightarrow> evName ev = n) \<Longrightarrow>
     dom ov = dom m \<union> fst ` set sigs \<and> (\<forall>n ev. ov n = Some ev \<longrightarrow> evName ev = n)"
proof (induction k sigs m rule: parse_overrides.induct)
  case (2 k name sig rest m)
  from "2.prems"(1) obtain ev where ev: "parseSignature k name sig = Inr ev"
    and r: "parse_overrides k rest (m(name \<mapsto> ev)) = Inr ov"
    by (cases "parseSignature k name sig") simp_all
  have nm: "evName x = n" if "(m(name \<mapsto> ev)) n = Some x" for n x
    using that "2.prems"(2) parseSignature_name [OF ev] by (metis fun_upd_apply option.inject)
  have "dom (m(name \<mapsto> ev)) \<union> fst ` set rest = dom m \<union> fst ` set ((name, sig) # rest)" by auto
  from "2.IH" [OF ev r nm, unfolded this] show ?case .
qed simp

lemma remdups_one:
  assumes "length (remdups xs) = 1" and "x \<in> set xs" and "y \<in> set xs"
  shows "x = y"
proof -
  from assms(1) obtain z where "remdups xs = [z]" by (auto simp: length_Suc_conv)
  then have "set xs = {z}" by (metis list.simps(15) list.set(1) set_remdups)
  with assms show ?thesis by auto
qed

lemma resolveEventName_Inr:
  assumes "resolveEventName name byName ov = Inr ev"
  shows "ov name = Some ev \<or> ov name = None \<and> ev \<in> set (byName name)
    \<and> (\<forall>m \<in> set (byName name). evSignature m = evSignature ev)"
proof (cases "ov name")
  case None
  let ?ms = "byName name"
  from None assms have ne: "?ms \<noteq> []"
    by (cases "?ms = []") (simp_all add: resolveEventName_def Let_def)
  with None assms have one: "length (remdups (map evSignature ?ms)) = 1"
    by (cases "length (remdups (map evSignature ?ms)) = 1") (simp_all add: resolveEventName_def Let_def)
  with None assms ne have "ev = hd ?ms" by (simp add: resolveEventName_def Let_def)
  with ne have ev: "ev \<in> set ?ms" by simp
  have "evSignature m = evSignature ev" if "m \<in> set ?ms" for m
    by (rule remdups_one [OF one]) (use that ev in auto)
  with None ev show ?thesis by blast
qed (use assms in \<open>simp add: resolveEventName_def\<close>)

lemma resolveEventName_cand:
  assumes "resolveEventName name byName ov = Inr ev" and "ov name = None"
  shows "ev \<in> set (byName name)"
    and "\<And>m. m \<in> set (byName name) \<Longrightarrow> evSignature m = evSignature ev"
proof -
  have "ov name \<noteq> Some ev" using assms(2) by simp
  with resolveEventName_Inr [OF assms(1)]
  have c: "ev \<in> set (byName name) \<and> (\<forall>m \<in> set (byName name). evSignature m = evSignature ev)"
    by (elim disjE conjE) (assumption | rule conjI | erule notE)+
  show "ev \<in> set (byName name)" by (rule conjunct1 [OF c])
  show "\<And>m. m \<in> set (byName name) \<Longrightarrow> evSignature m = evSignature ev"
    by (rule bspec [OF conjunct2 [OF c]])
qed

section \<open>Properties\<close>

text \<open>
\<open>splitTopLevel\<close> is exactly the inverse of joining type texts with commas: it returns a list
of parts when, and only when, joining them gives back the input and every part is one type
(its parentheses close and no comma stands outside them), and it fails exactly on texts whose
parentheses do not close.
\<close>
theorem split_top_level_exact:
  "(splitTopLevel s = Inr parts \<longleftrightarrow>
      parts \<noteq> [] \<and> join '','' parts = s \<and> (\<forall>p \<in> set parts. unit_type p))
   \<and> ((\<exists>e. splitTopLevel s = Inl e) \<longleftrightarrow> \<not> well_nested s)"
proof
  show "splitTopLevel s = Inr parts \<longleftrightarrow>
      parts \<noteq> [] \<and> join '','' parts = s \<and> (\<forall>p \<in> set parts. unit_type p)"
    using splitTopLevel_inverse splitTopLevel_join by blast
  show "(\<exists>e. splitTopLevel s = Inl e) \<longleftrightarrow> \<not> well_nested s"
    using split_scan_ok_iff [of 0 "[]" s] unfolding splitTopLevel_def
    by (cases "split_scan 0 [] s") auto
qed

theorem split_top_level_exact_witness:
  "splitTopLevel ''(address,uint256),bool'' = Inr [''(address,uint256)'', ''bool'']
    \<and> (\<exists>e. splitTopLevel ''(address'' = Inl e)"
  using split_top_level_exact [of "''(address,uint256),bool''" "[''(address,uint256)'', ''bool'']"]
    split_top_level_exact [of "''(address''" "[]"] by simp

text \<open>
The signature override accepts the canonical text of any event and means the same event:
parsing it succeeds, re-renders the same signature and therefore has the same topic0, with one
positional input per declared input, tuples included.
\<close>
theorem signature_override_roundtrip:
  assumes "CHR ''('' \<notin> set nm" and "\<forall>i \<in> set inputs. plain_input i"
  shows "\<exists>ev. parseSignature keccak name (canonicalSignature nm inputs) = Inr ev
    \<and> evName ev = name \<and> evSignature ev = canonicalSignature nm inputs
    \<and> evTopic0 ev = Topic0 keccak (canonicalSignature nm inputs)
    \<and> length (evInputs ev) = length inputs"
proof -
  let ?ts = "map canonicalType inputs"
  let ?inner = "join '','' ?ts"
  have g: "\<forall>t \<in> set ?ts. good_type t" using assms(2) canonicalType_good by auto
  have nosp: "\<forall>c \<in> set ?inner. \<not> is_ascii_space c"
    using set_join_sub [of _ "'',''" ?ts] g by (fastforce simp: good_type_def)
  have idx: "index_byte CHR ''('' (canonicalSignature nm inputs) = Some (length nm)"
    using index_byte_append [OF assms(1)] by (simp add: canonicalSignature_def)
  have suf: "has_suffix '')'' (canonicalSignature nm inputs)"
    by (auto simp: has_suffix_iff canonicalSignature_def)
  have inner: "take (length (canonicalSignature nm inputs) - 1 - (length nm + 1))
      (drop (length nm + 1) (canonicalSignature nm inputs)) = ?inner"
    by (simp add: canonicalSignature_def)
  have types: "parse_types ?inner = Inr ?ts"
  proof (cases inputs)
    case Nil
    then show ?thesis by (simp add: trim_space_def parse_types_def)
  next
    case (Cons i rest)
    then have "?inner \<noteq> []" using g by (cases rest) (auto simp: good_type_def)
    then show ?thesis using Cons g no_space_trim [OF nosp] splitTopLevel_join [of ?ts]
      by (simp add: good_type_def parse_types_def)
  qed
  have trim: "map (\<lambda>t. AbiInput [] (trim_space t) False []) ?ts = map (\<lambda>i. AbiInput [] (canonicalType i) False []) inputs"
    using g no_space_trim by (auto simp: good_type_def)
  have again: "map canonicalType (map (\<lambda>i. AbiInput [] (canonicalType i) False []) inputs) = ?ts"
    using canonicalType_not_tuple by simp
  have "take (length nm) (canonicalSignature nm inputs) = nm" by (simp add: canonicalSignature_def)
  then show ?thesis
    unfolding parseSignature_def idx
    by (simp only: option.case suf inner types sum.case Let_def trim again not_True_eq_False if_False)
      (simp only: canonicalSignature_def again, simp)
qed

definition settled_inputs :: "abi_input list" where
  "settled_inputs = [AbiInput ''order'' ''tuple[]'' False [arg ''a'' ''address'' False, arg ''b'' ''uint256'' False],
     arg ''who'' ''address'' True]"

lemma signature_override_roundtrip_witness:
  "\<exists>ev. parseSignature (\<lambda>s. []) ''S'' (canonicalSignature ''Settled'' settled_inputs) = Inr ev
    \<and> evName ev = ''S'' \<and> evSignature ev = canonicalSignature ''Settled'' settled_inputs
    \<and> evTopic0 ev = Topic0 (\<lambda>s. []) (canonicalSignature ''Settled'' settled_inputs)
    \<and> length (evInputs ev) = length settled_inputs"
  by (rule signature_override_roundtrip)
    (simp_all add: settled_inputs_def arg_def good_type_def has_prefix_def trim_prefix_def
      is_ascii_space_def code_of_def of_char_def)

text \<open>
A contract that resolves has no silent miss: its events are the configured names in order,
none is anonymous, each is found again under its own topic0, and a name without an override
stands for one signature only among the candidates (an unknown or overloaded name is an error).
\<close>
theorem resolved_contract_complete:
  assumes "resolveContract E c = Inr rc" and "event_universe E c = Inr universe"
  shows "map evName (rcEvents rc) = scEvents c \<and> scEvents c \<noteq> []
    \<and> rcName rc = scName c \<and> rcAddress rc = to_lower (scAddress c)
    \<and> (\<forall>ev \<in> set (rcEvents rc). \<not> evAnonymous ev
        \<and> (\<exists>ev' \<in> set (rcEvents rc). rcByTopic0 rc (evTopic0 ev) = Some ev' \<and> evTopic0 ev' = evTopic0 ev))
    \<and> (\<forall>name \<in> set (scEvents c). name \<notin> fst ` set (scSignatures c) \<longrightarrow>
        (\<exists>ev \<in> set universe. evName ev = name \<and>
           (\<forall>m \<in> set universe. evName m = name \<longrightarrow> evSignature m = evSignature ev)))"
proof -
  let ?by = "\<lambda>name. filter (\<lambda>e. evName e = name) universe"
  from assms obtain ov where ov: "parse_overrides (reKeccak E) (scSignatures c) Map.empty = Inr ov"
    and ne: "scEvents c \<noteq> []"
    and run: "resolve_events ?by ov (scEvents c) \<lparr> rcName = scName c, rcAddress = to_lower (scAddress c),
                   rcByTopic0 = Map.empty, rcEvents = [] \<rparr> = Inr rc"
    by (auto simp: resolveContract_def Let_def split: if_splits sum.splits)
  from resolve_events_run [OF run] have
    all2: "list_all2 (\<lambda>n ev. resolveEventName n ?by ov = Inr ev \<and> \<not> evAnonymous ev) (scEvents c) (rcEvents rc)"
    and top: "rcByTopic0 rc = map_of (rev (map (\<lambda>ev. (evTopic0 ev, ev)) (rcEvents rc)))"
    and nm: "rcName rc = scName c" "rcAddress rc = to_lower (scAddress c)" by auto
  from parse_overrides_run [OF ov] have dom: "dom ov = fst ` set (scSignatures c)"
    and ovn: "\<And>n ev. ov n = Some ev \<Longrightarrow> evName ev = n" by simp_all
  have names: "evName ev = n" if "resolveEventName n ?by ov = Inr ev" for n ev
    using resolveEventName_Inr [OF that] ovn by auto
  have "list_all2 (\<lambda>n ev. evName ev = n) (scEvents c) (rcEvents rc)"
    by (rule list_all2_mono [OF all2]) (blast intro: names)
  then have "map evName (rcEvents rc) = scEvents c"
    by (induction rule: list_all2_induct) auto
  moreover have "\<forall>ev \<in> set (rcEvents rc). \<not> evAnonymous ev"
    using all2 by (auto simp: list_all2_conv_all_nth in_set_conv_nth)
  moreover have "\<exists>ev' \<in> set (rcEvents rc). rcByTopic0 rc (evTopic0 ev) = Some ev' \<and> evTopic0 ev' = evTopic0 ev"
    if "ev \<in> set (rcEvents rc)" for ev
  proof -
    have "evTopic0 ev \<in> dom (rcByTopic0 rc)"
      using that by (auto simp: top dom_map_of_conv_image_fst image_image)
    then obtain ev' where ev': "rcByTopic0 rc (evTopic0 ev) = Some ev'" by auto
    then have "(evTopic0 ev, ev') \<in> set (map (\<lambda>ev. (evTopic0 ev, ev)) (rcEvents rc))"
      using map_of_SomeD [of _ "evTopic0 ev" ev'] unfolding top by fastforce
    with ev' show ?thesis by auto
  qed
  moreover have "\<exists>ev \<in> set universe. evName ev = name \<and>
        (\<forall>m \<in> set universe. evName m = name \<longrightarrow> evSignature m = evSignature ev)"
    if n: "name \<in> set (scEvents c)" "name \<notin> fst ` set (scSignatures c)" for name
  proof -
    from n(1) all2 obtain ev where ev: "resolveEventName name ?by ov = Inr ev"
      by (auto simp: list_all2_conv_all_nth in_set_conv_nth)
    have "ov name = None" using dom n(2) by (metis domIff)
    note cand = resolveEventName_cand [OF ev this]
    show ?thesis
    proof (intro bexI [of _ ev] conjI ballI impI)
      show "evName ev = name" "ev \<in> set universe" using cand(1) by simp_all
      fix m assume "m \<in> set universe" "evName m = name"
      then show "evSignature m = evSignature ev" by (intro cand(2)) simp
    qed
  qed
  ultimately show ?thesis using ne nm by blast
qed

definition plain_env :: resolve_env where
  "plain_env = \<lparr> reKeccak = (\<lambda>_. []), reUnmarshal = (\<lambda>_. Inl ''syntax''), reReadFile = (\<lambda>_. Inl ''missing'') \<rparr>"

definition token_contract :: "string list \<Rightarrow> stream_contract" where
  "token_contract evs = \<lparr> scName = ''t'', scAddress = ''0xAB'', scEvents = evs, scABI = [],
     scABIFile = [], scSignatures = [] \<rparr>"

lemma universe_plain: "event_universe plain_env (token_contract evs) = Inr (builtinEvents (\<lambda>_. []))"
  by (simp add: event_universe_def plain_env_def token_contract_def)

lemmas builtin_simps = builtinEvents_def erc20EventABI_def erc721EventABI_def erc1155EventABI_def
  event_entry_def event_of_entry_def arg_def Let_def canonicalSignature_def has_prefix_def

lemma resolve_plain:
  "\<exists>rc. resolveContract plain_env (token_contract [''URI'']) = Inr rc"
  using universe_plain [of "[''URI'']"]
  by (simp add: resolveContract_def plain_env_def token_contract_def resolveEventName_def
      builtin_simps)

lemma resolved_contract_complete_witness:
  "\<exists>rc. resolveContract plain_env (token_contract [''URI'']) = Inr rc
     \<and> map evName (rcEvents rc) = [''URI'']"
proof -
  from resolve_plain obtain rc where rc: "resolveContract plain_env (token_contract [''URI'']) = Inr rc" ..
  from resolved_contract_complete [OF rc universe_plain] rc show ?thesis
    by (intro exI [of _ rc] conjI) (simp_all add: token_contract_def)
qed

end
