(* ===== verification/Decode.thy ===== *)
theory Decode
  imports Rpc Abi
begin

text \<open>
  Log decoding (\<^verbatim>\<open>internal/stream/decode.go\<close>): topics and ABI-encoded data to the named
  string parameters of a record. Go's \<^verbatim>\<open>int\<close> is 64 bits wide and wraps; slicing out of range
  and \<^verbatim>\<open>make\<close> with an impossible length are run-time panics, a branch of the result. Every slice
  the source takes is checked against the length of the data first, so only wrapped
  indices reach the panicking branch.
\<close>

section \<open>Partial operations of the language\<close>

datatype decode_error = DErr string | DPanic string

definition wrap64 :: "int \<Rightarrow> int" where
  "wrap64 i = signed_take_bit 63 i"

definition slice :: "byte list \<Rightarrow> int \<Rightarrow> int \<Rightarrow> decode_error + byte list" where
  "slice data a b =
     (if 0 \<le> a \<and> a \<le> b \<and> b \<le> int (length data)
      then Inr (take (nat (b - a)) (drop (nat a) data))
      else Inl (DPanic ''slice bounds out of range''))"

text \<open>\<^verbatim>\<open>make([]string, n)\<close> on a 64-bit platform: sixteen bytes per string header, 48 address
bits. Running out of memory below that is not modelled.\<close>

definition make_strings_ok :: "int \<Rightarrow> bool" where
  "make_strings_ok n \<longleftrightarrow> 0 \<le> n \<and> n \<le> 2 ^ 44"

section \<open>Static words\<close>

definition hexToBytes :: "string \<Rightarrow> string + byte list" where
  "hexToBytes s =
     (let t = trim_0x s in
      if t = [] then Inr []
      else case hex_decode t of None \<Rightarrow> Inl ''encoding/hex: invalid input'' | Some bs \<Rightarrow> Inr bs)"

definition isDynamicType :: "string \<Rightarrow> bool" where
  "isDynamicType typ \<longleftrightarrow> typ = ''bytes'' \<or> typ = ''string'' \<or> has_suffix ''[]'' typ \<or> has_prefix ''tuple'' typ"

definition fixedBytesSize :: "string \<Rightarrow> string + nat" where
  "fixedBytesSize typ =
     (if typ = ''bytes'' then Inl ''dynamic bytes has no fixed size''
      else case set_string 10 (trim_prefix ''bytes'' typ) of
        None \<Rightarrow> Inl (''invalid fixed bytes type '' @ typ)
      | Some n \<Rightarrow> if n < 1 \<or> n > 32 then Inl (''invalid fixed bytes type '' @ typ) else Inr (nat n))"

definition decodeSignedInt :: "byte list \<Rightarrow> string" where
  "decodeSignedInt word =
     (let v = int (set_bytes word) in
      show_int (if 128 \<le> unat (hd word) then v - 2 ^ 256 else v))"

definition decodeWord :: "string \<Rightarrow> byte list \<Rightarrow> string + string" where
  "decodeWord typ word =
     (if length word \<noteq> 32 then Inl ''word is not 32 bytes''
      else if typ = ''address'' then Inr (''0x'' @ hex_encode (drop 12 word))
      else if typ = ''bool'' then Inr (if word ! 31 = 0 then ''false'' else ''true'')
      else if has_prefix ''uint'' typ then Inr (show_nat (set_bytes word))
      else if has_prefix ''int'' typ then Inr (decodeSignedInt word)
      else if has_prefix ''bytes'' typ then
        (case fixedBytesSize typ of Inl e \<Rightarrow> Inl e | Inr n \<Rightarrow> Inr (''0x'' @ hex_encode (take n word)))
      else Inl (''unsupported static type '' @ typ))"

definition decodeTopic :: "string \<Rightarrow> string \<Rightarrow> string + string" where
  "decodeTopic typ topic =
     (case hexToBytes topic of
        Inl e \<Rightarrow> Inl e
      | Inr word \<Rightarrow>
          if length word \<noteq> 32 then Inl ''topic is not 32 bytes''
          else if isDynamicType typ then Inr (''0x'' @ hex_encode word)
          else decodeWord typ word)"

section \<open>Dynamic values\<close>

text \<open>The element loop of an array: \<open>n\<close> elements are left and the next one is at \<open>ws\<close>.\<close>

fun decode_elems :: "string \<Rightarrow> byte list \<Rightarrow> int \<Rightarrow> nat \<Rightarrow> decode_error + string list" where
  "decode_elems elemType data ws 0 = Inr []"
| "decode_elems elemType data ws (Suc n) =
     (if wrap64 (ws + 32) > int (length data) then Inl (DErr ''array element past data end'')
      else case slice data ws (wrap64 (ws + 32)) of
        Inl e \<Rightarrow> Inl e
      | Inr w \<Rightarrow> (case decodeWord elemType w of
          Inl e \<Rightarrow> Inl (DErr e)
        | Inr v \<Rightarrow> (case decode_elems elemType data (wrap64 (ws + 32)) n of
            Inl e \<Rightarrow> Inl e | Inr vs \<Rightarrow> Inr (v # vs))))"

definition bytes_to_string :: "byte list \<Rightarrow> string" where
  "bytes_to_string bs = map (\<lambda>b. char_of (unat b)) bs"

definition decodeDynamic :: "string \<Rightarrow> byte list \<Rightarrow> int \<Rightarrow> decode_error + string" where
  "decodeDynamic typ data offset =
     (if wrap64 (offset + 32) > int (length data) then Inl (DErr ''offset past data end'')
      else case slice data offset (wrap64 (offset + 32)) of
        Inl e \<Rightarrow> Inl e
      | Inr lenWord \<Rightarrow>
          (if set_bytes lenWord \<ge> 2 ^ 64 then Inl (DErr ''length overflows'')
           else
             (let count = wrap64 (int (set_bytes lenWord));
                  base = wrap64 (offset + 32);
                  stop = wrap64 (base + count) in
              if typ = ''bytes'' then
                (if stop > int (length data) then Inl (DErr ''bytes payload past data end'')
                 else case slice data base stop of
                   Inl e \<Rightarrow> Inl e | Inr bs \<Rightarrow> Inr (''0x'' @ hex_encode bs))
              else if typ = ''string'' then
                (if stop > int (length data) then Inl (DErr ''string payload past data end'')
                 else case slice data base stop of
                   Inl e \<Rightarrow> Inl e | Inr bs \<Rightarrow> Inr (bytes_to_string bs))
              else if has_suffix ''[]'' typ then
                (let elemType = trim_suffix ''[]'' typ in
                 if isDynamicType elemType then Inl (DErr (''nested dynamic array element '' @ elemType))
                 else if \<not> make_strings_ok count then Inl (DPanic ''makeslice: len out of range'')
                 else case decode_elems elemType data base (nat count) of
                   Inl e \<Rightarrow> Inl e
                 | Inr vs \<Rightarrow> Inr (''['' @ join '','' vs @ '']''))
              else Inl (DErr (''unsupported dynamic type '' @ typ)))))"

text \<open>The parameters from position \<open>head\<close> of the data on.\<close>

fun decode_params :: "abi_input list \<Rightarrow> byte list \<Rightarrow> nat \<Rightarrow> decode_error + string list" where
  "decode_params [] data head = Inr []"
| "decode_params (inp # inps) data head =
     (if head + 32 > length data then Inl (DErr (''data too short for param '' @ aiType inp))
      else
        (let word = take 32 (drop head data) in
         case (if isDynamicType (aiType inp) then
                 (if set_bytes word \<ge> 2 ^ 64 then Inl (DErr ''offset overflows'')
                  else decodeDynamic (aiType inp) data (wrap64 (int (set_bytes word))))
               else (case decodeWord (aiType inp) word of Inl e \<Rightarrow> Inl (DErr e) | Inr v \<Rightarrow> Inr v)) of
           Inl e \<Rightarrow> Inl e
         | Inr v \<Rightarrow> (case decode_params inps data (head + 32) of
             Inl e \<Rightarrow> Inl e | Inr vs \<Rightarrow> Inr (v # vs))))"

definition decodeData :: "abi_input list \<Rightarrow> byte list \<Rightarrow> decode_error + string list" where
  "decodeData inputs data = decode_params inputs data 0"

section \<open>A whole log\<close>

definition paramName :: "string \<Rightarrow> nat \<Rightarrow> string" where
  "paramName name i = (if name = [] then ''arg'' @ show_nat i else name)"

text \<open>The loop over the inputs: the topics left, the parameters set so far, and the
non-indexed inputs with their names, in order.\<close>

fun decode_indexed ::
  "abi_input list \<Rightarrow> nat \<Rightarrow> string list \<Rightarrow> (string \<rightharpoonup> string)
     \<Rightarrow> decode_error + (string \<rightharpoonup> string) \<times> (abi_input \<times> string) list" where
  "decode_indexed [] i topics params = Inr (params, [])"
| "decode_indexed (inp # inps) i topics params =
     (let name = paramName (aiName inp) i in
      if aiIndexed inp then
        (case topics of
           [] \<Rightarrow> Inl (DErr (''indexed param '' @ name @ '' has no topic''))
         | topic # rest \<Rightarrow>
             (case decodeTopic (aiType inp) topic of
                Inl e \<Rightarrow> Inl (DErr e)
              | Inr val \<Rightarrow> decode_indexed inps (i + 1) rest (params(name \<mapsto> val))))
      else (case decode_indexed inps (i + 1) topics params of
          Inl e \<Rightarrow> Inl e
        | Inr (m, non) \<Rightarrow> Inr (m, (inp, name) # non)))"

definition decodeLog :: "event_abi \<Rightarrow> log \<Rightarrow> decode_error + (string \<rightharpoonup> string)" where
  "decodeLog ev l =
     (case hexToBytes (lData l) of
        Inl e \<Rightarrow> Inl (DErr (''decode data: '' @ e))
      | Inr dataBytes \<Rightarrow>
          (case decode_indexed (evInputs ev) 0 (drop 1 (lTopics l)) Map.empty of
             Inl e \<Rightarrow> Inl e
           | Inr (params, non) \<Rightarrow>
               if non = [] then Inr params
               else (case decodeData (map fst non) dataBytes of
                   Inl e \<Rightarrow> Inl e
                 | Inr vals \<Rightarrow> Inr (params ++ map_of (rev (zip (map snd non) vals))))))"

section \<open>The encoding a log data section follows\<close>

text \<open>Values of the ABI and their encoding as the contract ABI specification defines it: a
head of one word per parameter, a static value in place or the offset of its tail, then the
tails.\<close>

datatype aval = AUint nat | AInt int | AAddress "byte list" | ABool bool | AFixed "byte list"
  | ABytes "byte list" | AString "byte list" | AArray "aval list"

fun enc_static :: "aval \<Rightarrow> byte list" where
  "enc_static (AUint n) = be_bytes 32 n"
| "enc_static (AInt i) = be_bytes 32 (nat (i mod 2 ^ 256))"
| "enc_static (AAddress bs) = replicate 12 0 @ bs"
| "enc_static (ABool b) = be_bytes 32 (if b then 1 else 0)"
| "enc_static (AFixed bs) = bs @ replicate (32 - length bs) 0"
| "enc_static _ = []"

fun static_ok :: "string \<Rightarrow> aval \<Rightarrow> bool" where
  "static_ok t (AUint n) \<longleftrightarrow> has_prefix ''uint'' t \<and> n < 2 ^ 256"
| "static_ok t (AInt i) \<longleftrightarrow> has_prefix ''int'' t \<and> - (2 ^ 255) \<le> i \<and> i < 2 ^ 255"
| "static_ok t (AAddress bs) \<longleftrightarrow> t = ''address'' \<and> length bs = 20"
| "static_ok t (ABool b) \<longleftrightarrow> t = ''bool''"
| "static_ok t (AFixed bs) \<longleftrightarrow> t = ''bytes'' @ show_nat (length bs) \<and> 1 \<le> length bs \<and> length bs \<le> 32"
| "static_ok t _ \<longleftrightarrow> False"

fun render :: "aval \<Rightarrow> string" where
  "render (AUint n) = show_nat n"
| "render (AInt i) = show_int i"
| "render (AAddress bs) = ''0x'' @ hex_encode bs"
| "render (ABool b) = (if b then ''true'' else ''false'')"
| "render (AFixed bs) = ''0x'' @ hex_encode bs"
| "render (ABytes bs) = ''0x'' @ hex_encode bs"
| "render (AString bs) = bytes_to_string bs"
| "render (AArray vs) = ''['' @ join '','' (map render vs) @ '']''"

fun tail_of :: "aval \<Rightarrow> byte list" where
  "tail_of (ABytes bs) = be_bytes 32 (length bs) @ bs @ replicate ((32 - length bs mod 32) mod 32) 0"
| "tail_of (AString bs) = be_bytes 32 (length bs) @ bs @ replicate ((32 - length bs mod 32) mod 32) 0"
| "tail_of (AArray vs) = be_bytes 32 (length vs) @ concat (map enc_static vs)"
| "tail_of _ = []"

fun has_type :: "string \<Rightarrow> aval \<Rightarrow> bool" where
  "has_type t (ABytes bs) \<longleftrightarrow> t = ''bytes''"
| "has_type t (AString bs) \<longleftrightarrow> t = ''string''"
| "has_type t (AArray vs) \<longleftrightarrow> (\<exists>et. t = et @ ''[]'' \<and> \<not> isDynamicType et \<and> (\<forall>v \<in> set vs. static_ok et v))"
| "has_type t v \<longleftrightarrow> \<not> isDynamicType t \<and> static_ok t v"

fun is_dyn :: "aval \<Rightarrow> bool" where
  "is_dyn (ABytes _) = True" | "is_dyn (AString _) = True" | "is_dyn (AArray _) = True" | "is_dyn _ = False"

fun enc_heads :: "nat \<Rightarrow> aval list \<Rightarrow> byte list" where
  "enc_heads off [] = []"
| "enc_heads off (v # vs) =
     (if is_dyn v then be_bytes 32 off else enc_static v) @ enc_heads (off + length (tail_of v)) vs"

definition encode_values :: "aval list \<Rightarrow> byte list" where
  "encode_values vs = enc_heads (32 * length vs) vs @ concat (map tail_of vs)"

section \<open>Decoding an encoding\<close>

lemma wrap64_id: "0 \<le> i \<Longrightarrow> i < 2 ^ 63 \<Longrightarrow> wrap64 i = i"
  by (simp add: wrap64_def signed_take_bit_int_eq_self)

lemma wrap64_over: "2 ^ 63 \<le> i \<Longrightarrow> i < 2 ^ 64 \<Longrightarrow> wrap64 i = i - 2 ^ 64"
  by (simp add: wrap64_def signed_take_bit_eq_take_bit_shift take_bit_eq_mod mod_pos_geq)

lemma slice_append [simp]: "slice (pre @ w @ post) (int (length pre)) (int (length pre) + int (length w)) = Inr w"
  by (simp add: slice_def)

lemma length_enc_static: "static_ok t v \<Longrightarrow> length (enc_static v) = 32"
  by (cases v) auto

lemma set_bytes_replicate [simp]: "set_bytes (replicate k 0) = 0"
  by (induction k) (auto simp: set_bytes_Cons)

lemma set_bytes_32: "n < 2 ^ 256 \<Longrightarrow> set_bytes (be_bytes 32 n) = n"
  by (intro set_bytes_be_bytes) simp

lemma hd_high_bit:
  assumes "length w = 32"
  shows "128 \<le> unat (hd w) \<longleftrightarrow> 2 ^ 255 \<le> set_bytes w"
proof -
  obtain b bs where w: "w = b # bs" and l: "length bs = 31" using assms by (cases w) auto
  have lt: "set_bytes bs < 2 ^ 248" using set_bytes_bound [of bs] l by simp
  have v: "set_bytes w = unat b * 2 ^ 248 + set_bytes bs" by (simp add: w set_bytes_Cons l)
  show ?thesis
  proof
    assume "128 \<le> unat (hd w)"
    then have "128 * 2 ^ 248 \<le> unat b * 2 ^ 248" by (simp add: w)
    then show "2 ^ 255 \<le> set_bytes w" using v by simp
  next
    assume "2 ^ 255 \<le> set_bytes w"
    then have "128 * 2 ^ 248 < (unat b + 1) * 2 ^ 248" using v lt by (simp add: algebra_simps)
    then have "128 < unat b + 1" by (metis mult_less_cancel2)
    then show "128 \<le> unat (hd w)" by (simp add: w)
  qed
qed

lemma decodeSignedInt_enc:
  assumes "- (2 ^ 255) \<le> i" and "i < (2 ^ 255 :: int)"
  shows "decodeSignedInt (be_bytes 32 (nat (i mod 2 ^ 256))) = show_int i"
proof -
  let ?n = "nat (i mod 2 ^ 256)"
  have v: "set_bytes (be_bytes 32 ?n) = ?n"
    by (intro set_bytes_32) (simp add: nat_less_iff)
  have hb: "128 \<le> unat (hd (be_bytes 32 ?n)) \<longleftrightarrow> 2 ^ 255 \<le> ?n"
    using hd_high_bit [of "be_bytes 32 ?n"] v by simp
  show ?thesis
  proof (cases "0 \<le> i")
    case True
    then have "i mod 2 ^ 256 = i" using assms by (intro mod_pos_pos_trivial) auto
    moreover from this True assms have "\<not> 2 ^ 255 \<le> ?n" by (simp add: nat_le_iff le_nat_iff)
    ultimately show ?thesis using True v hb by (simp add: decodeSignedInt_def Let_def)
  next
    case False
    have "i mod 2 ^ 256 = (i + 2 ^ 256) mod 2 ^ 256" by simp
    also have "\<dots> = i + 2 ^ 256" using False assms by (intro mod_pos_pos_trivial) auto
    finally have m: "i mod 2 ^ 256 = i + 2 ^ 256" .
    moreover from this assms have "2 ^ 255 \<le> ?n" by (simp add: le_nat_iff)
    ultimately show ?thesis using False assms v hb by (simp add: decodeSignedInt_def Let_def)
  qed
qed

lemma fixedBytesSize_show: "1 \<le> n \<Longrightarrow> n \<le> 32 \<Longrightarrow> fixedBytesSize (''bytes'' @ show_nat n) = Inr n"
  using set_string_show_int [of "int n"] show_nat_not_Nil [of n]
  by (simp add: fixedBytesSize_def show_int_def trim_prefix_def has_prefix_def)

lemma be_bytes_last: "be_bytes (Suc k) n ! k = word_of_nat (n mod 256)"
  by (simp add: nth_append)

lemma decodeWord_enc:
  assumes "static_ok t v" shows "decodeWord t (enc_static v) = Inr (render v)"
proof -
  have l: "length (enc_static v) = 32" using assms by (rule length_enc_static)
  show ?thesis
  proof (cases v)
    case (AUint n)
    with assms obtain r where "t = ''uint'' @ r" by (auto simp: has_prefix_iff)
    then show ?thesis using AUint assms l set_bytes_32 [of n] by (simp add: decodeWord_def)
  next
    case (AInt i)
    with assms obtain r where "t = ''int'' @ r" by (auto simp: has_prefix_iff)
    then show ?thesis using AInt assms l decodeSignedInt_enc [of i]
      by (simp add: decodeWord_def has_prefix_def)
  next
    case (ABool b)
    have "be_bytes 32 n ! 31 = word_of_nat (n mod 256)" for n
      using be_bytes_last [of 31 n] by simp
    then show ?thesis using ABool assms l by (simp add: decodeWord_def has_prefix_def)
  next
    case (AFixed bs)
    then show ?thesis using assms l fixedBytesSize_show [of "length bs"]
      by (simp add: decodeWord_def has_prefix_def)
  qed (use assms l in \<open>auto simp: decodeWord_def\<close>)
qed

lemma decode_elems_enc:
  assumes "\<forall>v \<in> set vs. static_ok et v"
    and "length pre + length (concat (map enc_static vs) @ post) < 2 ^ 62"
  shows "decode_elems et (pre @ concat (map enc_static vs) @ post) (int (length pre)) (length vs)
    = Inr (map render vs)"
  using assms
proof (induction vs arbitrary: pre)
  case (Cons v vs)
  have l: "length (enc_static v) = 32" using Cons.prems(1) by (intro length_enc_static [of et]) simp
  have w: "wrap64 (int (length pre) + 32) = int (length pre) + 32"
    using Cons.prems(2) l by (intro wrap64_id) auto
  have "slice (pre @ enc_static v @ concat (map enc_static vs) @ post) (int (length pre)) (int (length pre) + 32)
      = Inr (enc_static v)"
    using slice_append [of pre "enc_static v"] l by simp
  moreover have "decode_elems et ((pre @ enc_static v) @ concat (map enc_static vs) @ post)
      (int (length (pre @ enc_static v))) (length vs) = Inr (map render vs)"
    using Cons.prems l by (intro Cons.IH) auto
  moreover have "decodeWord et (enc_static v) = Inr (render v)"
    using Cons.prems by (intro decodeWord_enc) simp
  ultimately show ?case using w l by (simp add: add.commute)
qed simp

lemma length_concat_static:
  "\<forall>v \<in> set vs. static_ok et v \<Longrightarrow> length (concat (map enc_static vs)) = 32 * length vs"
  by (induction vs) (auto simp: length_enc_static)

lemma decodeDynamic_enc:
  assumes "has_type t v" and "is_dyn v"
    and b: "length pre + length (tail_of v) + length post < 2 ^ 48"
  shows "decodeDynamic t (pre @ tail_of v @ post) (int (length pre)) = Inr (render v)"
proof -
  let ?d = "pre @ tail_of v @ post" and ?o = "int (length pre)"
  define n where "n = (case v of ABytes bs \<Rightarrow> length bs | AString bs \<Rightarrow> length bs | AArray vs \<Rightarrow> length vs | _ \<Rightarrow> 0)"
  define body where "body = drop 32 (tail_of v)"
  have tl: "tail_of v = be_bytes 32 n @ body" using assms(2) by (cases v) (auto simp: n_def body_def)
  have d: "?d = pre @ be_bytes 32 n @ body @ post" by (simp add: tl)
  have nb: "n < 2 ^ 48"
  proof (cases v)
    case (AArray vs)
    with assms(1) show ?thesis using b by (auto simp: n_def length_concat_static)
  qed (use assms(2) b in \<open>auto simp: n_def\<close>)
  have len: "length ?d < 2 ^ 48" "length pre + 32 \<le> length ?d" using b by (auto simp: tl)
  have w1: "wrap64 (?o + 32) = ?o + 32" using len by (intro wrap64_id) auto
  have s1: "slice ?d ?o (?o + 32) = Inr (be_bytes 32 n)"
    using slice_append [of pre "be_bytes 32 n" "body @ post"] unfolding d by simp
  have cnt: "set_bytes (be_bytes 32 n) = n" using nb by (intro set_bytes_32) simp
  have w2: "wrap64 (int n) = int n" "wrap64 (?o + 32 + int n) = ?o + 32 + int n"
    using nb len by (auto intro!: wrap64_id)
  have base: "decodeDynamic t ?d ?o =
     (if t = ''bytes'' then
        (if ?o + 32 + int n > int (length ?d) then Inl (DErr ''bytes payload past data end'')
         else case slice ?d (?o + 32) (?o + 32 + int n) of Inl e \<Rightarrow> Inl e | Inr bs \<Rightarrow> Inr (''0x'' @ hex_encode bs))
      else if t = ''string'' then
        (if ?o + 32 + int n > int (length ?d) then Inl (DErr ''string payload past data end'')
         else case slice ?d (?o + 32) (?o + 32 + int n) of Inl e \<Rightarrow> Inl e | Inr bs \<Rightarrow> Inr (bytes_to_string bs))
      else if has_suffix ''[]'' t then
        (let elemType = trim_suffix ''[]'' t in
         if isDynamicType elemType then Inl (DErr (''nested dynamic array element '' @ elemType))
         else if \<not> make_strings_ok (int n) then Inl (DPanic ''makeslice: len out of range'')
         else case decode_elems elemType ?d (?o + 32) n of
           Inl e \<Rightarrow> Inl e | Inr vs \<Rightarrow> Inr (''['' @ join '','' vs @ '']''))
      else Inl (DErr (''unsupported dynamic type '' @ t)))"
    using len nb unfolding decodeDynamic_def w1 s1 by (simp add: cnt w2 Let_def)
  have s2: "slice ?d (?o + 32) (?o + 32 + int (length bs)) = Inr bs" if "body = bs @ pad" for bs pad
    using slice_append [of "pre @ be_bytes 32 n" bs "pad @ post"] that unfolding d by (simp add: add.commute)
  show ?thesis
  proof (cases v)
    case (ABytes bs)
    with assms(1) show ?thesis unfolding base
      using s2 [of bs] ABytes by (auto simp: n_def body_def)
  next
    case (AString bs)
    with assms(1) show ?thesis unfolding base
      using s2 [of bs] AString by (auto simp: n_def body_def)
  next
    case (AArray vs)
    with assms(1) obtain et where t: "t = et @ ''[]''" and nd: "\<not> isDynamicType et"
      and ok: "\<forall>v \<in> set vs. static_ok et v" by auto
    have body: "body = concat (map enc_static vs)" and n: "n = length vs" by (simp_all add: AArray body_def n_def)
    have "32 * n < 2 ^ 48" using b AArray ok by (simp add: n length_concat_static)
    then have mk: "make_strings_ok (int n)" by (simp add: make_strings_ok_def)
    have "decode_elems et ((pre @ be_bytes 32 n) @ concat (map enc_static vs) @ post)
       (int (length (pre @ be_bytes 32 n))) (length vs) = Inr (map render vs)"
      using ok len unfolding d body by (intro decode_elems_enc) auto
    then have "decode_elems et ?d (?o + 32) n = Inr (map render vs)"
      unfolding d body n by (simp add: add.commute)
    moreover have "t \<noteq> ''bytes''" "t \<noteq> ''string''" using t by (auto dest: arg_cong [of _ _ last])
    moreover have "has_suffix ''[]'' t" "trim_suffix ''[]'' t = et" by (simp_all add: t)
    ultimately show ?thesis unfolding base using nd mk AArray by simp
  qed (use assms(2) in auto)
qed

lemma has_type_dyn: "has_type t v \<Longrightarrow> isDynamicType t = is_dyn v"
  by (cases v) (auto simp: isDynamicType_def)

lemma has_type_static: "has_type t v \<Longrightarrow> \<not> is_dyn v \<Longrightarrow> static_ok t v \<and> tail_of v = []"
  by (cases v) auto

lemma length_enc_heads:
  "list_all2 (\<lambda>i v. has_type (aiType i) v) inps vs \<Longrightarrow> length (enc_heads off vs) = 32 * length vs"
proof (induction inps vs arbitrary: off rule: list_all2_induct)
  case (Cons i inps v vs)
  then have "\<not> is_dyn v \<Longrightarrow> length (enc_static v) = 32"
    using has_type_static length_enc_static by blast
  with Cons.IH show ?case by simp
qed simp

lemma decode_params_enc:
  assumes "list_all2 (\<lambda>i v. has_type (aiType i) v) inps vs"
    and "off = length P + 32 * length vs + length M"
    and "data = P @ enc_heads off vs @ M @ concat (map tail_of vs)"
    and "length data < 2 ^ 48"
  shows "decode_params inps data (length P) = Inr (map render vs)"
  using assms
proof (induction inps vs arbitrary: off P M rule: list_all2_induct)
  case (Cons i inps v vs)
  let ?h = "if is_dyn v then be_bytes 32 off else enc_static v"
  let ?off = "off + length (tail_of v)"
  have lh: "length ?h = 32"
    using has_type_static [OF Cons.hyps(1)] length_enc_static by (cases "is_dyn v") auto
  have lhs: "length (enc_heads ?off vs) = 32 * length vs"
    using Cons.hyps(2) by (rule length_enc_heads)
  have d: "data = P @ ?h @ enc_heads ?off vs @ M @ tail_of v @ concat (map tail_of vs)"
    using Cons.prems(2) by simp
  have word: "take 32 (drop (length P) data) = ?h" using lh by (simp add: d)
  have ld: "\<not> length P + 32 > length data" using lh by (simp add: d)
  have off: "off < 2 ^ 48" using Cons.prems lh lhs by (simp add: d)
  have rest: "decode_params inps data (length P + 32) = Inr (map render vs)"
  proof -
    have "decode_params inps data (length (P @ ?h)) = Inr (map render vs)"
      using Cons.prems lh d by (intro Cons.IH [of ?off "P @ ?h" "M @ tail_of v"]) auto
    then show ?thesis using lh by simp
  qed
  show ?case
  proof (cases "is_dyn v")
    case True
    have "set_bytes (be_bytes 32 off) = off" using off by (intro set_bytes_32) simp
    moreover have "wrap64 (int off) = int off" using off by (intro wrap64_id) auto
    moreover have "decodeDynamic (aiType i) data (int off) = Inr (render v)"
    proof -
      let ?pre = "P @ ?h @ enc_heads ?off vs @ M"
      have "int off = int (length ?pre)" using Cons.prems(1) lh lhs by simp
      moreover have "data = ?pre @ tail_of v @ concat (map tail_of vs)" by (simp add: d)
      moreover have "length ?pre + length (tail_of v) + length (concat (map tail_of vs)) < 2 ^ 48"
        using Cons.prems(3) unfolding d by simp
      ultimately show ?thesis using decodeDynamic_enc [OF Cons.hyps(1) True] by metis
    qed
    ultimately show ?thesis using True off word ld rest has_type_dyn [OF Cons.hyps(1)] by (simp add: Let_def)
  next
    case False
    with has_type_static [OF Cons.hyps(1)] have "decodeWord (aiType i) (enc_static v) = Inr (render v)"
      by (simp add: decodeWord_enc)
    then show ?thesis using False word ld rest has_type_dyn [OF Cons.hyps(1)] by (simp add: Let_def)
  qed
qed simp

section \<open>Static parameters cannot panic\<close>

lemma decode_params_static:
  "\<forall>i \<in> set inps. \<not> isDynamicType (aiType i) \<Longrightarrow> decode_params inps data h \<noteq> Inl (DPanic p)"
  by (induction inps arbitrary: h) (auto simp: Let_def split: sum.splits)

lemma decode_indexed_no_panic: "decode_indexed inps i topics m \<noteq> Inl (DPanic p)"
  by (induction inps arbitrary: i topics m)
    (auto simp: Let_def simp del: fun_upd_apply split: sum.splits list.splits)

lemma decode_indexed_non:
  "decode_indexed inps i topics m = Inr (m', non) \<Longrightarrow>
     map fst non = filter (\<lambda>i. \<not> aiIndexed i) inps"
  by (induction inps arbitrary: i topics m non m')
    (auto simp: Let_def simp del: fun_upd_apply split: sum.splits list.splits if_splits prod.splits)

lemma wrap64_high: "2 ^ 63 \<le> i \<Longrightarrow> i < 2 ^ 64 \<Longrightarrow> wrap64 i = i - 2 ^ 64"
proof -
  assume i: "2 ^ 63 \<le> i" "i < 2 ^ 64"
  have "wrap64 i = signed_take_bit 63 (i - 2 ^ 64)"
    unfolding wrap64_def by (rule signed_take_bit_eq_iff_take_bit_eq [THEN iffD2])
      (simp add: take_bit_eq_mod mod_diff_right_eq [of _ "2 ^ 64", symmetric])
  also have "\<dots> = i - 2 ^ 64" using i by (intro signed_take_bit_int_eq_self) auto
  finally show ?thesis .
qed

section \<open>Properties\<close>

text \<open>
C21: Decoding inverts the contract ABI encoding: the data section that encodes well-typed
values of the parameters - static words in place, bytes, strings and arrays of static elements
behind offsets - decodes to the rendering of exactly those values, in order.
\<close>
theorem decode_data_roundtrip:
  assumes "list_all2 (\<lambda>i v. has_type (aiType i) v) inputs vs"
    and "length (encode_values vs) < 2 ^ 48"
  shows "decodeData inputs (encode_values vs) = Inr (map render vs)"
  using decode_params_enc [OF assms(1), of "32 * length vs" "[]" "[]" "encode_values vs"] assms(2)
  by (simp add: decodeData_def encode_values_def)

lemma decode_data_roundtrip_witness:
  "decodeData [arg ''ids'' ''uint256[]'' False, arg ''ok'' ''bool'' False, arg ''note'' ''string'' False]
     (encode_values [AArray [AUint 7, AUint 9], ABool True, AString [104, 105]])
   = Inr [''[7,9]'', ''true'', ''hi'']"
proof -
  let ?vs = "[AArray [AUint 7, AUint 9], ABool True, AString [104, 105]]"
  let ?inps = "[arg ''ids'' ''uint256[]'' False, arg ''ok'' ''bool'' False, arg ''note'' ''string'' False]"
  have "has_type ''uint256[]'' (AArray [AUint 7, AUint 9])"
    unfolding has_type.simps
    by (rule exI [of _ "''uint256''"]) (simp add: isDynamicType_def has_suffix_def has_prefix_def)
  then have "decodeData ?inps (encode_values ?vs) = Inr (map render ?vs)"
    by (intro decode_data_roundtrip)
      (simp_all add: arg_def isDynamicType_def has_suffix_def has_prefix_def encode_values_def)
  then show ?thesis
    by (simp add: bytes_to_string_def show_nat_def show_base.simps digit_char_def char_of_def bit_0)
qed

text \<open>
A log whose non-indexed parameters are all static never panics the decoder, whatever its
topics and data hold: it decodes or is reported as an error.
\<close>
theorem static_log_never_panics:
  assumes "\<forall>i \<in> set (evInputs ev). \<not> aiIndexed i \<longrightarrow> \<not> isDynamicType (aiType i)"
  shows "decodeLog ev l \<noteq> Inl (DPanic p)"
proof -
  have "decodeData (map fst non) bs \<noteq> Inl (DPanic p)"
    if "decode_indexed (evInputs ev) 0 topics Map.empty = Inr (m, non)" for non bs topics m
    unfolding decodeData_def
    by (rule decode_params_static) (use assms decode_indexed_non [OF that] in auto)
  then show ?thesis using decode_indexed_no_panic
    by (auto simp: decodeLog_def split: sum.splits if_splits)
qed

definition erc20_transfer :: event_abi where
  "erc20_transfer = event_of_entry (\<lambda>_. []) (hd erc20EventABI)"

definition bare_log :: "string \<Rightarrow> string list \<Rightarrow> log" where
  "bare_log d topics = \<lparr> lAddress = ''0xab'', lTopics = topics, lData = d, lBlockNumber = ''0x1'',
     lBlockHash = ''0xb'', lTxHash = ''0xc'', lLogIndex = ''0x0'', lRemoved = False \<rparr>"

lemma static_log_never_panics_witness: "\<forall>p. decodeLog erc20_transfer (bare_log ''zz'' []) \<noteq> Inl (DPanic p)"
  by (intro allI static_log_never_panics)
    (simp add: erc20_transfer_def builtin_simps isDynamicType_def has_suffix_def)

text \<open>
A dynamic first parameter whose offset word lies in the upper half of the 64-bit range
panics the decoder instead of being reported: the offset passes the 64-bit test, wraps to a
negative index and passes the bounds check.
\<close>
theorem wrapped_offset_panics:
  assumes "isDynamicType (aiType inp)" and "32 \<le> length data" and "length data < 2 ^ 62"
    and "2 ^ 63 \<le> set_bytes (take 32 data)" and "set_bytes (take 32 data) < 2 ^ 64"
  shows "\<exists>p. decodeData (inp # inps) data = Inl (DPanic p)"
proof -
  let ?v = "int (set_bytes (take 32 data))"
  have w: "wrap64 ?v = ?v - 2 ^ 64" using assms(4,5) by (intro wrap64_high) simp_all
  have neg: "wrap64 ?v < 0" using w assms(5) by simp
  have "wrap64 (wrap64 ?v + 32) = wrap64 ?v + 32"
    using w assms(4,5) unfolding wrap64_def
    by (intro signed_take_bit_int_eq_self) simp_all
  moreover have "wrap64 ?v + 32 \<le> int (length data)" using neg assms(2) by simp
  ultimately show ?thesis using assms neg
    by (simp add: decodeData_def decodeDynamic_def slice_def Let_def)
qed

lemma wrapped_offset_panics_witness:
  "\<exists>p. decodeData [arg ''s'' ''string'' False] (be_bytes 32 (2 ^ 63)) = Inl (DPanic p)"
  using set_bytes_32 [of "2 ^ 63"]
  by (intro wrapped_offset_panics) (simp_all add: arg_def isDynamicType_def)

text \<open>The bare name Transfer stands for the ERC-20 shape, whose third parameter is in the data.\<close>

lemma builtin_by_name_Transfer:
  "filter (\<lambda>e. evName e = ''Transfer'') (builtinEvents k)
     = map (event_of_entry k) [hd erc20EventABI, hd erc721EventABI]"
  by (simp add: builtin_simps)

lemma builtin_transfer_resolves:
  "resolveEventName ''Transfer'' (\<lambda>n. filter (\<lambda>e. evName e = n) (builtinEvents k)) Map.empty
     = Inr (event_of_entry k (hd erc20EventABI))"
  unfolding resolveEventName_def builtin_by_name_Transfer
  by (simp add: builtin_simps)

lemma decode_value_missing:
  assumes "aiIndexed i = False" and "decode_indexed inps n topics m = Inr (m', non)"
    and "i \<in> set inps"
  shows "\<exists>e. decodeData (map fst non) [] = Inl (DErr e)"
proof -
  have "i \<in> set (map fst non)" using decode_indexed_non [OF assms(2)] assms(1,3) by simp
  then obtain j js where "map fst non = j # js" by (cases "map fst non") auto
  then show ?thesis by (simp add: decodeData_def)
qed

text \<open>
A contract configured with the bare name Transfer and no ABI of its own cannot decode an
ERC-721 transfer: the name resolves to the ERC-20 variant, which reads the amount from the
data, while an ERC-721 transfer carries all three parameters in topics and no data.
\<close>
theorem builtin_transfer_rejects_erc721:
  assumes "resolveContract E c = Inr rc" and "scABI c = []" and "scABIFile c = []"
    and "scSignatures c = []" and "ev \<in> set (rcEvents rc)" and "evName ev = ''Transfer''"
    and "hexToBytes (lData l) = Inr []"
  shows "\<exists>e. decodeLog ev l = Inl (DErr e)"
proof -
  let ?by = "\<lambda>n. filter (\<lambda>e. evName e = n) (builtinEvents (reKeccak E))"
  have uni: "event_universe E c = Inr (builtinEvents (reKeccak E))"
    using assms(2,3) by (simp add: event_universe_def)
  from assms(1,4) obtain rc0 where run: "resolve_events ?by Map.empty (scEvents c) rc0 = Inr rc"
    and e0: "rcEvents rc0 = []"
    by (auto simp: resolveContract_def uni Let_def split: if_splits)
  from resolve_events_run [OF run] e0 have
    "list_all2 (\<lambda>n ev. resolveEventName n ?by Map.empty = Inr ev \<and> \<not> evAnonymous ev) (scEvents c) (rcEvents rc)"
    by auto
  with assms(5) obtain n where n: "resolveEventName n ?by Map.empty = Inr ev"
    by (auto simp: list_all2_conv_all_nth in_set_conv_nth)
  have "ev \<in> set (?by n)" by (rule resolveEventName_cand(1) [OF n]) simp
  then have "n = ''Transfer''" using assms(6) by simp
  with n have ev: "ev = event_of_entry (reKeccak E) (hd erc20EventABI)"
    using builtin_transfer_resolves by simp
  let ?i = "arg ''value'' ''uint256'' False"
  have mem: "?i \<in> set (evInputs ev)" "\<not> aiIndexed ?i" by (simp_all add: ev builtin_simps)
  show ?thesis
  proof (cases "decode_indexed (evInputs ev) 0 (drop 1 (lTopics l)) Map.empty")
    case (Inl e)
    then show ?thesis using decode_indexed_no_panic assms(7)
      by (cases e) (auto simp: decodeLog_def)
  next
    case (Inr r)
    then obtain m non where r: "decode_indexed (evInputs ev) 0 (drop 1 (lTopics l)) Map.empty = Inr (m, non)"
      by (cases r) auto
    have "\<exists>e. decodeData (map fst non) [] = Inl (DErr e)"
      by (rule decode_value_missing [OF _ r mem(1)]) (use mem(2) in simp)
    then show ?thesis using r assms(7) by (auto simp: decodeLog_def decodeData_def)
  qed
qed

lemma resolve_plain_transfer:
  "\<exists>rc. resolveContract plain_env (token_contract [''Transfer'']) = Inr rc"
  using universe_plain [of "[''Transfer'']"]
  by (simp add: resolveContract_def plain_env_def token_contract_def resolveEventName_def
      builtin_simps)

lemma builtin_transfer_rejects_erc721_witness:
  "\<exists>rc ev e. resolveContract plain_env (token_contract [''Transfer'']) = Inr rc \<and> ev \<in> set (rcEvents rc)
     \<and> decodeLog ev (bare_log ''0x'' []) = Inl (DErr e)"
proof -
  from resolve_plain_transfer obtain rc
    where rc: "resolveContract plain_env (token_contract [''Transfer'']) = Inr rc" ..
  obtain u where u: "event_universe plain_env (token_contract [''Transfer'']) = Inr u"
    using universe_plain by blast
  have "map evName (rcEvents rc) = [''Transfer'']"
    using universe_plain [of "[''Transfer'']"] rc
    by (auto simp: resolveContract_def plain_env_def token_contract_def resolveEventName_def builtin_simps)
  then obtain ev where ev: "ev \<in> set (rcEvents rc)" "evName ev = ''Transfer''" by auto
  have "hexToBytes (lData (bare_log ''0x'' [])) = Inr []"
    by (simp add: bare_log_def hexToBytes_def trim_0x_def trim_prefix_def has_prefix_def)
  with builtin_transfer_rejects_erc721 [OF rc _ _ _ ev]
  have "\<exists>e. decodeLog ev (bare_log ''0x'' []) = Inl (DErr e)" by (simp add: token_contract_def)
  with rc ev show ?thesis by blast
qed

end
