(* ===== verification/Backoff.thy ===== *)
theory Backoff
  imports Decode
begin

text \<open>
  The retry policy of \<^verbatim>\<open>src/internal/backoff/backoff.go\<close>. A duration is a 64-bit count of
  nanoseconds; the doubling wraps. The random draw of the jitter is an argument.
\<close>

text \<open>The doubling loop: \<open>n\<close> doublings are left.\<close>

fun double_loop :: "nat \<Rightarrow> int \<Rightarrow> int \<Rightarrow> int" where
  "double_loop 0 d maxDelay = d"
| "double_loop (Suc n) d maxDelay = (if d < maxDelay then double_loop n (wrap64 (d * 2)) maxDelay else d)"

definition backoff_Duration :: "int \<Rightarrow> int \<Rightarrow> int \<Rightarrow> int" where
  "backoff_Duration attempt base maxDelay =
     (let a = (if attempt < 1 then 1 else attempt);
          d = double_loop (nat (a - 1)) base maxDelay
      in if d > maxDelay then maxDelay else d)"

text \<open>\<open>rnd k\<close> is the draw from \<open>[0, k)\<close>. Division of a positive duration truncates.\<close>

definition backoff_Jitter :: "(int \<Rightarrow> int) \<Rightarrow> int \<Rightarrow> int" where
  "backoff_Jitter rnd d = (if d \<le> 0 then 0 else (let half = d div 2 in half + rnd (half + 1)))"

definition draws :: "(int \<Rightarrow> int) \<Rightarrow> bool" where
  "draws rnd \<longleftrightarrow> (\<forall>k > 0. 0 \<le> rnd k \<and> rnd k < k)"

lemma double_loop_exact:
  assumes "0 < d" and "d \<le> maxDelay" and "maxDelay \<le> 2 ^ 62"
  shows "min maxDelay (double_loop n d maxDelay) = min maxDelay (d * 2 ^ n)"
  using assms(1,2)
proof (induction n arbitrary: d)
  case (Suc n)
  show ?case
  proof (cases "d < maxDelay")
    case True
    then have w: "wrap64 (d * 2) = d * 2" using Suc.prems assms(3) by (intro wrap64_id) auto
    show ?thesis
    proof (cases "d * 2 \<le> maxDelay")
      case le: True
      with Suc.IH [of "d * 2"] Suc.prems True w show ?thesis by (simp add: mult.assoc)
    next
      case False
      have stop: "double_loop n (d * 2) maxDelay = d * 2" by (cases n) (use False in auto)
      have "d * 2 \<le> d * 2 ^ Suc n" using Suc.prems by simp
      then have "maxDelay \<le> d * 2 ^ Suc n" using False by linarith
      moreover have "double_loop (Suc n) d maxDelay = d * 2" using stop True w by simp
      ultimately show ?thesis using False by (simp add: min_def del: power_Suc)
    qed
  next
    case False
    then have "d = maxDelay" using Suc.prems by simp
    moreover have "1 \<le> (2 :: int) ^ Suc n" by (rule one_le_power) simp
    ultimately have "maxDelay \<le> d * 2 ^ Suc n" using Suc.prems(1) by simp
    with False show ?thesis using \<open>d = maxDelay\<close> by (simp del: power_Suc)
  qed
qed simp

lemma Duration_exact:
  assumes "0 < base" and "0 < maxDelay" and "maxDelay \<le> 2 ^ 62"
  shows "backoff_Duration attempt base maxDelay = min maxDelay (base * 2 ^ nat (attempt - 1))"
proof -
  let ?n = "nat ((if attempt < 1 then 1 else attempt) - 1)"
  have n: "?n = nat (attempt - 1)" by simp
  have D: "backoff_Duration attempt base maxDelay = min maxDelay (double_loop ?n base maxDelay)"
    by (simp add: backoff_Duration_def Let_def min_def)
  show ?thesis
  proof (cases "base \<le> maxDelay")
    case True
    from double_loop_exact [OF assms(1) True assms(3)] show ?thesis unfolding D n .
  next
    case False
    then have "double_loop k base maxDelay = base" for k by (cases k) auto
    moreover have "base \<le> base * 2 ^ nat (attempt - 1)" using assms(1) by simp
    ultimately show ?thesis unfolding D using False by (simp add: min_def)
  qed
qed

text \<open>
The delay before attempt n is the base doubled n-1 times, capped: exactly
  min(max, base * 2^(n-1)) for every attempt number, however large, and the jittered delay
  lies between half of it (rounded down) and the whole.
\<close>
theorem backoff_exact:
  assumes "0 < base" and "0 < maxDelay" and "maxDelay \<le> 2 ^ 62" and "draws rnd"
  shows "backoff_Duration attempt base maxDelay = min maxDelay (base * 2 ^ nat (attempt - 1))
    \<and> backoff_Duration attempt base maxDelay div 2 \<le> backoff_Jitter rnd (backoff_Duration attempt base maxDelay)
    \<and> backoff_Jitter rnd (backoff_Duration attempt base maxDelay) \<le> backoff_Duration attempt base maxDelay"
proof (intro conjI)
  let ?d = "backoff_Duration attempt base maxDelay"
  show d: "?d = min maxDelay (base * 2 ^ nat (attempt - 1))" by (rule Duration_exact [OF assms(1-3)])
  then have pos: "0 < ?d" using assms(1,2) by simp
  have "0 < ?d div 2 + 1" using pos by simp
  then have "0 \<le> rnd (?d div 2 + 1)" "rnd (?d div 2 + 1) < ?d div 2 + 1" using assms(4) unfolding draws_def by blast+
  with pos show "?d div 2 \<le> backoff_Jitter rnd ?d" "backoff_Jitter rnd ?d \<le> ?d"
    by (auto simp: backoff_Jitter_def Let_def)
qed

lemma backoff_exact_witness:
  "backoff_Duration 7 500 30000 = 30000 \<and> backoff_Jitter (\<lambda>k. k - 1) (backoff_Duration 2 500 30000) \<le> 1000"
  using backoff_exact [of 500 30000 "\<lambda>k. k - 1" 7] backoff_exact [of 500 30000 "\<lambda>k. k - 1" 2]
  by (simp add: draws_def del: One_nat_def) metis

end
