(* ===== verification/Records.thy ===== *)
theory Records
  imports Numerals
begin

text \<open>
  The record contract (\<^verbatim>\<open>internal/record/record.go\<close>, \<^verbatim>\<open>key.go\<close>): the envelope with its
  typed payloads, and the two identities a sink derives from it, \<open>DedupKey\<close> and
  \<open>PartitionIdentity\<close>. Go's \<^verbatim>\<open>Type\<close>, \<^verbatim>\<open>Kind\<close> and \<^verbatim>\<open>Field\<close> are strings and stay so;
  an absent pointer field is \<open>None\<close>.
\<close>

section \<open>Discriminators\<close>

definition SchemaVersion :: int where "SchemaVersion = 1"

definition TypeEvent :: string where "TypeEvent = ''event''"
definition TypeNativeTransfer :: string where "TypeNativeTransfer = ''native_transfer''"
definition TypeInternalTransfer :: string where "TypeInternalTransfer = ''internal_transfer''"
definition TypeReorg :: string where "TypeReorg = ''reorg''"
definition TypeBalanceSample :: string where "TypeBalanceSample = ''balance_sample''"
definition TypeBalanceChange :: string where "TypeBalanceChange = ''balance_change''"
definition TypeOwnershipSample :: string where "TypeOwnershipSample = ''ownership_sample''"
definition TypeOwnershipChange :: string where "TypeOwnershipChange = ''ownership_change''"
definition TypeContractSample :: string where "TypeContractSample = ''contract_sample''"
definition TypeContractChange :: string where "TypeContractChange = ''contract_change''"

lemmas type_defs = TypeEvent_def TypeNativeTransfer_def TypeInternalTransfer_def TypeReorg_def
  TypeBalanceSample_def TypeBalanceChange_def TypeOwnershipSample_def TypeOwnershipChange_def
  TypeContractSample_def TypeContractChange_def

lemma types_neq [simp]:
  "TypeEvent \<noteq> TypeNativeTransfer" "TypeEvent \<noteq> TypeInternalTransfer" "TypeEvent \<noteq> TypeReorg"
  "TypeEvent \<noteq> TypeBalanceSample" "TypeEvent \<noteq> TypeBalanceChange" "TypeEvent \<noteq> TypeOwnershipSample"
  "TypeEvent \<noteq> TypeOwnershipChange" "TypeEvent \<noteq> TypeContractSample" "TypeEvent \<noteq> TypeContractChange"
  "TypeNativeTransfer \<noteq> TypeInternalTransfer" "TypeNativeTransfer \<noteq> TypeReorg" "TypeNativeTransfer \<noteq> TypeBalanceSample"
  "TypeNativeTransfer \<noteq> TypeBalanceChange" "TypeNativeTransfer \<noteq> TypeOwnershipSample" "TypeNativeTransfer \<noteq> TypeOwnershipChange"
  "TypeNativeTransfer \<noteq> TypeContractSample" "TypeNativeTransfer \<noteq> TypeContractChange"
  "TypeInternalTransfer \<noteq> TypeReorg" "TypeInternalTransfer \<noteq> TypeBalanceSample" "TypeInternalTransfer \<noteq> TypeBalanceChange"
  "TypeInternalTransfer \<noteq> TypeOwnershipSample" "TypeInternalTransfer \<noteq> TypeOwnershipChange" "TypeInternalTransfer \<noteq> TypeContractSample"
  "TypeInternalTransfer \<noteq> TypeContractChange"
  "TypeReorg \<noteq> TypeBalanceSample" "TypeReorg \<noteq> TypeBalanceChange" "TypeReorg \<noteq> TypeOwnershipSample"
  "TypeReorg \<noteq> TypeOwnershipChange" "TypeReorg \<noteq> TypeContractSample" "TypeReorg \<noteq> TypeContractChange"
  "TypeBalanceSample \<noteq> TypeBalanceChange" "TypeBalanceSample \<noteq> TypeOwnershipSample" "TypeBalanceSample \<noteq> TypeOwnershipChange"
  "TypeBalanceSample \<noteq> TypeContractSample" "TypeBalanceSample \<noteq> TypeContractChange"
  "TypeBalanceChange \<noteq> TypeOwnershipSample" "TypeBalanceChange \<noteq> TypeOwnershipChange" "TypeBalanceChange \<noteq> TypeContractSample"
  "TypeBalanceChange \<noteq> TypeContractChange"
  "TypeOwnershipSample \<noteq> TypeOwnershipChange" "TypeOwnershipSample \<noteq> TypeContractSample" "TypeOwnershipSample \<noteq> TypeContractChange"
  "TypeOwnershipChange \<noteq> TypeContractSample" "TypeOwnershipChange \<noteq> TypeContractChange"
  "TypeContractSample \<noteq> TypeContractChange"
  by (simp_all add: type_defs)

lemmas types_neq_sym [simp] = types_neq [THEN not_sym]

definition ToolStream :: string where "ToolStream = ''evm-stream''"
definition ToolBalance :: string where "ToolBalance = ''evm-balance''"

definition KindNative :: string where "KindNative = ''native''"
definition KindERC20 :: string where "KindERC20 = ''erc20''"
definition KindERC721 :: string where "KindERC721 = ''erc721''"

definition FieldNativeBalance :: string where "FieldNativeBalance = ''native_balance''"
definition FieldTokenTotalSupply :: string where "FieldTokenTotalSupply = ''token_total_supply''"
definition FieldTransferCount :: string where "FieldTransferCount = ''transfer_count''"

section \<open>Payloads\<close>

record event_data =
  edEvent :: string
  edSignature :: string
  edContract :: string
  edParams :: "string \<rightharpoonup> string"

record native_transfer_data =
  ntFrom :: string
  ntTo :: string
  ntValueWei :: string
  ntValue :: string
  ntContractCreation :: bool

record internal_transfer_data =
  itdFrom :: string
  itdTo :: string
  itdValueWei :: string
  itdValue :: string
  itdCallType :: string
  itdContractCreation :: bool

record reorg_data =
  rdForkBlock :: u64
  rdFromBlock :: u64
  rdToBlock :: u64
  rdDepth :: int
  rdOldHash :: string
  rdNewHash :: string
  rdDepthExceeded :: bool

record balance_data =
  bdKind :: string
  bdAddress :: string
  bdToken :: string
  bdBalanceWei :: string
  bdBalanceRaw :: string
  bdBalance :: string
  bdCount :: string
  bdDecimals :: "int option"
  bdPreviousWei :: string
  bdPreviousRaw :: string
  bdPreviousCount :: string

record ownership_data =
  odKind :: string
  odToken :: string
  odTokenID :: string
  odOwner :: string
  odPreviousOwner :: string

record contract_data =
  cdAddress :: string
  cdField :: string
  cdBalanceWei :: string
  cdBalance :: string
  cdTotalSupplyRaw :: string
  cdTotalSupply :: string
  cdCount :: string
  cdDecimals :: "int option"
  cdWindowBlocks :: "int option"
  cdPreviousWei :: string
  cdPreviousRaw :: string
  cdPreviousCount :: string
  cdPreviousTotalSupply :: string

text \<open>What \<^verbatim>\<open>encoding/json\<close> decodes into an \<^verbatim>\<open>any\<close>: the payload as a sink sees it. A
  number is a float64 in Go; it is carried here as the decimal text Go renders it to.\<close>

datatype json = JNull | JBool bool | JNum string | JStr string | JArr "json list"
  | JObj "(string \<times> json) list"

datatype data =
    DEvent event_data
  | DNative native_transfer_data
  | DInternal internal_transfer_data
  | DReorg reorg_data
  | DBalance balance_data
  | DOwnership ownership_data
  | DContract contract_data
  | DJson json

record envelope =
  eSchemaVersion :: int
  eType :: string
  eTool :: string
  eName :: string
  eChain :: string
  eChainID :: int
  eBlockNumber :: u64
  eBlockHash :: string
  eTxHash :: string
  eLogIndex :: "u64 option"
  eTraceAddress :: "int list"
  eTimestamp :: string
  eEmittedAt :: string
  eFinalized :: bool
  eData :: data

text \<open>The zero value of the fields a Go composite literal leaves out.\<close>

definition zero_envelope :: envelope where
  "zero_envelope = \<lparr> eSchemaVersion = 0, eType = '''', eTool = '''', eName = '''', eChain = '''',
     eChainID = 0, eBlockNumber = 0, eBlockHash = '''', eTxHash = '''', eLogIndex = None,
     eTraceAddress = [], eTimestamp = '''', eEmittedAt = '''', eFinalized = False,
     eData = DJson JNull \<rparr>"

section \<open>Identities\<close>

definition show_u64 :: "u64 \<Rightarrow> string" where
  "show_u64 w = show_nat (unat w)"

definition logIndexStr :: "u64 option \<Rightarrow> string" where
  "logIndexStr p = (case p of None \<Rightarrow> ''_'' | Some i \<Rightarrow> show_u64 i)"

definition traceAddrStr :: "int list \<Rightarrow> string" where
  "traceAddrStr path = (if path = [] then ''_'' else join ''-'' (map show_int path))"

definition DedupKey :: "envelope \<Rightarrow> string" where
  "DedupKey e =
    (let chainID = show_int (eChainID e); t = eType e in
     if t = TypeEvent then join ''|'' [chainID, eTxHash e, logIndexStr (eLogIndex e)]
     else if t = TypeNativeTransfer then join ''|'' [chainID, eTxHash e]
     else if t = TypeInternalTransfer then join ''|'' [chainID, eTxHash e, traceAddrStr (eTraceAddress e)]
     else if t = TypeReorg then join ''|'' [chainID, t, show_u64 (eBlockNumber e), eBlockHash e]
     else if t \<in> {TypeBalanceSample, TypeOwnershipSample, TypeContractSample} then
       join ''|'' [chainID, t, eName e, show_u64 (eBlockNumber e), eEmittedAt e]
     else if t \<in> {TypeBalanceChange, TypeOwnershipChange, TypeContractChange} then
       join ''|'' [chainID, t, eName e, show_u64 (eBlockNumber e)]
     else join ''|'' [chainID, t, eName e, show_u64 (eBlockNumber e), eEmittedAt e])"

definition PartitionIdentity :: "envelope \<Rightarrow> string" where
  "PartitionIdentity e =
    (let chainID = show_int (eChainID e); t = eType e in
     if t = TypeEvent then join ''|'' [chainID, eTxHash e, logIndexStr (eLogIndex e)]
     else if t = TypeNativeTransfer \<or> t = TypeInternalTransfer then join ''|'' [chainID, eTxHash e]
     else if t = TypeReorg then join ''|'' [chainID, t]
     else join ''|'' [chainID, t, eName e])"

section \<open>The components of a key are delimited\<close>

lemma show_u64_inject [simp]: "show_u64 a = show_u64 b \<longleftrightarrow> a = b"
  by (simp add: show_u64_def word_unat_eq_iff)

lemma show_u64_no_bar [simp]: "CHR ''|'' \<notin> set (show_u64 a)"
  by (simp add: show_u64_def)

lemma show_u64_not_underscore: "show_u64 a \<noteq> ''_''" "''_'' \<noteq> show_u64 a"
proof -
  have "CHR ''_'' \<notin> set (show_u64 a)" unfolding show_u64_def by (rule show_nat_no) simp
  then show "show_u64 a \<noteq> ''_''" "''_'' \<noteq> show_u64 a" by (metis list.set_intros(1))+
qed

lemma logIndexStr_inject [simp]: "logIndexStr p = logIndexStr q \<longleftrightarrow> p = q"
  by (auto simp: logIndexStr_def show_u64_not_underscore split: option.splits)

lemma logIndexStr_no_bar [simp]: "CHR ''|'' \<notin> set (logIndexStr p)"
  by (auto simp: logIndexStr_def split: option.splits)

lemma set_join: "set (join sep xs) \<subseteq> set sep \<union> (\<Union> (set ` set xs))"
  by (induction sep xs rule: join.induct) auto

lemma traceAddrStr_no_bar [simp]: "CHR ''|'' \<notin> set (traceAddrStr p)"
  using set_join [of "''-''" "map show_int p"] by (auto simp: traceAddrStr_def)


lemma show_int_not_underscore: "show_int i \<noteq> ''_''"
  using show_int_chars [of "CHR ''_''" i] by fastforce



text \<open>A key is the join of its components; when no component holds the separator, the key
  determines them all.\<close>

lemma key_parts:
  assumes "join ''|'' xs = join ''|'' ys" and "xs \<noteq> []" and "ys \<noteq> []"
    and "\<forall>x \<in> set xs. CHR ''|'' \<notin> set x" and "\<forall>y \<in> set ys. CHR ''|'' \<notin> set y"
  shows "xs = ys"
  using assms by (rule join_inject)

definition bar_free :: "envelope \<Rightarrow> bool" where
  "bar_free e \<longleftrightarrow> CHR ''|'' \<notin> set (eTxHash e) \<and> CHR ''|'' \<notin> set (eName e)
     \<and> CHR ''|'' \<notin> set (eBlockHash e) \<and> CHR ''|'' \<notin> set (eEmittedAt e)"


definition trace_ok :: "envelope \<Rightarrow> bool" where
  "trace_ok e \<longleftrightarrow> (\<forall>i \<in> set (eTraceAddress e). 0 \<le> i)"

lemmas dedup_simps = DedupKey_def PartitionIdentity_def type_defs bar_free_def trace_ok_def Let_def

lemma DedupKey_event:
  assumes "eType a = TypeEvent" "eType b = TypeEvent" "bar_free a" "bar_free b"
    and "DedupKey a = DedupKey b"
  shows "eChainID a = eChainID b \<and> eTxHash a = eTxHash b \<and> eLogIndex a = eLogIndex b"
  using assms key_parts [of "[show_int (eChainID a), eTxHash a, logIndexStr (eLogIndex a)]"
      "[show_int (eChainID b), eTxHash b, logIndexStr (eLogIndex b)]"]
  by (simp add: DedupKey_def bar_free_def Let_def)


lemma DedupKey_native:
  assumes "eType a = TypeNativeTransfer" "eType b = TypeNativeTransfer" "bar_free a" "bar_free b"
    and "DedupKey a = DedupKey b"
  shows "eChainID a = eChainID b \<and> eTxHash a = eTxHash b"
  using assms key_parts [of "[show_int (eChainID a), eTxHash a]" "[show_int (eChainID b), eTxHash b]"]
  by (simp add: dedup_simps)

lemma DedupKey_reorg:
  assumes "eType a = TypeReorg" "eType b = TypeReorg" "bar_free a" "bar_free b"
    and "DedupKey a = DedupKey b"
  shows "eChainID a = eChainID b \<and> eBlockNumber a = eBlockNumber b \<and> eBlockHash a = eBlockHash b"
  using assms
    key_parts [of "[show_int (eChainID a), TypeReorg, show_u64 (eBlockNumber a), eBlockHash a]"
      "[show_int (eChainID b), TypeReorg, show_u64 (eBlockNumber b), eBlockHash b]"]
  by (simp add: dedup_simps)

lemma DedupKey_change:
  assumes "eType a \<in> {TypeBalanceChange, TypeOwnershipChange, TypeContractChange}" "eType b = eType a"
    and "bar_free a" "bar_free b" and "DedupKey a = DedupKey b"
  shows "eChainID a = eChainID b \<and> eName a = eName b \<and> eBlockNumber a = eBlockNumber b"
  using assms
    key_parts [of "[show_int (eChainID a), eType a, eName a, show_u64 (eBlockNumber a)]"
      "[show_int (eChainID b), eType b, eName b, show_u64 (eBlockNumber b)]"]
  by (auto simp: dedup_simps)

lemma DedupKey_other:
  assumes "eType a \<notin> {TypeEvent, TypeNativeTransfer, TypeInternalTransfer, TypeReorg,
      TypeBalanceChange, TypeOwnershipChange, TypeContractChange}" "eType b = eType a"
    and "CHR ''|'' \<notin> set (eType a)" "bar_free a" "bar_free b" and "DedupKey a = DedupKey b"
  shows "eChainID a = eChainID b \<and> eName a = eName b \<and> eBlockNumber a = eBlockNumber b
      \<and> eEmittedAt a = eEmittedAt b"
proof -
  have key: "DedupKey e = join ''|'' [show_int (eChainID e), eType e, eName e, show_u64 (eBlockNumber e), eEmittedAt e]"
    if "eType e = eType a" for e
    using assms(1) that by (auto simp: DedupKey_def Let_def)
  then show ?thesis using assms
      key_parts [of "[show_int (eChainID a), eType a, eName a, show_u64 (eBlockNumber a), eEmittedAt a]"
        "[show_int (eChainID b), eType b, eName b, show_u64 (eBlockNumber b), eEmittedAt b]"]
    by (simp add: bar_free_def)
qed

section \<open>What a key promises\<close>

text \<open>The logical identity of a record, as the comments of \<^verbatim>\<open>key.go\<close> list it per type.\<close>

datatype identity =
    LogId int string "u64 option"
  | TxId int string
  | TraceId int string "int list"
  | ForkId int u64 string
  | ChangeId int string string u64
  | SampleId int string string u64 string

definition record_identity :: "envelope \<Rightarrow> identity" where
  "record_identity e =
    (if eType e = TypeEvent then LogId (eChainID e) (eTxHash e) (eLogIndex e)
     else if eType e = TypeNativeTransfer then TxId (eChainID e) (eTxHash e)
     else if eType e = TypeInternalTransfer then TraceId (eChainID e) (eTxHash e) (eTraceAddress e)
     else if eType e = TypeReorg then ForkId (eChainID e) (eBlockNumber e) (eBlockHash e)
     else if eType e \<in> {TypeBalanceChange, TypeOwnershipChange, TypeContractChange} then
       ChangeId (eChainID e) (eType e) (eName e) (eBlockNumber e)
     else SampleId (eChainID e) (eType e) (eName e) (eBlockNumber e) (eEmittedAt e))"

definition known_types :: "string set" where
  "known_types = {TypeEvent, TypeNativeTransfer, TypeInternalTransfer, TypeReorg,
     TypeBalanceSample, TypeBalanceChange, TypeOwnershipSample, TypeOwnershipChange,
     TypeContractSample, TypeContractChange}"



definition sample_log :: "u64 \<Rightarrow> envelope" where
  "sample_log i = zero_envelope \<lparr> eType := TypeEvent, eChainID := 1, eTxHash := ''0xab'',
     eLogIndex := Some i \<rparr>"


text \<open>
C2: Records of one type that a consumer must deduplicate share a partition: two records of the
same known type, whose fields hold no separator, with the same \<open>DedupKey\<close> have the same
\<open>PartitionIdentity\<close>, so a redelivery follows the first delivery on the same Kafka partition.
Without the same type this fails: \<open>dedup_key_cross_type_collision\<close>.
\<close>
theorem dedup_refines_partition:
  assumes "eType a = eType b" and "eType a \<in> known_types" and "bar_free a" and "bar_free b"
    and "DedupKey a = DedupKey b"
  shows "PartitionIdentity a = PartitionIdentity b"
proof -
  have bar: "CHR ''|'' \<notin> set (eType a)"
    using assms(2) by (auto simp: known_types_def type_defs)
  have tx: "eType a = TypeInternalTransfer \<Longrightarrow> eChainID a = eChainID b \<and> eTxHash a = eTxHash b"
    using assms key_parts [of "[show_int (eChainID a), eTxHash a, traceAddrStr (eTraceAddress a)]"
      "[show_int (eChainID b), eTxHash b, traceAddrStr (eTraceAddress b)]"]
    by (simp add: dedup_simps)
  consider "eType a = TypeEvent" | "eType a = TypeNativeTransfer" | "eType a = TypeInternalTransfer"
    | "eType a = TypeReorg" | "eType a \<in> {TypeBalanceChange, TypeOwnershipChange, TypeContractChange}"
    | "eType a \<notin> {TypeEvent, TypeNativeTransfer, TypeInternalTransfer, TypeReorg,
      TypeBalanceChange, TypeOwnershipChange, TypeContractChange}" by blast
  then show ?thesis
  proof cases
    case 1
    with assms(1) have tb: "eType b = TypeEvent" by simp
    show ?thesis using 1 tb DedupKey_event [OF 1 tb assms(3,4) assms(5)] by (simp add: PartitionIdentity_def)
  next
    case 2
    with assms(1) have tb: "eType b = TypeNativeTransfer" by simp
    show ?thesis using 2 tb DedupKey_native [OF 2 tb assms(3,4) assms(5)] by (simp add: PartitionIdentity_def)
  next
    case 3
    with assms(1) have tb: "eType b = TypeInternalTransfer" by simp
    show ?thesis using 3 tb tx [OF 3] by (simp add: PartitionIdentity_def)
  next
    case 4
    with assms(1) have tb: "eType b = TypeReorg" by simp
    show ?thesis using 4 tb DedupKey_reorg [OF 4 tb assms(3,4) assms(5)] by (simp add: PartitionIdentity_def)
  next
    case 5
    show ?thesis using 5 assms(1) DedupKey_change [OF 5 assms(1) [symmetric] assms(3,4) assms(5)] by (auto simp: PartitionIdentity_def)
  next
    case 6
    show ?thesis using 6 assms(1) DedupKey_other [OF 6 assms(1) [symmetric] bar assms(3,4) assms(5)] by (auto simp: PartitionIdentity_def)
  qed
qed

lemma dedup_refines_partition_witness:
  "PartitionIdentity (sample_log 3 \<lparr> eFinalized := True \<rparr>) = PartitionIdentity (sample_log 3)"
  by (rule dedup_refines_partition)
    (simp_all add: sample_log_def zero_envelope_def known_types_def bar_free_def DedupKey_def)

text \<open>
Across types the key is not an identity: the event with log index i and the internal
transfer with call path [i] of one transaction have the same \<open>DedupKey\<close>, although they are
different records. A sink that drops a key it has seen drops the second of them.
\<close>
theorem dedup_key_cross_type_collision:
  assumes "eType a = TypeEvent" and "eType b = TypeInternalTransfer"
    and "eChainID a = eChainID b" and "eTxHash a = eTxHash b"
    and "eLogIndex a = Some i" and "eTraceAddress b = [int (unat i)]"
  shows "DedupKey a = DedupKey b \<and> record_identity a \<noteq> record_identity b"
  using assms
  by (simp add: DedupKey_def record_identity_def type_defs logIndexStr_def traceAddrStr_def
      show_u64_def show_int_def Let_def)

lemma dedup_key_cross_type_collision_witness:
  "DedupKey (sample_log 3) = DedupKey (zero_envelope \<lparr> eType := TypeInternalTransfer, eChainID := 1,
     eTxHash := ''0xab'', eTraceAddress := [3] \<rparr>)"
  using dedup_key_cross_type_collision [of "sample_log 3" "zero_envelope \<lparr> eType := TypeInternalTransfer,
     eChainID := 1, eTxHash := ''0xab'', eTraceAddress := [3] \<rparr>" 3]
  by (simp add: sample_log_def zero_envelope_def)

end
