(* ===== verification/SinkBase.thy ===== *)
theory SinkBase
  imports Backoff Records
begin

text \<open>
  What the sinks share: \<^verbatim>\<open>evm-sink-kafka\<close>, \<^verbatim>\<open>-webhook\<close>, \<^verbatim>\<open>-aws-sqs\<close>, \<^verbatim>\<open>-aws-sns\<close>, \<^verbatim>\<open>-postgres\<close>
  and \<^verbatim>\<open>-redis\<close> each read records from standard input and deliver them one at a time with
  blocking retries. The world answers as a function of everything that happened before; what
  happens is the state: reads, delivery attempts with their outcome, metrics and readiness.
  The sinks' own loops are in their theories; the contract they share, and what follows from
  it, is stated here once as the locales \<open>retry_loop\<close> and \<open>record_loop\<close>.
\<close>

section \<open>What happens\<close>

datatype failure_class = ClassTransient | ClassPermanent

datatype read_result = ReadEOF | ReadError string | ReadRecord envelope string

datatype ('m, 'e) sink_event =
    Read read_result
  | Attempt 'm "'e option"
  | Consumed
  | FilteredOut
  | Delivered string
  | FailedAs failure_class
  | Retried
  | BackoffSeconds int
  | Blocked bool
  | ConsecutiveFailures nat
  | Reachable bool
  | EmitBlocked int
  | SleptFor int bool
  | Probed "'e option"

type_synonym ('m, 'e) sink_hist = "('m, 'e) sink_event list"

record ('m, 'e) sink_world =
  skRead :: "('m, 'e) sink_hist \<Rightarrow> read_result"
  skSend :: "('m, 'e) sink_hist \<Rightarrow> 'm \<Rightarrow> 'e option"
  skReach :: "('m, 'e) sink_hist \<Rightarrow> 'e option"
  skCancelled :: "('m, 'e) sink_hist \<Rightarrow> bool"
  skSleep :: "('m, 'e) sink_hist \<Rightarrow> bool"
  skTick :: "('m, 'e) sink_hist \<Rightarrow> bool"
  skNow :: "('m, 'e) sink_hist \<Rightarrow> int"
  skRand :: "('m, 'e) sink_hist \<Rightarrow> int \<Rightarrow> int"

datatype 'e sink_error =
    ReadFailed string
  | PermanentFailure 'e
  | NoRoute string
  | TooLarge nat
  | WriteFailed 'e
  | StillRetrying

datatype turn = Again | Stop

record sink_options =
  soBackoffBase :: int
  soBackoffMax :: int
  soProbeInterval :: int
  soProbeTimeout :: int

text \<open>What a constructor is given: which of the required parts are present, and the options.\<close>

record sink_setup =
  spReader :: bool
  spTarget :: bool
  spOptions :: sink_options

text \<open>What a constructed sink may rely on.\<close>

definition options_ok :: "sink_options \<Rightarrow> bool" where
  "options_ok Op \<longleftrightarrow> 0 < soBackoffBase Op \<and> 0 < soBackoffMax Op
     \<and> (0 < soProbeInterval Op \<longrightarrow> 0 < soProbeTimeout Op)"

definition millisecond :: int where "millisecond = 1000000"
definition second :: int where "second = 1000 * millisecond"

section \<open>Primitive steps\<close>

definition note_event :: "('m, 'e) sink_event \<Rightarrow> (('m, 'e) sink_hist, unit) state" where
  "note_event x = modify (\<lambda>h. h @ [x])"

definition sk_cancelled :: "('m, 'e) sink_world \<Rightarrow> (('m, 'e) sink_hist, bool) state" where
  "sk_cancelled W = gets (skCancelled W)"

definition sk_now :: "('m, 'e) sink_world \<Rightarrow> (('m, 'e) sink_hist, int) state" where
  "sk_now W = gets (skNow W)"

definition sk_read :: "('m, 'e) sink_world \<Rightarrow> (('m, 'e) sink_hist, read_result) state" where
  "sk_read W = do { r \<leftarrow> gets (skRead W); note_event (Read r); State_Monad.return r }"

definition sk_send :: "('m, 'e) sink_world \<Rightarrow> 'm \<Rightarrow> (('m, 'e) sink_hist, 'e option) state" where
  "sk_send W m = do { h \<leftarrow> gets id; let r = skSend W h m; note_event (Attempt m r); State_Monad.return r }"

definition sk_reach :: "('m, 'e) sink_world \<Rightarrow> (('m, 'e) sink_hist, 'e option) state" where
  "sk_reach W = do { r \<leftarrow> gets (skReach W); note_event (Probed r); State_Monad.return r }"

text \<open>\<^verbatim>\<open>backoff.Sleep\<close>: a delay that is not positive returns at once.\<close>

definition backoff_Sleep :: "('m, 'e) sink_world \<Rightarrow> int \<Rightarrow> (('m, 'e) sink_hist, bool) state" where
  "backoff_Sleep W d =
     (if d \<le> 0 then do { c \<leftarrow> sk_cancelled W; State_Monad.return (\<not> c) }
      else do { b \<leftarrow> gets (skSleep W); note_event (SleptFor d b); State_Monad.return b })"

lemma run_sink_steps [run_simps]:
  "run_state (note_event x) h = ((), h @ [x])"
  "run_state (sk_cancelled W) h = (skCancelled W h, h)"
  "run_state (sk_now W) h = (skNow W h, h)"
  "run_state (sk_read W) h = (skRead W h, h @ [Read (skRead W h)])"
  "run_state (sk_send W m) h = (skSend W h m, h @ [Attempt m (skSend W h m)])"
  "run_state (sk_reach W) h = (skReach W h, h @ [Probed (skReach W h)])"
  by (simp_all add: sk_reach_def note_event_def sk_cancelled_def sk_now_def sk_read_def sk_send_def Let_def)

lemma state_ext: "(\<And>h. run_state a h = run_state b h) \<Longrightarrow> a = b"
  by (metis state.exhaust_sel ext)

section \<open>What a history shows\<close>

text \<open>The messages the destination has confirmed, in order; the records read; the deliveries counted.\<close>

definition confirmed1 :: "('m, 'e) sink_event \<Rightarrow> 'm list" where
  "confirmed1 x = (case x of Attempt m None \<Rightarrow> [m] | _ \<Rightarrow> [])"

definition confirmed :: "('m, 'e) sink_hist \<Rightarrow> 'm list" where
  "confirmed h = concat (map confirmed1 h)"

definition attempted :: "('m, 'e) sink_hist \<Rightarrow> 'm list" where
  "attempted h = concat (map (\<lambda>x. case x of Attempt m _ \<Rightarrow> [m] | _ \<Rightarrow> []) h)"

definition records_read :: "('m, 'e) sink_hist \<Rightarrow> (envelope \<times> string) list" where
  "records_read h = concat (map (\<lambda>x. case x of Read (ReadRecord env p) \<Rightarrow> [(env, p)] | _ \<Rightarrow> []) h)"

definition delivered_count :: "('m, 'e) sink_hist \<Rightarrow> nat" where
  "delivered_count h = length (filter (\<lambda>x. case x of Delivered _ \<Rightarrow> True | _ \<Rightarrow> False) h)"

lemmas shows_defs = confirmed_def confirmed1_def attempted_def records_read_def delivered_count_def

lemma shows_append [simp]:
  "confirmed (a @ b) = confirmed a @ confirmed b" "attempted (a @ b) = attempted a @ attempted b"
  "records_read (a @ b) = records_read a @ records_read b" "delivered_count (a @ b) = delivered_count a + delivered_count b"
  "confirmed [] = []" "attempted [] = []" "records_read [] = []" "delivered_count [] = 0"
  by (simp_all add: shows_defs)

text \<open>Events that neither read, nor attempt, nor count a delivery.\<close>

definition signal :: "('m, 'e) sink_event \<Rightarrow> bool" where
  "signal x \<longleftrightarrow> (case x of Read _ \<Rightarrow> False | Attempt _ _ \<Rightarrow> False | Delivered _ \<Rightarrow> False | _ \<Rightarrow> True)"

lemma shows_Cons [simp]:
  "signal x \<Longrightarrow> confirmed (x # h) = confirmed h" "signal x \<Longrightarrow> attempted (x # h) = attempted h"
  "signal x \<Longrightarrow> records_read (x # h) = records_read h" "signal x \<Longrightarrow> delivered_count (x # h) = delivered_count h"
  "confirmed (Attempt m r # h) = (if r = None then m # confirmed h else confirmed h)"
  "attempted (Attempt m r # h) = m # attempted h" "records_read (Attempt m r # h) = records_read h"
  "delivered_count (Attempt m r # h) = delivered_count h"
  "confirmed (Read rr # h) = confirmed h" "attempted (Read rr # h) = attempted h"
  "records_read (Read rr # h) = (case rr of ReadRecord env p \<Rightarrow> (env, p) # records_read h | _ \<Rightarrow> records_read h)"
  "delivered_count (Read rr # h) = delivered_count h"
  "confirmed (Delivered t # h) = confirmed h" "attempted (Delivered t # h) = attempted h"
  "records_read (Delivered t # h) = records_read h" "delivered_count (Delivered t # h) = Suc (delivered_count h)"
  by (auto simp: shows_defs signal_def split: sink_event.splits option.splits read_result.splits)

lemma signal_simps [simp]: "signal Consumed" "signal FilteredOut" "signal (FailedAs c)" "signal Retried"
    "signal (BackoffSeconds d)" "signal (Blocked b)" "signal (ConsecutiveFailures n)" "signal (Reachable b)"
    "signal (EmitBlocked d)" "signal (SleptFor d b)" "signal (Probed r)"
  by (simp_all add: signal_def)

text \<open>Failed attempts so far.\<close>

definition failures :: "('m, 'e) sink_hist \<Rightarrow> nat" where
  "failures h = length (filter (\<lambda>x. case x of Attempt _ (Some _) \<Rightarrow> True | _ \<Rightarrow> False) h)"

lemma failures_simps [simp]: "failures [] = 0" "failures (a @ b) = failures a + failures b"
    "failures (Attempt m r # h) = (if r = None then failures h else Suc (failures h))"
    "signal x \<Longrightarrow> failures (x # h) = failures h" "failures (Read rr # h) = failures h" "failures (Delivered dt # h) = failures h"
  by (auto simp: failures_def signal_def split: option.splits sink_event.splits)

section \<open>The retry discipline\<close>

text \<open>A retry loop sends one message until it is confirmed, the context ends, or the error is
permanent; \<open>fuel\<close> bounds its turns. Most sinks look at the context again after a failed attempt
(\<open>rechecks\<close>), the file sink does not. Its laws are proved once for every loop of this shape.\<close>

locale retry_loop =
  fixes loop :: "nat \<Rightarrow> ('m, 'e) sink_world \<Rightarrow> nat \<Rightarrow> int option \<Rightarrow> 'm \<Rightarrow> (('m, 'e) sink_hist, 'e sink_error + bool) state"
    and classify :: "'e \<Rightarrow> failure_class"
    and delay :: "(int \<Rightarrow> int) \<Rightarrow> nat \<Rightarrow> int"
    and clear :: "(('m, 'e) sink_hist, unit) state"
    and rechecks :: bool
  assumes no_fuel: "loop 0 W attempt since m = fail StillRetrying"
    and clears: "run_state clear h = ((), h @ [Blocked False, BackoffSeconds 0, EmitBlocked 0])"
    and one_turn: "loop (Suc fuel) W attempt since m =
      do { c \<leftarrow> sk_cancelled W;
           if c then ok False
           else do {
             start \<leftarrow> sk_now W;
             perr \<leftarrow> sk_send W m;
             (case perr of
                None \<Rightarrow> do {
                  (if attempt > 0 then clear else skip);
                  note_event (Reachable True);
                  note_event (ConsecutiveFailures 0);
                  ok True }
              | Some e \<Rightarrow> do {
                  c2 \<leftarrow> (if rechecks then sk_cancelled W else State_Monad.return False);
                  if c2 then ok False
                  else do {
                    note_event (FailedAs (classify e));
                    if classify e = ClassPermanent then do { clear; fail (PermanentFailure e) }
                    else do {
                      t \<leftarrow> sk_now W;
                      note_event (Blocked True);
                      note_event (ConsecutiveFailures (attempt + 1));
                      note_event Retried;
                      note_event (Reachable False);
                      note_event (EmitBlocked (t - (case since of None \<Rightarrow> start | Some b \<Rightarrow> b)));
                      h \<leftarrow> gets id;
                      note_event (BackoffSeconds (delay (skRand W h) (attempt + 1)));
                      slept \<leftarrow> backoff_Sleep W (delay (skRand W h) (attempt + 1));
                      if \<not> slept then ok False
                      else loop fuel W (attempt + 1) (Some (case since of None \<Rightarrow> start | Some b \<Rightarrow> b)) m } } }) } }"
begin

text \<open>The events of a turn that fails transiently.\<close>

lemma transient_turn:
  assumes "\<not> skCancelled W h" and "skSend W h m = Some e" and "classify e \<noteq> ClassPermanent"
    and "\<not> (rechecks \<and> skCancelled W (h @ [Attempt m (Some e)]))"
  shows "\<exists>t b since'. (\<forall>x \<in> set t. signal x) \<and>
     run_state (loop (Suc fuel) W attempt since m) h =
       (if b then run_state (loop fuel W (attempt + 1) since' m) (h @ Attempt m (Some e) # t)
        else (Inr False, h @ Attempt m (Some e) # t))
     \<and> (\<not> b \<longrightarrow> skCancelled W (h @ Attempt m (Some e) # t) \<or> (\<exists>d. SleptFor d False \<in> set t))
     \<and> ((\<forall>h. \<not> skCancelled W h \<and> skSleep W h) \<longrightarrow> b)"
proof -
  let ?s = "case since of None \<Rightarrow> skNow W h | Some b \<Rightarrow> b"
  let ?h1 = "h @ [Attempt m (Some e)]"
  let ?pre = "[FailedAs (classify e), Blocked True, ConsecutiveFailures (attempt + 1), Retried, Reachable False,
    EmitBlocked (skNow W (?h1 @ [FailedAs (classify e)]) - ?s)]"
  let ?d = "delay (skRand W (?h1 @ ?pre)) (attempt + 1)"
  let ?h2 = "?h1 @ ?pre @ [BackoffSeconds ?d]"
  let ?b = "if ?d \<le> 0 then \<not> skCancelled W ?h2 else skSleep W ?h2"
  let ?t = "?pre @ [BackoffSeconds ?d] @ (if ?d \<le> 0 then [] else [SleptFor ?d ?b])"
  have "run_state (loop (Suc fuel) W attempt since m) h =
       (if ?b then run_state (loop fuel W (attempt + 1) (Some ?s) m) (h @ Attempt m (Some e) # ?t)
        else (Inr False, h @ Attempt m (Some e) # ?t))"
    using assms by (cases rechecks) (simp_all add: one_turn run_simps backoff_Sleep_def)
  then show ?thesis by (intro exI [of _ ?t] exI [of _ ?b] exI [of _ "Some ?s"]) auto
qed

text \<open>What the loop promises about the one message it is given.\<close>

lemma signals: "\<forall>x \<in> set t. signal x \<Longrightarrow>
    confirmed t = [] \<and> attempted t = [] \<and> records_read t = [] \<and> delivered_count t = 0 \<and> failures t = 0
    \<and> (\<forall>rr. Read rr \<notin> set t)"
  by (induction t) (auto simp: signal_def)

lemma outcome:
  "run_state (loop fuel W attempt since m) h = (r, h') \<Longrightarrow>
     \<exists>t. h' = h @ t \<and> (\<forall>rr. Read rr \<notin> set t) \<and> records_read t = [] \<and> delivered_count t = 0 \<and> set (attempted t) \<subseteq> {m}
       \<and> confirmed t = (if r = Inr True then [m] else [])
       \<and> (\<forall>err. r = Inl err \<longrightarrow> err = StillRetrying
            \<or> (\<exists>e. err = PermanentFailure e \<and> classify e = ClassPermanent \<and> Attempt m (Some e) \<in> set t))"
proof (induction fuel arbitrary: attempt since h)
  case 0
  then have "r = Inl StillRetrying" "h' = h @ []" by (simp_all add: no_fuel)
  then show ?case by (intro exI [of _ "[]"]) simp
next
  case (Suc fuel)
  show ?case
  proof (cases "skCancelled W h")
    case True
    with Suc.prems have "r = Inr False" "h' = h @ []" by (simp_all add: one_turn run_simps)
    then show ?thesis by (intro exI [of _ "[]"]) simp
  next
    case nc: False
    show ?thesis
    proof (cases "skSend W h m")
      case None
      let ?t = "Attempt m None # (if attempt > 0 then [Blocked False, BackoffSeconds 0, EmitBlocked 0] else [])
        @ [Reachable True, ConsecutiveFailures 0]"
      from None nc Suc.prems have "r = Inr True" "h' = h @ ?t"
        by (auto simp: one_turn run_simps clears split: if_splits)
      then show ?thesis by (intro exI [of _ ?t]) auto
    next
      case (Some e)
      show ?thesis
      proof (cases "rechecks \<and> skCancelled W (h @ [Attempt m (Some e)])")
        case True
        with Some nc Suc.prems have "r = Inr False" "h' = h @ [Attempt m (Some e)]"
          by (simp_all add: one_turn run_simps)
        then show ?thesis by (intro exI [of _ "[Attempt m (Some e)]"]) simp
      next
        case nc2: False
        show ?thesis
        proof (cases "classify e = ClassPermanent")
          case True
          let ?t = "[Attempt m (Some e), FailedAs ClassPermanent, Blocked False, BackoffSeconds 0, EmitBlocked 0]"
          from True Some nc nc2 Suc.prems have "r = Inl (PermanentFailure e)" "h' = h @ ?t"
            by (cases rechecks; simp add: one_turn run_simps clears)+
          with True show ?thesis by (intro exI [of _ ?t]) auto
        next
          case False
          from transient_turn [OF nc Some False nc2, of fuel attempt since] obtain t b since' where
            sg: "\<forall>x \<in> set t. signal x" and tr: "run_state (loop (Suc fuel) W attempt since m) h =
               (if b then run_state (loop fuel W (attempt + 1) since' m) (h @ Attempt m (Some e) # t)
                else (Inr False, h @ Attempt m (Some e) # t))" by blast
          note qs = signals [OF sg]
          show ?thesis
          proof (cases b)
            case True
            with tr Suc.prems have "run_state (loop fuel W (attempt + 1) since' m) (h @ Attempt m (Some e) # t) = (r, h')"
              by simp
            from Suc.IH [OF this] obtain t2 where "h' = (h @ Attempt m (Some e) # t) @ t2"
              "\<forall>rr. Read rr \<notin> set t2" "records_read t2 = []" "delivered_count t2 = 0" "set (attempted t2) \<subseteq> {m}"
              "confirmed t2 = (if r = Inr True then [m] else [])"
              "\<forall>err. r = Inl err \<longrightarrow> err = StillRetrying
                 \<or> (\<exists>e. err = PermanentFailure e \<and> classify e = ClassPermanent \<and> Attempt m (Some e) \<in> set t2)"
              by blast
            then show ?thesis using qs by (intro exI [of _ "Attempt m (Some e) # t @ t2"]) auto
          next
            case False
            with tr Suc.prems have "r = Inr False" "h' = h @ Attempt m (Some e) # t" by auto
            then show ?thesis using qs by (intro exI [of _ "Attempt m (Some e) # t"]) auto
          qed
        qed
      qed
    qed
  qed
qed

text \<open>An outage of bounded length ends in a confirmation.\<close>

lemma survives:
  assumes "\<forall>h. \<not> skCancelled W h \<and> skSleep W h"
    and "\<forall>h m e. skSend W h m = Some e \<longrightarrow> classify e = ClassTransient"
    and "\<forall>h m. K \<le> failures h \<longrightarrow> skSend W h m = None"
  shows "K \<le> failures h + fuel \<Longrightarrow> fst (run_state (loop (Suc fuel) W attempt since m) h) = Inr True"
proof (induction fuel arbitrary: attempt since h)
  case 0
  then have "skSend W h m = None" using assms(3) by simp
  then show ?case using assms(1) by (auto simp: one_turn run_simps clears)
next
  case (Suc fuel)
  show ?case
  proof (cases "skSend W h m")
    case None
    then show ?thesis using assms(1) by (auto simp: one_turn [of "Suc fuel"] run_simps clears)
  next
    case (Some e)
    have np: "classify e \<noteq> ClassPermanent" using Some assms(2) by fastforce
    have nc: "\<not> skCancelled W h" "\<not> (rechecks \<and> skCancelled W (h @ [Attempt m (Some e)]))" using assms(1) by blast+
    from transient_turn [OF nc(1) Some np nc(2), of "Suc fuel" attempt since] assms(1) obtain t since' where
      sg: "\<forall>x \<in> set t. signal x" and tr: "run_state (loop (Suc (Suc fuel)) W attempt since m) h =
         run_state (loop (Suc fuel) W (attempt + 1) since' m) (h @ Attempt m (Some e) # t)" by (metis (full_types))
    have "failures (h @ Attempt m (Some e) # t) = Suc (failures h)" using signals [OF sg] by simp
    with Suc show ?thesis unfolding tr by simp
  qed
qed

end

section \<open>The record loop\<close>

text \<open>A sink reads a record, prepares a message from it - or drops it by its filter, or refuses
it - delivers the message, and only then reads on. The client relies on four promises of the
delivery and on nothing else; \<open>limit\<close> is what bounds its turns.\<close>

definition messages_of ::
  "(envelope \<Rightarrow> string \<Rightarrow> 'e sink_error + 'm option) \<Rightarrow> (envelope \<times> string) list \<Rightarrow> 'm list" where
  "messages_of prepare rs =
     concat (map (\<lambda>(env, p). case prepare env p of Inr (Some m) \<Rightarrow> [m] | _ \<Rightarrow> []) rs)"

lemma messages_of_simps [simp]: "messages_of prepare [] = []"
    "messages_of prepare ((env, p) # rs) =
       (case prepare env p of Inr (Some m) \<Rightarrow> m # messages_of prepare rs | _ \<Rightarrow> messages_of prepare rs)"
    "messages_of prepare (a @ b) = messages_of prepare a @ messages_of prepare b"
  by (auto simp: messages_of_def split: sum.splits option.splits)

locale record_loop =
  fixes classify :: "'e \<Rightarrow> failure_class"
    and deliver :: "nat \<Rightarrow> ('m, 'e) sink_world \<Rightarrow> 'm \<Rightarrow> (('m, 'e) sink_hist, 'e sink_error + bool) state"
    and prepare :: "envelope \<Rightarrow> string \<Rightarrow> 'e sink_error + 'm option"
    and turn :: "nat \<Rightarrow> ('m, 'e) sink_world \<Rightarrow> (('m, 'e) sink_hist, 'e sink_error + turn) state"
    and run :: "nat \<Rightarrow> nat \<Rightarrow> ('m, 'e) sink_world \<Rightarrow> (('m, 'e) sink_hist, 'e sink_error + turn) state"
  assumes promise: "run_state (deliver limit W m) h = (r, h') \<Longrightarrow>
       \<exists>t. h' = h @ t \<and> (\<forall>rr. Read rr \<notin> set t) \<and> records_read t = [] \<and> delivered_count t = 0 \<and> set (attempted t) \<subseteq> {m}
         \<and> confirmed t = (if r = Inr True then [m] else [])"
    and keeps_trying: "\<forall>h. \<not> skCancelled W h \<and> skSleep W h \<Longrightarrow>
       \<forall>h m e. skSend W h m = Some e \<longrightarrow> classify e = ClassTransient \<Longrightarrow>
       \<forall>h m. limit \<le> failures h \<longrightarrow> skSend W h m = None \<Longrightarrow>
       fst (run_state (deliver limit W m) h) = Inr True"
    and turn_eq: "turn limit W =
      do { c \<leftarrow> sk_cancelled W;
           if c then ok Stop
           else do {
             r \<leftarrow> sk_read W;
             (case r of
                ReadEOF \<Rightarrow> ok Stop
              | ReadError e \<Rightarrow> do { c2 \<leftarrow> sk_cancelled W; if c2 then ok Stop else fail (ReadFailed e) }
              | ReadRecord env payload \<Rightarrow> do {
                  note_event Consumed;
                  (case prepare env payload of
                     Inl err \<Rightarrow> fail err
                   | Inr None \<Rightarrow> do { note_event FilteredOut; ok Again }
                   | Inr (Some m) \<Rightarrow>
                       check (deliver limit W m) (\<lambda>posted.
                         if \<not> posted then ok Stop
                         else do { note_event (Delivered (eType env)); ok Again })) }) } }"
    and run_0: "run 0 limit W = ok Again"
    and run_Suc: "run (Suc n) limit W = check (turn limit W) (\<lambda>t. if t = Stop then ok Stop else run n limit W)"
begin

text \<open>One turn: nothing pending, or the message of the record just read.\<close>

lemma turn_outcome:
  assumes "run_state (turn limit W) h = (r, h')"
  shows "\<exists>t pending. h' = h @ t \<and> messages_of prepare (records_read t) = confirmed t @ pending
    \<and> set (attempted t) \<subseteq> set (messages_of prepare (records_read t))
    \<and> length pending \<le> 1 \<and> delivered_count t = length (confirmed t)
    \<and> (pending \<noteq> [] \<longrightarrow> r \<noteq> Inr Again \<and> last t \<noteq> Read ReadEOF)
    \<and> (\<forall>(env, p) \<in> set (records_read t). \<forall>err. prepare env p = Inl err \<longrightarrow> r = Inl err)"
proof (cases "skCancelled W h")
  case True
  with assms have "h' = h @ []" by (simp add: turn_eq run_simps)
  then show ?thesis by (intro exI [of _ "[]"]) simp
next
  case nc: False
  let ?r = "skRead W h"
  show ?thesis
  proof (cases ?r)
    case (ReadRecord env p)
    let ?h1 = "h @ [Read ?r, Consumed]"
    show ?thesis
    proof (cases "prepare env p")
      case (Inl err)
      with assms nc ReadRecord have "h' = h @ [Read ?r, Consumed]" "r = Inl err" by (simp_all add: turn_eq run_simps)
      with ReadRecord Inl show ?thesis by (intro exI [of _ "[Read ?r, Consumed]"]) simp
    next
      case (Inr mo)
      show ?thesis
      proof (cases mo)
        case None
        with assms nc ReadRecord Inr have "h' = h @ [Read ?r, Consumed, FilteredOut]" by (simp add: turn_eq run_simps)
        with ReadRecord Inr None show ?thesis by (intro exI [of _ "[Read ?r, Consumed, FilteredOut]"]) simp
      next
        case (Some m)
        obtain r1 h2 where d: "run_state (deliver limit W m) ?h1 = (r1, h2)" by (metis surj_pair)
        from promise [OF d] obtain t where t: "h2 = ?h1 @ t" "\<forall>rr. Read rr \<notin> set t" "records_read t = []" "delivered_count t = 0"
          "set (attempted t) \<subseteq> {m}" "confirmed t = (if r1 = Inr True then [m] else [])" by blast
        show ?thesis
        proof (cases "r1 = Inr True")
          case True
          with assms nc ReadRecord Inr Some d have "h' = h2 @ [Delivered (eType env)]"
            by (simp add: turn_eq run_simps)
          with t True ReadRecord Inr Some show ?thesis
            by (intro exI [of _ "Read ?r # Consumed # t @ [Delivered (eType env)]"]) simp
        next
          case False
          with assms nc ReadRecord Inr Some d have "h' = h2" "r \<noteq> Inr Again"
            by (auto simp: turn_eq run_simps split: sum.splits)
          moreover have "last (Read ?r # Consumed # t) \<noteq> Read ReadEOF"
          proof
            assume a: "last (Read ?r # Consumed # t) = Read ReadEOF"
            then have "t \<noteq> []" by auto
            with a have "Read ReadEOF \<in> set t" by (metis last_ConsR last_in_set list.discI)
            with t(2) show False by blast
          qed
          ultimately show ?thesis using t False ReadRecord Inr Some
            by (intro exI [of _ "Read ?r # Consumed # t"] exI [of _ "[m]"]) simp
        qed
      qed
    qed
  next
    case ReadEOF
    with assms nc have "h' = h @ [Read ?r]" by (simp add: turn_eq run_simps)
    with ReadEOF show ?thesis by (intro exI [of _ "[Read ?r]"]) simp
  next
    case (ReadError e)
    with assms nc have "h' = h @ [Read ?r]" by (simp add: turn_eq run_simps split: if_splits)
    with ReadError show ?thesis by (intro exI [of _ "[Read ?r]"]) simp
  qed
qed

lemma run_stops:
  assumes "run_state (turn limit W) h = (r1, h1)" and "r1 \<noteq> Inr Again"
  shows "run_state (run (Suc n) limit W) h = (r1, h1)"
proof (cases r1)
  case (Inr x)
  with assms(2) have "x = Stop" by (cases x) auto
  with assms(1) Inr show ?thesis by (simp add: run_Suc run_simps)
qed (use assms(1) in \<open>simp add: run_Suc run_simps\<close>)

text \<open>Any number of turns: no loss, no reordering, no duplicate among the confirmed messages.\<close>

lemma in_order:
  assumes "run_state (run n limit W) h = (r, h')"
  shows "\<exists>t pending. h' = h @ t \<and> messages_of prepare (records_read t) = confirmed t @ pending
    \<and> set (attempted t) \<subseteq> set (messages_of prepare (records_read t))
    \<and> length pending \<le> 1 \<and> delivered_count t = length (confirmed t)
    \<and> (pending \<noteq> [] \<longrightarrow> r \<noteq> Inr Again \<and> last t \<noteq> Read ReadEOF)
    \<and> (\<forall>(env, p) \<in> set (records_read t). \<forall>err. prepare env p = Inl err \<longrightarrow> r = Inl err)"
  using assms
proof (induction n arbitrary: h)
  case 0
  then show ?case by (intro exI [of _ "[]"]) (simp add: run_0)
next
  case (Suc n)
  obtain r1 h1 where t1: "run_state (turn limit W) h = (r1, h1)" by (metis surj_pair)
  show ?case
  proof (cases "r1 = Inr Again")
    case False
    with run_stops [OF t1 this] Suc.prems have "r = r1" "h' = h1" by simp_all
    with turn_outcome [OF t1] show ?thesis by simp
  next
    case True
    with t1 Suc.prems have rest: "run_state (run n limit W) h1 = (r, h')" by (simp add: run_Suc run_simps)
    from turn_outcome [OF t1] True obtain t where
      t: "h1 = h @ t" "messages_of prepare (records_read t) = confirmed t"
        "set (attempted t) \<subseteq> set (messages_of prepare (records_read t))"
        "\<forall>(env, p) \<in> set (records_read t). \<forall>err. prepare env p \<noteq> Inl err" "delivered_count t = length (confirmed t)"
      by fastforce
    from Suc.IH [OF rest] obtain u pending where
      u: "h' = h1 @ u" "messages_of prepare (records_read u) = confirmed u @ pending"
      "set (attempted u) \<subseteq> set (messages_of prepare (records_read u))"
      "length pending \<le> 1" "delivered_count u = length (confirmed u)"
      "pending \<noteq> [] \<longrightarrow> r \<noteq> Inr Again \<and> last u \<noteq> Read ReadEOF"
      "\<forall>(env, p) \<in> set (records_read u). \<forall>err. prepare env p = Inl err \<longrightarrow> r = Inl err" by blast
    have "pending \<noteq> [] \<longrightarrow> u \<noteq> []" using u(2) by auto
    with t u show ?thesis by (intro exI [of _ "t @ u"] exI [of _ pending]) auto
  qed
qed

text \<open>When the outages are bounded, nothing stays pending: every message read is confirmed.\<close>

lemma all_confirmed:
  assumes "run_state (run n limit W) h = (r, h')"
    and "\<forall>h. \<not> skCancelled W h \<and> skSleep W h"
    and "\<forall>h m e. skSend W h m = Some e \<longrightarrow> classify e = ClassTransient"
    and "\<forall>h m. limit \<le> failures h \<longrightarrow> skSend W h m = None"
  shows "\<exists>t. h' = h @ t \<and> confirmed t = messages_of prepare (records_read t)
    \<and> (\<forall>err. r = Inl err \<longrightarrow> (\<exists>e. err = ReadFailed e) \<or> (\<exists>env p. (env, p) \<in> set (records_read t) \<and> prepare env p = Inl err))"
  using assms(1)
proof (induction n arbitrary: h)
  case 0
  then have "r = Inr Again" "h' = h" by (simp_all add: run_0)
  then show ?case by (intro exI [of _ "[]"]) simp
next
  case (Suc n)
  note ok = keeps_trying [OF assms(2-4)]
  obtain r1 h1 where t1: "run_state (turn limit W) h = (r1, h1)" by (metis surj_pair)
  have one: "\<exists>t. h1 = h @ t \<and> confirmed t = messages_of prepare (records_read t)
    \<and> (\<forall>err. r1 = Inl err \<longrightarrow> (\<exists>e. err = ReadFailed e) \<or> (\<exists>env p. (env, p) \<in> set (records_read t) \<and> prepare env p = Inl err))"
  proof (cases "skRead W h")
    case (ReadRecord env p)
    let ?h1 = "h @ [Read (skRead W h), Consumed]"
    show ?thesis
    proof (cases "\<exists>m. prepare env p = Inr (Some m)")
      case True
      then obtain m where m: "prepare env p = Inr (Some m)" by blast
      obtain h2 where d: "run_state (deliver limit W m) ?h1 = (Inr True, h2)" using ok by (metis prod.collapse)
      from promise [OF d] obtain t where "h2 = ?h1 @ t" "records_read t = []" "confirmed t = [m]" by auto
      moreover have "h1 = h2 @ [Delivered (eType env)]" "r1 = Inr Again"
        using t1 assms(2) ReadRecord m d by (simp_all add: turn_eq run_simps)
      ultimately show ?thesis using ReadRecord m
        by (intro exI [of _ "Read (skRead W h) # Consumed # t @ [Delivered (eType env)]"]) simp
    next
      case False
      then consider (err) e where "prepare env p = Inl e" | (none) "prepare env p = Inr None"
        by (metis option.exhaust sum.exhaust)
      then show ?thesis
      proof cases
        case err
        with t1 assms(2) ReadRecord have "h1 = ?h1" "r1 = Inl e" by (simp_all add: turn_eq run_simps)
        with err ReadRecord show ?thesis by (intro exI [of _ "[Read (skRead W h), Consumed]"]) auto
      next
        case none
        with t1 assms(2) ReadRecord have "h1 = ?h1 @ [FilteredOut]" "r1 = Inr Again" by (simp_all add: turn_eq run_simps)
        with none ReadRecord show ?thesis by (intro exI [of _ "[Read (skRead W h), Consumed, FilteredOut]"]) simp
      qed
    qed
  next
    case ReadEOF
    with t1 assms(2) have "h1 = h @ [Read (skRead W h)]" "r1 = Inr Stop" by (simp_all add: turn_eq run_simps)
    with ReadEOF show ?thesis by (intro exI [of _ "[Read (skRead W h)]"]) simp
  next
    case (ReadError e)
    with t1 assms(2) have "h1 = h @ [Read (skRead W h)]" "r1 = Inl (ReadFailed e)" by (simp_all add: turn_eq run_simps)
    with ReadError show ?thesis by (intro exI [of _ "[Read (skRead W h)]"]) simp
  qed
  show ?case
  proof (cases "r1 = Inr Again")
    case False
    with run_stops [OF t1 this] Suc.prems have "r = r1" "h' = h1" by simp_all
    with one show ?thesis by simp
  next
    case True
    with t1 Suc.prems have "run_state (run n limit W) h1 = (r, h')" by (simp add: run_Suc run_simps)
    from Suc.IH [OF this] one obtain t u where "h1 = h @ t" "confirmed t = messages_of prepare (records_read t)"
      "h' = h1 @ u" "confirmed u = messages_of prepare (records_read u)"
      "\<forall>err. r = Inl err \<longrightarrow> (\<exists>e. err = ReadFailed e) \<or> (\<exists>env p. (env, p) \<in> set (records_read u) \<and> prepare env p = Inl err)"
      by blast
    then show ?thesis by (intro exI [of _ "t @ u"]) auto
  qed
qed

end

section \<open>Lost replies\<close>

text \<open>The attempts that took effect at the destination: a confirmed attempt did, a failed one may have
(\<open>landed\<close> says which), since the error can be that of a lost reply.\<close>

fun effects :: "(('m, 'e) sink_hist \<Rightarrow> bool) \<Rightarrow> ('m, 'e) sink_hist \<Rightarrow> ('m, 'e) sink_hist \<Rightarrow> 'm list" where
  "effects landed past [] = []"
| "effects landed past (x # h) =
     (case x of
        Attempt m r \<Rightarrow> (if r = None \<or> landed past then m # effects landed (past @ [x]) h else effects landed (past @ [x]) h)
      | _ \<Rightarrow> effects landed (past @ [x]) h)"

lemma effects_between: "set (confirmed h) \<subseteq> set (effects landed past h) \<and> set (effects landed past h) \<subseteq> set (attempted h)"
proof (induction h arbitrary: past)
  case (Cons x h)
  from Cons.IH [of "past @ [x]"] show ?case
    by (cases x) (auto simp: shows_defs split: option.splits)
qed simp

section \<open>A sample stream of one record\<close>

definition sample_record :: envelope where
  "sample_record = zero_envelope\<lparr> eType := TypeReorg, eChainID := 1 \<rparr>"

definition one_record :: "('m, 'e) sink_hist \<Rightarrow> read_result" where
  "one_record h = (if records_read h = [] then ReadRecord sample_record ''{}'' else ReadEOF)"

definition quick_options :: sink_options where
  "quick_options = \<lparr> soBackoffBase = 1, soBackoffMax = 1, soProbeInterval = 0, soProbeTimeout = 0 \<rparr>"

end
