(* ===== verification/PgSink.thy ===== *)
theory PgSink
  imports SinkBase
begin

text \<open>
  \<^verbatim>\<open>evm-sink-postgres\<close>: \<^verbatim>\<open>src/internal/pgsink/pgsink.go\<close> and the row that
  \<^verbatim>\<open>src/internal/pgsink/postgres.go\<close> inserts.
\<close>

section \<open>Errors\<close>

text \<open>A server error with its SQLSTATE, or anything else (connection, network, timeout).\<close>

datatype pg_error = PgError string | PgOther string

definition pg_Classify :: "pg_error \<Rightarrow> failure_class" where
  "pg_Classify e =
     (case e of
        PgError code \<Rightarrow>
          if length code \<ge> 2 then
            (if take 2 code \<in> {''08'', ''53'', ''40'', ''57'', ''55''} then ClassTransient else ClassPermanent)
          else ClassTransient
      | PgOther _ \<Rightarrow> ClassTransient)"

section \<open>The loop\<close>

text \<open>\<^verbatim>\<open>New\<close>: the required parts, then the defaults.\<close>

definition pg_New :: "sink_setup \<Rightarrow> string + sink_options" where
  "pg_New st =
     (if \<not> spReader st then Inl ''pgsink: reader is required''
      else if \<not> spTarget st then Inl ''pgsink: inserter is required''
      else
        (let Op = spOptions st;
             base = (if soBackoffBase Op \<le> 0 then 500 * millisecond else soBackoffBase Op);
             mx = (if soBackoffMax Op \<le> 0 then 30 * second else soBackoffMax Op);
             timeout = (if soProbeInterval Op > 0 \<and> soProbeTimeout Op \<le> 0
                        then (if soProbeInterval Op < 10 * second then soProbeInterval Op else 10 * second)
                        else soProbeTimeout Op)
         in Inr (Op\<lparr> soBackoffBase := base, soBackoffMax := mx, soProbeTimeout := timeout \<rparr>)))"

definition pg_jitter :: "(int \<Rightarrow> int) \<Rightarrow> int \<Rightarrow> int" where
  "pg_jitter randInt d = (if d \<le> 0 then 0 else (let half = d div 2 in half + randInt (half + 1)))"

definition pg_backoffFor :: "sink_options \<Rightarrow> (int \<Rightarrow> int) \<Rightarrow> nat \<Rightarrow> int" where
  "pg_backoffFor Op randInt attempt =
     pg_jitter randInt (backoff_Duration (int attempt) (soBackoffBase Op) (soBackoffMax Op))"

definition pg_clearBlocked :: "(((envelope \<times> string), pg_error) sink_hist, unit) state" where
  "pg_clearBlocked = do { note_event (Blocked False); note_event (BackoffSeconds 0); note_event (EmitBlocked 0) }"

fun pg_insertWithRetry :: "nat \<Rightarrow> sink_options \<Rightarrow> ((envelope \<times> string), pg_error) sink_world \<Rightarrow> nat \<Rightarrow> int option \<Rightarrow> (envelope \<times> string)
    \<Rightarrow> (((envelope \<times> string), pg_error) sink_hist, pg_error sink_error + bool) state" where
  "pg_insertWithRetry 0 Op W attempt blockedSince m = fail StillRetrying"
| "pg_insertWithRetry (Suc fuel) Op W attempt blockedSince m =
     do { cancelled \<leftarrow> sk_cancelled W;
          if cancelled then ok False
          else do {
            start \<leftarrow> sk_now W;
            perr \<leftarrow> sk_send W m;
            (case perr of
               None \<Rightarrow> do {
                 (if attempt > 0 then pg_clearBlocked else skip);
                 note_event (Reachable True);
                 note_event (ConsecutiveFailures 0);
                 ok True }
             | Some e \<Rightarrow> do {
                 cancelled2 \<leftarrow> sk_cancelled W;
                 if cancelled2 then ok False
                 else do {
                   note_event (FailedAs (pg_Classify e));
                   if pg_Classify e = ClassPermanent then do { pg_clearBlocked; fail (PermanentFailure e) }
                   else do {
                     t \<leftarrow> sk_now W;
                     note_event (Blocked True);
                     note_event (ConsecutiveFailures (attempt + 1));
                     note_event Retried;
                     note_event (Reachable False);
                     note_event (EmitBlocked (t - (case blockedSince of None \<Rightarrow> start | Some b \<Rightarrow> b)));
                     h \<leftarrow> gets id;
                     note_event (BackoffSeconds (pg_backoffFor Op (skRand W h) (attempt + 1)));
                     slept \<leftarrow> backoff_Sleep W (pg_backoffFor Op (skRand W h) (attempt + 1));
                     if \<not> slept then ok False
                     else pg_insertWithRetry fuel Op W (attempt + 1)
                            (Some (case blockedSince of None \<Rightarrow> start | Some b \<Rightarrow> b)) m } } }) } }"

text \<open>The readiness probe runs beside the loop and writes only the readiness.\<close>

definition pg_probeOnce :: "((envelope \<times> string), pg_error) sink_world \<Rightarrow> (((envelope \<times> string), pg_error) sink_hist, unit) state" where
  "pg_probeOnce W =
     do { cancelled \<leftarrow> sk_cancelled W;
          if cancelled then skip
          else do { err \<leftarrow> sk_reach W; note_event (Reachable (err = None)) } }"

fun pg_probe_ticks :: "nat \<Rightarrow> ((envelope \<times> string), pg_error) sink_world \<Rightarrow> (((envelope \<times> string), pg_error) sink_hist, unit) state" where
  "pg_probe_ticks 0 W = skip"
| "pg_probe_ticks (Suc n) W =
     do { tick \<leftarrow> gets (skTick W);
          if \<not> tick then skip else do { pg_probeOnce W; pg_probe_ticks n W } }"

definition pg_probeLoop :: "nat \<Rightarrow> ((envelope \<times> string), pg_error) sink_world \<Rightarrow> (((envelope \<times> string), pg_error) sink_hist, unit) state" where
  "pg_probeLoop n W = do { pg_probeOnce W; pg_probe_ticks n W }"

text \<open>One turn of the loop of \<^verbatim>\<open>Run\<close>; \<open>limit\<close> bounds the retries of a record, \<open>n\<close> the records.\<close>

definition pg_turn :: "sink_options \<Rightarrow> nat \<Rightarrow> ((envelope \<times> string), pg_error) sink_world \<Rightarrow> (((envelope \<times> string), pg_error) sink_hist, pg_error sink_error + turn) state" where
  "pg_turn Op limit W =
     do { cancelled \<leftarrow> sk_cancelled W;
          if cancelled then ok Stop
          else do {
            r \<leftarrow> sk_read W;
            (case r of
               ReadEOF \<Rightarrow> ok Stop
             | ReadError e \<Rightarrow> do { cancelled2 \<leftarrow> sk_cancelled W; if cancelled2 then ok Stop else fail (ReadFailed e) }
             | ReadRecord env payload \<Rightarrow> do {
                 note_event Consumed;
                 inserted \<leftarrow> pg_insertWithRetry (Suc limit) Op W 0 None (env, payload);
                 (case inserted of
                    Inl e \<Rightarrow> fail e
                  | Inr False \<Rightarrow> ok Stop
                  | Inr True \<Rightarrow> do { note_event (Delivered (eType env)); ok Again }) }) } }"

fun pg_Run :: "sink_options \<Rightarrow> nat \<Rightarrow> nat \<Rightarrow> ((envelope \<times> string), pg_error) sink_world \<Rightarrow> (((envelope \<times> string), pg_error) sink_hist, pg_error sink_error + turn) state" where
  "pg_Run Op 0 limit W = ok Again"
| "pg_Run Op (Suc n) limit W =
     check (pg_turn Op limit W) (\<lambda>t. case t of Stop \<Rightarrow> ok Stop | Again \<Rightarrow> pg_Run Op n limit W)"

text \<open>What the loop makes of a record.\<close>

definition pg_prepare :: "envelope \<Rightarrow> string \<Rightarrow> pg_error sink_error + (envelope \<times> string) option" where
  "pg_prepare env payload = Inr (Some (env, payload))"

interpretation pg_retry: retry_loop "\<lambda>fuel. pg_insertWithRetry fuel Op" "pg_Classify" "pg_backoffFor Op" "pg_clearBlocked" True
  for Op
  by unfold_locales (simp_all add: pg_clearBlocked_def run_simps)

interpretation pg_loop: record_loop "pg_Classify" "\<lambda>limit W. pg_insertWithRetry (Suc limit) Op W 0 None" "pg_prepare "
    "pg_turn Op" "pg_Run Op" for Op
proof
  show "run_state (pg_insertWithRetry (Suc limit) Op W 0 None m) h = (r, h') \<Longrightarrow>
       \<exists>t. h' = h @ t \<and> (\<forall>rr. Read rr \<notin> set t) \<and> records_read t = [] \<and> delivered_count t = 0
         \<and> set (attempted t) \<subseteq> {m} \<and> confirmed t = (if r = Inr True then [m] else [])" for limit W m h r h'
    using pg_retry.outcome by blast
  show "\<forall>h. \<not> skCancelled W h \<and> skSleep W h \<Longrightarrow>
       \<forall>h m e. skSend W h m = Some e \<longrightarrow> pg_Classify e = ClassTransient \<Longrightarrow>
       \<forall>h m. limit \<le> failures h \<longrightarrow> skSend W h m = None \<Longrightarrow>
       fst (run_state (pg_insertWithRetry (Suc limit) Op W 0 None m) h) = Inr True" for W limit m h
    by (rule pg_retry.survives) auto
  show "pg_turn Op limit W =
      do { c \<leftarrow> sk_cancelled W;
           if c then ok Stop
           else do {
             r \<leftarrow> sk_read W;
             (case r of
                ReadEOF \<Rightarrow> ok Stop
              | ReadError e \<Rightarrow> do { c2 \<leftarrow> sk_cancelled W; if c2 then ok Stop else fail (ReadFailed e) }
              | ReadRecord env payload \<Rightarrow> do {
                  note_event Consumed;
                  (case pg_prepare env payload of
                     Inl err \<Rightarrow> fail err
                   | Inr None \<Rightarrow> do { note_event FilteredOut; ok Again }
                   | Inr (Some m) \<Rightarrow>
                       check (pg_insertWithRetry (Suc limit) Op W 0 None m) (\<lambda>posted.
                         if \<not> posted then ok Stop
                         else do { note_event (Delivered (eType env)); ok Again })) }) } }" for limit W
    unfolding pg_turn_def
    by (intro state_ext) (auto simp: run_simps pg_prepare_def split: read_result.split sum.split bool.split prod.split)
qed (auto simp: fun_eq_iff split: turn.split intro!: check_cong)

section \<open>The row\<close>

text \<open>\<^verbatim>\<open>tableNameRe\<close>: an identifier, or two with a dot between them.\<close>

definition ident_start :: "char \<Rightarrow> bool" where
  "ident_start c \<longleftrightarrow> code_of c \<in> {65..90} \<or> code_of c \<in> {97..122} \<or> c = CHR ''_''"

definition ident_char :: "char \<Rightarrow> bool" where
  "ident_char c \<longleftrightarrow> ident_start c \<or> code_of c \<in> {48..57}"

definition is_ident :: "string \<Rightarrow> bool" where
  "is_ident s = (case s of [] \<Rightarrow> False | c # cs \<Rightarrow> ident_start c \<and> list_all ident_char cs)"

definition ValidateTableName :: "string \<Rightarrow> bool" where
  "ValidateTableName table =
     (case split_on CHR ''.'' table of [t] \<Rightarrow> is_ident t | [s, t] \<Rightarrow> is_ident s \<and> is_ident t | _ \<Rightarrow> False)"

definition quoteIdent :: "string \<Rightarrow> string" where
  "quoteIdent table = join ''.'' (map (\<lambda>p. CHR 0x22 # p @ [CHR 0x22]) (split_on CHR ''.'' table))"

definition nullText :: "string \<Rightarrow> string option" where
  "nullText s = (if s = [] then None else Some s)"

definition nullLogIndex :: "u64 option \<Rightarrow> int option" where
  "nullLogIndex p = map_option sint p"

record pg_row =
  rowDedupKey :: string
  rowSchemaVersion :: int
  rowType :: string
  rowTool :: string
  rowName :: "string option"
  rowChain :: "string option"
  rowChainID :: int
  rowBlockNumber :: int
  rowBlockHash :: "string option"
  rowTxHash :: "string option"
  rowLogIndex :: "int option"
  rowTimestamp :: "string option"
  rowEmittedAt :: string
  rowData :: string

definition insert_args :: "envelope \<Rightarrow> string \<Rightarrow> pg_row" where
  "insert_args env raw = \<lparr> rowDedupKey = DedupKey env, rowSchemaVersion = eSchemaVersion env, rowType = eType env,
     rowTool = eTool env, rowName = nullText (eName env), rowChain = nullText (eChain env), rowChainID = eChainID env,
     rowBlockNumber = sint (eBlockNumber env), rowBlockHash = nullText (eBlockHash env), rowTxHash = nullText (eTxHash env),
     rowLogIndex = nullLogIndex (eLogIndex env), rowTimestamp = nullText (eTimestamp env),
     rowEmittedAt = eEmittedAt env, rowData = raw \<rparr>"

text \<open>\<^verbatim>\<open>ON CONFLICT (dedup_key) DO NOTHING\<close>: the table is keyed by the primary key, and a row whose
key is taken is not inserted.\<close>

type_synonym pg_table = "string \<rightharpoonup> pg_row"

definition pg_Insert :: "pg_table \<Rightarrow> envelope \<times> string \<Rightarrow> pg_table" where
  "pg_Insert tbl m = (case m of (env, raw) \<Rightarrow>
     (case tbl (DedupKey env) of Some _ \<Rightarrow> tbl | None \<Rightarrow> tbl(DedupKey env \<mapsto> insert_args env raw)))"

definition table_after :: "((envelope \<times> string, pg_error) sink_hist \<Rightarrow> bool) \<Rightarrow> (envelope \<times> string, pg_error) sink_hist \<Rightarrow> pg_table" where
  "table_after landed h = foldl pg_Insert Map.empty (effects landed [] h)"

lemma insert_fold:
  "foldl pg_Insert tbl xs k =
     (case tbl k of Some row \<Rightarrow> Some row
      | None \<Rightarrow> map_option (\<lambda>(env, raw). insert_args env raw) (find (\<lambda>(env, raw). DedupKey env = k) xs))"
  by (induction xs arbitrary: tbl) (auto simp: pg_Insert_def split: option.splits)

lemma pg_messages_all: "messages_of pg_prepare rs = rs"
  by (induction rs) (auto simp: pg_prepare_def)

text \<open>
C27: The Postgres sink has an exactly-once effect, whatever replies get lost: after any run, every
  record whose insert was confirmed has a row under its key, every row is that of a record read
  from the stream under that record's own key, the records are confirmed in stream order with at
  most the last one missing, and inserting any of them again changes nothing.
\<close>
theorem pg_exactly_once_effect:
  assumes "run_state (pg_Run Op n limit W) [] = (r, h)"
  shows "(\<exists>pending. records_read h = confirmed h @ pending \<and> length pending \<le> 1
        \<and> (pending \<noteq> [] \<longrightarrow> r \<noteq> Inr Again \<and> last h \<noteq> Read ReadEOF))
    \<and> (\<forall>m \<in> set (confirmed h). table_after landed h (DedupKey (fst m)) \<noteq> None
        \<and> pg_Insert (table_after landed h) m = table_after landed h)
    \<and> (\<forall>k row. table_after landed h k = Some row \<longrightarrow>
        (\<exists>(env, raw) \<in> set (records_read h). k = DedupKey env \<and> row = insert_args env raw))"
proof -
  from pg_loop.in_order [OF assms] obtain pending where p: "records_read h = confirmed h @ pending"
    "set (attempted h) \<subseteq> set (records_read h)" "length pending \<le> 1"
    "pending \<noteq> [] \<longrightarrow> r \<noteq> Inr Again \<and> last h \<noteq> Read ReadEOF"
    by (auto simp: pg_messages_all)
  note ef = effects_between [of h landed "[]"]
  have find: "table_after landed h k = map_option (\<lambda>(env, raw). insert_args env raw)
      (find (\<lambda>(env, raw). DedupKey env = k) (effects landed [] h))" for k
    by (simp add: table_after_def insert_fold)
  have some: "table_after landed h (DedupKey (fst m)) \<noteq> None" if m: "m \<in> set (confirmed h)" for m
  proof -
    obtain env raw where e: "m = (env, raw)" by (cases m)
    with m ef have "(env, raw) \<in> set (effects landed [] h)" by blast
    with e show ?thesis unfolding find by (auto simp: find_None_iff)
  qed
  have same: "pg_Insert (table_after landed h) m = table_after landed h" if "m \<in> set (confirmed h)" for m
    using some [OF that] by (auto simp: pg_Insert_def split: prod.split)
  have rows: "\<exists>(env, raw) \<in> set (records_read h). k = DedupKey env \<and> row = insert_args env raw"
    if "table_after landed h k = Some row" for k row
  proof -
    from that obtain env raw where f: "find (\<lambda>(env, raw). DedupKey env = k) (effects landed [] h) = Some (env, raw)"
      and row: "row = insert_args env raw" unfolding find by auto
    from f have "(env, raw) \<in> set (effects landed [] h)" "DedupKey env = k"
      by (auto simp: find_Some_iff) (metis nth_mem)
    with ef p(2) row show ?thesis by blast
  qed
  from p some same rows show ?thesis by blast
qed

text \<open>A server that loses the reply of the first insert.\<close>

definition lossy_world :: "(envelope \<times> string, pg_error) sink_world" where
  "lossy_world = \<lparr> skRead = one_record,
     skSend = (\<lambda>h _. if failures h = 0 then Some (PgOther ''conn reset'') else None), skReach = (\<lambda>_. None),
     skCancelled = (\<lambda>_. False), skSleep = (\<lambda>_. True), skTick = (\<lambda>_. True), skNow = (\<lambda>_. 0), skRand = (\<lambda>_ _. 0) \<rparr>"

lemma lossy_run:
  "\<exists>h. run_state (pg_Run quick_options (Suc (Suc 0)) (Suc 0) lossy_world) [] = (Inr Stop, h)
     \<and> confirmed h = [(sample_record, ''{}'')]"
  by (simp add: pg_turn_def run_simps lossy_world_def one_record_def pg_Classify_def pg_clearBlocked_def
      backoff_Sleep_def pg_backoffFor_def pg_jitter_def backoff_Duration_def quick_options_def)

lemma pg_exactly_once_effect_witness:
  "\<exists>h. run_state (pg_Run quick_options (Suc (Suc 0)) (Suc 0) lossy_world) [] = (Inr Stop, h)
     \<and> table_after (\<lambda>_. True) h (DedupKey sample_record) \<noteq> None"
proof -
  obtain h where run: "run_state (pg_Run quick_options (Suc (Suc 0)) (Suc 0) lossy_world) [] = (Inr Stop, h)"
    and c: "confirmed h = [(sample_record, ''{}'')]" using lossy_run by blast
  from pg_exactly_once_effect [OF run, of "\<lambda>_. True"] c have "table_after (\<lambda>_. True) h (DedupKey sample_record) \<noteq> None"
    by simp
  with run show ?thesis by blast
qed

end
