(* ===== verification/RedisSink.thy ===== *)
theory RedisSink
  imports SinkBase
begin

text \<open>
  \<^verbatim>\<open>evm-sink-redis\<close>: \<^verbatim>\<open>src/internal/redissink/redissink.go\<close>, and the append with its
  deduplication script of \<^verbatim>\<open>src/internal/redissink/redis.go\<close> on a model of the keys it touches.
\<close>

section \<open>Errors\<close>

datatype redis_error = RedisError string | RedisOther string

definition permanentRedisErrors :: "string list" where
  "permanentRedisErrors = [''WRONGTYPE'', ''NOAUTH'', ''WRONGPASS'', ''NOPERM'', ''CROSSSLOT'']"

definition redis_Classify :: "redis_error \<Rightarrow> failure_class" where
  "redis_Classify e =
     (case e of
        RedisError text \<Rightarrow>
          (if list_ex (\<lambda>p. has_prefix p (to_upper text)) permanentRedisErrors then ClassPermanent else ClassTransient)
      | RedisOther _ \<Rightarrow> ClassTransient)"

section \<open>The loop\<close>

text \<open>\<^verbatim>\<open>New\<close>: the required parts, then the defaults.\<close>

definition redis_New :: "sink_setup \<Rightarrow> string + sink_options" where
  "redis_New st =
     (if \<not> spReader st then Inl ''redissink: reader is required''
      else if \<not> spTarget st then Inl ''redissink: appender is required''
      else
        (let Op = spOptions st;
             base = (if soBackoffBase Op \<le> 0 then 500 * millisecond else soBackoffBase Op);
             mx = (if soBackoffMax Op \<le> 0 then 30 * second else soBackoffMax Op);
             timeout = (if soProbeInterval Op > 0 \<and> soProbeTimeout Op \<le> 0
                        then (if soProbeInterval Op < 10 * second then soProbeInterval Op else 10 * second)
                        else soProbeTimeout Op)
         in Inr (Op\<lparr> soBackoffBase := base, soBackoffMax := mx, soProbeTimeout := timeout \<rparr>)))"

definition redis_jitter :: "(int \<Rightarrow> int) \<Rightarrow> int \<Rightarrow> int" where
  "redis_jitter randInt d = (if d \<le> 0 then 0 else (let half = d div 2 in half + randInt (half + 1)))"

definition redis_backoffFor :: "sink_options \<Rightarrow> (int \<Rightarrow> int) \<Rightarrow> nat \<Rightarrow> int" where
  "redis_backoffFor Op randInt attempt =
     redis_jitter randInt (backoff_Duration (int attempt) (soBackoffBase Op) (soBackoffMax Op))"

definition redis_clearBlocked :: "(((envelope \<times> string), redis_error) sink_hist, unit) state" where
  "redis_clearBlocked = do { note_event (Blocked False); note_event (BackoffSeconds 0); note_event (EmitBlocked 0) }"

fun redis_appendWithRetry :: "nat \<Rightarrow> sink_options \<Rightarrow> ((envelope \<times> string), redis_error) sink_world \<Rightarrow> nat \<Rightarrow> int option \<Rightarrow> (envelope \<times> string)
    \<Rightarrow> (((envelope \<times> string), redis_error) sink_hist, redis_error sink_error + bool) state" where
  "redis_appendWithRetry 0 Op W attempt blockedSince m = fail StillRetrying"
| "redis_appendWithRetry (Suc fuel) Op W attempt blockedSince m =
     do { cancelled \<leftarrow> sk_cancelled W;
          if cancelled then ok False
          else do {
            start \<leftarrow> sk_now W;
            perr \<leftarrow> sk_send W m;
            (case perr of
               None \<Rightarrow> do {
                 (if attempt > 0 then redis_clearBlocked else skip);
                 note_event (Reachable True);
                 note_event (ConsecutiveFailures 0);
                 ok True }
             | Some e \<Rightarrow> do {
                 cancelled2 \<leftarrow> sk_cancelled W;
                 if cancelled2 then ok False
                 else do {
                   note_event (FailedAs (redis_Classify e));
                   if redis_Classify e = ClassPermanent then do { redis_clearBlocked; fail (PermanentFailure e) }
                   else do {
                     t \<leftarrow> sk_now W;
                     note_event (Blocked True);
                     note_event (ConsecutiveFailures (attempt + 1));
                     note_event Retried;
                     note_event (Reachable False);
                     note_event (EmitBlocked (t - (case blockedSince of None \<Rightarrow> start | Some b \<Rightarrow> b)));
                     h \<leftarrow> gets id;
                     note_event (BackoffSeconds (redis_backoffFor Op (skRand W h) (attempt + 1)));
                     slept \<leftarrow> backoff_Sleep W (redis_backoffFor Op (skRand W h) (attempt + 1));
                     if \<not> slept then ok False
                     else redis_appendWithRetry fuel Op W (attempt + 1)
                            (Some (case blockedSince of None \<Rightarrow> start | Some b \<Rightarrow> b)) m } } }) } }"

text \<open>The readiness probe runs beside the loop and writes only the readiness.\<close>

definition redis_probeOnce :: "((envelope \<times> string), redis_error) sink_world \<Rightarrow> (((envelope \<times> string), redis_error) sink_hist, unit) state" where
  "redis_probeOnce W =
     do { cancelled \<leftarrow> sk_cancelled W;
          if cancelled then skip
          else do { err \<leftarrow> sk_reach W; note_event (Reachable (err = None)) } }"

fun redis_probe_ticks :: "nat \<Rightarrow> ((envelope \<times> string), redis_error) sink_world \<Rightarrow> (((envelope \<times> string), redis_error) sink_hist, unit) state" where
  "redis_probe_ticks 0 W = skip"
| "redis_probe_ticks (Suc n) W =
     do { tick \<leftarrow> gets (skTick W);
          if \<not> tick then skip else do { redis_probeOnce W; redis_probe_ticks n W } }"

definition redis_probeLoop :: "nat \<Rightarrow> ((envelope \<times> string), redis_error) sink_world \<Rightarrow> (((envelope \<times> string), redis_error) sink_hist, unit) state" where
  "redis_probeLoop n W = do { redis_probeOnce W; redis_probe_ticks n W }"

text \<open>One turn of the loop of \<^verbatim>\<open>Run\<close>; \<open>limit\<close> bounds the retries of a record, \<open>n\<close> the records.\<close>

definition redis_turn :: "sink_options \<Rightarrow> nat \<Rightarrow> ((envelope \<times> string), redis_error) sink_world \<Rightarrow> (((envelope \<times> string), redis_error) sink_hist, redis_error sink_error + turn) state" where
  "redis_turn Op limit W =
     do { cancelled \<leftarrow> sk_cancelled W;
          if cancelled then ok Stop
          else do {
            r \<leftarrow> sk_read W;
            (case r of
               ReadEOF \<Rightarrow> ok Stop
             | ReadError e \<Rightarrow> do { cancelled2 \<leftarrow> sk_cancelled W; if cancelled2 then ok Stop else fail (ReadFailed e) }
             | ReadRecord env payload \<Rightarrow> do {
                 note_event Consumed;
                 delivered \<leftarrow> redis_appendWithRetry (Suc limit) Op W 0 None (env, payload);
                 (case delivered of
                    Inl e \<Rightarrow> fail e
                  | Inr False \<Rightarrow> ok Stop
                  | Inr True \<Rightarrow> do { note_event (Delivered (eType env)); ok Again }) }) } }"

fun redis_Run :: "sink_options \<Rightarrow> nat \<Rightarrow> nat \<Rightarrow> ((envelope \<times> string), redis_error) sink_world \<Rightarrow> (((envelope \<times> string), redis_error) sink_hist, redis_error sink_error + turn) state" where
  "redis_Run Op 0 limit W = ok Again"
| "redis_Run Op (Suc n) limit W =
     check (redis_turn Op limit W) (\<lambda>t. case t of Stop \<Rightarrow> ok Stop | Again \<Rightarrow> redis_Run Op n limit W)"

text \<open>What the loop makes of a record.\<close>

definition redis_prepare :: "envelope \<Rightarrow> string \<Rightarrow> redis_error sink_error + (envelope \<times> string) option" where
  "redis_prepare env payload = Inr (Some (env, payload))"

interpretation redis_retry: retry_loop "\<lambda>fuel. redis_appendWithRetry fuel Op" "redis_Classify" "redis_backoffFor Op" "redis_clearBlocked" True
  for Op
  by unfold_locales (simp_all add: redis_clearBlocked_def run_simps)

interpretation redis_loop: record_loop "redis_Classify" "\<lambda>limit W. redis_appendWithRetry (Suc limit) Op W 0 None" "redis_prepare "
    "redis_turn Op" "redis_Run Op" for Op
proof
  show "run_state (redis_appendWithRetry (Suc limit) Op W 0 None m) h = (r, h') \<Longrightarrow>
       \<exists>t. h' = h @ t \<and> (\<forall>rr. Read rr \<notin> set t) \<and> records_read t = [] \<and> delivered_count t = 0
         \<and> set (attempted t) \<subseteq> {m} \<and> confirmed t = (if r = Inr True then [m] else [])" for limit W m h r h'
    using redis_retry.outcome by blast
  show "\<forall>h. \<not> skCancelled W h \<and> skSleep W h \<Longrightarrow>
       \<forall>h m e. skSend W h m = Some e \<longrightarrow> redis_Classify e = ClassTransient \<Longrightarrow>
       \<forall>h m. limit \<le> failures h \<longrightarrow> skSend W h m = None \<Longrightarrow>
       fst (run_state (redis_appendWithRetry (Suc limit) Op W 0 None m) h) = Inr True" for W limit m h
    by (rule redis_retry.survives) auto
  show "redis_turn Op limit W =
      do { c \<leftarrow> sk_cancelled W;
           if c then ok Stop
           else do {
             r \<leftarrow> sk_read W;
             (case r of
                ReadEOF \<Rightarrow> ok Stop
              | ReadError e \<Rightarrow> do { c2 \<leftarrow> sk_cancelled W; if c2 then ok Stop else fail (ReadFailed e) }
              | ReadRecord env payload \<Rightarrow> do {
                  note_event Consumed;
                  (case redis_prepare env payload of
                     Inl err \<Rightarrow> fail err
                   | Inr None \<Rightarrow> do { note_event FilteredOut; ok Again }
                   | Inr (Some m) \<Rightarrow>
                       check (redis_appendWithRetry (Suc limit) Op W 0 None m) (\<lambda>posted.
                         if \<not> posted then ok Stop
                         else do { note_event (Delivered (eType env)); ok Again })) }) } }" for limit W
    unfolding redis_turn_def
    by (intro state_ext) (auto simp: run_simps redis_prepare_def split: read_result.split sum.split bool.split prod.split)
qed (auto simp: fun_eq_iff split: turn.split intro!: check_cong)

section \<open>The append\<close>

record client_config =
  ccStream :: string
  ccField :: string
  ccMaxLen :: int
  ccDedup :: bool
  ccDedupTTL :: int
  ccDedupPrefix :: string

definition defaultDedupPrefix :: string where "defaultDedupPrefix = ''evmtools:dedup:''"

text \<open>\<^verbatim>\<open>NewAppender\<close>; parsing the URL and opening the client are the library's (\<open>url_ok\<close>).\<close>

definition NewAppender :: "bool \<Rightarrow> client_config \<Rightarrow> string + client_config" where
  "NewAppender url_ok cfg =
     (if trim_space (ccStream cfg) = [] then Inl ''redissink: stream key is required''
      else if \<not> url_ok then Inl ''redissink: invalid redis url''
      else Inr (cfg\<lparr> ccField := (if ccField cfg = [] then ''data'' else ccField cfg),
                     ccDedupPrefix := (if ccDedupPrefix cfg = [] then defaultDedupPrefix else ccDedupPrefix cfg) \<rparr>))"

text \<open>The keys the sink touches: the entries ever added to the stream, oldest first, and the markers
with their expiry in seconds. Trimming by \<^verbatim>\<open>MAXLEN\<close> removes old entries later and is left out.\<close>

record stream_entry =
  seTime :: int
  seMarker :: string
  seField :: string
  sePayload :: string
  seMaxLen :: "int option"

record redis_store =
  rsEntries :: "stream_entry list"
  rsMarkers :: "string \<rightharpoonup> int option"

definition exists_key :: "int \<Rightarrow> redis_store \<Rightarrow> string \<Rightarrow> bool" where
  "exists_key now s k = (case rsMarkers s k of None \<Rightarrow> False | Some None \<Rightarrow> True | Some (Some t) \<Rightarrow> now < t)"

definition maxlen_arg :: "int \<Rightarrow> int option" where
  "maxlen_arg n = (if n > 0 then Some n else None)"

definition dedupScript :: "int \<Rightarrow> string \<Rightarrow> string \<Rightarrow> string \<Rightarrow> int \<Rightarrow> int \<Rightarrow> redis_store \<Rightarrow> int \<times> redis_store" where
  "dedupScript now marker fld payload maxlen ttl s =
     (if exists_key now s marker then (0, s)
      else (1, s\<lparr> rsEntries := rsEntries s @ [\<lparr> seTime = now, seMarker = marker, seField = fld, sePayload = payload,
                     seMaxLen = maxlen_arg maxlen \<rparr>],
                  rsMarkers := (rsMarkers s)(marker \<mapsto> (if ttl > 0 then Some (now + ttl) else None)) \<rparr>))"

text \<open>The addition is one of 64-bit integers and wraps; the division truncates towards zero.\<close>

definition go_quot :: "int \<Rightarrow> int \<Rightarrow> int" where
  "go_quot a b = sgn a * sgn b * (\<bar>a\<bar> div \<bar>b\<bar>)"

definition ttl_seconds :: "client_config \<Rightarrow> int" where
  "ttl_seconds cfg = (if ccDedupTTL cfg > 0 then go_quot (wrap64 (ccDedupTTL cfg + second - 1)) second else 0)"

lemma second_val: "second = 1000000000"
  by (simp add: second_def millisecond_def)

text \<open>Rounded up, so the window is never shorter than asked for - while the addition does not wrap.\<close>

lemma ttl_covers:
  assumes "ccDedupTTL cfg + second \<le> 2 ^ 63"
  shows "ccDedupTTL cfg \<le> ttl_seconds cfg * second"
proof (cases "ccDedupTTL cfg > 0")
  case True
  let ?d = "ccDedupTTL cfg + second - 1"
  have "wrap64 ?d = ?d" using True assms by (intro wrap64_id) (simp_all add: second_val)
  then have "ttl_seconds cfg = ?d div second"
    using True by (simp add: ttl_seconds_def go_quot_def second_val)
  then show ?thesis by (simp add: second_val)
qed (simp add: ttl_seconds_def)

definition marker_key :: "client_config \<Rightarrow> envelope \<Rightarrow> string" where
  "marker_key cfg env = ccDedupPrefix cfg @ DedupKey env"

definition redis_Append :: "client_config \<Rightarrow> int \<Rightarrow> envelope \<times> string \<Rightarrow> redis_store \<Rightarrow> bool \<times> redis_store" where
  "redis_Append cfg now m s =
     (case m of (env, raw) \<Rightarrow>
        if \<not> ccDedup cfg then
          (True, s\<lparr> rsEntries := rsEntries s @ [\<lparr> seTime = now, seMarker = [], seField = ccField cfg, sePayload = raw,
                     seMaxLen = maxlen_arg (ccMaxLen cfg) \<rparr>] \<rparr>)
        else
          (let (res, s') = dedupScript now (marker_key cfg env) (ccField cfg) raw (ccMaxLen cfg) (ttl_seconds cfg) s
           in (res = 1, s')))"

text \<open>
  Within a second of the largest duration it does wrap: the number of seconds is negative, the
  script takes that for no expiry, and the marker stays for ever.
\<close>

lemma huge_ttl_never_expires:
  assumes "2 ^ 63 < ccDedupTTL cfg + second" and "ccDedupTTL cfg < 2 ^ 63"
  shows "ttl_seconds cfg < 0
    \<and> (ccDedup cfg \<and> rsMarkers s (marker_key cfg env) = None \<longrightarrow>
         rsMarkers (snd (redis_Append cfg now (env, raw) s)) (marker_key cfg env) = Some None)"
proof -
  let ?d = "ccDedupTTL cfg + second - 1"
  from assms have w: "wrap64 ?d = ?d - 2 ^ 64" by (intro wrap64_over) (simp_all add: second_val)
  have neg: "?d - 2 ^ 64 \<le> - second" using assms(2) by (simp add: second_val)
  then have "0 < \<bar>?d - 2 ^ 64\<bar> div second" by (simp add: second_val)
  with neg assms have "ttl_seconds cfg < 0" unfolding ttl_seconds_def w go_quot_def by (simp add: second_val)
  then show ?thesis by (simp add: redis_Append_def dedupScript_def exists_key_def)
qed

section \<open>What the stream holds\<close>

definition appends :: "client_config \<Rightarrow> (int \<times> envelope \<times> string) list \<Rightarrow> redis_store" where
  "appends cfg xs = foldl (\<lambda>s (t, m). snd (redis_Append cfg t m s)) \<lparr> rsEntries = [], rsMarkers = Map.empty \<rparr> xs"

text \<open>Two entries of one key are a whole window apart; without a window there is only one.\<close>

definition apart :: "int \<Rightarrow> stream_entry \<Rightarrow> stream_entry \<Rightarrow> bool" where
  "apart ttl a b \<longleftrightarrow> (seMarker a = seMarker b \<longrightarrow> 0 < ttl \<and> seTime a + ttl \<le> seTime b)"

definition store_ok :: "int \<Rightarrow> redis_store \<Rightarrow> bool" where
  "store_ok ttl s \<longleftrightarrow> sorted_wrt (apart ttl) (rsEntries s)
     \<and> (\<forall>e \<in> set (rsEntries s). \<exists>x. rsMarkers s (seMarker e) = Some x
          \<and> (case x of None \<Rightarrow> ttl \<le> 0 | Some t \<Rightarrow> 0 < ttl \<and> seTime e + ttl \<le> t))
     \<and> (\<forall>k x. rsMarkers s k = Some x \<longrightarrow> (\<exists>e \<in> set (rsEntries s). seMarker e = k
          \<and> (case x of None \<Rightarrow> True | Some t \<Rightarrow> t = seTime e + ttl)))"

lemma script_ok:
  assumes "store_ok ttl s"
  shows "store_ok ttl (snd (dedupScript now marker fld payload maxlen ttl s))"
proof (cases "exists_key now s marker")
  case False
  let ?e = "\<lparr> seTime = now, seMarker = marker, seField = fld, sePayload = payload, seMaxLen = maxlen_arg maxlen \<rparr>"
  have "apart ttl e ?e" if "e \<in> set (rsEntries s)" for e
    using assms that False unfolding store_ok_def apart_def exists_key_def
    by (fastforce split: option.splits)
  moreover have old: "0 < ttl \<Longrightarrow> e \<in> set (rsEntries s) \<Longrightarrow> seMarker e = marker \<Longrightarrow> seTime e \<le> now" for e
    using assms False unfolding store_ok_def exists_key_def by (fastforce split: option.splits)
  ultimately show ?thesis
    using assms False unfolding store_ok_def dedupScript_def
    by (auto simp: sorted_wrt_append split: option.splits)
qed (use assms in \<open>simp add: dedupScript_def\<close>)

lemma Append_ok:
  assumes "ccDedup cfg" and "store_ok (ttl_seconds cfg) s"
  shows "store_ok (ttl_seconds cfg) (snd (redis_Append cfg t m s))"
  using assms(1) script_ok [OF assms(2)] by (cases m) (simp add: redis_Append_def case_prod_beta)

lemma Append_keeps:
  "set (rsEntries s) \<subseteq> set (rsEntries (snd (redis_Append cfg t m s)))"
  by (auto simp: redis_Append_def dedupScript_def split: prod.split)

lemma Append_present:
  assumes "ccDedup cfg" and "store_ok (ttl_seconds cfg) s"
  shows "\<exists>e \<in> set (rsEntries (snd (redis_Append cfg t (env, raw) s))). seMarker e = marker_key cfg env"
proof (cases "exists_key t s (marker_key cfg env)")
  case True
  then show ?thesis using assms
    by (auto simp: redis_Append_def dedupScript_def store_ok_def exists_key_def split: option.splits) metis+
qed (use assms(1) in \<open>simp add: redis_Append_def dedupScript_def\<close>)

lemma Append_only:
  "e \<in> set (rsEntries (snd (redis_Append cfg t (env, raw) s))) \<Longrightarrow> ccDedup cfg \<Longrightarrow>
     e \<in> set (rsEntries s) \<or> (seMarker e = marker_key cfg env \<and> sePayload e = raw)"
  by (auto simp: redis_Append_def dedupScript_def split: if_splits)

lemma appends_ok:
  assumes "ccDedup cfg"
  shows "store_ok (ttl_seconds cfg) (appends cfg xs)
    \<and> (\<forall>x \<in> set xs. \<exists>e \<in> set (rsEntries (appends cfg xs)). seMarker e = marker_key cfg (fst (snd x)))
    \<and> (\<forall>e \<in> set (rsEntries (appends cfg xs)). \<exists>x \<in> set xs.
         seMarker e = marker_key cfg (fst (snd x)) \<and> sePayload e = snd (snd x))"
proof (induction xs rule: rev_induct)
  case Nil
  show ?case by (simp add: appends_def store_ok_def)
next
  case (snoc x xs)
  obtain t env raw where x: "x = (t, env, raw)" by (cases x)
  have step: "appends cfg (xs @ [x]) = snd (redis_Append cfg t (env, raw) (appends cfg xs))"
    by (simp add: appends_def x)
  from snoc.IH have ok: "store_ok (ttl_seconds cfg) (appends cfg xs)" by blast
  show ?case
  proof (intro conjI ballI)
    show "store_ok (ttl_seconds cfg) (appends cfg (xs @ [x]))"
      unfolding step by (rule Append_ok [OF assms ok])
    fix y
    assume "y \<in> set (xs @ [x])"
    then consider "y \<in> set xs" | "y = (t, env, raw)" using x by auto
    then show "\<exists>e \<in> set (rsEntries (appends cfg (xs @ [x]))). seMarker e = marker_key cfg (fst (snd y))"
    proof cases
      case 1
      with snoc.IH Append_keeps show ?thesis unfolding step by blast
    next
      case 2
      with Append_present [OF assms ok] show ?thesis unfolding step by simp
    qed
  next
    fix e
    assume "e \<in> set (rsEntries (appends cfg (xs @ [x])))"
    from Append_only [OF this [unfolded step] assms] snoc.IH
    show "\<exists>y \<in> set (xs @ [x]). seMarker e = marker_key cfg (fst (snd y)) \<and> sePayload e = snd (snd y)"
      unfolding x by auto
  qed
qed

lemma redis_messages_all: "messages_of redis_prepare rs = rs"
  by (induction rs) (auto simp: redis_prepare_def)

text \<open>
C28: With deduplication on, the Redis sink appends each record once per window, whatever replies
  get lost and however often it is retried: two entries of one deduplication key are at least the
  lifetime of the marker apart (never two when the marker does not expire), every confirmed record
  has an entry under its key, and every entry is a record read from the stream. The lifetime is the
  configured one rounded up to seconds, never less than it, for every window up to a second below
  the largest 64-bit duration (beyond that the rounding wraps and markers never expire).
\<close>
theorem redis_once_per_window:
  assumes "run_state (redis_Run Op n limit W) [] = (r, h)" and "ccDedup cfg"
    and "length ts = length (effects landed [] h)"
  shows "(ccDedupTTL cfg + second \<le> 2 ^ 63 \<longrightarrow> ccDedupTTL cfg \<le> ttl_seconds cfg * second)
    \<and> sorted_wrt (apart (ttl_seconds cfg)) (rsEntries (appends cfg (zip ts (effects landed [] h))))
    \<and> (\<forall>m \<in> set (confirmed h). \<exists>e \<in> set (rsEntries (appends cfg (zip ts (effects landed [] h)))).
         seMarker e = marker_key cfg (fst m))
    \<and> (\<forall>e \<in> set (rsEntries (appends cfg (zip ts (effects landed [] h)))).
         \<exists>m \<in> set (records_read h). seMarker e = marker_key cfg (fst m) \<and> sePayload e = snd m)"
proof (intro conjI)
  let ?xs = "zip ts (effects landed [] h)"
  from redis_loop.in_order [OF assms(1)] have rd: "set (attempted h) \<subseteq> set (records_read h)"
    by (auto simp: redis_messages_all)
  note ef = effects_between [of h landed "[]"] and ok = appends_ok [OF assms(2), of ?xs]
  have snds: "set (map snd ?xs) = set (effects landed [] h)" using assms(3) by simp
  show "ccDedupTTL cfg + second \<le> 2 ^ 63 \<longrightarrow> ccDedupTTL cfg \<le> ttl_seconds cfg * second"
    using ttl_covers by blast
  show "sorted_wrt (apart (ttl_seconds cfg)) (rsEntries (appends cfg ?xs))"
    using ok unfolding store_ok_def by blast
  show "\<forall>m \<in> set (confirmed h). \<exists>e \<in> set (rsEntries (appends cfg ?xs)). seMarker e = marker_key cfg (fst m)"
  proof
    fix m
    assume "m \<in> set (confirmed h)"
    with ef snds have "m \<in> set (map snd ?xs)" by blast
    then obtain x where "x \<in> set ?xs" "m = snd x" by auto
    with ok show "\<exists>e \<in> set (rsEntries (appends cfg ?xs)). seMarker e = marker_key cfg (fst m)" by blast
  qed
  show "\<forall>e \<in> set (rsEntries (appends cfg ?xs)). \<exists>m \<in> set (records_read h). seMarker e = marker_key cfg (fst m) \<and> sePayload e = snd m"
  proof
    fix e
    assume "e \<in> set (rsEntries (appends cfg ?xs))"
    with ok obtain x where x: "x \<in> set ?xs" "seMarker e = marker_key cfg (fst (snd x))" "sePayload e = snd (snd x)" by blast
    from x(1) have "snd x \<in> set (map snd ?xs)" by simp
    with snds ef rd have "snd x \<in> set (records_read h)" by blast
    with x show "\<exists>m \<in> set (records_read h). seMarker e = marker_key cfg (fst m) \<and> sePayload e = snd m" by blast
  qed
qed

text \<open>A server that applies the first append and loses the reply.\<close>

definition redis_lossy :: "(envelope \<times> string, redis_error) sink_world" where
  "redis_lossy = \<lparr> skRead = one_record,
     skSend = (\<lambda>h _. if failures h = 0 then Some (RedisOther ''timeout'') else None), skReach = (\<lambda>_. None),
     skCancelled = (\<lambda>_. False), skSleep = (\<lambda>_. True), skTick = (\<lambda>_. True), skNow = (\<lambda>_. 0), skRand = (\<lambda>_ _. 0) \<rparr>"

lemma redis_lossy_run:
  "\<exists>h. run_state (redis_Run quick_options (Suc (Suc 0)) (Suc 0) redis_lossy) [] = (Inr Stop, h)
     \<and> effects (\<lambda>_. True) [] h = [(sample_record, ''{}''), (sample_record, ''{}'')]"
  by (simp add: redis_turn_def run_simps redis_lossy_def one_record_def redis_Classify_def redis_clearBlocked_def
      backoff_Sleep_def redis_backoffFor_def redis_jitter_def backoff_Duration_def quick_options_def)

lemma redis_once_per_window_witness:
  "\<exists>h. run_state (redis_Run quick_options (Suc (Suc 0)) (Suc 0) redis_lossy) [] = (Inr Stop, h)
     \<and> sorted_wrt (apart 60) (rsEntries (appends \<lparr> ccStream = ''s'', ccField = ''data'', ccMaxLen = 0, ccDedup = True,
          ccDedupTTL = 60 * second, ccDedupPrefix = defaultDedupPrefix \<rparr> [(1, sample_record, ''{}''), (2, sample_record, ''{}'')]))"
proof -
  let ?cfg = "\<lparr> ccStream = ''s'', ccField = ''data'', ccMaxLen = 0, ccDedup = True, ccDedupTTL = 60 * second,
    ccDedupPrefix = defaultDedupPrefix \<rparr>"
  obtain h where run: "run_state (redis_Run quick_options (Suc (Suc 0)) (Suc 0) redis_lossy) [] = (Inr Stop, h)"
    and e: "effects (\<lambda>_. True) [] h = [(sample_record, ''{}''), (sample_record, ''{}'')]" using redis_lossy_run by blast
  have "ttl_seconds ?cfg = 60" by (simp add: ttl_seconds_def go_quot_def wrap64_id second_val)
  with redis_once_per_window [OF run, of ?cfg "[1, 2]" "\<lambda>_. True"] e run show ?thesis by simp
qed

end
