(* ===== verification/AwsSink.thy ===== *)
theory AwsSink
  imports SinkBase
begin

text \<open>
  \<^verbatim>\<open>evm-sink-aws-sqs\<close> and \<^verbatim>\<open>evm-sink-aws-sns\<close>: \<^verbatim>\<open>src/internal/awssink/awssink.go\<close>. The error
  classifier of the AWS SDK, the fault of a service error and SHA-256 are parameters.
\<close>

section \<open>Messages and errors\<close>

definition maxMessageBytes :: nat where "maxMessageBytes = 262144"

record aws_message =
  amBody :: string
  amGroupID :: string
  amDedupID :: string

datatype fault = FaultUnknown | FaultServer | FaultClient

record 'e aws_sdk =
  sdkRetryable :: "'e \<Rightarrow> bool"
  sdkFault :: "'e \<Rightarrow> fault option"
  sdkSHA256 :: "string \<Rightarrow> byte list"

definition fifoID :: "'e aws_sdk \<Rightarrow> string \<Rightarrow> string" where
  "fifoID S key = hex_encode (sdkSHA256 S key)"

definition aws_Classify :: "'e aws_sdk \<Rightarrow> 'e \<Rightarrow> failure_class" where
  "aws_Classify S e =
     (if sdkRetryable S e then ClassTransient
      else case sdkFault S e of
        Some f \<Rightarrow> if f = FaultClient then ClassPermanent else ClassTransient
      | None \<Rightarrow> ClassTransient)"

definition aws_message_of :: "'e aws_sdk \<Rightarrow> bool \<Rightarrow> envelope \<Rightarrow> string \<Rightarrow> aws_message" where
  "aws_message_of S fifo env payload =
     (if fifo then \<lparr> amBody = payload, amGroupID = fifoID S (PartitionIdentity env), amDedupID = fifoID S (DedupKey env) \<rparr>
      else \<lparr> amBody = payload, amGroupID = [], amDedupID = [] \<rparr>)"

section \<open>The loop\<close>

text \<open>\<^verbatim>\<open>New\<close>: the required parts, then the defaults.\<close>

definition aws_New :: "sink_setup \<Rightarrow> string + sink_options" where
  "aws_New st =
     (if \<not> spReader st then Inl ''awssink: reader is required''
      else if \<not> spTarget st then Inl ''awssink: publisher is required''
      else
        (let Op = spOptions st;
             base = (if soBackoffBase Op \<le> 0 then 500 * millisecond else soBackoffBase Op);
             mx = (if soBackoffMax Op \<le> 0 then 30 * second else soBackoffMax Op);
             timeout = (if soProbeInterval Op > 0 \<and> soProbeTimeout Op \<le> 0
                        then (if soProbeInterval Op < 10 * second then soProbeInterval Op else 10 * second)
                        else soProbeTimeout Op)
         in Inr (Op\<lparr> soBackoffBase := base, soBackoffMax := mx, soProbeTimeout := timeout \<rparr>)))"

definition aws_jitter :: "(int \<Rightarrow> int) \<Rightarrow> int \<Rightarrow> int" where
  "aws_jitter randInt d = (if d \<le> 0 then 0 else (let half = d div 2 in half + randInt (half + 1)))"

definition aws_backoffFor :: "sink_options \<Rightarrow> (int \<Rightarrow> int) \<Rightarrow> nat \<Rightarrow> int" where
  "aws_backoffFor Op randInt attempt =
     aws_jitter randInt (backoff_Duration (int attempt) (soBackoffBase Op) (soBackoffMax Op))"

definition aws_clearBlocked :: "((aws_message, 'e) sink_hist, unit) state" where
  "aws_clearBlocked = do { note_event (Blocked False); note_event (BackoffSeconds 0); note_event (EmitBlocked 0) }"

fun aws_deliverWithRetry :: "nat \<Rightarrow> 'e aws_sdk \<Rightarrow> sink_options \<Rightarrow> (aws_message, 'e) sink_world \<Rightarrow> nat \<Rightarrow> int option \<Rightarrow> aws_message
    \<Rightarrow> ((aws_message, 'e) sink_hist, 'e sink_error + bool) state" where
  "aws_deliverWithRetry 0 S Op W attempt blockedSince m = fail StillRetrying"
| "aws_deliverWithRetry (Suc fuel) S Op W attempt blockedSince m =
     do { cancelled \<leftarrow> sk_cancelled W;
          if cancelled then ok False
          else do {
            start \<leftarrow> sk_now W;
            perr \<leftarrow> sk_send W m;
            (case perr of
               None \<Rightarrow> do {
                 (if attempt > 0 then aws_clearBlocked else skip);
                 note_event (Reachable True);
                 note_event (ConsecutiveFailures 0);
                 ok True }
             | Some e \<Rightarrow> do {
                 cancelled2 \<leftarrow> sk_cancelled W;
                 if cancelled2 then ok False
                 else do {
                   note_event (FailedAs (aws_Classify S e));
                   if aws_Classify S e = ClassPermanent then do { aws_clearBlocked; fail (PermanentFailure e) }
                   else do {
                     t \<leftarrow> sk_now W;
                     note_event (Blocked True);
                     note_event (ConsecutiveFailures (attempt + 1));
                     note_event Retried;
                     note_event (Reachable False);
                     note_event (EmitBlocked (t - (case blockedSince of None \<Rightarrow> start | Some b \<Rightarrow> b)));
                     h \<leftarrow> gets id;
                     note_event (BackoffSeconds (aws_backoffFor Op (skRand W h) (attempt + 1)));
                     slept \<leftarrow> backoff_Sleep W (aws_backoffFor Op (skRand W h) (attempt + 1));
                     if \<not> slept then ok False
                     else aws_deliverWithRetry fuel S Op W (attempt + 1)
                            (Some (case blockedSince of None \<Rightarrow> start | Some b \<Rightarrow> b)) m } } }) } }"

text \<open>The readiness probe runs beside the loop and writes only the readiness.\<close>

definition aws_probeOnce :: "(aws_message, 'e) sink_world \<Rightarrow> ((aws_message, 'e) sink_hist, unit) state" where
  "aws_probeOnce W =
     do { cancelled \<leftarrow> sk_cancelled W;
          if cancelled then skip
          else do { err \<leftarrow> sk_reach W; note_event (Reachable (err = None)) } }"

fun aws_probe_ticks :: "nat \<Rightarrow> (aws_message, 'e) sink_world \<Rightarrow> ((aws_message, 'e) sink_hist, unit) state" where
  "aws_probe_ticks 0 W = skip"
| "aws_probe_ticks (Suc n) W =
     do { tick \<leftarrow> gets (skTick W);
          if \<not> tick then skip else do { aws_probeOnce W; aws_probe_ticks n W } }"

definition aws_probeLoop :: "nat \<Rightarrow> (aws_message, 'e) sink_world \<Rightarrow> ((aws_message, 'e) sink_hist, unit) state" where
  "aws_probeLoop n W = do { aws_probeOnce W; aws_probe_ticks n W }"

text \<open>One turn of the loop of \<^verbatim>\<open>Run\<close>; \<open>limit\<close> bounds the retries of a record, \<open>n\<close> the records.\<close>

definition aws_turn :: "bool \<Rightarrow> 'e aws_sdk \<Rightarrow> sink_options \<Rightarrow> nat \<Rightarrow> (aws_message, 'e) sink_world \<Rightarrow> ((aws_message, 'e) sink_hist, 'e sink_error + turn) state" where
  "aws_turn fifo S Op limit W =
     do { cancelled \<leftarrow> sk_cancelled W;
          if cancelled then ok Stop
          else do {
            r \<leftarrow> sk_read W;
            (case r of
               ReadEOF \<Rightarrow> ok Stop
             | ReadError e \<Rightarrow> do { cancelled2 \<leftarrow> sk_cancelled W; if cancelled2 then ok Stop else fail (ReadFailed e) }
             | ReadRecord env payload \<Rightarrow> do {
                 note_event Consumed;
                 if length payload > maxMessageBytes then fail (TooLarge (length payload))
                 else do {
                   delivered \<leftarrow> aws_deliverWithRetry (Suc limit) S Op W 0 None (aws_message_of S fifo env payload);
                   (case delivered of
                      Inl e \<Rightarrow> fail e
                    | Inr False \<Rightarrow> ok Stop
                    | Inr True \<Rightarrow> do { note_event (Delivered (eType env)); ok Again }) } }) } }"

fun aws_Run :: "bool \<Rightarrow> 'e aws_sdk \<Rightarrow> sink_options \<Rightarrow> nat \<Rightarrow> nat \<Rightarrow> (aws_message, 'e) sink_world \<Rightarrow> ((aws_message, 'e) sink_hist, 'e sink_error + turn) state" where
  "aws_Run fifo S Op 0 limit W = ok Again"
| "aws_Run fifo S Op (Suc n) limit W =
     check (aws_turn fifo S Op limit W) (\<lambda>t. case t of Stop \<Rightarrow> ok Stop | Again \<Rightarrow> aws_Run fifo S Op n limit W)"

text \<open>What the loop makes of a record.\<close>

definition aws_prepare :: "'e aws_sdk \<Rightarrow> bool \<Rightarrow> envelope \<Rightarrow> string \<Rightarrow> 'e sink_error + aws_message option" where
  "aws_prepare S fifo env payload = (if length payload > maxMessageBytes then Inl (TooLarge (length payload)) else Inr (Some (aws_message_of S fifo env payload)))"

interpretation aws_retry: retry_loop "\<lambda>fuel. aws_deliverWithRetry fuel S Op" "aws_Classify S" "aws_backoffFor Op" "aws_clearBlocked" True
  for S Op
  by unfold_locales (simp_all add: aws_clearBlocked_def run_simps)

interpretation aws_loop: record_loop "aws_Classify S" "\<lambda>limit W. aws_deliverWithRetry (Suc limit) S Op W 0 None" "aws_prepare S fifo "
    "aws_turn fifo S Op" "aws_Run fifo S Op" for fifo S Op
proof
  show "run_state (aws_deliverWithRetry (Suc limit) S Op W 0 None m) h = (r, h') \<Longrightarrow>
       \<exists>t. h' = h @ t \<and> (\<forall>rr. Read rr \<notin> set t) \<and> records_read t = [] \<and> delivered_count t = 0
         \<and> set (attempted t) \<subseteq> {m} \<and> confirmed t = (if r = Inr True then [m] else [])" for limit W m h r h'
    using aws_retry.outcome by blast
  show "\<forall>h. \<not> skCancelled W h \<and> skSleep W h \<Longrightarrow>
       \<forall>h m e. skSend W h m = Some e \<longrightarrow> aws_Classify S e = ClassTransient \<Longrightarrow>
       \<forall>h m. limit \<le> failures h \<longrightarrow> skSend W h m = None \<Longrightarrow>
       fst (run_state (aws_deliverWithRetry (Suc limit) S Op W 0 None m) h) = Inr True" for W limit m h
    by (rule aws_retry.survives) auto
  show "aws_turn fifo S Op limit W =
      do { c \<leftarrow> sk_cancelled W;
           if c then ok Stop
           else do {
             r \<leftarrow> sk_read W;
             (case r of
                ReadEOF \<Rightarrow> ok Stop
              | ReadError e \<Rightarrow> do { c2 \<leftarrow> sk_cancelled W; if c2 then ok Stop else fail (ReadFailed e) }
              | ReadRecord env payload \<Rightarrow> do {
                  note_event Consumed;
                  (case aws_prepare S fifo env payload of
                     Inl err \<Rightarrow> fail err
                   | Inr None \<Rightarrow> do { note_event FilteredOut; ok Again }
                   | Inr (Some m) \<Rightarrow>
                       check (aws_deliverWithRetry (Suc limit) S Op W 0 None m) (\<lambda>posted.
                         if \<not> posted then ok Stop
                         else do { note_event (Delivered (eType env)); ok Again })) }) } }" for limit W
    unfolding aws_turn_def
    by (intro state_ext) (auto simp: run_simps aws_prepare_def split: read_result.split sum.split bool.split prod.split)
qed (auto simp: fun_eq_iff split: turn.split intro!: check_cong)

lemma hex_encode_length: "length (hex_encode bs) = 2 * length bs"
  by (induction bs) (simp_all add: hex_encode_def hex_byte_def)

lemma messages_acceptable:
  assumes "m \<in> set (messages_of (aws_prepare S fifo) rs)"
  shows "\<exists>(env, p) \<in> set rs. length p \<le> maxMessageBytes \<and> m = aws_message_of S fifo env p"
  using assms by (induction rs) (auto simp: aws_prepare_def split: if_splits)

text \<open>
C29: Every message handed to AWS is one it accepts, and none is altered: its body is the verbatim
  line of a record read and at most 256 KiB long, and for a FIFO destination both identifiers are
  64 characters (given that SHA-256 yields 32 bytes), derived from the record's partition identity
  and deduplication key; an oversized record is never attempted and stops the sink instead of
  being dropped.
\<close>
theorem aws_messages_acceptable:
  assumes "run_state (aws_Run fifo S Op n limit W) [] = (r, h)" and "\<forall>k. length (sdkSHA256 S k) = 32"
  shows "(\<forall>m \<in> set (attempted h). length (amBody m) \<le> 262144
       \<and> (fifo \<longrightarrow> length (amGroupID m) = 64 \<and> length (amDedupID m) = 64)
       \<and> (\<exists>(env, p) \<in> set (records_read h). amBody m = p
            \<and> (fifo \<longrightarrow> amGroupID m = fifoID S (PartitionIdentity env) \<and> amDedupID m = fifoID S (DedupKey env))))
    \<and> ((\<exists>(env, p) \<in> set (records_read h). 262144 < length p) \<longrightarrow> r \<noteq> Inr Again)"
proof (intro conjI ballI impI)
  from aws_loop.in_order [OF assms(1)] have at: "set (attempted h) \<subseteq> set (messages_of (aws_prepare S fifo) (records_read h))"
    by auto
  fix m
  assume "m \<in> set (attempted h)"
  with at obtain env p where m: "(env, p) \<in> set (records_read h)" "length p \<le> maxMessageBytes"
    "m = aws_message_of S fifo env p" using messages_acceptable by fastforce
  then show "length (amBody m) \<le> 262144" by (simp add: aws_message_of_def maxMessageBytes_def)
  { assume fifo
    with m(3) show "length (amGroupID m) = 64" "length (amDedupID m) = 64"
      by (simp_all add: aws_message_of_def fifoID_def hex_encode_length assms(2)) }
  show "\<exists>(env, p) \<in> set (records_read h). amBody m = p
     \<and> (fifo \<longrightarrow> amGroupID m = fifoID S (PartitionIdentity env) \<and> amDedupID m = fifoID S (DedupKey env))"
    using m by (intro bexI [of _ "(env, p)"]) (simp_all add: aws_message_of_def)
next
  assume "\<exists>(env, p) \<in> set (records_read h). 262144 < length p"
  then obtain env p where "(env, p) \<in> set (records_read h)" "262144 < length p" by blast
  moreover from this have "aws_prepare S fifo env p = Inl (TooLarge (length p))"
    by (simp add: aws_prepare_def maxMessageBytes_def)
  ultimately show "r \<noteq> Inr Again" using aws_loop.in_order [OF assms(1)] by fastforce
qed

text \<open>A FIFO queue that accepts everything.\<close>

definition sample_sdk :: "string aws_sdk" where
  "sample_sdk = \<lparr> sdkRetryable = (\<lambda>_. True), sdkFault = (\<lambda>_. None), sdkSHA256 = (\<lambda>_. replicate 32 0) \<rparr>"

definition open_queue :: "(aws_message, string) sink_world" where
  "open_queue = \<lparr> skRead = one_record, skSend = (\<lambda>_ _. None), skReach = (\<lambda>_. None),
     skCancelled = (\<lambda>_. False), skSleep = (\<lambda>_. True), skTick = (\<lambda>_. True), skNow = (\<lambda>_. 0), skRand = (\<lambda>_ _. 0) \<rparr>"

lemma open_run:
  "\<exists>h. run_state (aws_Run True sample_sdk quick_options (Suc (Suc 0)) 0 open_queue) [] = (Inr Stop, h)
     \<and> attempted h = [aws_message_of sample_sdk True sample_record ''{}'']"
  by (simp add: aws_turn_def run_simps open_queue_def one_record_def maxMessageBytes_def)

lemma aws_messages_acceptable_witness:
  "length (amDedupID (aws_message_of sample_sdk True sample_record ''{}'')) = 64"
proof -
  obtain h where r: "run_state (aws_Run True sample_sdk quick_options (Suc (Suc 0)) 0 open_queue) [] = (Inr Stop, h)"
    and a: "attempted h = [aws_message_of sample_sdk True sample_record ''{}'']" using open_run by blast
  have "\<forall>k. length (sdkSHA256 sample_sdk k) = 32" by (simp add: sample_sdk_def)
  from aws_messages_acceptable [OF r this] a show ?thesis by simp
qed

end
