(* ===== verification/KafkaSink.thy ===== *)
theory KafkaSink
  imports SinkBase
begin

text \<open>
  \<^verbatim>\<open>evm-sink-kafka\<close>: the router and the loop of \<^verbatim>\<open>src/internal/kafkasink/kafkasink.go\<close> and the
  error classes of \<^verbatim>\<open>src/internal/kafkasink/writer.go\<close>. The broker is a parameter.
\<close>

section \<open>The router\<close>

datatype key_mode = KeyIdentity | KeyDedup | KeyNone | KeyUnset | KeyOther string

record router =
  roDefaultTopic :: string
  roByType :: "string \<rightharpoonup> string"
  roKeyMode :: key_mode

definition NewRouter :: "string \<Rightarrow> (string \<rightharpoonup> string) \<Rightarrow> key_mode \<Rightarrow> string + router" where
  "NewRouter defaultTopic byType keyMode =
     (if defaultTopic = [] \<and> byType = Map.empty
      then Inl ''kafkasink: a default topic or a per-type topic map is required''
      else (case (if keyMode = KeyUnset then KeyIdentity else keyMode) of
          KeyOther s \<Rightarrow> Inl (''kafkasink: unsupported partition_key '' @ s)
        | k \<Rightarrow> Inr \<lparr> roDefaultTopic = defaultTopic, roByType = byType, roKeyMode = k \<rparr>))"

definition route_topic :: "router \<Rightarrow> envelope \<Rightarrow> string" where
  "route_topic R env =
     (case roByType R (eType env) of Some t \<Rightarrow> (if t \<noteq> [] then t else roDefaultTopic R) | None \<Rightarrow> roDefaultTopic R)"

definition Route :: "router \<Rightarrow> envelope \<Rightarrow> string + string \<times> string option" where
  "Route R env =
     (let topic = route_topic R env in
      if topic = [] then Inl (''kafkasink: no topic for record type '' @ eType env)
      else Inr (topic, (case roKeyMode R of
                          KeyNone \<Rightarrow> None
                        | KeyDedup \<Rightarrow> Some (DedupKey env)
                        | _ \<Rightarrow> Some (PartitionIdentity env))))"

record kafka_message =
  kmTopic :: string
  kmKey :: "string option"
  kmValue :: string

section \<open>Errors\<close>

text \<open>The broker errors that \<^verbatim>\<open>permanent\<close> names, any other broker error, and everything else.\<close>

datatype broker_code =
    MessageTooLarge | RecordListTooLarge | UnknownTopicOrPartition | TopicAuthorizationFailed
  | ClusterAuthorizationFailed | SaslAuthenticationFailed | InvalidTopicException | InvalidRecord
  | UnsupportedForMessageFormat | UnsupportedVersion | OtherCode int

datatype produce_error = BrokerError broker_code | ProduceFailed string

datatype publish_error = PermanentError produce_error | PlainError produce_error

definition kafka_permanent :: "produce_error \<Rightarrow> bool" where
  "kafka_permanent e = (case e of BrokerError c \<Rightarrow> (case c of OtherCode _ \<Rightarrow> False | _ \<Rightarrow> True) | ProduceFailed _ \<Rightarrow> False)"

definition kafka_Publish :: "produce_error option \<Rightarrow> publish_error option" where
  "kafka_Publish r = map_option (\<lambda>e. if kafka_permanent e then PermanentError e else PlainError e) r"

definition kafka_Classify :: "publish_error \<Rightarrow> failure_class" where
  "kafka_Classify e = (case e of PermanentError _ \<Rightarrow> ClassPermanent | PlainError _ \<Rightarrow> ClassTransient)"

section \<open>The loop\<close>

text \<open>\<^verbatim>\<open>New\<close>: the required parts, then the defaults.\<close>

definition kafka_New :: "bool \<Rightarrow> sink_setup \<Rightarrow> string + sink_options" where
  "kafka_New has_router st =
     (if \<not> spReader st then Inl ''kafkasink: reader is required''
      else if \<not> spTarget st then Inl ''kafkasink: publisher is required''
      else if \<not> has_router then Inl ''kafkasink: router is required''
      else
        (let Op = spOptions st;
             base = (if soBackoffBase Op \<le> 0 then 500 * millisecond else soBackoffBase Op);
             mx = (if soBackoffMax Op \<le> 0 then 30 * second else soBackoffMax Op);
             timeout = (if soProbeInterval Op > 0 \<and> soProbeTimeout Op \<le> 0
                        then (if soProbeInterval Op < 10 * second then soProbeInterval Op else 10 * second)
                        else soProbeTimeout Op)
         in Inr (Op\<lparr> soBackoffBase := base, soBackoffMax := mx, soProbeTimeout := timeout \<rparr>)))"

definition kafka_jitter :: "(int \<Rightarrow> int) \<Rightarrow> int \<Rightarrow> int" where
  "kafka_jitter randInt d = (if d \<le> 0 then 0 else (let half = d div 2 in half + randInt (half + 1)))"

definition kafka_backoffFor :: "sink_options \<Rightarrow> (int \<Rightarrow> int) \<Rightarrow> nat \<Rightarrow> int" where
  "kafka_backoffFor Op randInt attempt =
     kafka_jitter randInt (backoff_Duration (int attempt) (soBackoffBase Op) (soBackoffMax Op))"

definition kafka_clearBlocked :: "((kafka_message, publish_error) sink_hist, unit) state" where
  "kafka_clearBlocked = do { note_event (Blocked False); note_event (BackoffSeconds 0); note_event (EmitBlocked 0) }"

fun kafka_publishWithRetry :: "nat \<Rightarrow> sink_options \<Rightarrow> (kafka_message, publish_error) sink_world \<Rightarrow> nat \<Rightarrow> int option \<Rightarrow> kafka_message
    \<Rightarrow> ((kafka_message, publish_error) sink_hist, publish_error sink_error + bool) state" where
  "kafka_publishWithRetry 0 Op W attempt blockedSince m = fail StillRetrying"
| "kafka_publishWithRetry (Suc fuel) Op W attempt blockedSince m =
     do { cancelled \<leftarrow> sk_cancelled W;
          if cancelled then ok False
          else do {
            start \<leftarrow> sk_now W;
            perr \<leftarrow> sk_send W m;
            (case perr of
               None \<Rightarrow> do {
                 (if attempt > 0 then kafka_clearBlocked else skip);
                 note_event (Reachable True);
                 note_event (ConsecutiveFailures 0);
                 ok True }
             | Some e \<Rightarrow> do {
                 cancelled2 \<leftarrow> sk_cancelled W;
                 if cancelled2 then ok False
                 else do {
                   note_event (FailedAs (kafka_Classify e));
                   if kafka_Classify e = ClassPermanent then do { kafka_clearBlocked; fail (PermanentFailure e) }
                   else do {
                     t \<leftarrow> sk_now W;
                     note_event (Blocked True);
                     note_event (ConsecutiveFailures (attempt + 1));
                     note_event Retried;
                     note_event (Reachable False);
                     note_event (EmitBlocked (t - (case blockedSince of None \<Rightarrow> start | Some b \<Rightarrow> b)));
                     h \<leftarrow> gets id;
                     note_event (BackoffSeconds (kafka_backoffFor Op (skRand W h) (attempt + 1)));
                     slept \<leftarrow> backoff_Sleep W (kafka_backoffFor Op (skRand W h) (attempt + 1));
                     if \<not> slept then ok False
                     else kafka_publishWithRetry fuel Op W (attempt + 1)
                            (Some (case blockedSince of None \<Rightarrow> start | Some b \<Rightarrow> b)) m } } }) } }"

text \<open>The readiness probe runs beside the loop and writes only the readiness.\<close>

definition kafka_probeOnce :: "(kafka_message, publish_error) sink_world \<Rightarrow> ((kafka_message, publish_error) sink_hist, unit) state" where
  "kafka_probeOnce W =
     do { cancelled \<leftarrow> sk_cancelled W;
          if cancelled then skip
          else do { err \<leftarrow> sk_reach W; note_event (Reachable (err = None)) } }"

fun kafka_probe_ticks :: "nat \<Rightarrow> (kafka_message, publish_error) sink_world \<Rightarrow> ((kafka_message, publish_error) sink_hist, unit) state" where
  "kafka_probe_ticks 0 W = skip"
| "kafka_probe_ticks (Suc n) W =
     do { tick \<leftarrow> gets (skTick W);
          if \<not> tick then skip else do { kafka_probeOnce W; kafka_probe_ticks n W } }"

definition kafka_probeLoop :: "nat \<Rightarrow> (kafka_message, publish_error) sink_world \<Rightarrow> ((kafka_message, publish_error) sink_hist, unit) state" where
  "kafka_probeLoop n W = do { kafka_probeOnce W; kafka_probe_ticks n W }"

text \<open>One turn of the loop of \<^verbatim>\<open>Run\<close>; \<open>limit\<close> bounds the retries of a record, \<open>n\<close> the records.\<close>

definition kafka_turn :: "router \<Rightarrow> sink_options \<Rightarrow> nat \<Rightarrow> (kafka_message, publish_error) sink_world \<Rightarrow> ((kafka_message, publish_error) sink_hist, publish_error sink_error + turn) state" where
  "kafka_turn R Op limit W =
     do { cancelled \<leftarrow> sk_cancelled W;
          if cancelled then ok Stop
          else do {
            r \<leftarrow> sk_read W;
            (case r of
               ReadEOF \<Rightarrow> ok Stop
             | ReadError e \<Rightarrow> do { cancelled2 \<leftarrow> sk_cancelled W; if cancelled2 then ok Stop else fail (ReadFailed e) }
             | ReadRecord env payload \<Rightarrow> do {
                 note_event Consumed;
                 (case Route R env of
                    Inl e \<Rightarrow> fail (NoRoute e)
                  | Inr (topic, key) \<Rightarrow> do {
                     delivered \<leftarrow> kafka_publishWithRetry (Suc limit) Op W 0 None \<lparr> kmTopic = topic, kmKey = key, kmValue = payload \<rparr>;
                     (case delivered of
                        Inl e \<Rightarrow> fail e
                      | Inr False \<Rightarrow> ok Stop
                      | Inr True \<Rightarrow> do { note_event (Delivered (eType env)); ok Again }) }) }) } }"

fun kafka_Run :: "router \<Rightarrow> sink_options \<Rightarrow> nat \<Rightarrow> nat \<Rightarrow> (kafka_message, publish_error) sink_world \<Rightarrow> ((kafka_message, publish_error) sink_hist, publish_error sink_error + turn) state" where
  "kafka_Run R Op 0 limit W = ok Again"
| "kafka_Run R Op (Suc n) limit W =
     check (kafka_turn R Op limit W) (\<lambda>t. case t of Stop \<Rightarrow> ok Stop | Again \<Rightarrow> kafka_Run R Op n limit W)"

text \<open>What the loop makes of a record.\<close>

definition kafka_prepare :: "router \<Rightarrow> envelope \<Rightarrow> string \<Rightarrow> publish_error sink_error + kafka_message option" where
  "kafka_prepare R env payload = (case Route R env of Inl e \<Rightarrow> Inl (NoRoute e) | Inr (topic, key) \<Rightarrow> Inr (Some \<lparr> kmTopic = topic, kmKey = key, kmValue = payload \<rparr>))"

interpretation kafka_retry: retry_loop "\<lambda>fuel. kafka_publishWithRetry fuel Op" "kafka_Classify" "kafka_backoffFor Op" "kafka_clearBlocked" True
  for Op
  by unfold_locales (simp_all add: kafka_clearBlocked_def run_simps)

interpretation kafka_loop: record_loop "kafka_Classify" "\<lambda>limit W. kafka_publishWithRetry (Suc limit) Op W 0 None" "kafka_prepare R "
    "kafka_turn R Op" "kafka_Run R Op" for R Op
proof
  show "run_state (kafka_publishWithRetry (Suc limit) Op W 0 None m) h = (r, h') \<Longrightarrow>
       \<exists>t. h' = h @ t \<and> (\<forall>rr. Read rr \<notin> set t) \<and> records_read t = [] \<and> delivered_count t = 0
         \<and> set (attempted t) \<subseteq> {m} \<and> confirmed t = (if r = Inr True then [m] else [])" for limit W m h r h'
    using kafka_retry.outcome by blast
  show "\<forall>h. \<not> skCancelled W h \<and> skSleep W h \<Longrightarrow>
       \<forall>h m e. skSend W h m = Some e \<longrightarrow> kafka_Classify e = ClassTransient \<Longrightarrow>
       \<forall>h m. limit \<le> failures h \<longrightarrow> skSend W h m = None \<Longrightarrow>
       fst (run_state (kafka_publishWithRetry (Suc limit) Op W 0 None m) h) = Inr True" for W limit m h
    by (rule kafka_retry.survives) auto
  show "kafka_turn R Op limit W =
      do { c \<leftarrow> sk_cancelled W;
           if c then ok Stop
           else do {
             r \<leftarrow> sk_read W;
             (case r of
                ReadEOF \<Rightarrow> ok Stop
              | ReadError e \<Rightarrow> do { c2 \<leftarrow> sk_cancelled W; if c2 then ok Stop else fail (ReadFailed e) }
              | ReadRecord env payload \<Rightarrow> do {
                  note_event Consumed;
                  (case kafka_prepare R env payload of
                     Inl err \<Rightarrow> fail err
                   | Inr None \<Rightarrow> do { note_event FilteredOut; ok Again }
                   | Inr (Some m) \<Rightarrow>
                       check (kafka_publishWithRetry (Suc limit) Op W 0 None m) (\<lambda>posted.
                         if \<not> posted then ok Stop
                         else do { note_event (Delivered (eType env)); ok Again })) }) } }" for limit W
    unfolding kafka_turn_def
    by (intro state_ext) (auto simp: run_simps kafka_prepare_def split: read_result.split sum.split bool.split prod.split)
qed (auto simp: fun_eq_iff split: turn.split intro!: check_cong)

text \<open>
C26: A broker outage delays but never loses: whatever the pattern of transient failures, if there
  are boundedly many of them, every record read is published - to its topic, under its key, with
  its verbatim line - in stream order and confirmed exactly once, and the sink stops only for the
  end of the stream or an unreadable line.
\<close>
theorem kafka_outage_loses_nothing:
  assumes "run_state (kafka_Run R Op n limit W) [] = (r, h)"
    and "\<forall>h m. skSend W h m = kafka_Publish (client h m)"
    and "\<forall>h m e. client h m = Some e \<longrightarrow> \<not> kafka_permanent e"
    and "\<forall>h m. limit \<le> failures h \<longrightarrow> client h m = None"
    and "\<forall>h. \<not> skCancelled W h \<and> skSleep W h"
    and "roDefaultTopic R \<noteq> []"
  shows "map kmValue (confirmed h) = map snd (records_read h)
    \<and> list_all2 (\<lambda>m (env, _). Route R env = Inr (kmTopic m, kmKey m)) (confirmed h) (records_read h)
    \<and> (\<forall>err. r = Inl err \<longrightarrow> (\<exists>e. err = ReadFailed e))"
proof -
  have routed: "\<exists>k. Route R env = Inr (route_topic R env, k)" for env
    using assms(6) by (auto simp: Route_def route_topic_def Let_def split: option.split)
  have tr: "\<forall>h m e. skSend W h m = Some e \<longrightarrow> kafka_Classify e = ClassTransient"
    using assms(2,3) by (auto simp: kafka_Publish_def kafka_Classify_def)
  have ends: "\<forall>h m. limit \<le> failures h \<longrightarrow> skSend W h m = None"
    using assms(2,4) by (simp add: kafka_Publish_def)
  from kafka_loop.all_confirmed [OF assms(1,5) tr ends] have
    c: "confirmed h = messages_of (kafka_prepare R) (records_read h)" and
    e: "\<forall>err. r = Inl err \<longrightarrow> (\<exists>e. err = ReadFailed e)
      \<or> (\<exists>env p. (env, p) \<in> set (records_read h) \<and> kafka_prepare R env p = Inl err)" by auto
  have "map kmValue (messages_of (kafka_prepare R) rs) = map snd rs
    \<and> list_all2 (\<lambda>m (env, _). Route R env = Inr (kmTopic m, kmKey m)) (messages_of (kafka_prepare R) rs) rs" for rs
  proof (induction rs)
    case (Cons x rs)
    obtain env p where x: "x = (env, p)" by (cases x)
    obtain k where "Route R env = Inr (route_topic R env, k)" using routed by blast
    with Cons show ?case by (simp add: x kafka_prepare_def)
  qed simp
  from this [of "records_read h"] have lists: "map kmValue (confirmed h) = map snd (records_read h)"
    "list_all2 (\<lambda>m (env, _). Route R env = Inr (kmTopic m, kmKey m)) (confirmed h) (records_read h)"
    unfolding c by blast+
  have "kafka_prepare R env p \<noteq> Inl err" for env p err
    using routed [of env] by (auto simp: kafka_prepare_def)
  with e have "\<forall>err. r = Inl err \<longrightarrow> (\<exists>e. err = ReadFailed e)" by blast
  with lists show ?thesis by blast
qed

text \<open>A broker that fails twice, a stream of one record.\<close>

definition flaky_broker :: "(kafka_message, publish_error) sink_hist \<Rightarrow> kafka_message \<Rightarrow> produce_error option" where
  "flaky_broker h m = (if failures h < 2 then Some (BrokerError (OtherCode 6)) else None)"

definition flaky_cluster :: "(kafka_message, publish_error) sink_world" where
  "flaky_cluster = \<lparr> skRead = one_record, skSend = (\<lambda>h m. kafka_Publish (flaky_broker h m)), skReach = (\<lambda>_. None),
     skCancelled = (\<lambda>_. False), skSleep = (\<lambda>_. True), skTick = (\<lambda>_. True), skNow = (\<lambda>_. 0), skRand = (\<lambda>_ _. 0) \<rparr>"

definition one_topic :: router where
  "one_topic = \<lparr> roDefaultTopic = ''evm'', roByType = Map.empty, roKeyMode = KeyIdentity \<rparr>"

lemma flaky_run:
  "\<exists>r h. run_state (kafka_Run one_topic quick_options (Suc 0) (Suc (Suc 0)) flaky_cluster) [] = (r, h)
     \<and> records_read h = [(sample_record, ''{}'')]"
  by (simp add: kafka_turn_def run_simps flaky_cluster_def flaky_broker_def one_record_def kafka_Classify_def
      kafka_Publish_def kafka_permanent_def kafka_clearBlocked_def one_topic_def Route_def route_topic_def
      backoff_Sleep_def kafka_backoffFor_def kafka_jitter_def backoff_Duration_def quick_options_def)

lemma kafka_outage_loses_nothing_witness:
  "\<exists>r h. run_state (kafka_Run one_topic quick_options (Suc 0) (Suc (Suc 0)) flaky_cluster) [] = (r, h)
     \<and> map kmValue (confirmed h) = [''{}'']"
proof -
  obtain r h where run: "run_state (kafka_Run one_topic quick_options (Suc 0) (Suc (Suc 0)) flaky_cluster) [] = (r, h)"
    and rd: "records_read h = [(sample_record, ''{}'')]" using flaky_run by blast
  from kafka_outage_loses_nothing [OF run, of flaky_broker] rd run show ?thesis
    by (simp add: flaky_cluster_def flaky_broker_def kafka_permanent_def one_topic_def)
qed

end
