(* ===== verification/Webhook.thy ===== *)
theory Webhook
  imports Complex_Main SinkBase
begin

text \<open>
  \<^verbatim>\<open>evm-sink-webhook\<close>: the filter of \<^verbatim>\<open>src/internal/webhooksink/filter.go\<close>, the poster and the
  redaction of \<^verbatim>\<open>poster.go\<close>, and the loop of \<^verbatim>\<open>webhooksink.go\<close>. The endpoint is a
  parameter, and so are the two conversions of \<^verbatim>\<open>math/big\<close> the filter uses: its 256-bit float
  parser, and the decimal text of the \<^verbatim>\<open>float64\<close> a JSON number decodes to.
\<close>

section \<open>The filter\<close>

datatype field_op = OpEq | OpGt | OpLt | OpOther string

record field_condition =
  fcField :: string
  fcOp :: field_op
  fcValue :: string

record filter_options =
  foIncludeTypes :: "string list"
  foExcludeTypes :: "string list"
  foIncludeNames :: "string list"
  foExcludeNames :: "string list"
  foField :: "field_condition option"

record filter_set =
  fsIncludeTypes :: "string list"
  fsExcludeTypes :: "string list"
  fsIncludeNames :: "string list"
  fsExcludeNames :: "string list"
  fsField :: "field_condition option"

text \<open>The value of a parsed number, and the conversions: the parser gets the trimmed, non-empty
text, the rendering gets the text of a JSON number.\<close>

datatype number = NegInf | Finite rat | PosInf

record big_float =
  bfParse :: "string \<Rightarrow> number option"
  bfText :: "string \<Rightarrow> string"

fun number_cmp :: "number \<Rightarrow> number \<Rightarrow> int" where
  "number_cmp (Finite a) (Finite b) = (if a < b then -1 else if a = b then 0 else 1)"
| "number_cmp NegInf NegInf = 0"
| "number_cmp NegInf _ = -1"
| "number_cmp _ NegInf = 1"
| "number_cmp PosInf PosInf = 0"
| "number_cmp PosInf _ = 1"
| "number_cmp _ PosInf = -1"

definition toSet :: "string list \<Rightarrow> string list" where
  "toSet items = filter (\<lambda>s. s \<noteq> []) (map trim_space items)"

definition NewFilter :: "filter_options \<Rightarrow> string + filter_set" where
  "NewFilter opts =
     (let f = \<lparr> fsIncludeTypes = toSet (foIncludeTypes opts), fsExcludeTypes = toSet (foExcludeTypes opts),
                fsIncludeNames = toSet (foIncludeNames opts), fsExcludeNames = toSet (foExcludeNames opts),
                fsField = None \<rparr> in
      case foField opts of
        None \<Rightarrow> Inr f
      | Some fc \<Rightarrow>
          if trim_space (fcField fc) = [] then Inl ''webhooksink: filter field condition requires a field name''
          else (case fcOp fc of
                  OpOther s \<Rightarrow> Inl (''webhooksink: unsupported field condition op '' @ s)
                | _ \<Rightarrow> Inr (f\<lparr> fsField := Some fc \<rparr>)))"

definition scalarString :: "big_float \<Rightarrow> json \<Rightarrow> string" where
  "scalarString P v = (case v of JStr s \<Rightarrow> s | JBool b \<Rightarrow> (if b then ''true'' else ''false'') | JNum s \<Rightarrow> bfText P s | _ \<Rightarrow> [])"

definition parseNumber :: "big_float \<Rightarrow> string \<Rightarrow> number option" where
  "parseNumber P s = (let t = trim_space s in if t = [] then None else bfParse P t)"

definition field_matches :: "big_float \<Rightarrow> field_condition \<Rightarrow> envelope \<Rightarrow> bool" where
  "field_matches P c env =
     (case eData env of
        DJson (JObj members) \<Rightarrow>
          (case map_of members (fcField c) of
             None \<Rightarrow> False
           | Some raw \<Rightarrow>
               (let got = scalarString P raw; gotNum = parseNumber P got; wantNum = parseNumber P (fcValue c) in
                case fcOp c of
                  OpEq \<Rightarrow> (case (gotNum, wantNum) of
                            (Some a, Some b) \<Rightarrow> number_cmp a b = 0
                          | _ \<Rightarrow> got = fcValue c)
                | OpGt \<Rightarrow> (case (gotNum, wantNum) of (Some a, Some b) \<Rightarrow> number_cmp a b > 0 | _ \<Rightarrow> False)
                | OpLt \<Rightarrow> (case (gotNum, wantNum) of (Some a, Some b) \<Rightarrow> number_cmp a b < 0 | _ \<Rightarrow> False)
                | OpOther _ \<Rightarrow> False))
      | _ \<Rightarrow> False)"

definition Allow :: "big_float \<Rightarrow> filter_set \<Rightarrow> envelope \<Rightarrow> bool" where
  "Allow P f env =
     (if fsIncludeTypes f \<noteq> [] \<and> eType env \<notin> set (fsIncludeTypes f) then False
      else if eType env \<in> set (fsExcludeTypes f) then False
      else if fsIncludeNames f \<noteq> [] \<and> eName env \<notin> set (fsIncludeNames f) then False
      else if eName env \<in> set (fsExcludeNames f) then False
      else (case fsField f of None \<Rightarrow> True | Some c \<Rightarrow> field_matches P c env))"

section \<open>The poster\<close>

datatype post_error = PermanentPost string | TransientHTTP nat | PostFailed string

datatype http_answer = BadRequest string | RoundTripFailed string | Status nat

record poster_config =
  pcURL :: string
  pcMethod :: string
  pcHeaders :: "(string \<times> string) list"
  pcAuthHeader :: string
  pcAuthValue :: string
  pcTimeout :: int
  pcHealthURL :: string

record http_poster =
  hpURL :: string
  hpMethod :: string
  hpHeaders :: "string \<rightharpoonup> string"
  hpTimeout :: int
  hpHealthURL :: string

fun index_of :: "string \<Rightarrow> string \<Rightarrow> nat option" where
  "index_of sub [] = (if sub = [] then Some 0 else None)"
| "index_of sub (c # s) = (if has_prefix sub (c # s) then Some 0 else map_option Suc (index_of sub s))"

definition webhook_RedactURL :: "string \<Rightarrow> string" where
  "webhook_RedactURL raw =
     (let raw1 = (case index_byte CHR ''?'' raw of Some i \<Rightarrow> take i raw | None \<Rightarrow> raw);
          (scheme, rest1) = (case index_of ''://'' raw1 of
             Some i \<Rightarrow> (take (i + 3) raw1, drop (i + 3) raw1) | None \<Rightarrow> ([], raw1));
          rest2 = (case index_byte CHR ''@'' rest1 of Some i \<Rightarrow> drop (i + 1) rest1 | None \<Rightarrow> rest1);
          (host, path) = (case index_byte CHR ''/'' rest2 of
             Some i \<Rightarrow> (take i rest2, drop i rest2) | None \<Rightarrow> (rest2, []))
      in if path \<noteq> [] \<and> path \<noteq> ''/'' then scheme @ host @ ''/[redacted]'' else scheme @ host @ path)"

definition is_http :: "string \<Rightarrow> bool" where
  "is_http u \<longleftrightarrow> has_prefix ''http://'' u \<or> has_prefix ''https://'' u"

definition NewHTTPPoster :: "poster_config \<Rightarrow> string + http_poster" where
  "NewHTTPPoster cfg =
     (let url = trim_space (pcURL cfg) in
      if url = [] then Inl ''webhooksink: a webhook url is required''
      else if \<not> is_http url then Inl (''webhooksink: webhook url must be http(s), got '' @ webhook_RedactURL url)
      else
        (let m0 = to_upper (trim_space (pcMethod cfg)); m = (if m0 = [] then ''POST'' else m0) in
         if m \<notin> {''POST'', ''PUT'', ''PATCH''} then Inl (''webhooksink: unsupported webhook method '' @ pcMethod cfg)
         else
           (let statics = filter (\<lambda>(k, v). trim_space k \<noteq> []) (pcHeaders cfg);
                headers0 = map_of statics;
                headers = (if trim_space (pcAuthHeader cfg) \<noteq> [] \<and> pcAuthValue cfg \<noteq> []
                           then headers0(pcAuthHeader cfg \<mapsto> pcAuthValue cfg) else headers0);
                timeout = (if pcTimeout cfg \<le> 0 then 10 * second else pcTimeout cfg);
                health = trim_space (pcHealthURL cfg)
            in if health \<noteq> [] \<and> \<not> is_http health
               then Inl (''webhooksink: webhook health_url must be http(s), got '' @ webhook_RedactURL health)
               else Inr \<lparr> hpURL = url, hpMethod = m, hpHeaders = headers, hpTimeout = timeout, hpHealthURL = health \<rparr>)))"

definition webhook_Post :: "http_answer \<Rightarrow> post_error option" where
  "webhook_Post a =
     (case a of
        BadRequest e \<Rightarrow> Some (PermanentPost (''build request: '' @ e))
      | RoundTripFailed e \<Rightarrow> Some (PostFailed e)
      | Status s \<Rightarrow>
          if 200 \<le> s \<and> s < 300 then None
          else if 300 \<le> s \<and> s < 400 then Some (PermanentPost (''HTTP '' @ show_nat s @ '' redirect not followed''))
          else if 400 \<le> s \<and> s < 500 then Some (PermanentPost (''HTTP '' @ show_nat s @ '' (client error)''))
          else Some (TransientHTTP s))"

definition poster_Reachable :: "http_poster \<Rightarrow> http_answer \<Rightarrow> string option" where
  "poster_Reachable p a =
     (if hpHealthURL p = [] then None
      else case a of
        BadRequest e \<Rightarrow> Some e
      | RoundTripFailed e \<Rightarrow> Some e
      | Status s \<Rightarrow> if 200 \<le> s \<and> s < 300 then None else Some (''health check returned HTTP '' @ show_nat s))"

definition webhook_Classify :: "post_error \<Rightarrow> failure_class" where
  "webhook_Classify e = (case e of PermanentPost _ \<Rightarrow> ClassPermanent | _ \<Rightarrow> ClassTransient)"

section \<open>The loop\<close>

text \<open>\<^verbatim>\<open>New\<close>: the required parts, then the defaults.\<close>

definition webhook_New :: "sink_setup \<Rightarrow> string + sink_options" where
  "webhook_New st =
     (if \<not> spReader st then Inl ''webhooksink: reader is required''
      else if \<not> spTarget st then Inl ''webhooksink: poster is required''
      else
        (let Op = spOptions st;
             base = (if soBackoffBase Op \<le> 0 then 500 * millisecond else soBackoffBase Op);
             mx = (if soBackoffMax Op \<le> 0 then 30 * second else soBackoffMax Op);
             timeout = (if soProbeInterval Op > 0 \<and> soProbeTimeout Op \<le> 0
                        then (if soProbeInterval Op < 10 * second then soProbeInterval Op else 10 * second)
                        else soProbeTimeout Op)
         in Inr (Op\<lparr> soBackoffBase := base, soBackoffMax := mx, soProbeTimeout := timeout \<rparr>)))"

definition webhook_jitter :: "(int \<Rightarrow> int) \<Rightarrow> int \<Rightarrow> int" where
  "webhook_jitter randInt d = (if d \<le> 0 then 0 else (let half = d div 2 in half + randInt (half + 1)))"

definition webhook_backoffFor :: "sink_options \<Rightarrow> (int \<Rightarrow> int) \<Rightarrow> nat \<Rightarrow> int" where
  "webhook_backoffFor Op randInt attempt =
     webhook_jitter randInt (backoff_Duration (int attempt) (soBackoffBase Op) (soBackoffMax Op))"

definition webhook_clearBlocked :: "((string, post_error) sink_hist, unit) state" where
  "webhook_clearBlocked = do { note_event (Blocked False); note_event (BackoffSeconds 0); note_event (EmitBlocked 0) }"

fun webhook_postWithRetry :: "nat \<Rightarrow> sink_options \<Rightarrow> (string, post_error) sink_world \<Rightarrow> nat \<Rightarrow> int option \<Rightarrow> string
    \<Rightarrow> ((string, post_error) sink_hist, post_error sink_error + bool) state" where
  "webhook_postWithRetry 0 Op W attempt blockedSince m = fail StillRetrying"
| "webhook_postWithRetry (Suc fuel) Op W attempt blockedSince m =
     do { cancelled \<leftarrow> sk_cancelled W;
          if cancelled then ok False
          else do {
            start \<leftarrow> sk_now W;
            perr \<leftarrow> sk_send W m;
            (case perr of
               None \<Rightarrow> do {
                 (if attempt > 0 then webhook_clearBlocked else skip);
                 note_event (Reachable True);
                 note_event (ConsecutiveFailures 0);
                 ok True }
             | Some e \<Rightarrow> do {
                 cancelled2 \<leftarrow> sk_cancelled W;
                 if cancelled2 then ok False
                 else do {
                   note_event (FailedAs (webhook_Classify e));
                   if webhook_Classify e = ClassPermanent then do { webhook_clearBlocked; fail (PermanentFailure e) }
                   else do {
                     t \<leftarrow> sk_now W;
                     note_event (Blocked True);
                     note_event (ConsecutiveFailures (attempt + 1));
                     note_event Retried;
                     note_event (Reachable False);
                     note_event (EmitBlocked (t - (case blockedSince of None \<Rightarrow> start | Some b \<Rightarrow> b)));
                     h \<leftarrow> gets id;
                     note_event (BackoffSeconds (webhook_backoffFor Op (skRand W h) (attempt + 1)));
                     slept \<leftarrow> backoff_Sleep W (webhook_backoffFor Op (skRand W h) (attempt + 1));
                     if \<not> slept then ok False
                     else webhook_postWithRetry fuel Op W (attempt + 1)
                            (Some (case blockedSince of None \<Rightarrow> start | Some b \<Rightarrow> b)) m } } }) } }"

text \<open>The readiness probe runs beside the loop and writes only the readiness.\<close>

definition webhook_probeOnce :: "(string, post_error) sink_world \<Rightarrow> ((string, post_error) sink_hist, unit) state" where
  "webhook_probeOnce W =
     do { cancelled \<leftarrow> sk_cancelled W;
          if cancelled then skip
          else do { err \<leftarrow> sk_reach W; note_event (Reachable (err = None)) } }"

fun webhook_probe_ticks :: "nat \<Rightarrow> (string, post_error) sink_world \<Rightarrow> ((string, post_error) sink_hist, unit) state" where
  "webhook_probe_ticks 0 W = skip"
| "webhook_probe_ticks (Suc n) W =
     do { tick \<leftarrow> gets (skTick W);
          if \<not> tick then skip else do { webhook_probeOnce W; webhook_probe_ticks n W } }"

definition webhook_probeLoop :: "nat \<Rightarrow> (string, post_error) sink_world \<Rightarrow> ((string, post_error) sink_hist, unit) state" where
  "webhook_probeLoop n W = do { webhook_probeOnce W; webhook_probe_ticks n W }"

text \<open>One turn of the loop of \<^verbatim>\<open>Run\<close>; \<open>limit\<close> bounds the retries of a record, \<open>n\<close> the records.\<close>

definition webhook_turn :: "big_float \<Rightarrow> filter_set \<Rightarrow> sink_options \<Rightarrow> nat \<Rightarrow> (string, post_error) sink_world \<Rightarrow> ((string, post_error) sink_hist, post_error sink_error + turn) state" where
  "webhook_turn P F Op limit W =
     do { cancelled \<leftarrow> sk_cancelled W;
          if cancelled then ok Stop
          else do {
            r \<leftarrow> sk_read W;
            (case r of
               ReadEOF \<Rightarrow> ok Stop
             | ReadError e \<Rightarrow> do { cancelled2 \<leftarrow> sk_cancelled W; if cancelled2 then ok Stop else fail (ReadFailed e) }
             | ReadRecord env payload \<Rightarrow> do {
                 note_event Consumed;
                 if \<not> Allow P F env then do { note_event FilteredOut; ok Again }
                 else do {
                   delivered \<leftarrow> webhook_postWithRetry (Suc limit) Op W 0 None payload;
                   (case delivered of
                      Inl e \<Rightarrow> fail e
                    | Inr False \<Rightarrow> ok Stop
                    | Inr True \<Rightarrow> do { note_event (Delivered (eType env)); ok Again }) } }) } }"

fun webhook_Run :: "big_float \<Rightarrow> filter_set \<Rightarrow> sink_options \<Rightarrow> nat \<Rightarrow> nat \<Rightarrow> (string, post_error) sink_world \<Rightarrow> ((string, post_error) sink_hist, post_error sink_error + turn) state" where
  "webhook_Run P F Op 0 limit W = ok Again"
| "webhook_Run P F Op (Suc n) limit W =
     check (webhook_turn P F Op limit W) (\<lambda>t. case t of Stop \<Rightarrow> ok Stop | Again \<Rightarrow> webhook_Run P F Op n limit W)"

text \<open>What the loop makes of a record.\<close>

definition webhook_prepare :: "big_float \<Rightarrow> filter_set \<Rightarrow> envelope \<Rightarrow> string \<Rightarrow> post_error sink_error + string option" where
  "webhook_prepare P F env payload = (if Allow P F env then Inr (Some payload) else Inr None)"

interpretation webhook_retry: retry_loop "\<lambda>fuel. webhook_postWithRetry fuel Op" "webhook_Classify" "webhook_backoffFor Op" "webhook_clearBlocked" True
  for Op
  by unfold_locales (simp_all add: webhook_clearBlocked_def run_simps)

interpretation webhook_loop: record_loop "webhook_Classify" "\<lambda>limit W. webhook_postWithRetry (Suc limit) Op W 0 None" "webhook_prepare P F "
    "webhook_turn P F Op" "webhook_Run P F Op" for P F Op
proof
  show "run_state (webhook_postWithRetry (Suc limit) Op W 0 None m) h = (r, h') \<Longrightarrow>
       \<exists>t. h' = h @ t \<and> (\<forall>rr. Read rr \<notin> set t) \<and> records_read t = [] \<and> delivered_count t = 0
         \<and> set (attempted t) \<subseteq> {m} \<and> confirmed t = (if r = Inr True then [m] else [])" for limit W m h r h'
    using webhook_retry.outcome by blast
  show "\<forall>h. \<not> skCancelled W h \<and> skSleep W h \<Longrightarrow>
       \<forall>h m e. skSend W h m = Some e \<longrightarrow> webhook_Classify e = ClassTransient \<Longrightarrow>
       \<forall>h m. limit \<le> failures h \<longrightarrow> skSend W h m = None \<Longrightarrow>
       fst (run_state (webhook_postWithRetry (Suc limit) Op W 0 None m) h) = Inr True" for W limit m h
    by (rule webhook_retry.survives) auto
  show "webhook_turn P F Op limit W =
      do { c \<leftarrow> sk_cancelled W;
           if c then ok Stop
           else do {
             r \<leftarrow> sk_read W;
             (case r of
                ReadEOF \<Rightarrow> ok Stop
              | ReadError e \<Rightarrow> do { c2 \<leftarrow> sk_cancelled W; if c2 then ok Stop else fail (ReadFailed e) }
              | ReadRecord env payload \<Rightarrow> do {
                  note_event Consumed;
                  (case webhook_prepare P F env payload of
                     Inl err \<Rightarrow> fail err
                   | Inr None \<Rightarrow> do { note_event FilteredOut; ok Again }
                   | Inr (Some m) \<Rightarrow>
                       check (webhook_postWithRetry (Suc limit) Op W 0 None m) (\<lambda>posted.
                         if \<not> posted then ok Stop
                         else do { note_event (Delivered (eType env)); ok Again })) }) } }" for limit W
    unfolding webhook_turn_def
    by (intro state_ext) (auto simp: run_simps webhook_prepare_def split: read_result.split sum.split bool.split prod.split)
qed (auto simp: fun_eq_iff split: turn.split intro!: check_cong)

section \<open>What is forwarded\<close>

lemma messages_allowed: "messages_of (webhook_prepare P F) rs = map snd (filter (\<lambda>(env, _). Allow P F env) rs)"
  by (induction rs) (auto simp: webhook_prepare_def)

text \<open>
C30: The webhook forwards exactly the records its filter allows: the bodies the endpoint accepted
  are the verbatim lines of the allowed records read so far, in stream order, at most the last one
  missing - and that only when the sink stopped; nothing a filter refuses is ever sent.
\<close>
theorem webhook_forwards_allowed:
  assumes "run_state (webhook_Run P F Op n limit W) [] = (r, h)"
  shows "(\<exists>pending. map snd (filter (\<lambda>(env, _). Allow P F env) (records_read h)) = confirmed h @ pending
       \<and> length pending \<le> 1 \<and> (pending \<noteq> [] \<longrightarrow> r \<noteq> Inr Again \<and> last h \<noteq> Read ReadEOF))
    \<and> set (attempted h) \<subseteq> snd ` {(env, p) \<in> set (records_read h). Allow P F env}
    \<and> delivered_count h = length (confirmed h)"
proof -
  from webhook_loop.in_order [OF assms] obtain t pending where "h = [] @ t" and
    t: "map snd (filter (\<lambda>(env, _). Allow P F env) (records_read t)) = confirmed t @ pending"
    "set (attempted t) \<subseteq> set (map snd (filter (\<lambda>(env, _). Allow P F env) (records_read t)))"
    "length pending \<le> 1" "delivered_count t = length (confirmed t)"
    "pending \<noteq> [] \<longrightarrow> r \<noteq> Inr Again \<and> last t \<noteq> Read ReadEOF"
    unfolding messages_allowed by blast
  then have "t = h" by simp
  note t [unfolded this]
  moreover have "set (map snd (filter (\<lambda>(env, _). Allow P F env) rs)) = snd ` {(env, p) \<in> set rs. Allow P F env}"
    for rs :: "(envelope \<times> string) list" by (auto simp: image_iff)
  ultimately show ?thesis by blast
qed

definition only_reorgs :: filter_set where
  "only_reorgs = \<lparr> fsIncludeTypes = [TypeReorg], fsExcludeTypes = [], fsIncludeNames = [], fsExcludeNames = [], fsField = None \<rparr>"

definition rejecting_endpoint :: "nat \<Rightarrow> (string, post_error) sink_world" where
  "rejecting_endpoint s = \<lparr> skRead = one_record, skSend = (\<lambda>h m. webhook_Post (Status s)), skReach = (\<lambda>_. None),
     skCancelled = (\<lambda>_. False), skSleep = (\<lambda>_. True), skTick = (\<lambda>_. True), skNow = (\<lambda>_. 0), skRand = (\<lambda>_ _. 0) \<rparr>"

definition no_floats :: big_float where
  "no_floats = \<lparr> bfParse = (\<lambda>_. None), bfText = id \<rparr>"

lemma accepted_run:
  "\<exists>r h. run_state (webhook_Run no_floats only_reorgs quick_options (Suc 0) 0 (rejecting_endpoint 204)) [] = (r, h)
     \<and> records_read h = [(sample_record, ''{}'')] \<and> r = Inr Again"
  by (simp add: webhook_turn_def run_simps rejecting_endpoint_def one_record_def webhook_Post_def Allow_def only_reorgs_def
      sample_record_def)

lemma webhook_forwards_allowed_witness:
  "\<exists>r h. run_state (webhook_Run no_floats only_reorgs quick_options (Suc 0) 0 (rejecting_endpoint 204)) [] = (r, h)
     \<and> confirmed h = [''{}'']"
proof -
  obtain r h where run: "run_state (webhook_Run no_floats only_reorgs quick_options (Suc 0) 0 (rejecting_endpoint 204)) [] = (r, h)"
    and rd: "records_read h = [(sample_record, ''{}'')]" "r = Inr Again" using accepted_run by blast
  from webhook_forwards_allowed [OF run] rd run show ?thesis
    by (auto simp: Allow_def only_reorgs_def sample_record_def)
qed

text \<open>
The endpoint's refusal is never skipped over: when it answers an allowed record with a
  redirect or a client error, the sink ends with the permanent error after that single attempt,
  and nothing of the record is counted as delivered; it does not read on.
\<close>
theorem webhook_refusal_stops:
  assumes "skRead W h = ReadRecord env body" and "Allow P F env" and "\<forall>h. \<not> skCancelled W h"
    and "\<forall>h m. skSend W h m = webhook_Post (answer h m)"
    and "\<forall>h. answer h body = Status s" and "300 \<le> s" and "s < 500"
  shows "\<exists>e t. run_state (webhook_Run P F Op (Suc n) limit W) h = (Inl (PermanentFailure (PermanentPost e)), h @ t)
    \<and> attempted t = [body] \<and> confirmed t = [] \<and> records_read t = [(env, body)] \<and> delivered_count t = 0"
proof -
  obtain e where "webhook_Post (Status s) = Some (PermanentPost e)"
    using assms(6,7) by (cases "s < 400") (auto simp: webhook_Post_def)
  with assms(1-5) show ?thesis
    by (auto simp: webhook_turn_def run_simps webhook_Classify_def webhook_clearBlocked_def)
qed

lemma webhook_refusal_stops_witness:
  "\<exists>e t. run_state (webhook_Run no_floats only_reorgs quick_options (Suc 0) 5 (rejecting_endpoint 308)) []
     = (Inl (PermanentFailure (PermanentPost e)), [] @ t) \<and> confirmed t = []"
  using webhook_refusal_stops [of "rejecting_endpoint 308" "[]" sample_record "''{}''" no_floats only_reorgs
      "\<lambda>_ _. Status 308" 308 quick_options 0 5]
  by (force simp: rejecting_endpoint_def one_record_def Allow_def only_reorgs_def sample_record_def)

section \<open>Redaction\<close>

lemma index_of_scheme:
  "CHR '':'' \<notin> set s \<Longrightarrow> index_of ''://'' (s @ CHR '':'' # CHR ''/'' # CHR ''/'' # r) = Some (length s)"
  by (induction s) (auto simp: has_prefix_def)

text \<open>The URL without its query, as the redaction sees it.\<close>

lemma redact_query:
  assumes "CHR ''?'' \<notin> set u" and "query = [] \<or> (\<exists>q. query = CHR ''?'' # q)"
  shows "webhook_RedactURL (u @ query) = webhook_RedactURL u"
  using assms by (auto simp: webhook_RedactURL_def index_byte_append index_byte_absent)

definition plain_part :: "string \<Rightarrow> bool" where
  "plain_part s \<longleftrightarrow> CHR ''?'' \<notin> set s \<and> CHR ''@'' \<notin> set s"

text \<open>
Redaction keeps the delivery secret out of logs and errors: of a webhook URL with a path, user
  information and a query, none of them is printed, only the scheme and the host - provided the
  path contains no at-sign.
\<close>
theorem redaction_hides:
  assumes "CHR '':'' \<notin> set scheme" and "CHR ''?'' \<notin> set scheme" and "plain_part host" and "plain_part path"
    and "CHR ''/'' \<notin> set host" and "path \<noteq> []" and "query = [] \<or> (\<exists>q. query = CHR ''?'' # q)"
    and "user = [] \<or> (\<exists>u. plain_part u \<and> user = u @ ''@'')"
  shows "webhook_RedactURL (scheme @ ''://'' @ user @ host @ ''/'' @ path @ query) = scheme @ ''://'' @ host @ ''/[redacted]''"
proof -
  let ?u = "scheme @ ''://'' @ user @ host @ ''/'' @ path"
  have "CHR ''?'' \<notin> set ?u" using assms by (auto simp: plain_part_def)
  from redact_query [OF this assms(7)] have "webhook_RedactURL (?u @ query) = webhook_RedactURL ?u" .
  moreover have "webhook_RedactURL ?u = scheme @ ''://'' @ host @ ''/[redacted]''"
    using assms(8)
  proof
    assume "user = []"
    with assms show ?thesis unfolding webhook_RedactURL_def
      by (simp add: index_of_scheme index_byte_append index_byte_absent plain_part_def)
  next
    assume "\<exists>u. plain_part u \<and> user = u @ ''@''"
    with assms show ?thesis unfolding webhook_RedactURL_def
      by (auto simp: index_of_scheme index_byte_append index_byte_absent plain_part_def)
  qed
  ultimately show ?thesis by simp
qed

lemma redaction_hides_witness:
  "webhook_RedactURL ''https://u:p@hooks.example/services/T1/SECRET?k=v'' = ''https://hooks.example/[redacted]''"
  using redaction_hides [of "''https''" "''hooks.example''" "''services/T1/SECRET''" "''?k=v''" "''u:p@''"]
  by (simp add: plain_part_def)

text \<open>
The proviso is real: the user information is searched for in the whole rest of the URL and not
  only before the first slash, so of a URL whose path has an at-sign the text behind it is printed
  in place of the host.
\<close>
theorem redaction_leaks_after_at:
  assumes "CHR '':'' \<notin> set scheme" and "CHR ''?'' \<notin> set scheme" and "plain_part front" and "CHR ''?'' \<notin> set secret"
    and "CHR ''/'' \<notin> set secret"
  shows "webhook_RedactURL (scheme @ ''://'' @ front @ ''@'' @ secret) = scheme @ ''://'' @ secret"
  using assms unfolding webhook_RedactURL_def
  by (simp add: index_of_scheme index_byte_append index_byte_absent plain_part_def)

lemma redaction_leaks_after_at_witness:
  "webhook_RedactURL ''https://hooks.example/alice@SECRET'' = ''https://SECRET''"
  using redaction_leaks_after_at [of "''https''" "''hooks.example/alice''" "''SECRET''"]
  by (simp add: plain_part_def)

end
