(* ===== verification/StdoutSink.thy ===== *)
theory StdoutSink
  imports SinkBase
begin

text \<open>
  \<^verbatim>\<open>evm-sink-stdout\<close>: \<^verbatim>\<open>src/internal/stdoutsink/stdoutsink.go\<close>. It writes every record as one line
  and never retries; a reader that went away ends it cleanly.
\<close>

section \<open>The loop\<close>

datatype stdout_error = EPIPE | WriteError string

definition stdout_New :: "bool \<Rightarrow> bool \<Rightarrow> string + unit" where
  "stdout_New reader target =
     (if \<not> reader then Inl ''stdoutsink: reader is required''
      else if \<not> target then Inl ''stdoutsink: writer is required''
      else Inr ())"

text \<open>\<^verbatim>\<open>WriteLine\<close>: one write of the line and its newline; what it writes is the message.\<close>

definition line_of :: "string \<Rightarrow> string" where
  "line_of payload = payload @ [CHR 0x0A]"

definition stdout_WriteLine :: "(string, stdout_error) sink_world \<Rightarrow> string \<Rightarrow> ((string, stdout_error) sink_hist, stdout_error option) state" where
  "stdout_WriteLine W payload = sk_send W (line_of payload)"

definition stdout_turn :: "(string, stdout_error) sink_world \<Rightarrow> ((string, stdout_error) sink_hist, stdout_error sink_error + turn) state" where
  "stdout_turn W =
     do { cancelled \<leftarrow> sk_cancelled W;
          if cancelled then ok Stop
          else do {
            r \<leftarrow> sk_read W;
            (case r of
               ReadEOF \<Rightarrow> ok Stop
             | ReadError e \<Rightarrow> do { cancelled2 \<leftarrow> sk_cancelled W; if cancelled2 then ok Stop else fail (ReadFailed e) }
             | ReadRecord env payload \<Rightarrow> do {
                 note_event Consumed;
                 werr \<leftarrow> stdout_WriteLine W payload;
                 (case werr of
                    Some EPIPE \<Rightarrow> ok Stop
                  | Some e \<Rightarrow> do { note_event (FailedAs ClassPermanent); fail (WriteFailed e) }
                  | None \<Rightarrow> do { note_event (Delivered (eType env)); ok Again }) }) } }"

fun stdout_Run :: "nat \<Rightarrow> (string, stdout_error) sink_world \<Rightarrow> ((string, stdout_error) sink_hist, stdout_error sink_error + turn) state" where
  "stdout_Run 0 W = ok Again"
| "stdout_Run (Suc n) W = check (stdout_turn W) (\<lambda>t. case t of Stop \<Rightarrow> ok Stop | Again \<Rightarrow> stdout_Run n W)"

text \<open>The same loop, seen as a delivery without retries: no error is transient.\<close>

definition stdout_deliver :: "(string, stdout_error) sink_world \<Rightarrow> string \<Rightarrow> ((string, stdout_error) sink_hist, stdout_error sink_error + bool) state" where
  "stdout_deliver W m =
     do { werr \<leftarrow> sk_send W m;
          (case werr of
             None \<Rightarrow> ok True
           | Some EPIPE \<Rightarrow> ok False
           | Some e \<Rightarrow> do { note_event (FailedAs ClassPermanent); fail (WriteFailed e) }) }"

lemma stdout_deliver_run:
  "run_state (stdout_deliver W m) h =
     (case skSend W h m of
        None \<Rightarrow> (Inr True, h @ [Attempt m None])
      | Some EPIPE \<Rightarrow> (Inr False, h @ [Attempt m (Some EPIPE)])
      | Some e \<Rightarrow> (Inl (WriteFailed e), h @ [Attempt m (Some e), FailedAs ClassPermanent]))"
  by (auto simp: stdout_deliver_def run_simps split: option.split stdout_error.split)

interpretation stdout_loop: record_loop "\<lambda>_. ClassPermanent" "\<lambda>limit. stdout_deliver" "\<lambda>env payload. Inr (Some (line_of payload))"
    "\<lambda>limit. stdout_turn" "\<lambda>n limit. stdout_Run n"
proof
  show "run_state (stdout_deliver W m) h = (r, h') \<Longrightarrow>
       \<exists>t. h' = h @ t \<and> (\<forall>rr. Read rr \<notin> set t) \<and> records_read t = [] \<and> delivered_count t = 0
         \<and> set (attempted t) \<subseteq> {m} \<and> confirmed t = (if r = Inr True then [m] else [])" for W m h r h'
    unfolding stdout_deliver_run by (auto split: option.splits stdout_error.splits)
  show "\<forall>h m e. skSend W h m = Some e \<longrightarrow> ClassPermanent = ClassTransient \<Longrightarrow>
       fst (run_state (stdout_deliver W m) h) = Inr True" for W m h
    unfolding stdout_deliver_run by (auto split: option.splits stdout_error.splits)
  show "stdout_turn W =
      do { c \<leftarrow> sk_cancelled W;
           if c then ok Stop
           else do {
             r \<leftarrow> sk_read W;
             (case r of
                ReadEOF \<Rightarrow> ok Stop
              | ReadError e \<Rightarrow> do { c2 \<leftarrow> sk_cancelled W; if c2 then ok Stop else fail (ReadFailed e) }
              | ReadRecord env payload \<Rightarrow> do {
                  note_event Consumed;
                  (case Inr (Some (line_of payload)) of
                     Inl err \<Rightarrow> fail err
                   | Inr None \<Rightarrow> do { note_event FilteredOut; ok Again }
                   | Inr (Some m) \<Rightarrow>
                       check (stdout_deliver W m) (\<lambda>posted.
                         if \<not> posted then ok Stop
                         else do { note_event (Delivered (eType env)); ok Again })) }) } }" for W
    unfolding stdout_turn_def stdout_WriteLine_def
    by (intro state_ext) (auto simp: run_simps stdout_deliver_run split: read_result.split option.split stdout_error.split)
qed (auto simp: fun_eq_iff split: turn.split intro!: check_cong)

section \<open>What reaches standard output\<close>

lemma stdout_lines: "messages_of (\<lambda>env payload. Inr (Some (line_of payload)) :: stdout_error sink_error + string option) rs
    = map (line_of \<circ> snd) rs"
  by (induction rs) auto

lemma stdout_turn_errors: "fst (run_state (stdout_turn W) h) = Inl err \<Longrightarrow> (\<exists>e. err = ReadFailed e) \<or> (\<exists>e. err = WriteFailed (WriteError e))"
  by (auto simp: stdout_turn_def stdout_WriteLine_def run_simps split: if_splits read_result.splits option.splits stdout_error.splits)

lemma stdout_run_errors:
  "fst (run_state (stdout_Run n W) h) = Inl err \<Longrightarrow> (\<exists>e. err = ReadFailed e) \<or> (\<exists>e. err = WriteFailed (WriteError e))"
proof (induction n arbitrary: h)
  case (Suc n)
  obtain r h1 where t: "run_state (stdout_turn W) h = (r, h1)" by (metis surj_pair)
  show ?case
  proof (cases r)
    case (Inl e)
    with Suc.prems t have "e = err" by (simp add: run_simps)
    with stdout_turn_errors [of W h] t Inl show ?thesis by simp
  next
    case (Inr x)
    with Suc.prems t Suc.IH show ?thesis by (cases x) (simp_all add: run_simps)
  qed
qed (simp add: run_simps)

text \<open>
Standard output receives the stream itself: the lines written are the verbatim lines of the
  records read, each with its newline, in order and without gap, at most the last one missing; the
  sink ends with an error only for an unreadable record or a write error other than a closed pipe.
\<close>
theorem stdout_is_the_stream:
  assumes "run_state (stdout_Run n W) [] = (r, h)"
  shows "(\<exists>pending. map (line_of \<circ> snd) (records_read h) = confirmed h @ pending \<and> length pending \<le> 1
       \<and> (pending \<noteq> [] \<longrightarrow> r \<noteq> Inr Again))
    \<and> (\<forall>err. r = Inl err \<longrightarrow> (\<exists>e. err = ReadFailed e) \<or> (\<exists>e. err = WriteFailed (WriteError e)))"
proof
  from stdout_loop.in_order [OF assms, unfolded stdout_lines append_Nil]
  show "\<exists>pending. map (line_of \<circ> snd) (records_read h) = confirmed h @ pending \<and> length pending \<le> 1
       \<and> (pending \<noteq> [] \<longrightarrow> r \<noteq> Inr Again)" by blast
  show "\<forall>err. r = Inl err \<longrightarrow> (\<exists>e. err = ReadFailed e) \<or> (\<exists>e. err = WriteFailed (WriteError e))"
    using stdout_run_errors [of n W "[]"] assms by simp
qed

text \<open>A pipe that closes after the first line.\<close>

definition closing_pipe :: "(string, stdout_error) sink_world" where
  "closing_pipe = \<lparr> skRead = (\<lambda>h. ReadRecord sample_record ''{}''), skSend = (\<lambda>h m. if confirmed h = [] then None else Some EPIPE),
     skReach = (\<lambda>_. None), skCancelled = (\<lambda>_. False), skSleep = (\<lambda>_. True), skTick = (\<lambda>_. True), skNow = (\<lambda>_. 0),
     skRand = (\<lambda>_ _. 0) \<rparr>"

lemma closing_pipe_run:
  "\<exists>r h. run_state (stdout_Run 5 closing_pipe) [] = (r, h) \<and> records_read h = [(sample_record, ''{}''), (sample_record, ''{}'')]
     \<and> length (confirmed h) = 1"
  by (simp add: closing_pipe_def stdout_turn_def stdout_WriteLine_def run_simps eval_nat_numeral)

lemma stdout_is_the_stream_witness:
  "\<exists>r h. run_state (stdout_Run 5 closing_pipe) [] = (r, h) \<and> confirmed h = [''{}'' @ [CHR 0x0A]]"
proof -
  obtain r h where run: "run_state (stdout_Run 5 closing_pipe) [] = (r, h)"
    and rd: "records_read h = [(sample_record, ''{}''), (sample_record, ''{}'')]" "length (confirmed h) = 1"
    using closing_pipe_run by blast
  obtain m where m: "confirmed h = [m]" using rd(2) by (auto simp: length_Suc_conv)
  from stdout_is_the_stream [OF run] have "\<exists>pending. map (line_of \<circ> snd) (records_read h) = confirmed h @ pending" by blast
  with run rd(1) m show ?thesis by (simp add: line_of_def)
qed

end
