(* ===== verification/Sinks.thy ===== *)
theory Sinks
  imports PgSink RedisSink AwsSink KafkaSink Webhook StdoutSink
begin

text \<open>What holds of every sink: the constructors of the seven loops, and their delays.\<close>

section \<open>Constructed options\<close>

lemmas sink_constructors = pg_New_def redis_New_def aws_New_def kafka_New_def webhook_New_def

text \<open>
A sink that can be constructed at all has usable options, whatever the configuration says:
  both backoff bounds are positive, and a probe that runs has a positive timeout; and a sink that
  lacks its reader or its destination cannot be constructed.
\<close>
theorem constructed_options_ok:
  assumes "Op \<in> {c. kafka_New router st = Inr c \<or> pg_New st = Inr c \<or> redis_New st = Inr c \<or> aws_New st = Inr c \<or> webhook_New st = Inr c}"
  shows "options_ok Op \<and> spReader st \<and> spTarget st"
  using assms by (auto simp: sink_constructors options_ok_def Let_def millisecond_def second_def split: if_splits)

lemma constructed_options_ok_witness:
  "options_ok \<lparr> soBackoffBase = 500000000, soBackoffMax = 30000000000, soProbeInterval = 5, soProbeTimeout = 5 \<rparr>"
  using constructed_options_ok [of "\<lparr> soBackoffBase = 500000000, soBackoffMax = 30000000000, soProbeInterval = 5, soProbeTimeout = 5 \<rparr>"
      True "\<lparr> spReader = True, spTarget = True,
              spOptions = \<lparr> soBackoffBase = 0, soBackoffMax = -1, soProbeInterval = 5, soProbeTimeout = 0 \<rparr> \<rparr>"]
  by (simp add: kafka_New_def Let_def millisecond_def second_def)

end
