(* ===== verification/StreamBase.thy ===== *)
theory StreamBase
  imports Records Rpc Abi Decode
begin

text \<open>
  The state of the on-chain stream and the world it acts on.

  \<^verbatim>\<open>Stream\<close> of \<^verbatim>\<open>internal/stream/stream.go\<close> is the record \<open>stream\<close>; the node, the output, the
  checkpoint file and the Go scheduler are the record \<open>world\<close> of answers, each a function of
  everything that happened before. What happens is the list \<open>history\<close> of the state: every
  RPC call with its answer, every record handed to the output with the outcome, every metric
  and health update, every save of the cursor. Log lines and durations are left out.
\<close>

section \<open>Errors\<close>

datatype emit_error = EPIPE | EBADF | EmitFailed string

datatype stream_error =
    RpcErr rpc_error
  | EmitErr emit_error
  | OtherErr string
  | Panicked string
  | CtxDone
  | OutOfFuel

section \<open>What can be observed\<close>

record cursor =
  curChainID :: int
  curLastBlock :: u64

datatype metric =
    SetHead u64 | SetFinalizedBlock u64 | SetHeadBlockTime int | SetLastProcessedBlock u64
  | SetLastEmittedBlock u64 | SetLagBlocks u64 | IncEventRecord string string string
  | IncNativeTransferRecord | IncInternalTransferRecord | IncInternalTraceSkipped
  | SetInternalTransfersDisabled bool | IncSkippedLog | IncReorgsDetected | IncReconnects
  | IncConfigReload | ResetContractSeries string string | ObserveLogChunk u64
  | SetPollOutcome bool | SetConsecutiveFailures nat | HealthRPCReachable bool | HealthLag u64
  | HealthHeadBlockTime int

datatype happening =
    CallBlockNumber "rpc_error + u64"
  | CallBlock u64 bool "rpc_error + block"
  | CallFinalized "rpc_error + block"
  | CallLogs log_filter "rpc_error + log list"
  | CallReceipt string "rpc_error + receipt option"
  | CallTraceBlock u64 "rpc_error + tx_trace list"
  | CallTraceTx string "rpc_error + call_frame option"
  | CallTraceParity u64 "rpc_error + parity_trace list"
  | Emitted envelope "emit_error option"
  | Metric metric
  | LoadCursor
  | SaveCursor cursor bool
  | Slept bool

type_synonym hist = "happening list"

section \<open>What can be reloaded\<close>

text \<open>A \<^verbatim>\<open>nil\<close> allowlist is \<open>None\<close>; a present one is the set of lowercased addresses.\<close>

record native_filter =
  nfEnabled :: bool
  nfIncludeInternal :: bool
  nfFrom :: "string list option"
  nfTo :: "string list option"

record watch_set =
  wsContracts :: "resolved_contract list"
  wsNative :: native_filter

section \<open>The world\<close>

text \<open>\<open>wPick\<close> chooses the goroutine that runs next, \<open>wInFlight\<close> whether a goroutine scheduled
after the cancellation had already sent its request; \<open>wTick\<close> is the ticker, \<open>False\<close> when the
context ends first; \<open>wReload\<close> is the watch set a SIGHUP staged since the last poll; \<open>wFuel\<close> bounds the loops of one poll.\<close>

record world =
  wBlockNumber :: "hist \<Rightarrow> rpc_error + u64"
  wBlock :: "hist \<Rightarrow> u64 \<Rightarrow> bool \<Rightarrow> rpc_error + block"
  wFinalized :: "hist \<Rightarrow> rpc_error + block"
  wLogs :: "hist \<Rightarrow> log_filter \<Rightarrow> rpc_error + log list"
  wReceipt :: "hist \<Rightarrow> string \<Rightarrow> rpc_error + receipt option"
  wTraceBlock :: "hist \<Rightarrow> u64 \<Rightarrow> rpc_error + tx_trace list"
  wTraceTx :: "hist \<Rightarrow> string \<Rightarrow> rpc_error + call_frame option"
  wTraceParity :: "hist \<Rightarrow> u64 \<Rightarrow> rpc_error + parity_trace list"
  wEmit :: "hist \<Rightarrow> envelope \<Rightarrow> emit_error option"
  wCancelled :: "hist \<Rightarrow> bool"
  wSleep :: "hist \<Rightarrow> bool"
  wTick :: "hist \<Rightarrow> bool"
  wLoad :: "hist \<Rightarrow> string + cursor option"
  wSave :: "hist \<Rightarrow> cursor \<Rightarrow> bool"
  wPick :: "hist \<Rightarrow> nat"
  wInFlight :: "hist \<Rightarrow> bool"
  wReload :: "hist \<Rightarrow> watch_set option"
  wFuel :: nat

section \<open>The state of a stream\<close>

record reorg_tracker =
  rtDepth :: u64
  rtHashes :: "u64 \<rightharpoonup> string"

datatype trace_backend = BackendUnknown | BackendBlock | BackendParity | BackendPerTx | BackendDisabled

text \<open>The options that do not change while the stream runs.\<close>

record options =
  oChainName :: string
  oChainID :: int
  oLogChunkBlocks :: u64
  oFromBlock :: string
  oReorgDepth :: u64
  oCheckpoint :: bool

record stream =
  sContracts :: "resolved_contract list"
  sNative :: native_filter
  sAddresses :: "string list"
  sTopic0Set :: "string list"
  sByAddrTopic :: "string \<rightharpoonup> (string \<rightharpoonup> event_abi)"
  sLastHead :: u64
  sSkippedSeen :: "string set"
  sReorg :: "reorg_tracker option"
  sFinalizedUnsupported :: bool
  sTraceBackend :: trace_backend
  sFinalizedBlock :: u64
  sFinalizedKnown :: bool
  sPending :: "watch_set option"
  history :: hist

type_synonym 'a sm = "(stream, stream_error + 'a) state"

section \<open>Primitive steps\<close>

definition observe :: "happening \<Rightarrow> (stream, unit) state" where
  "observe h = modify (\<lambda>s. s\<lparr> history := history s @ [h] \<rparr>)"

definition metric :: "metric \<Rightarrow> (stream, unit) state" where
  "metric m = observe (Metric m)"

text \<open>An RPC call: the node answers, and the call with its answer is part of the history.\<close>

definition rpc_call :: "(hist \<Rightarrow> rpc_error + 'a) \<Rightarrow> (rpc_error + 'a \<Rightarrow> happening) \<Rightarrow> (stream, rpc_error + 'a) state" where
  "rpc_call answer tag =
     do { h \<leftarrow> gets history;
          let r = answer h;
          observe (tag r);
          State_Monad.return r }"

definition lift_rpc :: "(stream, rpc_error + 'a) state \<Rightarrow> 'a sm" where
  "lift_rpc m = do { r \<leftarrow> m; (case r of Inl e \<Rightarrow> fail (RpcErr e) | Inr x \<Rightarrow> ok x) }"

definition pure_rpc :: "rpc_error + 'a \<Rightarrow> 'a sm" where
  "pure_rpc r = (case r of Inl e \<Rightarrow> fail (RpcErr e) | Inr x \<Rightarrow> ok x)"

definition client_BlockNumber :: "world \<Rightarrow> (stream, rpc_error + u64) state" where
  "client_BlockNumber W = rpc_call (wBlockNumber W) CallBlockNumber"

definition client_Block :: "world \<Rightarrow> u64 \<Rightarrow> bool \<Rightarrow> (stream, rpc_error + block) state" where
  "client_Block W n full = rpc_call (\<lambda>h. wBlock W h n full) (CallBlock n full)"

definition client_Logs :: "world \<Rightarrow> log_filter \<Rightarrow> (stream, rpc_error + log list) state" where
  "client_Logs W f = rpc_call (\<lambda>h. wLogs W h f) (CallLogs f)"

definition client_Receipt :: "world \<Rightarrow> string \<Rightarrow> (stream, rpc_error + receipt option) state" where
  "client_Receipt W tx = rpc_call (\<lambda>h. wReceipt W h tx) (CallReceipt tx)"

definition cancelled :: "world \<Rightarrow> (stream, bool) state" where
  "cancelled W = do { h \<leftarrow> gets history; State_Monad.return (wCancelled W h) }"

text \<open>\<^verbatim>\<open>s.opts.Emitter.Emit\<close>, its failure wrapped as an \<^verbatim>\<open>emitErr\<close>.\<close>

definition emit :: "world \<Rightarrow> envelope \<Rightarrow> unit sm" where
  "emit W env =
     do { h \<leftarrow> gets history;
          let r = wEmit W h env;
          observe (Emitted env r);
          (case r of Some e \<Rightarrow> fail (EmitErr e) | None \<Rightarrow> ok ()) }"

definition sleep :: "world \<Rightarrow> (stream, bool) state" where
  "sleep W = do { h \<leftarrow> gets history; let b = wSleep W h; observe (Slept b); State_Monad.return b }"

definition isFinalized :: "stream \<Rightarrow> u64 \<Rightarrow> bool" where
  "isFinalized s blockNum \<longleftrightarrow> sFinalizedKnown s \<and> blockNum \<le> sFinalizedBlock s"

section \<open>Running the primitive steps\<close>

abbreviation add_history :: "stream \<Rightarrow> hist \<Rightarrow> stream" where
  "add_history s t \<equiv> s\<lparr> history := history s @ t \<rparr>"

lemma run_observe [run_simps]: "run_state (observe h) s = ((), add_history s [h])"
  by (simp add: observe_def)

lemma run_metric [run_simps]: "run_state (metric m) s = ((), add_history s [Metric m])"
  by (simp add: metric_def run_observe)

lemma run_bind [run_simps]:
  "run_state (State_Monad.bind m k) s = (case run_state m s of (x, s') \<Rightarrow> run_state (k x) s')"
  by simp

lemma run_rpc_call [run_simps]:
  "run_state (rpc_call a t) s = (a (history s), add_history s [t (a (history s))])"
  by (simp add: rpc_call_def run_observe Let_def)

lemma run_lift_rpc [run_simps]:
  "run_state (lift_rpc m) s = (case run_state m s of (Inl e, s') \<Rightarrow> (Inl (RpcErr e), s') | (Inr x, s') \<Rightarrow> (Inr x, s'))"
  by (simp add: lift_rpc_def split: prod.splits sum.splits)

lemma run_pure_rpc [run_simps]:
  "run_state (pure_rpc r) s = ((case r of Inl e \<Rightarrow> Inl (RpcErr e) | Inr x \<Rightarrow> Inr x), s)"
  by (simp add: pure_rpc_def split: sum.splits)

lemma run_cancelled [run_simps]: "run_state (cancelled W) s = (wCancelled W (history s), s)"
  by (simp add: cancelled_def)

lemma run_sleep [run_simps]:
  "run_state (sleep W) s = (wSleep W (history s), add_history s [Slept (wSleep W (history s))])"
  by (simp add: sleep_def run_observe Let_def)

lemma run_emit [run_simps]:
  "run_state (emit W env) s =
     ((case wEmit W (history s) env of Some e \<Rightarrow> Inl (EmitErr e) | None \<Rightarrow> Inr ()),
      add_history s [Emitted env (wEmit W (history s) env)])"
  by (simp add: emit_def run_observe Let_def split: option.splits)

section \<open>What a computation may do\<close>

text \<open>\<open>frame f P\<close> relates two states when the part \<open>f\<close> of the state is the same and everything
that happened between them satisfies \<open>P\<close>. It is kept by every composition of steps that keep
it, so the frame of an operation follows from its primitive steps.\<close>

definition frame :: "(stream \<Rightarrow> 'b) \<Rightarrow> (happening \<Rightarrow> bool) \<Rightarrow> stream \<Rightarrow> stream \<Rightarrow> bool" where
  "frame f P s s' \<longleftrightarrow> f s' = f s \<and> (\<exists>h. history s' = history s @ h \<and> (\<forall>x \<in> set h. P x))"

interpretation fr: step_order "frame f P" for f P
proof
  show "frame f P s s" for s by (auto simp: frame_def)
  show "frame f P s t \<Longrightarrow> frame f P t u \<Longrightarrow> frame f P s u" for s t u
    unfolding frame_def by (clarsimp, metis Un_iff append_assoc set_append)
qed

text \<open>Parts of the state that the history is not part of.\<close>

definition settled :: "(stream \<Rightarrow> 'b) \<Rightarrow> bool" where
  "settled f \<longleftrightarrow> (\<forall>s h. f (s\<lparr> history := h \<rparr>) = f s)"

lemma fr_observe: "settled f \<Longrightarrow> P x \<Longrightarrow> state_io_rel (frame f P) (observe x)"
  unfolding observe_def by (rule fr.io_modify) (auto simp: frame_def settled_def)

lemma fr_metric: "settled f \<Longrightarrow> P (Metric m) \<Longrightarrow> state_io_rel (frame f P) (metric m)"
  unfolding metric_def by (rule fr_observe)

lemma fr_modify: "(\<And>s. f (g s) = f s \<and> history (g s) = history s) \<Longrightarrow> state_io_rel (frame f P) (modify g)"
  by (rule fr.io_modify) (simp add: frame_def)

lemma fr_rpc_call: "settled f \<Longrightarrow> (\<And>a. P (tag a)) \<Longrightarrow> state_io_rel (frame f P) (rpc_call answer tag)"
  unfolding rpc_call_def by (intro fr.io_intros fr_observe)

lemma fr_lift_rpc: "state_io_rel (frame f P) m \<Longrightarrow> state_io_rel (frame f P) (lift_rpc m)"
  unfolding lift_rpc_def by (intro fr.io_intros)

lemma fr_pure_rpc: "state_io_rel (frame f P) (pure_rpc r)"
  unfolding pure_rpc_def by (intro fr.io_intros)

lemma fr_cancelled: "state_io_rel (frame f P) (cancelled W)"
  unfolding cancelled_def by (intro fr.io_intros)

lemma fr_sleep: "settled f \<Longrightarrow> (\<And>b. P (Slept b)) \<Longrightarrow> state_io_rel (frame f P) (sleep W)"
  unfolding sleep_def by (intro fr.io_intros fr_observe)

lemma fr_emit: "settled f \<Longrightarrow> (\<And>r. P (Emitted env r)) \<Longrightarrow> state_io_rel (frame f P) (emit W env)"
  unfolding emit_def by (intro fr.io_intros fr_observe)

lemma fr_client:
  "settled f \<Longrightarrow> (\<And>a. P (CallBlockNumber a)) \<Longrightarrow> state_io_rel (frame f P) (client_BlockNumber W)"
  "settled f \<Longrightarrow> (\<And>a. P (CallBlock n full a)) \<Longrightarrow> state_io_rel (frame f P) (client_Block W n full)"
  "settled f \<Longrightarrow> (\<And>a. P (CallLogs flt a)) \<Longrightarrow> state_io_rel (frame f P) (client_Logs W flt)"
  "settled f \<Longrightarrow> (\<And>a. P (CallReceipt tx a)) \<Longrightarrow> state_io_rel (frame f P) (client_Receipt W tx)"
  unfolding client_BlockNumber_def client_Block_def client_Logs_def client_Receipt_def
  by (intro fr_rpc_call; assumption)+

lemmas fr_intros = fr.io_intros fr_observe fr_metric fr_rpc_call fr_lift_rpc fr_pure_rpc fr_cancelled
  fr_sleep fr_emit fr_client

lemma frameD:
  assumes "state_io_rel (frame f P) m" and "run_state m s = (r, s')"
  obtains h where "f s' = f s" "history s' = history s @ h" "\<forall>x \<in> set h. P x"
  using state_io_relD [OF assms] unfolding frame_def by auto

text \<open>Everything but the history.\<close>

definition rest :: "stream \<Rightarrow> stream" where
  "rest s = s\<lparr> history := [] \<rparr>"

lemma settled_rest [simp]: "settled rest"
  by (simp add: settled_def rest_def)

lemma rest_eq: "rest s' = rest s \<Longrightarrow> history s' = history s @ h \<Longrightarrow> s' = add_history s h"
  by (simp add: rest_def) (metis stream.surjective stream.update_convs(14))

lemma restD:
  assumes "state_io_rel (frame rest P) m" and "run_state m s = (r, s')"
  obtains h where "s' = add_history s h" "\<forall>x \<in> set h. P x"
  using frameD [OF assms] rest_eq by metis

text \<open>The records handed to the output successfully, in order.\<close>

definition emitted :: "hist \<Rightarrow> envelope list" where
  "emitted h = concat (map (\<lambda>x. case x of Emitted e None \<Rightarrow> [e] | _ \<Rightarrow> []) h)"

lemma emitted_append [simp]: "emitted (a @ b) = emitted a @ emitted b"
  by (simp add: emitted_def)

definition no_emit :: "happening \<Rightarrow> bool" where
  "no_emit x \<longleftrightarrow> (\<forall>e. x \<noteq> Emitted e None)"

lemma emitted_none: "\<forall>x \<in> set h. no_emit x \<Longrightarrow> emitted h = []"
  by (induction h) (auto simp: emitted_def no_emit_def split: happening.splits option.splits)

section \<open>A sample node and stream\<close>

definition quiet_world :: world where
  "quiet_world = \<lparr> wBlockNumber = (\<lambda>_. Inr 12),
     wBlock = (\<lambda>_ n _. Inr \<lparr> bNumber = BlockTag n, bHash = (if n \<le> 10 then ''0xaa'' else ''0xbb''),
        bParentHash = ''0xbb'', bTimestamp = ''0x0'', bTransactions = [] \<rparr>),
     wFinalized = (\<lambda>_. Inl (JsonRpcError (-32601) ''method not found'')), wLogs = (\<lambda>_ _. Inr []),
     wReceipt = (\<lambda>_ _. Inr None), wTraceBlock = (\<lambda>_ _. Inr []), wTraceTx = (\<lambda>_ _. Inr None),
     wTraceParity = (\<lambda>_ _. Inr []), wEmit = (\<lambda>_ _. None), wCancelled = (\<lambda>_. False),
     wSleep = (\<lambda>_. True), wTick = (\<lambda>_. True), wLoad = (\<lambda>_. Inr None), wSave = (\<lambda>_ _. True),
     wPick = (\<lambda>_. 0), wInFlight = (\<lambda>_. False), wReload = (\<lambda>_. None), wFuel = 100 \<rparr>"

definition idle_stream :: stream where
  "idle_stream = \<lparr> sContracts = [], sNative = \<lparr> nfEnabled = False, nfIncludeInternal = False,
       nfFrom = None, nfTo = None \<rparr>, sAddresses = [], sTopic0Set = [], sByAddrTopic = Map.empty,
     sLastHead = 0, sSkippedSeen = {}, sReorg = Some \<lparr> rtDepth = 8, rtHashes = [9 \<mapsto> ''0xaa'', 11 \<mapsto> ''0xaa''] \<rparr>,
     sFinalizedUnsupported = False, sTraceBackend = BackendUnknown, sFinalizedBlock = 0,
     sFinalizedKnown = False, sPending = None, history = [] \<rparr>"

definition plain_options :: options where
  "plain_options = \<lparr> oChainName = ''c'', oChainID = 1, oLogChunkBlocks = 4, oFromBlock = ''latest'',
     oReorgDepth = 8, oCheckpoint = True \<rparr>"

end
