(* ===== verification/Reorg.thy ===== *)
theory Reorg
  imports StreamBase
begin

text \<open>
  Reorg handling (\<^verbatim>\<open>internal/stream/reorg.go\<close>): the bounded window of recorded hashes, the
  walk back to the common ancestor, and the check of the processing frontier that precedes
  every poll. A \<^verbatim>\<open>nil\<close> tracker is \<open>None\<close>.
\<close>

section \<open>The tracker\<close>

definition newReorgTracker :: "u64 \<Rightarrow> reorg_tracker option" where
  "newReorgTracker depth = (if depth = 0 then None else Some \<lparr> rtDepth = depth, rtHashes = Map.empty \<rparr>)"

definition recordHash :: "reorg_tracker option \<Rightarrow> u64 \<Rightarrow> string \<Rightarrow> u64 \<Rightarrow> reorg_tracker option" where
  "recordHash r n hash head =
     (case r of None \<Rightarrow> None
      | Some t \<Rightarrow>
          if hash = [] then Some t
          else
            (let hs = (rtHashes t)(n \<mapsto> hash) in
             Some (t\<lparr> rtHashes := (if head \<ge> rtDepth t then (\<lambda>k. if k < head - rtDepth t then None else hs k) else hs) \<rparr>)))"

definition recorded :: "reorg_tracker option \<Rightarrow> u64 \<Rightarrow> string option" where
  "recorded r n = (case r of None \<Rightarrow> None | Some t \<Rightarrow> rtHashes t n)"

definition forgetAbove :: "reorg_tracker option \<Rightarrow> u64 \<Rightarrow> reorg_tracker option" where
  "forgetAbove r n = map_option (\<lambda>t. t\<lparr> rtHashes := (\<lambda>k. if k > n then None else rtHashes t k) \<rparr>) r"

section \<open>The fork point\<close>

definition canonicalHashAt :: "world \<Rightarrow> u64 \<Rightarrow> (stream, string) state" where
  "canonicalHashAt W n =
     do { r \<leftarrow> client_Block W n False;
          State_Monad.return (case r of Inl _ \<Rightarrow> [] | Inr blk \<Rightarrow> bHash blk) }"

text \<open>The walk down: \<open>k\<close> heights above the floor are left, the next one tried is \<open>floor + k - 1\<close>.\<close>

fun fork_walk :: "world \<Rightarrow> reorg_tracker \<Rightarrow> u64 \<Rightarrow> nat \<Rightarrow> u64 option sm" where
  "fork_walk W t floor 0 = ok None"
| "fork_walk W t floor (Suc k) =
     (let n = floor + word_of_nat k in
      case rtHashes t n of
        None \<Rightarrow> fork_walk W t floor k
      | Some recordedHash \<Rightarrow>
          check (lift_rpc (client_Block W n False)) (\<lambda>blk.
            if equal_fold (bHash blk) recordedHash then ok (Some n) else fork_walk W t floor k))"

definition fork_floor :: "reorg_tracker \<Rightarrow> u64 \<Rightarrow> u64" where
  "fork_floor t orphanTip = (if orphanTip > rtDepth t then orphanTip - rtDepth t else 0)"

definition fork_data :: "u64 \<Rightarrow> u64 \<Rightarrow> string \<Rightarrow> string \<Rightarrow> bool \<Rightarrow> reorg_data" where
  "fork_data n orphanTip oldHash newHash exceeded =
     \<lparr> rdForkBlock = n, rdFromBlock = n + 1, rdToBlock = orphanTip, rdDepth = sint (orphanTip - n),
       rdOldHash = oldHash, rdNewHash = newHash, rdDepthExceeded = exceeded \<rparr>"

definition resolveFork :: "world \<Rightarrow> reorg_tracker \<Rightarrow> u64 \<Rightarrow> string \<Rightarrow> reorg_data sm" where
  "resolveFork W t orphanTip orphanTipHash =
     (let floor = fork_floor t orphanTip in
      do { newHash \<leftarrow> canonicalHashAt W orphanTip;
           check (fork_walk W t floor (unat orphanTip - unat floor)) (\<lambda>found.
             case found of
               Some n \<Rightarrow> ok (fork_data n orphanTip orphanTipHash newHash False)
             | None \<Rightarrow> ok (fork_data floor orphanTip orphanTipHash newHash True)) })"

definition emitReorg :: "world \<Rightarrow> options \<Rightarrow> reorg_data \<Rightarrow> unit sm" where
  "emitReorg W Op data =
     emit W (zero_envelope\<lparr> eType := TypeReorg, eTool := ToolStream, eName := ''reorg'',
       eChain := oChainName Op, eChainID := oChainID Op, eBlockNumber := rdToBlock data,
       eBlockHash := rdNewHash data, eData := DReorg data \<rparr>)"

section \<open>The frontier check\<close>

text \<open>The node's hash at the frontier, from the head header where it tells.\<close>

definition frontier_hash :: "world \<Rightarrow> u64 \<Rightarrow> u64 \<Rightarrow> block option \<Rightarrow> string sm" where
  "frontier_hash W frontier head headBlk =
     (case headBlk of
        Some b \<Rightarrow>
          if head = frontier \<and> bHash b \<noteq> [] then ok (bHash b)
          else if head = frontier + 1 \<and> bParentHash b \<noteq> [] then ok (bParentHash b)
          else check (lift_rpc (client_Block W frontier False)) (\<lambda>blk. ok (bHash blk))
      | None \<Rightarrow> check (lift_rpc (client_Block W frontier False)) (\<lambda>blk. ok (bHash blk)))"

text \<open>The highest processed height the node can still confirm.\<close>

definition frontier_of :: "u64 \<Rightarrow> u64 \<Rightarrow> u64" where
  "frontier_of nextBlock head = (if nextBlock - 1 > head then head else nextBlock - 1)"

definition handleReorgIfAny :: "world \<Rightarrow> options \<Rightarrow> u64 \<Rightarrow> u64 \<Rightarrow> block option \<Rightarrow> (u64 \<times> bool) sm" where
  "handleReorgIfAny W Op nextBlock head headBlk =
     do { r \<leftarrow> gets sReorg;
          (case r of
             None \<Rightarrow> ok (nextBlock, False)
           | Some t \<Rightarrow>
               if nextBlock = 0 then ok (nextBlock, False)
               else
                 (let frontier = frontier_of nextBlock head in
                  case rtHashes t frontier of
                    None \<Rightarrow> ok (nextBlock, False)
                  | Some recordedHash \<Rightarrow>
                      check (frontier_hash W frontier head headBlk) (\<lambda>nodeHash.
                        if equal_fold nodeHash recordedHash then ok (nextBlock, False)
                        else check (resolveFork W t frontier recordedHash) (\<lambda>data.
                          check (emitReorg W Op data) (\<lambda>_.
                            do { metric IncReorgsDetected;
                                 modify (\<lambda>s. s\<lparr> sReorg := forgetAbove (sReorg s) (rdForkBlock data) \<rparr>);
                                 ok (rdForkBlock data + 1, True) }))))) }"

section \<open>Facts on the tracker\<close>

lemma recordHash_window:
  assumes "recordHash (Some t) n hash head = Some t'" and "hash \<noteq> []"
    and "rtDepth t \<le> head" and "rtHashes t' k = Some h"
  shows "head - rtDepth t \<le> k"
  using assms by (auto simp: recordHash_def Let_def split: if_splits)

lemma recorded_forgetAbove: "recorded (forgetAbove r n) k = (if k > n then None else recorded r k)"
  by (cases r) (auto simp: recorded_def forgetAbove_def)

lemma fork_floor_le: "fork_floor t tip \<le> tip"
  by (simp add: fork_floor_def word_sub_le less_imp_le)

lemma unat_word_of_nat_u64: "k < 2 ^ 64 \<Longrightarrow> unat (word_of_nat k :: u64) = k"
  by (simp add: unsigned_of_nat take_bit_nat_eq_self)

lemma floor_plus: "a \<le> (tip :: u64) \<Longrightarrow> k \<le> unat tip - unat a \<Longrightarrow> unat (a + word_of_nat k) = unat a + k"
proof -
  assume le: "a \<le> tip" "k \<le> unat tip - unat a"
  have "unat tip < 2 ^ 64" using unsigned_less [of tip, where 'a = nat] by simp
  moreover have "unat a \<le> unat tip" using le by (simp add: word_le_nat_alt)
  ultimately have b: "unat a + k < 2 ^ 64" using le by linarith
  then have "unat (word_of_nat k :: u64) = k" by (intro unat_word_of_nat_u64) simp
  with b show ?thesis by (simp add: unat_word_ariths)
qed

section \<open>The walk\<close>

text \<open>What the answers in a history say of a tracked height.\<close>

definition canonical_in :: "hist \<Rightarrow> reorg_tracker \<Rightarrow> u64 \<Rightarrow> bool" where
  "canonical_in h t n \<longleftrightarrow> (\<exists>blk rc. rtHashes t n = Some rc \<and> CallBlock n False (Inr blk) \<in> set h
     \<and> equal_fold (bHash blk) rc)"

definition orphaned_in :: "hist \<Rightarrow> reorg_tracker \<Rightarrow> u64 \<Rightarrow> bool" where
  "orphaned_in h t n \<longleftrightarrow> (\<forall>rc. rtHashes t n = Some rc \<longrightarrow> (\<exists>blk. CallBlock n False (Inr blk) \<in> set h
     \<and> \<not> equal_fold (bHash blk) rc))"

definition walk_result :: "reorg_tracker \<Rightarrow> u64 \<Rightarrow> nat \<Rightarrow> hist \<Rightarrow> u64 option \<Rightarrow> bool" where
  "walk_result t floor k h res \<longleftrightarrow>
     (case res of
        Some n \<Rightarrow> floor \<le> n \<and> unat n < unat floor + k \<and> canonical_in h t n
          \<and> (\<forall>m > n. unat m < unat floor + k \<longrightarrow> orphaned_in h t m)
      | None \<Rightarrow> (\<forall>m \<ge> floor. unat m < unat floor + k \<longrightarrow> orphaned_in h t m))"

lemma canonical_in_append: "canonical_in h t n \<Longrightarrow> canonical_in (h' @ h) t n"
  by (auto simp: canonical_in_def)

lemma orphaned_in_append: "orphaned_in h t n \<or> orphaned_in h' t n \<Longrightarrow> orphaned_in (h' @ h) t n"
  by (auto simp: orphaned_in_def)

lemma walk_result_Suc:
  assumes r: "walk_result t floor k h res" and n: "unat n = unat floor + k"
    and o: "orphaned_in (h0 @ h) t n"
  shows "walk_result t floor (Suc k) (h0 @ h) res"
proof -
  have top: "orphaned_in (h0 @ h) t m"
    if "unat m < unat floor + k \<Longrightarrow> orphaned_in h t m" "unat m < unat floor + Suc k" for m
  proof (cases "unat m < unat floor + k")
    case True
    then show ?thesis using that(1) orphaned_in_append by blast
  next
    case False
    then have "m = n" using that(2) n by (simp add: word_unat_eq_iff)
    with o show ?thesis by simp
  qed
  from r top show ?thesis
    by (cases res) (auto simp: walk_result_def canonical_in_append)
qed

lemma fork_walk_spec:
  assumes "run_state (fork_walk W t floor k) s = (Inr res, s')"
    and "floor \<le> tip" and "k \<le> unat tip - unat floor"
  shows "\<exists>h. s' = add_history s h \<and> walk_result t floor k h res"
  using assms(1,3)
proof (induction k arbitrary: s)
  case 0
  then show ?case by (intro exI [of _ "[]"]) (auto simp: walk_result_def word_le_nat_alt)
next
  case (Suc k)
  let ?n = "floor + word_of_nat k :: u64"
  have un: "unat ?n = unat floor + k" using assms(2) Suc.prems(2) by (intro floor_plus) auto
  show ?case
  proof (cases "rtHashes t ?n")
    case None
    with Suc.prems have "run_state (fork_walk W t floor k) s = (Inr res, s')" by simp
    from Suc.IH [OF this] Suc.prems(2) obtain h where "s' = add_history s h" "walk_result t floor k h res"
      by auto
    with walk_result_Suc [OF _ un, of t h res "[]"] None show ?thesis
      by (auto simp: orphaned_in_def)
  next
    case (Some rc)
    define a where "a = wBlock W (history s) ?n False"
    let ?s1 = "add_history s [CallBlock ?n False a]"
    from Suc.prems(1) Some obtain blk where blk: "a = Inr blk" and
      step: "run_state (if equal_fold (bHash blk) rc then ok (Some ?n) else fork_walk W t floor k) ?s1 = (Inr res, s')"
      by (cases a) (simp_all add: client_Block_def run_check run_lift_rpc run_rpc_call Let_def a_def [symmetric])
    show ?thesis
    proof (cases "equal_fold (bHash blk) rc")
      case True
      with step have "res = Some ?n" "s' = ?s1" by simp_all
      with True Some blk un show ?thesis
        by (intro exI [of _ "[CallBlock ?n False a]"])
          (auto simp: walk_result_def canonical_in_def word_le_nat_alt word_less_nat_alt)
    next
      case False
      with step have "run_state (fork_walk W t floor k) ?s1 = (Inr res, s')" by simp
      from Suc.IH [OF this] Suc.prems(2) obtain h where h: "s' = add_history ?s1 h"
        and w: "walk_result t floor k h res" by auto
      have "orphaned_in ([CallBlock ?n False a] @ h) t ?n"
        using blk False Some by (auto simp: orphaned_in_def)
      from walk_result_Suc [OF w un this] h show ?thesis by auto
    qed
  qed
qed

section \<open>The whole check\<close>

lemma canonicalHashAt_run:
  "\<exists>h. run_state (canonicalHashAt W n) s = (hd (case wBlock W (history s) n False of Inl _ \<Rightarrow> [[]] | Inr b \<Rightarrow> [bHash b]), add_history s h)"
  by (auto simp: canonicalHashAt_def client_Block_def run_rpc_call split: sum.splits)

definition fork_ok :: "reorg_tracker \<Rightarrow> u64 \<Rightarrow> hist \<Rightarrow> reorg_data \<Rightarrow> bool" where
  "fork_ok t tip h d \<longleftrightarrow>
     rdToBlock d = tip \<and> rdFromBlock d = rdForkBlock d + 1 \<and> rdDepth d = sint (tip - rdForkBlock d)
     \<and> fork_floor t tip \<le> rdForkBlock d \<and> rdForkBlock d \<le> tip
     \<and> (rdDepthExceeded d \<longrightarrow> rdForkBlock d = fork_floor t tip
          \<and> (\<forall>m \<ge> fork_floor t tip. m < tip \<longrightarrow> orphaned_in h t m))
     \<and> (\<not> rdDepthExceeded d \<longrightarrow> rdForkBlock d < tip \<and> canonical_in h t (rdForkBlock d)
          \<and> (\<forall>m > rdForkBlock d. m < tip \<longrightarrow> orphaned_in h t m))"

lemma resolveFork_spec:
  assumes "run_state (resolveFork W t tip hash) s = (Inr d, s')"
  shows "\<exists>h. s' = add_history s h \<and> fork_ok t tip h d \<and> rdOldHash d = hash"
proof -
  let ?f = "fork_floor t tip"
  let ?k = "unat tip - unat ?f"
  have le: "?f \<le> tip" by (rule fork_floor_le)
  then have k: "unat ?f + ?k = unat tip" by (simp add: word_le_nat_alt)
  obtain nh h0 where c: "run_state (canonicalHashAt W tip) s = (nh, add_history s h0)"
    using canonicalHashAt_run by blast
  from assms c obtain res s1 where w: "run_state (fork_walk W t ?f ?k) (add_history s h0) = (Inr res, s1)"
    and d: "run_state ((case res of Some n \<Rightarrow> ok (fork_data n tip hash nh False)
             | None \<Rightarrow> ok (fork_data ?f tip hash nh True)) :: reorg_data sm) s1 = (Inr d, s')"
    by (auto simp: resolveFork_def Let_def run_check split: prod.splits sum.splits)
  from fork_walk_spec [OF w le] obtain h where s1: "s1 = add_history (add_history s h0) h"
    and r: "walk_result t ?f ?k h res" by auto
  show ?thesis
  proof (cases res)
    case None
    with d have d: "d = fork_data ?f tip hash nh True" and s': "s' = s1" by simp_all
    have "\<forall>m \<ge> ?f. m < tip \<longrightarrow> orphaned_in (h0 @ h) t m"
      using r None k orphaned_in_append by (auto simp: walk_result_def word_less_nat_alt)
    then show ?thesis using s1 s' le
      by (intro exI [of _ "h0 @ h"]) (simp add: d fork_data_def fork_ok_def)
  next
    case (Some n)
    with d have d: "d = fork_data n tip hash nh False" and s': "s' = s1" by simp_all
    have "?f \<le> n" "n < tip" "canonical_in (h0 @ h) t n" "\<forall>m > n. m < tip \<longrightarrow> orphaned_in (h0 @ h) t m"
      using r Some k orphaned_in_append canonical_in_append
      by (auto simp: walk_result_def word_less_nat_alt)
    then show ?thesis using s1 s'
      by (intro exI [of _ "h0 @ h"]) (simp add: d fork_data_def fork_ok_def less_imp_le)
  qed
qed

lemma frontier_hash_io:
  "state_io_rel (frame rest (\<lambda>x. \<exists>a. x = CallBlock f False a)) (frontier_hash W f head hb)"
  unfolding frontier_hash_def by (intro fr_intros) auto

lemma frontier_hash_run:
  assumes "run_state (frontier_hash W f head hb) s = (r, s')"
  shows "\<exists>h. s' = add_history s h \<and> (\<forall>x \<in> set h. \<exists>a. x = CallBlock f False a)"
  using restD [OF frontier_hash_io assms] by metis

definition reorg_envelope :: "options \<Rightarrow> reorg_data \<Rightarrow> envelope" where
  "reorg_envelope Op data = zero_envelope\<lparr> eType := TypeReorg, eTool := ToolStream, eName := ''reorg'',
       eChain := oChainName Op, eChainID := oChainID Op, eBlockNumber := rdToBlock data,
       eBlockHash := rdNewHash data, eData := DReorg data \<rparr>"

lemma emitReorg_eq: "emitReorg W Op d = emit W (reorg_envelope Op d)"
  by (simp add: emitReorg_def reorg_envelope_def)

text \<open>Every outcome of the check, by what it did to the state.\<close>

lemma handleReorg_cases:
  assumes "run_state (handleReorgIfAny W Op nb head hb) s = (Inr (nb', b), s')"
  obtains (quiet) h where "\<not> b" "nb' = nb" "s' = add_history s h"
      "\<forall>x \<in> set h. \<exists>n a. x = CallBlock n False a"
  | (reorg) t frontier rc h h2 d where "b" "sReorg s = Some t" "nb \<noteq> 0"
      "frontier = frontier_of nb head" "rtHashes t frontier = Some rc"
      "fork_ok t frontier h d" "rdOldHash d = rc" "nb' = rdForkBlock d + 1"
      "s' = (add_history s (h2 @ h @ [Emitted (reorg_envelope Op d) None, Metric IncReorgsDetected]))
          \<lparr> sReorg := forgetAbove (sReorg s) (rdForkBlock d) \<rparr>"
      "\<forall>x \<in> set h2. \<exists>a. x = CallBlock frontier False a"
proof (cases "sReorg s")
  case None
  with assms have "\<not> b" "nb' = nb" "s' = add_history s []" by (auto simp: handleReorgIfAny_def)
  then show ?thesis by (intro quiet [of "[]"]) auto
next
  case (Some t)
  note t = Some
  let ?f = "frontier_of nb head"
  show ?thesis
  proof (cases "nb = 0 \<or> rtHashes t ?f = None")
    case True
    have "\<not> b \<and> nb' = nb \<and> s' = add_history s []"
      using assms t True by (cases "nb = 0") (simp_all add: handleReorgIfAny_def Let_def)
    then show ?thesis by (intro quiet [of "[]"]) auto
  next
    case False
    then obtain rc where rc: "rtHashes t ?f = Some rc" and nz: "nb \<noteq> 0" by auto
    from assms obtain nh s1 where f: "run_state (frontier_hash W ?f head hb) s = (Inr nh, s1)"
      and rest: "run_state (if equal_fold nh rc then ok (nb, False)
                        else check (resolveFork W t ?f rc) (\<lambda>data.
                          check (emitReorg W Op data) (\<lambda>_.
                            do { metric IncReorgsDetected;
                                 modify (\<lambda>s. s\<lparr> sReorg := forgetAbove (sReorg s) (rdForkBlock data) \<rparr>);
                                 ok (rdForkBlock data + 1, True) }))) s1 = (Inr (nb', b), s')"
      unfolding handleReorgIfAny_def
      by (simp add: t nz rc Let_def run_check split: prod.splits sum.splits)
    from frontier_hash_run [OF f] obtain h2 where s1: "s1 = add_history s h2"
      and h2: "\<forall>x \<in> set h2. \<exists>a. x = CallBlock ?f False a" by auto
    show ?thesis
    proof (cases "equal_fold nh rc")
      case True
      with rest have "\<not> b" "nb' = nb" "s' = add_history s h2" by (simp_all add: s1)
      then show ?thesis using h2 by (intro quiet [of h2]) blast+
    next
      case False
      with rest obtain d s2 where rf: "run_state (resolveFork W t ?f rc) s1 = (Inr d, s2)"
        and e: "run_state (check (emitReorg W Op d) (\<lambda>_.
                            do { metric IncReorgsDetected;
                                 modify (\<lambda>s. s\<lparr> sReorg := forgetAbove (sReorg s) (rdForkBlock d) \<rparr>);
                                 ok (rdForkBlock d + 1, True) })) s2 = (Inr (nb', b), s')"
        by (auto simp: run_check split: prod.splits sum.splits)
      from resolveFork_spec [OF rf] obtain h where s2: "s2 = add_history s1 h" and fk: "fork_ok t ?f h d"
        and old: "rdOldHash d = rc" by auto
      from e have "b" "nb' = rdForkBlock d + 1"
        "s' = (add_history s (h2 @ h @ [Emitted (reorg_envelope Op d) None, Metric IncReorgsDetected]))
          \<lparr> sReorg := forgetAbove (sReorg s) (rdForkBlock d) \<rparr>"
        by (auto simp: emitReorg_eq run_simps s2 s1 split: option.splits)
      with t nz rc fk old h2 show ?thesis by (intro reorg) (assumption | rule refl)+
    qed
  qed
qed

section \<open>Properties\<close>

text \<open>
C3: A reported fork point is right. When the walk finds an ancestor it is below the orphaned
tip, the node confirmed its recorded hash, and every tracked height between it and the tip was
asked for and found replaced - so it is the highest common ancestor the window knows; when
none is found every tracked height of the window was found replaced and the fork is pinned to
the floor and flagged. The retracted range is the one directly above the fork.
\<close>
theorem fork_point_highest:
  assumes "run_state (resolveFork W t tip hash) s = (Inr d, s')"
  shows "\<exists>h. history s' = history s @ h \<and> rdFromBlock d = rdForkBlock d + 1 \<and> rdToBlock d = tip
    \<and> rdForkBlock d \<le> tip \<and> rdOldHash d = hash
    \<and> (\<not> rdDepthExceeded d \<longrightarrow> rdForkBlock d < tip \<and> canonical_in h t (rdForkBlock d)
        \<and> (\<forall>m > rdForkBlock d. m < tip \<longrightarrow> orphaned_in h t m))
    \<and> (rdDepthExceeded d \<longrightarrow> rdForkBlock d = fork_floor t tip
        \<and> (\<forall>m \<ge> fork_floor t tip. m < tip \<longrightarrow> orphaned_in h t m))"
proof -
  from resolveFork_spec [OF assms] obtain h where "s' = add_history s h" "fork_ok t tip h d" "rdOldHash d = hash"
    by auto
  then show ?thesis unfolding fork_ok_def by (intro exI [of _ h]) simp
qed

definition idle_tracker :: reorg_tracker where
  "idle_tracker = \<lparr> rtDepth = 8, rtHashes = [9 \<mapsto> ''0xaa'', 11 \<mapsto> ''0xaa''] \<rparr>"

lemma fork_walk_numeral:
  "fork_walk W t floor (numeral k) =
     (let n = floor + word_of_nat (pred_numeral k) in
      case rtHashes t n of
        None \<Rightarrow> fork_walk W t floor (pred_numeral k)
      | Some recordedHash \<Rightarrow>
          check (lift_rpc (client_Block W n False)) (\<lambda>blk.
            if equal_fold (bHash blk) recordedHash then ok (Some n) else fork_walk W t floor (pred_numeral k)))"
  by (simp add: numeral_eq_Suc)

lemma fork_point_highest_witness:
  "\<exists>d s'. run_state (resolveFork quiet_world idle_tracker 11 ''0xaa'') idle_stream = (Inr d, s')
     \<and> rdForkBlock d \<le> 11 \<and> rdToBlock d = 11"
proof -
  have "\<exists>d s'. run_state (resolveFork quiet_world idle_tracker 11 ''0xaa'') idle_stream = (Inr d, s')"
    by (simp add: resolveFork_def fork_floor_def idle_tracker_def canonicalHashAt_def client_Block_def
        run_simps quiet_world_def fork_walk_numeral equal_fold_def to_lower_def lower_char_def
        code_of_def of_char_def Let_def)
  then obtain d s' where "run_state (resolveFork quiet_world idle_tracker 11 ''0xaa'') idle_stream = (Inr d, s')"
    by blast
  with fork_point_highest [OF this] show ?thesis by blast
qed

lemma fork_walk_io:
  "state_io_rel (frame rest (\<lambda>x. \<exists>n a. x = CallBlock n False a)) (fork_walk W t floor k)"
  by (induction k) (auto simp: Let_def intro!: fr_intros split: option.split)

lemma call_no_emit: "\<exists>n a. x = CallBlock n f a \<Longrightarrow> no_emit x"
  by (auto simp: no_emit_def)

lemma resolveFork_io:
  "state_io_rel (frame rest (\<lambda>x. \<exists>n a. x = CallBlock n False a)) (resolveFork W t tip hash)"
  unfolding resolveFork_def canonicalHashAt_def
  by (intro fr_intros fork_walk_io) auto

lemma reorg_detected:
  assumes "run_state (handleReorgIfAny W Op nb head hb) s = (Inr (nb', True), s')"
  obtains t h0 h d where "sReorg s = Some t" "nb \<noteq> 0" "rtHashes t (frontier_of nb head) = Some (rdOldHash d)"
    "fork_ok t (frontier_of nb head) h d" "nb' = rdForkBlock d + 1"
    "\<forall>x \<in> set h0. no_emit x" "set h \<subseteq> set h0"
    "s' = (add_history s (h0 @ [Emitted (reorg_envelope Op d) None, Metric IncReorgsDetected]))
          \<lparr> sReorg := forgetAbove (sReorg s) (rdForkBlock d) \<rparr>"
proof -
  let ?f = "frontier_of nb head"
  from assms obtain t rc where t: "sReorg s = Some t" and nz: "nb \<noteq> 0" and rc: "rtHashes t ?f = Some rc"
    by (cases "sReorg s"; cases "nb = 0"; cases "rtHashes (the (sReorg s)) ?f")
      (simp_all add: handleReorgIfAny_def Let_def)
  from assms obtain nh s1 where f: "run_state (frontier_hash W ?f head hb) s = (Inr nh, s1)"
    and rest1: "run_state (if equal_fold nh rc then ok (nb, False)
                      else check (resolveFork W t ?f rc) (\<lambda>data.
                        check (emitReorg W Op data) (\<lambda>_.
                          do { metric IncReorgsDetected;
                               modify (\<lambda>s. s\<lparr> sReorg := forgetAbove (sReorg s) (rdForkBlock data) \<rparr>);
                               ok (rdForkBlock data + 1, True) }))) s1 = (Inr (nb', True), s')"
    unfolding handleReorgIfAny_def
    by (simp add: t nz rc Let_def run_check split: prod.splits sum.splits)
  have ne: "\<not> equal_fold nh rc" using rest1 by auto
  from frontier_hash_run [OF f] obtain h2 where s1: "s1 = add_history s h2"
    and h2: "\<forall>x \<in> set h2. \<exists>a. x = CallBlock ?f False a" by auto
  from rest1 ne obtain d s2 where rf: "run_state (resolveFork W t ?f rc) s1 = (Inr d, s2)"
    and e: "run_state (check (emitReorg W Op d) (\<lambda>_.
                            do { metric IncReorgsDetected;
                                 modify (\<lambda>s. s\<lparr> sReorg := forgetAbove (sReorg s) (rdForkBlock d) \<rparr>);
                                 ok (rdForkBlock d + 1, True) })) s2 = (Inr (nb', True), s')"
    by (auto simp: run_check split: prod.splits sum.splits)
  from resolveFork_spec [OF rf] obtain h where s2: "s2 = add_history s1 h" and fk: "fork_ok t ?f h d"
    and old: "rdOldHash d = rc" by auto
  from restD [OF resolveFork_io rf] obtain h' where "s2 = add_history s1 h'"
    "\<forall>x \<in> set h'. \<exists>n a. x = CallBlock n False a" by metis
  moreover from this(1) s2 have "h' = h" by (metis same_append_eq stream.select_convs(14) stream.surjective stream.update_convs(14))
  ultimately have h: "\<forall>x \<in> set h. no_emit x" using call_no_emit by blast
  from e have "nb' = rdForkBlock d + 1"
    "s' = (add_history s ((h2 @ h) @ [Emitted (reorg_envelope Op d) None, Metric IncReorgsDetected]))
          \<lparr> sReorg := forgetAbove (sReorg s) (rdForkBlock d) \<rparr>"
    by (auto simp: emitReorg_eq run_simps s2 s1 split: option.splits)
  moreover have "\<forall>x \<in> set (h2 @ h). no_emit x" using h h2 call_no_emit by fastforce
  ultimately show thesis using t nz rc old fk
    by (intro that [of t d h "h2 @ h"]) auto
qed

text \<open>
C4: A detected reorg is announced before anything else is written and rewinds to the fork: the
check writes exactly one record, the marker over the range above the fork point of an orphaned
frontier, with the recorded hash as the old one; scanning restarts one past the fork, and only
hashes at or below the fork are remembered.
\<close>
theorem reorg_marker_and_rewind:
  assumes "run_state (handleReorgIfAny W Op nb head hb) s = (Inr (nb', True), s')"
  shows "\<exists>t h d. sReorg s = Some t \<and> history s' = history s @ h \<and> emitted h = [reorg_envelope Op d]
    \<and> rdToBlock d = frontier_of nb head \<and> rdFromBlock d = nb' \<and> nb' = rdForkBlock d + 1
    \<and> recorded (sReorg s) (frontier_of nb head) = Some (rdOldHash d)
    \<and> (\<not> rdDepthExceeded d \<longrightarrow> nb' \<le> frontier_of nb head)
    \<and> (\<forall>k. recorded (sReorg s') k = (if k > rdForkBlock d then None else recorded (sReorg s) k))"
proof -
  from reorg_detected [OF assms] obtain t h0 h d where t: "sReorg s = Some t"
    and rc: "rtHashes t (frontier_of nb head) = Some (rdOldHash d)"
    and fk: "fork_ok t (frontier_of nb head) h d" and nb: "nb' = rdForkBlock d + 1"
    and h0: "\<forall>x \<in> set h0. no_emit x"
    and s': "s' = (add_history s (h0 @ [Emitted (reorg_envelope Op d) None, Metric IncReorgsDetected]))
          \<lparr> sReorg := forgetAbove (sReorg s) (rdForkBlock d) \<rparr>" by metis
  have "\<not> rdDepthExceeded d \<Longrightarrow> nb' \<le> frontier_of nb head"
    using fk nb unfolding fork_ok_def by (simp add: inc_le)
  moreover have "emitted (h0 @ [Emitted (reorg_envelope Op d) None, Metric IncReorgsDetected]) = [reorg_envelope Op d]"
    using emitted_none [OF h0] by (simp add: emitted_def)
  moreover have "recorded (sReorg s') k = (if k > rdForkBlock d then None else recorded (sReorg s) k)" for k
    by (simp add: s' recorded_forgetAbove)
  moreover have "recorded (sReorg s) (frontier_of nb head) = Some (rdOldHash d)"
    using t rc by (simp add: recorded_def)
  ultimately show ?thesis using t fk nb s'
    by (intro exI [of _ t] exI [of _ "h0 @ [Emitted (reorg_envelope Op d) None, Metric IncReorgsDetected]"] exI [of _ d])
      (simp add: fork_ok_def)
qed

lemma reorg_marker_and_rewind_witness:
  "\<exists>nb' s'. run_state (handleReorgIfAny quiet_world plain_options 12 12 None) idle_stream = (Inr (nb', True), s')
     \<and> (\<exists>h d. history s' = h \<and> emitted h = [reorg_envelope plain_options d] \<and> rdToBlock d = 11)"
proof -
  have "\<exists>nb' s'. run_state (handleReorgIfAny quiet_world plain_options 12 12 None) idle_stream = (Inr (nb', True), s')"
    by (simp add: handleReorgIfAny_def frontier_of_def frontier_hash_def idle_stream_def resolveFork_def
        fork_floor_def canonicalHashAt_def client_Block_def emitReorg_def
        run_simps quiet_world_def fork_walk_numeral equal_fold_def to_lower_def lower_char_def
        code_of_def of_char_def Let_def)
  then obtain nb' s' where r: "run_state (handleReorgIfAny quiet_world plain_options 12 12 None) idle_stream = (Inr (nb', True), s')"
    by blast
  have "frontier_of 12 12 = 11" "history idle_stream = []" by (simp_all add: frontier_of_def idle_stream_def)
  with reorg_marker_and_rewind [OF r] r show ?thesis by auto
qed

end
