(* ===== verification/Units.thy ===== *)
theory Units
  imports Numerals
begin

text \<open>
  Rendering of amounts and instants: \<open>formatUnits\<close> and \<open>weiToEther\<close>
  (\<^verbatim>\<open>internal/stream/native.go\<close>, \<^verbatim>\<open>internal/balance/format.go\<close>) and the RFC 3339 form of a
  Unix time (\<^verbatim>\<open>internal/record/record.go\<close>), with the civil calendar of package time written out.
\<close>

section \<open>Amounts\<close>

definition trim_right :: "char \<Rightarrow> string \<Rightarrow> string" where
  "trim_right c s = rev (dropWhile (\<lambda>d. d = c) (rev s))"

definition formatUnits :: "int \<Rightarrow> int \<Rightarrow> string" where
  "formatUnits amount decimals =
     (if decimals \<le> 0 then show_int amount
      else
        (let d = nat decimals;
             absv = nat \<bar>amount\<bar>;
             intPart = absv div 10 ^ d;
             fracPart = absv mod 10 ^ d;
             frac0 = show_nat fracPart;
             frac1 = (if length frac0 < d then replicate (d - length frac0) CHR ''0'' @ frac0 else frac0);
             frac2 = trim_right CHR ''0'' frac1;
             frac = (if frac2 = [] then ''0'' else frac2) in
         (if amount < 0 then ''-'' else []) @ show_nat intPart @ ''.'' @ frac))"

definition weiToEther :: "int \<Rightarrow> string" where
  "weiToEther wei = formatUnits wei 18"

text \<open>What such a text denotes in the smallest unit.\<close>

definition read_digits :: "string \<Rightarrow> nat" where
  "read_digits s = (case parse_digits 10 0 s of Some n \<Rightarrow> n | None \<Rightarrow> 0)"

definition units_value :: "nat \<Rightarrow> string \<Rightarrow> int" where
  "units_value d s =
     (let neg = has_prefix ''-'' s; body = (if neg then drop 1 s else s) in
      case split_on CHR ''.'' body of
        [ip, fp] \<Rightarrow> (if neg then -1 else 1) * int (read_digits ip * 10 ^ d + read_digits fp * 10 ^ (d - length fp))
      | _ \<Rightarrow> 0)"

section \<open>Digits\<close>

lemma parse_digits_acc:
  "parse_digits 10 acc s = map_option (\<lambda>n. acc * 10 ^ length s + n) (parse_digits 10 0 s)"
proof (induction s arbitrary: acc)
  case (Cons c s)
  show ?case
  proof (cases "digit_val c")
    case (Some d)
    show ?thesis
    proof (cases "d < 10")
      case True
      with Some Cons.IH [of "acc * 10 + d"] Cons.IH [of d] show ?thesis
        by (cases "parse_digits 10 0 s") (auto simp: algebra_simps)
    qed (use Some in simp)
  qed simp
qed simp

lemma read_show_nat [simp]: "read_digits (show_nat n) = n"
  using parse_show_base [of 10 n] by (simp add: read_digits_def show_nat_def)

lemma digit_val_0 [simp]: "digit_val CHR ''0'' = Some 0"
  by (simp add: digit_val_def code_of_def of_char_def)

lemma parse_zeros [simp]: "parse_digits 10 0 (replicate k CHR ''0'' @ s) = parse_digits 10 0 s"
  by (induction k) auto

lemma parse_digits_zeros_right:
  "parse_digits 10 0 (s @ replicate k CHR ''0'') = map_option (\<lambda>n. n * 10 ^ k) (parse_digits 10 0 s)"
proof -
  have z: "parse_digits 10 n (replicate k CHR ''0'') = Some (n * 10 ^ k)" for n
    by (induction k arbitrary: n) auto
  show ?thesis by (cases "parse_digits 10 0 s") (simp_all add: parse_digits_append z)
qed

lemma trim_right_split: "\<exists>k. s = trim_right c s @ replicate k c"
proof -
  have "takeWhile (\<lambda>d. d = c) t = replicate (length (takeWhile (\<lambda>d. d = c) t)) c" for t
    by (metis (full_types) replicate_length_same set_takeWhileD)
  then have "rev s = replicate (length (takeWhile (\<lambda>d. d = c) (rev s))) c @ dropWhile (\<lambda>d. d = c) (rev s)"
    by (metis takeWhile_dropWhile_id)
  then have "s = trim_right c s @ replicate (length (takeWhile (\<lambda>d. d = c) (rev s))) c"
    unfolding trim_right_def by (metis rev_append rev_replicate rev_rev_ident)
  then show ?thesis ..
qed

lemma length_show_nat: "n < 10 ^ d \<Longrightarrow> 0 < d \<Longrightarrow> length (show_nat n) \<le> d"
proof (induction d arbitrary: n)
  case (Suc d)
  show ?case
  proof (cases "n < 10")
    case False
    with Suc.prems have "n div 10 < 10 ^ d" by (simp add: less_mult_imp_div_less mult.commute)
    moreover have "0 < d" using False Suc.prems by (cases d) auto
    ultimately have "length (show_nat (n div 10)) \<le> d" by (rule Suc.IH)
    then show ?thesis using False unfolding show_nat_def by (subst show_base.simps) simp
  qed (simp add: show_nat_def show_base.simps)
qed simp

lemma read_frac:
  assumes "n < 10 ^ d" and "0 < d"
  defines "frac1 \<equiv> (if length (show_nat n) < d then replicate (d - length (show_nat n)) CHR ''0'' @ show_nat n else show_nat n)"
  defines "frac \<equiv> (if trim_right CHR ''0'' frac1 = [] then ''0'' else trim_right CHR ''0'' frac1)"
  shows "read_digits frac * 10 ^ (d - length frac) = n" and "CHR ''.'' \<notin> set frac"
proof -
  have l: "length frac1 = d" using length_show_nat [OF assms(1,2)] by (auto simp: frac1_def)
  have p: "parse_digits 10 0 frac1 = Some n"
    using parse_show_base [of 10 n] by (simp add: frac1_def show_nat_def)
  obtain k where k: "frac1 = trim_right CHR ''0'' frac1 @ replicate k CHR ''0''"
    using trim_right_split by blast
  let ?t = "trim_right CHR ''0'' frac1"
  have lt: "length ?t + k = d" using l k by (metis length_append length_replicate)
  obtain m where m: "parse_digits 10 0 ?t = Some m" "n = m * 10 ^ k"
    using p k parse_digits_zeros_right [of ?t k] by (cases "parse_digits 10 0 ?t") auto
  show "read_digits frac * 10 ^ (d - length frac) = n"
  proof (cases "?t = []")
    case True
    with m show ?thesis by (simp add: frac_def read_digits_def)
  next
    case False
    moreover have "d - length ?t = k" using lt by simp
    ultimately show ?thesis using m by (simp add: frac_def read_digits_def)
  qed
  have "set ?t \<subseteq> set frac1" unfolding trim_right_def using set_dropWhileD by fastforce
  moreover have "CHR ''.'' \<notin> set frac1"
    using show_nat_no [of "CHR ''.''" n] by (auto simp: frac1_def)
  ultimately show "CHR ''.'' \<notin> set frac" by (auto simp: frac_def)
qed

lemma show_nat_not_minus: "\<not> has_prefix ''-'' (show_nat n @ s)"
  using show_nat_no [of "CHR ''-''" n] show_nat_not_Nil [of n]
  by (cases "show_nat n") (auto simp: has_prefix_def)

section \<open>Instants\<close>

text \<open>Days since 1970-01-01 to a proleptic Gregorian date.\<close>

definition civil_from_days :: "int \<Rightarrow> int \<times> int \<times> int" where
  "civil_from_days days =
     (let z = days + 719468;
          era = z div 146097;
          doe = z mod 146097;
          yoe = (doe - doe div 1460 + doe div 36524 - doe div 146096) div 365;
          doy = doe - (365 * yoe + yoe div 4 - yoe div 100);
          mp = (5 * doy + 2) div 153;
          d = doy - (153 * mp + 2) div 5 + 1;
          m = (if mp < 10 then mp + 3 else mp - 9);
          y = yoe + era * 400 + (if m \<le> 2 then 1 else 0) in
      (y, m, d))"

definition pad :: "nat \<Rightarrow> nat \<Rightarrow> string" where
  "pad w n = replicate (w - length (show_nat n)) CHR ''0'' @ show_nat n"

definition RFC3339 :: "int \<Rightarrow> string" where
  "RFC3339 secs =
     (let (y, m, d) = civil_from_days (secs div 86400);
          r = nat (secs mod 86400) in
      (if y < 0 then ''-'' else []) @ pad 4 (nat \<bar>y\<bar>) @ ''-'' @ pad 2 (nat m) @ ''-'' @ pad 2 (nat d)
        @ ''T'' @ pad 2 (r div 3600) @ '':'' @ pad 2 (r mod 3600 div 60) @ '':'' @ pad 2 (r mod 60) @ ''Z'')"

section \<open>Properties\<close>

text \<open>
The decimal rendering of an amount is exact: read back with the same number of decimals it
denotes the same integer, sign included, so two different amounts never render alike.
\<close>
theorem format_units_exact:
  assumes "0 < decimals"
  shows "units_value (nat decimals) (formatUnits amount decimals) = amount"
proof -
  let ?d = "nat decimals" and ?a = "nat \<bar>amount\<bar>"
  let ?n = "?a mod 10 ^ ?d" and ?ip = "show_nat (?a div 10 ^ ?d)"
  define frac1 where "frac1 = (if length (show_nat ?n) < ?d
      then replicate (?d - length (show_nat ?n)) CHR ''0'' @ show_nat ?n else show_nat ?n)"
  define frac where "frac = (if trim_right CHR ''0'' frac1 = [] then ''0'' else trim_right CHR ''0'' frac1)"
  have fmt: "formatUnits amount decimals = (if amount < 0 then ''-'' else []) @ ?ip @ ''.'' @ frac"
    using assms by (simp add: formatUnits_def Let_def frac_def frac1_def)
  have rd: "read_digits frac * 10 ^ (?d - length frac) = ?n" "CHR ''.'' \<notin> set frac"
    unfolding frac_def frac1_def by (rule read_frac; use assms in simp)+
  have sp: "split_on CHR ''.'' (?ip @ ''.'' @ frac) = [?ip, frac]"
    using show_nat_no [of "CHR ''.''" "?a div 10 ^ ?d"] rd(2) by (simp add: split_on_append split_on_no_sep)
  have val: "int (read_digits ?ip * 10 ^ ?d + read_digits frac * 10 ^ (?d - length frac)) = \<bar>amount\<bar>"
    unfolding rd(1) read_show_nat div_mult_mod_eq by simp
  show ?thesis
  proof (cases "amount < 0")
    case True
    then have "has_prefix ''-'' (formatUnits amount decimals)" "drop 1 (formatUnits amount decimals) = ?ip @ ''.'' @ frac"
      by (simp_all add: fmt has_prefix_def)
    then show ?thesis using True val sp unfolding units_value_def Let_def by simp
  next
    case False
    then have "\<not> has_prefix ''-'' (formatUnits amount decimals)" "formatUnits amount decimals = ?ip @ ''.'' @ frac"
      using show_nat_not_minus by (simp_all add: fmt)
    then show ?thesis using False val sp unfolding units_value_def Let_def by simp
  qed
qed

lemma format_units_exact_witness: "units_value 18 (formatUnits (-1500000000000000000) 18) = -1500000000000000000"
  using format_units_exact [of 18 "-1500000000000000000"] by simp

end
