(* ===== verification/Traces.thy ===== *)
theory Traces
  imports StreamBase Units "HOL-Library.Sublist"
begin

text \<open>
  Internal transfers (\<^verbatim>\<open>internal/stream/internal.go\<close>): the walk of a call tree, the
  normalisation of a flat parity trace, the cascade through the trace backends with its bounded
  retry, and the emission of one record per surviving value-moving call.
\<close>

section \<open>Call trees\<close>

record internal_transfer =
  itTxHash :: string
  itTraceAddress :: "int list"
  itFrom :: string
  itTo :: string
  itValueWei :: int
  itCallType :: string
  itContractCreation :: bool

definition isValueMovingCall :: "string \<Rightarrow> bool" where
  "isValueMovingCall frameType \<longleftrightarrow>
     to_upper frameType \<in> {''CALL'', ''CREATE'', ''CREATE2'', ''SELFDESTRUCT'', ''SUICIDE''}"

definition isCreate :: "string \<Rightarrow> bool" where
  "isCreate frameType \<longleftrightarrow> to_upper frameType \<in> {''CREATE'', ''CREATE2''}"

definition transfer_of :: "string \<Rightarrow> int list \<Rightarrow> call_frame \<Rightarrow> int \<Rightarrow> internal_transfer" where
  "transfer_of tx path f v =
     \<lparr> itTxHash = tx, itTraceAddress = path, itFrom = cfFrom f, itTo = cfTo f, itValueWei = v,
       itCallType = to_lower (cfType f), itContractCreation = isCreate (cfType f) \<rparr>"

text \<open>What one surviving frame contributes itself.\<close>

definition frame_transfer :: "string \<Rightarrow> int list \<Rightarrow> call_frame \<Rightarrow> rpc_error + internal_transfer list" where
  "frame_transfer tx path f =
     (if isValueMovingCall (cfType f) then
        (case frame_ValueBig f of
           Inl e \<Rightarrow> Inl (OtherError (''internal transfer value: '' @ error_text e))
         | Inr v \<Rightarrow> Inr (if v > 0 then [transfer_of tx path f v] else []))
      else Inr [])"

text \<open>The frames from index \<open>i\<close> of a level on.\<close>

fun walk_from :: "string \<Rightarrow> int list \<Rightarrow> nat \<Rightarrow> call_frame list \<Rightarrow> rpc_error + internal_transfer list" where
  "walk_from tx pre i [] = Inr []"
| "walk_from tx pre i (CallFrame ty fr to v er calls # frames) =
     (if er \<noteq> [] then walk_from tx pre (Suc i) frames
      else
        (let path = pre @ [int i] in
         case frame_transfer tx path (CallFrame ty fr to v er calls) of
           Inl e \<Rightarrow> Inl e
         | Inr here \<Rightarrow>
             (case walk_from tx path 0 calls of
                Inl e \<Rightarrow> Inl e
              | Inr below \<Rightarrow>
                  (case walk_from tx pre (Suc i) frames of
                     Inl e \<Rightarrow> Inl e
                   | Inr after \<Rightarrow> Inr (here @ below @ after)))))"

definition walkCallFrames :: "string \<Rightarrow> call_frame list \<Rightarrow> rpc_error + internal_transfer list" where
  "walkCallFrames tx frames = walk_from tx [] 0 frames"

fun walk_traces :: "tx_trace list \<Rightarrow> rpc_error + internal_transfer list" where
  "walk_traces [] = Inr []"
| "walk_traces (tt # tts) =
     (case ttResult tt of
        None \<Rightarrow> walk_traces tts
      | Some root \<Rightarrow>
          if cfError root \<noteq> [] then walk_traces tts
          else (case walkCallFrames (ttTxHash tt) (cfCalls root) of
              Inl e \<Rightarrow> Inl e
            | Inr xs \<Rightarrow> (case walk_traces tts of Inl e \<Rightarrow> Inl e | Inr ys \<Rightarrow> Inr (xs @ ys))))"

section \<open>Flat traces\<close>

definition parseHexValue :: "string \<Rightarrow> rpc_error + int" where
  "parseHexValue s =
     (if s = [] \<or> s = ''0x'' then Inr 0
      else case set_string 16 (trim_0x s) of
        None \<Rightarrow> Inl (OtherError (''invalid hex value '' @ s)) | Some v \<Rightarrow> Inr v)"

definition hasErroredAncestor :: "int list \<Rightarrow> int list list \<Rightarrow> bool" where
  "hasErroredAncestor path errored \<longleftrightarrow>
     list_ex (\<lambda>e. length e < length path \<and> take (length e) path = e) errored"

definition parityToInternal :: "parity_trace \<Rightarrow> rpc_error + internal_transfer option" where
  "parityToInternal t =
     (let a = ptAction t;
          mk = (\<lambda>fr to ct cc raw.
            case parseHexValue raw of Inl e \<Rightarrow> Inl e
            | Inr v \<Rightarrow> Inr (if v \<le> 0 then None else
                Some \<lparr> itTxHash = ptTxHash t, itTraceAddress = ptTraceAddress t, itFrom = fr, itTo = to,
                       itValueWei = v, itCallType = ct, itContractCreation = cc \<rparr>)) in
      if ptType t = ''call'' then
        (if paCallType a \<noteq> ''call'' then Inr None else mk (paFrom a) (paTo a) ''call'' False (paValue a))
      else if ptType t = ''create'' then
        mk (paFrom a) (case ptResult t of Some addr \<Rightarrow> addr | None \<Rightarrow> []) ''create'' True (paValue a)
      else if ptType t = ''suicide'' then
        mk (paAddress a) (paRefundAddress a) ''selfdestruct'' False (paBalance a)
      else Inr None)"

definition errored_paths :: "parity_trace list \<Rightarrow> int list list" where
  "errored_paths traces = map ptTraceAddress (filter (\<lambda>t. ptError t \<noteq> []) traces)"

fun parse_parity :: "int list list \<Rightarrow> parity_trace list \<Rightarrow> rpc_error + internal_transfer list" where
  "parse_parity errored [] = Inr []"
| "parse_parity errored (t # ts) =
     (if ptTraceAddress t = [] \<or> ptError t \<noteq> [] \<or> hasErroredAncestor (ptTraceAddress t) errored
      then parse_parity errored ts
      else case parityToInternal t of
        Inl e \<Rightarrow> Inl e
      | Inr it \<Rightarrow> (case parse_parity errored ts of
          Inl e \<Rightarrow> Inl e
        | Inr its \<Rightarrow> Inr (case it of Some x \<Rightarrow> x # its | None \<Rightarrow> its)))"

definition parseParityTraces :: "parity_trace list \<Rightarrow> rpc_error + internal_transfer list" where
  "parseParityTraces traces = parse_parity (errored_paths traces) traces"

section \<open>Backends\<close>

definition blockLevelTraces :: "world \<Rightarrow> u64 \<Rightarrow> internal_transfer list sm" where
  "blockLevelTraces W n =
     check (lift_rpc (rpc_call (\<lambda>h. wTraceBlock W h n) (CallTraceBlock n))) (\<lambda>traces.
       pure_rpc (walk_traces traces))"

definition parityTraces :: "world \<Rightarrow> u64 \<Rightarrow> internal_transfer list sm" where
  "parityTraces W n =
     check (lift_rpc (rpc_call (\<lambda>h. wTraceParity W h n) (CallTraceParity n))) (\<lambda>traces.
       pure_rpc (parseParityTraces traces))"

fun perTxTraces :: "world \<Rightarrow> transaction list \<Rightarrow> internal_transfer list sm" where
  "perTxTraces W [] = ok []"
| "perTxTraces W (tx # txs) =
     check (lift_rpc (rpc_call (\<lambda>h. wTraceTx W h (txHash tx)) (CallTraceTx (txHash tx)))) (\<lambda>root.
       check (case root of
                None \<Rightarrow> ok []
              | Some f \<Rightarrow> if cfError f \<noteq> [] then ok [] else pure_rpc (walkCallFrames (txHash tx) (cfCalls f)))
         (\<lambda>xs. check (perTxTraces W txs) (\<lambda>ys. ok (xs @ ys))))"

definition set_backend :: "trace_backend \<Rightarrow> (stream, unit) state" where
  "set_backend b = modify (\<lambda>s. s\<lparr> sTraceBackend := b \<rparr>)"

text \<open>The cascade: the first backend that answers is kept; a missing method moves on, anything
else aborts the selection. When all are exhausted the last argument decides whether the node is
known to have none.\<close>

definition capability_gap :: "stream_error \<Rightarrow> bool" where
  "capability_gap e = (case e of RpcErr r \<Rightarrow> IsMethodUnsupported r | _ \<Rightarrow> False)"

fun try_backends ::
  "world \<Rightarrow> (trace_backend \<times> internal_transfer list sm) list \<Rightarrow> bool \<Rightarrow> internal_transfer list sm" where
  "try_backends W [] hasTxs =
     (if \<not> hasTxs then ok []
      else do { set_backend BackendDisabled; metric (SetInternalTransfersDisabled True); ok [] })"
| "try_backends W ((b, fetch) # cs) hasTxs =
     do { r \<leftarrow> fetch;
          (case r of
             Inr transfers \<Rightarrow> do { set_backend b; ok transfers }
           | Inl e \<Rightarrow>
               do { c \<leftarrow> cancelled W;
                    if c then fail CtxDone
                    else if \<not> capability_gap e then fail e
                    else try_backends W cs hasTxs }) }"

definition selectBackend :: "world \<Rightarrow> block \<Rightarrow> u64 \<Rightarrow> internal_transfer list sm" where
  "selectBackend W blk n =
     (let hasTxs = bTransactions blk \<noteq> [] in
      try_backends W
        ([(BackendBlock, blockLevelTraces W n), (BackendParity, parityTraces W n)]
          @ (if hasTxs then [(BackendPerTx, perTxTraces W (bTransactions blk))] else [])) hasTxs)"

definition fetchTraces :: "world \<Rightarrow> block \<Rightarrow> u64 \<Rightarrow> internal_transfer list sm" where
  "fetchTraces W blk n =
     do { b \<leftarrow> gets sTraceBackend;
          (case b of
             BackendBlock \<Rightarrow> blockLevelTraces W n
           | BackendParity \<Rightarrow> parityTraces W n
           | BackendPerTx \<Rightarrow> perTxTraces W (bTransactions blk)
           | _ \<Rightarrow> selectBackend W blk n) }"

definition maxTraceAttempts :: nat where "maxTraceAttempts = 4"

text \<open>The retry loop; \<open>fuel\<close> bounds its turns.\<close>

fun trace_loop :: "nat \<Rightarrow> world \<Rightarrow> block \<Rightarrow> u64 \<Rightarrow> nat \<Rightarrow> internal_transfer list sm" where
  "trace_loop 0 W blk n attempt = fail OutOfFuel"
| "trace_loop (Suc fuel) W blk n attempt =
     do { r \<leftarrow> fetchTraces W blk n;
          (case r of
             Inr transfers \<Rightarrow> ok transfers
           | Inl e \<Rightarrow>
               do { c \<leftarrow> cancelled W;
                    if c then fail CtxDone
                    else do {
                      b \<leftarrow> gets sTraceBackend;
                      if b \<noteq> BackendUnknown \<and> b \<noteq> BackendDisabled \<and> capability_gap e
                      then do { set_backend BackendUnknown; trace_loop fuel W blk n (attempt + 1) }
                      else if attempt \<ge> maxTraceAttempts
                      then do { metric IncInternalTraceSkipped; ok [] }
                      else do { slept \<leftarrow> sleep W;
                                if \<not> slept then fail CtxDone
                                else trace_loop fuel W blk n (attempt + 1) } } }) }"

definition traceBlockInternal :: "world \<Rightarrow> block \<Rightarrow> u64 \<Rightarrow> internal_transfer list sm" where
  "traceBlockInternal W blk n = trace_loop (maxTraceAttempts + 1) W blk n 1"

section \<open>Emission\<close>

definition filter_matches :: "native_filter \<Rightarrow> string \<Rightarrow> string \<Rightarrow> bool" where
  "filter_matches f from to =
     (if nfFrom f = None \<and> nfTo f = None then True
      else (case nfFrom f of Some xs \<Rightarrow> to_lower from \<in> set xs | None \<Rightarrow> False)
         \<or> (case nfTo f of Some xs \<Rightarrow> to_lower to \<in> set xs | None \<Rightarrow> False))"

definition internal_envelope :: "options \<Rightarrow> u64 \<Rightarrow> string \<Rightarrow> bool \<Rightarrow> internal_transfer \<Rightarrow> envelope" where
  "internal_envelope Op blkNum ts final t =
     zero_envelope\<lparr> eType := TypeInternalTransfer, eTool := ToolStream, eName := ''native'',
       eChain := oChainName Op, eChainID := oChainID Op, eBlockNumber := blkNum,
       eTxHash := itTxHash t, eTraceAddress := itTraceAddress t, eTimestamp := ts, eFinalized := final,
       eData := DInternal \<lparr> itdFrom = itFrom t, itdTo = itTo t, itdValueWei = show_int (itValueWei t),
         itdValue = weiToEther (itValueWei t), itdCallType = itCallType t,
         itdContractCreation = itContractCreation t \<rparr> \<rparr>"

definition emitInternal :: "world \<Rightarrow> options \<Rightarrow> u64 \<Rightarrow> string \<Rightarrow> internal_transfer \<Rightarrow> unit sm" where
  "emitInternal W Op blkNum ts t =
     do { s \<leftarrow> gets id;
          check (emit W (internal_envelope Op blkNum ts (isFinalized s blkNum) t)) (\<lambda>_.
            do { metric IncInternalTransferRecord; metric (SetLastEmittedBlock blkNum); ok () }) }"

definition emitInternalTransfers :: "world \<Rightarrow> options \<Rightarrow> block \<Rightarrow> u64 \<Rightarrow> string \<Rightarrow> unit sm" where
  "emitInternalTransfers W Op blk blkNum ts =
     do { b \<leftarrow> gets sTraceBackend;
          if b = BackendDisabled then ok ()
          else check (traceBlockInternal W blk blkNum) (\<lambda>transfers.
            do { f \<leftarrow> gets sNative;
                 for_each (\<lambda>t. if filter_matches f (itFrom t) (itTo t) then emitInternal W Op blkNum ts t else ok ())
                   transfers }) }"

section \<open>The walk is exact\<close>

text \<open>The frame at a call path when it and all the frames above it survived.\<close>

fun frame_at :: "call_frame list \<Rightarrow> nat list \<Rightarrow> call_frame option" where
  "frame_at frames [] = None"
| "frame_at frames (i # p) =
     (if i < length frames \<and> cfError (frames ! i) = []
      then (if p = [] then Some (frames ! i) else frame_at (cfCalls (frames ! i)) p)
      else None)"

definition shifted :: "nat \<Rightarrow> nat list \<Rightarrow> nat list" where
  "shifted i p = (case p of [] \<Rightarrow> [] | j # q \<Rightarrow> (i + j) # q)"

definition moves_value :: "string \<Rightarrow> int list \<Rightarrow> call_frame \<Rightarrow> internal_transfer \<Rightarrow> bool" where
  "moves_value tx path f it \<longleftrightarrow> isValueMovingCall (cfType f)
     \<and> (\<exists>v. frame_ValueBig f = Inr v \<and> v > 0 \<and> it = transfer_of tx path f v)"

definition walked :: "string \<Rightarrow> int list \<Rightarrow> nat \<Rightarrow> call_frame list \<Rightarrow> internal_transfer set" where
  "walked tx pre i frames = {it. \<exists>p f. frame_at frames p = Some f \<and> moves_value tx (pre @ map int (shifted i p)) f it}"

lemma frame_transfer_set:
  "frame_transfer tx path f = Inr here \<Longrightarrow> set here = {it. moves_value tx path f it} \<and> length here \<le> 1"
  by (auto simp: frame_transfer_def moves_value_def split: sum.splits if_splits)

lemma walked_Nil [simp]: "walked tx pre i [] = {}"
proof -
  have "frame_at [] p = None" for p by (cases p) auto
  then show ?thesis by (simp add: walked_def)
qed

lemma frame_at_Cons_Suc: "frame_at (f # fs) (Suc j # q) = frame_at fs (j # q)"
  by simp

lemma walked_rest: "{it. \<exists>j q g. frame_at (f # fs) (Suc j # q) = Some g
    \<and> moves_value tx (pre @ map int (shifted i (Suc j # q))) g it} = walked tx pre (Suc i) fs"
proof -
  have "(\<exists>p g. frame_at fs p = Some g \<and> moves_value tx (pre @ map int (shifted (Suc i) p)) g it)
      \<longleftrightarrow> (\<exists>j q g. frame_at fs (j # q) = Some g \<and> moves_value tx (pre @ map int (shifted (Suc i) (j # q))) g it)" for it
    by (metis frame_at.simps(1) neq_Nil_conv option.distinct(1))
  then show ?thesis by (simp add: walked_def shifted_def frame_at_Cons_Suc del: frame_at.simps)
qed

lemma walked_Cons:
  "walked tx pre i (f # fs) =
     (if cfError f \<noteq> [] then {} else {it. moves_value tx (pre @ [int i]) f it} \<union> walked tx (pre @ [int i]) 0 (cfCalls f))
     \<union> walked tx pre (Suc i) fs"
proof -
  have split: "walked tx pre i (f # fs) =
      {it. \<exists>q g. frame_at (f # fs) (0 # q) = Some g \<and> moves_value tx (pre @ map int (shifted i (0 # q))) g it}
      \<union> {it. \<exists>j q g. frame_at (f # fs) (Suc j # q) = Some g
          \<and> moves_value tx (pre @ map int (shifted i (Suc j # q))) g it}"
    (is "_ = ?here \<union> ?after")
  proof -
    have ex: "(\<exists>p. Q p) \<longleftrightarrow> Q [] \<or> (\<exists>q. Q (0 # q)) \<or> (\<exists>j q. Q (Suc j # q))" for Q :: "nat list \<Rightarrow> bool"
      by (metis list.exhaust nat.exhaust)
    show ?thesis unfolding walked_def
      by (subst ex) (auto simp del: frame_at.simps(2))
  qed
  have "?here = (if cfError f \<noteq> [] then {} else {it. moves_value tx (pre @ [int i]) f it}
      \<union> walked tx (pre @ [int i]) 0 (cfCalls f))"
  proof -
    have sh: "shifted i (0 # q) = i # q" "shifted 0 q = q" for q by (auto simp: shifted_def split: list.splits)
    have "(\<exists>q g. frame_at (f # fs) (0 # q) = Some g \<and> P q g) \<longleftrightarrow>
       cfError f = [] \<and> (P [] f \<or> (\<exists>q g. frame_at (cfCalls f) q = Some g \<and> P q g))" for P
      by (auto; metis frame_at.simps(1) option.distinct(1))
    then show ?thesis by (auto simp: walked_def sh)
  qed
  with split walked_rest [of f fs tx pre i] show ?thesis by simp
qed

lemma walk_from_set: "walk_from tx pre i frames = Inr out \<Longrightarrow> set out = walked tx pre i frames"
proof (induction tx pre i frames arbitrary: out rule: walk_from.induct)
  case (2 tx pre i ty fr to v er calls frames)
  let ?f = "CallFrame ty fr to v er calls"
  show ?case
  proof (cases "er = []")
    case False
    with 2 show ?thesis by (simp add: walked_Cons)
  next
    case True
    with "2.prems" obtain here below after where
      h: "frame_transfer tx (pre @ [int i]) ?f = Inr here" and
      b: "walk_from tx (pre @ [int i]) 0 calls = Inr below" and
      a: "walk_from tx pre (Suc i) frames = Inr after" and out: "out = here @ below @ after"
      by (auto simp: Let_def split: sum.splits)
    have "set below = walked tx (pre @ [int i]) 0 calls" "set after = walked tx pre (Suc i) frames"
      using "2.IH" True h a b by simp_all
    with frame_transfer_set [OF h] True show ?thesis by (simp add: out walked_Cons Un_assoc)
  qed
qed simp

text \<open>Call paths tell the transfers of one transaction apart.\<close>

lemma walked_under:
  assumes "it \<in> walked tx pre i frames"
  shows "\<exists>j q. i \<le> j \<and> itTraceAddress it = pre @ int j # map int q"
proof -
  from assms obtain p f where p: "frame_at frames p = Some f"
    and m: "moves_value tx (pre @ map int (shifted i p)) f it" by (auto simp: walked_def)
  from p obtain j q where "p = j # q" by (cases p) auto
  with m have "itTraceAddress it = pre @ int (i + j) # map int q"
    by (auto simp: moves_value_def transfer_of_def shifted_def)
  then show ?thesis by (meson le_add1)
qed

lemma walk_from_distinct: "walk_from tx pre i frames = Inr out \<Longrightarrow> distinct (map itTraceAddress out)"
proof (induction tx pre i frames arbitrary: out rule: walk_from.induct)
  case (2 tx pre i ty fr to v er calls frames)
  let ?f = "CallFrame ty fr to v er calls"
  show ?case
  proof (cases "er = []")
    case True
    with "2.prems" obtain here below after where
      h: "frame_transfer tx (pre @ [int i]) ?f = Inr here" and
      b: "walk_from tx (pre @ [int i]) 0 calls = Inr below" and
      a: "walk_from tx pre (Suc i) frames = Inr after" and out: "out = here @ below @ after"
      by (auto simp: Let_def split: sum.splits)
    have d: "distinct (map itTraceAddress below)" "distinct (map itTraceAddress after)"
      using "2.IH" True h a b by simp_all
    have here: "itTraceAddress it = pre @ [int i]" if "it \<in> set here" for it
    proof -
      have "moves_value tx (pre @ [int i]) ?f it" using that frame_transfer_set [OF h] by blast
      then show ?thesis by (auto simp: moves_value_def transfer_of_def)
    qed
    have below: "\<exists>k q. itTraceAddress it = pre @ int i # int k # q" if "it \<in> set below" for it
      using walked_under [of it tx "pre @ [int i]" 0 calls] that unfolding walk_from_set [OF b] by auto
    have after: "\<exists>j q. i < j \<and> itTraceAddress it = pre @ int j # q" if "it \<in> set after" for it
      using walked_under [of it tx pre "Suc i" frames] that unfolding walk_from_set [OF a]
      by (meson Suc_le_lessD)
    have "distinct (map itTraceAddress here)"
      using frame_transfer_set [OF h] by (cases here) auto
    moreover have "itTraceAddress x \<noteq> itTraceAddress y" if "x \<in> set here" "y \<in> set below" for x y
      using here [OF that(1)] below [OF that(2)] by auto
    moreover have "itTraceAddress x \<noteq> itTraceAddress y" if "x \<in> set here" "y \<in> set after" for x y
      using here [OF that(1)] after [OF that(2)] by auto
    moreover have "itTraceAddress x \<noteq> itTraceAddress y" if "x \<in> set below" "y \<in> set after" for x y
      using below [OF that(1)] after [OF that(2)] by auto
    ultimately show ?thesis using d by (auto simp: out image_iff)
  qed (use 2 in simp)
qed simp

section \<open>The two trace formats\<close>

text \<open>The flat form of a call tree, as a parity node lists it: pre-order, each entry with its path.\<close>

definition parity_of :: "string \<Rightarrow> int list \<Rightarrow> call_frame \<Rightarrow> parity_trace" where
  "parity_of tx path f =
     (let ty = to_upper (cfType f);
          action = \<lparr> paCallType = [], paFrom = cfFrom f, paTo = [], paValue = cfValue f, paAddress = [],
                     paRefundAddress = [], paBalance = [] \<rparr>;
          mk = (\<lambda>kind act res. \<lparr> ptType = kind, ptAction = act, ptResult = res, ptError = cfError f,
                  ptTraceAddress = path, ptTxHash = tx \<rparr>) in
      if ty = ''CALL'' then mk ''call'' (action\<lparr> paCallType := ''call'', paTo := cfTo f \<rparr>) None
      else if ty = ''CREATE'' \<or> ty = ''CREATE2'' then mk ''create'' action (Some (cfTo f))
      else if ty = ''SELFDESTRUCT'' \<or> ty = ''SUICIDE'' then
        mk ''suicide'' (action\<lparr> paAddress := cfFrom f, paRefundAddress := cfTo f, paBalance := cfValue f,
          paFrom := [], paValue := [] \<rparr>) None
      else mk ''call'' (action\<lparr> paCallType := (if ty = ''STATICCALL'' then ''staticcall''
             else if ty = ''CALLCODE'' then ''callcode'' else ''delegatecall''), paTo := cfTo f \<rparr>) None)"

fun flat_from :: "string \<Rightarrow> int list \<Rightarrow> nat \<Rightarrow> call_frame list \<Rightarrow> parity_trace list" where
  "flat_from tx pre i [] = []"
| "flat_from tx pre i (CallFrame ty fr to v er calls # frames) =
     parity_of tx (pre @ [int i]) (CallFrame ty fr to v er calls)
       # flat_from tx (pre @ [int i]) 0 calls @ flat_from tx pre (Suc i) frames"

text \<open>The formats name the kinds of call differently.\<close>

definition norm_kind :: "internal_transfer \<Rightarrow> internal_transfer" where
  "norm_kind it = it\<lparr> itCallType := (if itContractCreation it then ''create''
     else if itCallType it = ''suicide'' then ''selfdestruct'' else itCallType it) \<rparr>"

definition succ :: "'e + 'a \<Rightarrow> 'a option" where
  "succ r = (case r of Inl _ \<Rightarrow> None | Inr x \<Rightarrow> Some x)"

lemma succ_simps [simp]: "succ (Inl e) = None" "succ (Inr x) = Some x"
  by (simp_all add: succ_def)

definition append_opt :: "'a list option \<Rightarrow> 'a list option \<Rightarrow> 'a list option" where
  "append_opt a b = Option.bind a (\<lambda>x. Option.bind b (\<lambda>y. Some (x @ y)))"

lemma append_opt_simps [simp]: "append_opt None b = None" "append_opt (Some x) (Some y) = Some (x @ y)"
    "append_opt (Some []) b = b" "append_opt a (Some []) = a" "append_opt (Some x) None = None"
  by (cases a; cases b; simp add: append_opt_def)+

lemma append_opt_assoc: "append_opt (append_opt a b) c = append_opt a (append_opt b c)"
  by (cases a; cases b; cases c) simp_all

lemma succ_walk_Cons:
  "succ (walk_from tx pre i (f # fs)) =
     (if cfError f \<noteq> [] then succ (walk_from tx pre (Suc i) fs)
      else append_opt (succ (frame_transfer tx (pre @ [int i]) f))
        (append_opt (succ (walk_from tx (pre @ [int i]) 0 (cfCalls f))) (succ (walk_from tx pre (Suc i) fs))))"
  by (cases f) (auto simp: Let_def split: sum.splits)

definition kept :: "int list list \<Rightarrow> parity_trace \<Rightarrow> bool" where
  "kept E t \<longleftrightarrow> ptTraceAddress t \<noteq> [] \<and> ptError t = [] \<and> \<not> hasErroredAncestor (ptTraceAddress t) E"

lemma succ_parse_Cons:
  "succ (parse_parity E (t # ts)) =
     (if kept E t then append_opt (map_option (\<lambda>it. case it of Some x \<Rightarrow> [x] | None \<Rightarrow> []) (succ (parityToInternal t)))
        (succ (parse_parity E ts)) else succ (parse_parity E ts))"
  by (auto simp: kept_def split: sum.splits option.splits)

lemma succ_parse_append:
  "succ (parse_parity E (ts @ us)) = append_opt (succ (parse_parity E ts)) (succ (parse_parity E us))"
  by (induction ts) (simp_all add: succ_parse_Cons append_opt_assoc del: parse_parity.simps(2))

lemma parse_pruned: "\<forall>t \<in> set ts. \<not> kept E t \<Longrightarrow> parse_parity E ts = Inr []"
  by (induction ts) (auto simp: kept_def)

lemma lower_upper_char: "lower_char (upper_char c) = lower_char c"
  by (simp add: code_of_inject [symmetric] code_of_lower_char) (auto simp: upper_char_def code_of_def)

lemma to_lower_upper: "to_lower (to_upper s) = to_lower s"
  by (simp add: to_lower_def to_upper_def lower_upper_char)

lemma to_lower_of: "to_upper s = t \<Longrightarrow> to_lower s = to_lower t"
  using to_lower_upper by metis

lemma to_lower_lit [simp]: "to_lower ''CALL'' = ''call''" "to_lower ''CREATE'' = ''create''"
    "to_lower ''CREATE2'' = ''create2''" "to_lower ''SELFDESTRUCT'' = ''selfdestruct''"
    "to_lower ''SUICIDE'' = ''suicide''"
  by (simp_all add: to_lower_def lower_char_def code_of_def of_char_def char_of_def bit_0)

lemma parseHexValue_frame: "succ (parseHexValue (cfValue f)) = succ (frame_ValueBig f)"
  by (simp add: parseHexValue_def frame_ValueBig_def hexBig_def split: option.split)

lemma parity_of_frame:
  "map_option (\<lambda>it. case it of Some x \<Rightarrow> [x] | None \<Rightarrow> []) (succ (parityToInternal (parity_of tx path f)))
     = map_option (map norm_kind) (succ (frame_transfer tx path f))"
proof -
  consider "to_upper (cfType f) = ''CALL''" | "to_upper (cfType f) = ''CREATE'' \<or> to_upper (cfType f) = ''CREATE2''"
    | "to_upper (cfType f) = ''SELFDESTRUCT'' \<or> to_upper (cfType f) = ''SUICIDE''"
    | "to_upper (cfType f) \<notin> {''CALL'', ''CREATE'', ''CREATE2'', ''SELFDESTRUCT'', ''SUICIDE''}" by blast
  then show ?thesis
  proof cases
    case 4
    then show ?thesis
      by (auto simp: parity_of_def parityToInternal_def frame_transfer_def isValueMovingCall_def Let_def)
  next
    case 1
    then show ?thesis using parseHexValue_frame [of f] to_lower_of [OF 1]
      by (auto simp: parity_of_def parityToInternal_def frame_transfer_def isValueMovingCall_def Let_def
          transfer_of_def norm_kind_def isCreate_def succ_def split: sum.splits)
  next
    case 2
    then show ?thesis using parseHexValue_frame [of f]
      by (auto simp: parity_of_def parityToInternal_def frame_transfer_def isValueMovingCall_def Let_def
          transfer_of_def norm_kind_def isCreate_def succ_def split: sum.splits)
  next
    case 3
    then have "to_lower (cfType f) = ''selfdestruct'' \<or> to_lower (cfType f) = ''suicide''"
      using to_lower_of [of "cfType f"] by auto
    with 3 show ?thesis using parseHexValue_frame [of f]
      by (auto simp: parity_of_def parityToInternal_def frame_transfer_def isValueMovingCall_def Let_def
          transfer_of_def norm_kind_def isCreate_def succ_def split: sum.splits)
  qed
qed

lemma parity_of_simps [simp]:
  "ptTraceAddress (parity_of tx path f) = path" "ptError (parity_of tx path f) = cfError f"
  by (simp_all add: parity_of_def Let_def)

lemma flat_under:
  "t \<in> set (flat_from tx pre i frames) \<Longrightarrow> \<exists>j q. i \<le> j \<and> ptTraceAddress t = pre @ int j # q"
proof (induction tx pre i frames rule: flat_from.induct)
  case (2 tx pre i ty fr to v er calls frames)
  from "2.prems" consider "t = parity_of tx (pre @ [int i]) (CallFrame ty fr to v er calls)"
    | "t \<in> set (flat_from tx (pre @ [int i]) 0 calls)" | "t \<in> set (flat_from tx pre (Suc i) frames)" by auto
  then show ?case
  proof cases
    case 1
    then have "ptTraceAddress t = pre @ int i # []" by simp
    then show ?thesis by blast
  next
    case 2
    from "2.IH"(1) [OF this] obtain j q where "ptTraceAddress t = pre @ int i # int j # q" by auto
    then show ?thesis by blast
  next
    case 3
    from "2.IH"(2) [OF this] show ?thesis by (meson Suc_leD)
  qed
qed simp

lemma ancestor_iff: "hasErroredAncestor p E \<longleftrightarrow> (\<exists>e \<in> set E. strict_prefix e p)"
  unfolding hasErroredAncestor_def list_ex_iff
  by (metis append_eq_conv_conj append_take_drop_id prefix_def strict_prefix_def take_all_iff
      leI length_append linorder_not_less prefix_length_less prefix_length_le)

text \<open>The errored paths of a list agree with those of a level on the level's own paths, and no
path above the level is errored.\<close>

definition level_errors :: "int list list \<Rightarrow> int list \<Rightarrow> nat \<Rightarrow> parity_trace list \<Rightarrow> bool" where
  "level_errors E pre i ts \<longleftrightarrow>
     (\<forall>j q. i \<le> j \<longrightarrow> (pre @ int j # q \<in> set E \<longleftrightarrow> pre @ int j # q \<in> set (errored_paths ts)))
     \<and> (\<forall>e \<in> set E. \<not> Sublist.prefix e pre)"

lemma errored_Cons:
  "errored_paths (t # ts) = (if ptError t = [] then errored_paths ts else ptTraceAddress t # errored_paths ts)"
  by (simp add: errored_paths_def)

lemma errored_append: "errored_paths (ts @ us) = errored_paths ts @ errored_paths us"
  by (simp add: errored_paths_def)

lemma errored_under:
  "p \<in> set (errored_paths (flat_from tx pre i frames)) \<Longrightarrow> \<exists>j q. i \<le> j \<and> p = pre @ int j # q"
  using flat_under by (fastforce simp: errored_paths_def)

lemma flat_walk:
  "level_errors E pre i (flat_from tx pre i frames) \<Longrightarrow>
     succ (parse_parity E (flat_from tx pre i frames)) = map_option (map norm_kind) (succ (walk_from tx pre i frames))"
proof (induction tx pre i frames rule: flat_from.induct)
  case (2 tx pre i ty fr to v er calls frames)
  let ?f = "CallFrame ty fr to v er calls"
  let ?path = "pre @ [int i]"
  let ?sub = "flat_from tx ?path 0 calls" and ?after = "flat_from tx pre (Suc i) frames"
  have own: "?path @ q \<in> set E \<longleftrightarrow> er \<noteq> [] \<and> q = [] \<or> ?path @ q \<in> set (errored_paths ?sub)" for q
  proof -
    have "?path @ q \<notin> set (errored_paths ?after)"
      using errored_under [of "?path @ q" tx pre "Suc i" frames] by auto
    moreover have "?path @ q = pre @ int i # q" by simp
    ultimately show ?thesis using "2.prems"
      unfolding level_errors_def by (auto simp: errored_Cons errored_append)
  qed
  have after: "level_errors E pre (Suc i) ?after"
  proof -
    have "pre @ int j # q \<notin> set (errored_paths ?sub)" if "Suc i \<le> j" for j q
      using errored_under [of "pre @ int j # q" tx ?path 0 calls] that by auto
    then show ?thesis using "2.prems"
      unfolding level_errors_def by (auto simp: errored_Cons errored_append)
  qed
  note rest = "2.IH"(2) [OF after]
  show ?case
  proof (cases "er = []")
    case False
    then have "?path \<in> set E" using own [of "[]"] by simp
    then have "\<not> kept E t" if "t \<in> set ?sub" for t
      using flat_under [OF that] unfolding kept_def ancestor_iff by (force simp: strict_prefix_def)
    then have "parse_parity E ?sub = Inr []" by (intro parse_pruned) blast
    moreover have "\<not> kept E (parity_of tx ?path ?f)" using False by (simp add: kept_def)
    ultimately show ?thesis using rest False
      by (simp add: succ_parse_Cons succ_parse_append del: parse_parity.simps(2))
  next
    case True
    have no: "\<not> Sublist.prefix e ?path" if "e \<in> set E" for e
    proof
      assume "Sublist.prefix e ?path"
      then have "Sublist.prefix e pre \<or> e = ?path" by (simp add: prefix_snoc) blast
      moreover have "?path \<notin> set E"
      proof -
        have "[int j'] @ q' \<noteq> []" for j' q' by simp
        then have "?path \<notin> set (errored_paths ?sub)"
          using errored_under [of ?path tx ?path 0 calls] by auto
        then show ?thesis using own [of "[]"] True by simp
      qed
      ultimately show False using that "2.prems" by (auto simp: level_errors_def)
    qed
    have "level_errors E ?path 0 ?sub"
      unfolding level_errors_def using own True no by auto
    note sub = "2.IH"(1) [OF this]
    have "kept E (parity_of tx ?path ?f)"
      using True no by (auto simp: kept_def ancestor_iff strict_prefix_def)
    then show ?thesis using rest sub True parity_of_frame [of tx ?path ?f]
      by (simp add: succ_parse_Cons succ_parse_append succ_walk_Cons del: parse_parity.simps(2) walk_from.simps(2))
        (cases "succ (frame_transfer tx ?path ?f)"; cases "succ (walk_from tx ?path 0 calls)";
         cases "succ (walk_from tx pre (Suc i) frames)"; simp)
  qed
qed simp

lemma root_errored: "[] \<in> set E \<Longrightarrow> \<not> kept E t"
  unfolding kept_def ancestor_iff by (metis Nil_prefix strict_prefixI)

section \<open>The retry loop\<close>

lemma settled_backend [simp]: "settled sTraceBackend"
  by (simp add: settled_def)

lemma perTxTraces_io: "settled f \<Longrightarrow> state_io_rel (frame f no_emit) (perTxTraces W txs)"
  by (induction txs) (auto intro!: fr_intros split: option.split simp: no_emit_def)

lemma backends_io:
  "settled f \<Longrightarrow> state_io_rel (frame f no_emit) (blockLevelTraces W n)"
  "settled f \<Longrightarrow> state_io_rel (frame f no_emit) (parityTraces W n)"
  unfolding blockLevelTraces_def parityTraces_def
  by (intro fr_intros; simp add: no_emit_def)+

lemma try_backends_err:
  assumes "\<forall>(b, m) \<in> set cs. state_io_rel (frame sTraceBackend no_emit) m"
    and "run_state (try_backends W cs hasTxs) s = (Inl e, s')"
  shows "sTraceBackend s' = sTraceBackend s"
  using assms
proof (induction cs arbitrary: s)
  case Nil
  then show ?case by (auto simp: run_simps set_backend_def split: if_splits)
next
  case (Cons c cs)
  obtain b m where c: "c = (b, m)" by (cases c)
  obtain r s1 where m: "run_state m s = (r, s1)" by (cases "run_state m s")
  have b1: "sTraceBackend s1 = sTraceBackend s"
    using frameD [OF _ m] Cons.prems(1) c by (metis case_prodD list.set_intros(1))
  from Cons.prems(2) c m obtain e1 where e1: "r = Inl e1"
    by (cases r) (auto simp: run_simps set_backend_def)
  have "s' = s1 \<or> run_state (try_backends W cs hasTxs) s1 = (Inl e, s')"
    using Cons.prems(2) c m e1 by (auto simp: run_simps split: if_splits)
  then show ?case using Cons.IH [of s1] Cons.prems(1) b1 by auto
qed

lemma selectBackend_err:
  "run_state (selectBackend W blk n) s = (Inl e, s') \<Longrightarrow> sTraceBackend s' = sTraceBackend s"
  unfolding selectBackend_def Let_def
  by (erule try_backends_err [rotated]) (auto intro: backends_io perTxTraces_io)

lemma trace_loop_result:
  assumes "run_state (trace_loop fuel W blk n attempt) s = (r, s')"
    and "fuel + attempt = 6" and "attempt \<le> 5" and "attempt = 5 \<longrightarrow> sTraceBackend s = BackendUnknown"
  shows "(\<exists>xs. r = Inr xs) \<or> r = Inl CtxDone"
  using assms
proof (induction fuel arbitrary: attempt s)
  case (Suc fuel)
  obtain r1 s1 where f: "run_state (fetchTraces W blk n) s = (r1, s1)" by (cases "run_state (fetchTraces W blk n) s")
  show ?case
  proof (cases r1)
    case (Inr xs)
    with f Suc.prems(1) show ?thesis by auto
  next
    case (Inl e)
    have unk: "sTraceBackend s1 = BackendUnknown" if "attempt = 5"
      using that Suc.prems(4) f Inl selectBackend_err by (auto simp: fetchTraces_def)
    show ?thesis
    proof (cases "wCancelled W (history s1)")
      case True
      with f Inl Suc.prems(1) show ?thesis by (simp add: run_cancelled)
    next
      case False
      let ?reset = "sTraceBackend s1 \<noteq> BackendUnknown \<and> sTraceBackend s1 \<noteq> BackendDisabled \<and> capability_gap e"
      show ?thesis
      proof (cases ?reset)
        case True
        then have "attempt \<le> 4" using unk Suc.prems(3) by (cases "attempt = 5") auto
        moreover have "run_state (trace_loop fuel W blk n (attempt + 1)) (s1\<lparr> sTraceBackend := BackendUnknown \<rparr>) = (r, s')"
          using True False f Inl Suc.prems(1) by (simp add: run_simps set_backend_def)
        ultimately show ?thesis using Suc.prems(2) by (intro Suc.IH) auto
      next
        case noreset: False
        show ?thesis
        proof (cases "attempt \<ge> 4")
          case True
          with noreset False f Inl Suc.prems(1) show ?thesis by (auto simp: run_simps maxTraceAttempts_def)
        next
          case small: False
          let ?s2 = "add_history s1 [Slept (wSleep W (history s1))]"
          have "r = Inl CtxDone \<or> run_state (trace_loop fuel W blk n (attempt + 1)) ?s2 = (r, s')"
            using noreset False small f Inl Suc.prems(1)
            by (auto simp: run_simps maxTraceAttempts_def split: if_splits)
          then show ?thesis
          proof
            assume "run_state (trace_loop fuel W blk n (attempt + 1)) ?s2 = (r, s')"
            then show ?thesis using Suc.prems(2) small by (intro Suc.IH [of "attempt + 1" ?s2]) auto
          qed simp
        qed
      qed
    qed
  qed
qed simp

section \<open>Properties\<close>

text \<open>
C23: The walk of a call tree reports exactly the surviving value moves: a transfer is reported if
and only if it is that of a CALL, CREATE, CREATE2 or SELFDESTRUCT frame (the code leaves CALLCODE
out) with a positive value which survived together with every frame above it, at its call path; and
no two transfers of a transaction share a path, so the path identifies the record.
\<close>
theorem walk_reports_surviving_transfers:
  assumes "walkCallFrames tx frames = Inr out"
  shows "(\<forall>it. it \<in> set out \<longleftrightarrow> (\<exists>p f v. frame_at frames p = Some f \<and> isValueMovingCall (cfType f)
      \<and> frame_ValueBig f = Inr v \<and> v > 0 \<and> it = transfer_of tx (map int p) f v))
    \<and> distinct (map itTraceAddress out)"
proof
  have sh: "shifted 0 p = p" for p by (cases p) (simp_all add: shifted_def)
  show "\<forall>it. it \<in> set out \<longleftrightarrow> (\<exists>p f v. frame_at frames p = Some f \<and> isValueMovingCall (cfType f)
      \<and> frame_ValueBig f = Inr v \<and> v > 0 \<and> it = transfer_of tx (map int p) f v)"
    using walk_from_set [OF assms [unfolded walkCallFrames_def]]
    by (auto simp: walked_def moves_value_def sh)
  show "distinct (map itTraceAddress out)"
    using walk_from_distinct assms unfolding walkCallFrames_def by blast
qed

definition swap_frames :: "call_frame list" where
  "swap_frames = [CallFrame ''CALL'' ''a'' ''b'' ''0x5'' [] [CallFrame ''CALL'' ''b'' ''c'' ''0x2'' [] []],
     CallFrame ''CALL'' ''a'' ''d'' ''0x7'' ''reverted'' [CallFrame ''CALL'' ''d'' ''e'' ''0x7'' [] []]]"

lemma to_upper_CALL [simp]: "to_upper ''CALL'' = ''CALL''"
  by (simp add: to_upper_def upper_char_def code_of_def of_char_def)

lemma hexBig_small [simp]: "hexBig ''0x5'' = Inr 5" "hexBig ''0x2'' = Inr 2" "hexBig ''0x7'' = Inr 7"
  by (simp_all add: hexBig_def trim_0x_def trim_prefix_def has_prefix_def set_string_def digit_val_def
      code_of_def of_char_def)

lemma walk_swap: "walkCallFrames ''0xt'' swap_frames = Inr
   [transfer_of ''0xt'' [0] (hd swap_frames) 5, transfer_of ''0xt'' [0, 0] (hd (cfCalls (hd swap_frames))) 2]"
  by (simp add: walkCallFrames_def swap_frames_def frame_transfer_def isValueMovingCall_def frame_ValueBig_def Let_def)

lemma walk_reports_surviving_transfers_witness:
  "\<exists>out. walkCallFrames ''0xt'' swap_frames = Inr out \<and> distinct (map itTraceAddress out)
     \<and> transfer_of ''0xt'' [0, 0] (CallFrame ''CALL'' ''b'' ''c'' ''0x2'' [] []) 2 \<in> set out
     \<and> (\<forall>it \<in> set out. itTraceAddress it \<noteq> [1, 0])"
proof -
  let ?f = "CallFrame ''CALL'' ''b'' ''c'' ''0x2'' [] []"
  let ?out = "[transfer_of ''0xt'' [0] (hd swap_frames) 5, transfer_of ''0xt'' [0, 0] (hd (cfCalls (hd swap_frames))) 2]"
  note facts = walk_reports_surviving_transfers [OF walk_swap]
  have "\<exists>p f v. frame_at swap_frames p = Some f \<and> isValueMovingCall (cfType f) \<and> frame_ValueBig f = Inr v \<and> v > 0
      \<and> transfer_of ''0xt'' [0, 0] ?f 2 = transfer_of ''0xt'' (map int p) f v"
    by (intro exI [of _ "[0, 0]"] exI [of _ ?f] exI [of _ 2])
      (simp add: swap_frames_def isValueMovingCall_def frame_ValueBig_def)
  with facts [THEN conjunct1, THEN spec, of "transfer_of ''0xt'' [0, 0] ?f 2"]
  have "transfer_of ''0xt'' [0, 0] ?f 2 \<in> set ?out" by (rule iffD2)
  moreover have "\<forall>it \<in> set ?out. itTraceAddress it \<noteq> [1, 0]" by (simp add: transfer_of_def)
  ultimately show ?thesis using walk_swap facts [THEN conjunct2] by (intro exI [of _ ?out] conjI)
qed

text \<open>
C24: The two trace backends agree on one transaction: parsing the flat listing of a call tree,
root included, reports the same transfers in the same order as walking the tree (the kinds named
as the flat format names them), and fails exactly when the walk fails; a reverted transaction
yields none with either.
\<close>
theorem trace_backends_agree:
  "succ (parseParityTraces (parity_of tx [] root # flat_from tx [] 0 (cfCalls root)))
     = map_option (map norm_kind) (succ (walk_traces [\<lparr> ttTxHash = tx, ttResult = Some root \<rparr>]))"
proof (cases "cfError root = []")
  case True
  let ?flat = "flat_from tx [] 0 (cfCalls root)"
  have E: "errored_paths (parity_of tx [] root # ?flat) = errored_paths ?flat"
    using True by (simp add: errored_Cons)
  have "\<forall>e \<in> set (errored_paths ?flat). e \<noteq> []" using errored_under by fastforce
  then have "level_errors (errored_paths ?flat) [] 0 ?flat"
    by (auto simp: level_errors_def)
  from flat_walk [OF this] show ?thesis using True
    by (simp add: parseParityTraces_def E walkCallFrames_def split: sum.splits)
next
  case False
  let ?ts = "parity_of tx [] root # flat_from tx [] 0 (cfCalls root)"
  have "[] \<in> set (errored_paths ?ts)" using False by (simp add: errored_Cons)
  then have "\<forall>t \<in> set ?ts. \<not> kept (errored_paths ?ts) t"
    by (simp add: root_errored)
  then have "parseParityTraces ?ts = Inr []" unfolding parseParityTraces_def by (rule parse_pruned)
  then show ?thesis using False by simp
qed

text \<open>
In a block, the flat parser does not keep transactions apart: one reverted transaction, whose
root entry carries the error at the empty path, prunes the entries of every other transaction,
so no internal transfer of the block is reported at all.
\<close>
theorem parity_reverted_tx_hides_block:
  assumes "t \<in> set traces" and "ptTraceAddress t = []" and "ptError t \<noteq> []"
  shows "parseParityTraces traces = Inr []"
proof -
  have "[] \<in> set (errored_paths traces)" using assms by (force simp: errored_paths_def)
  then have "\<forall>u \<in> set traces. \<not> kept (errored_paths traces) u"
    by (simp add: root_errored)
  then show ?thesis unfolding parseParityTraces_def by (rule parse_pruned)
qed

lemma parity_reverted_tx_hides_block_witness:
  "parseParityTraces (parity_of ''0xr'' [] (CallFrame ''CALL'' ''a'' ''b'' ''0x5'' ''Reverted'' [])
      # parity_of ''0xt'' [] (CallFrame ''CALL'' ''a'' ''b'' ''0x5'' [] swap_frames)
      # flat_from ''0xt'' [] 0 swap_frames) = Inr []
   \<and> walk_traces [\<lparr> ttTxHash = ''0xr'', ttResult = Some (CallFrame ''CALL'' ''a'' ''b'' ''0x5'' ''Reverted'' []) \<rparr>,
        \<lparr> ttTxHash = ''0xt'', ttResult = Some (CallFrame ''CALL'' ''a'' ''b'' ''0x5'' [] swap_frames) \<rparr>] \<noteq> Inr []"
proof
  show "parseParityTraces (parity_of ''0xr'' [] (CallFrame ''CALL'' ''a'' ''b'' ''0x5'' ''Reverted'' [])
      # parity_of ''0xt'' [] (CallFrame ''CALL'' ''a'' ''b'' ''0x5'' [] swap_frames)
      # flat_from ''0xt'' [] 0 swap_frames) = Inr []"
    by (rule parity_reverted_tx_hides_block [OF list.set_intros(1)]) simp_all
qed (simp add: walk_swap)


text \<open>
C25: Tracing never stalls or fails the stream: for every node behaviour the bounded retry of a block
ends, and it either yields transfers (none when the block is skipped) or reports that the
context was cancelled; the five turns of the loop always suffice.
\<close>
theorem trace_retry_bounded:
  assumes "run_state (traceBlockInternal W blk n) s = (r, s')"
  shows "(\<exists>xs. r = Inr xs) \<or> r = Inl CtxDone"
  using assms unfolding traceBlockInternal_def maxTraceAttempts_def
  by (rule trace_loop_result) simp_all

lemma trace_retry_bounded_witness:
  "\<exists>r s'. run_state (traceBlockInternal quiet_world \<lparr> bNumber = ''0x1'', bHash = ''0xb'', bParentHash = ''0xa'',
      bTimestamp = ''0x0'', bTransactions = [] \<rparr> 1) idle_stream = (r, s')
    \<and> ((\<exists>xs. r = Inr xs) \<or> r = Inl CtxDone)"
  using trace_retry_bounded by (metis surj_pair)

end
