(* ===== verification/Native.thy ===== *)
theory Native
  imports Traces "HOL-Library.Multiset"
begin

text \<open>
  Native transfers (\<^verbatim>\<open>internal/stream/native.go\<close> and \<open>processNative\<close>, \<open>emitNative\<close> of
  \<^verbatim>\<open>stream.go\<close>): the candidates of a block, the concurrent receipt fetch and the emission in
  block order. The goroutines of one block run in an order the world picks; one that starts
  after a cancellation returns at once without an error, as the source has it.
\<close>

section \<open>Candidates\<close>

definition toLowerSet :: "string list \<Rightarrow> string list" where
  "toLowerSet xs = map to_lower xs"

record native_config =
  ncEnabled :: bool
  ncIncludeInternal :: bool
  ncFrom :: "string list"
  ncTo :: "string list"

definition NativeFilterFromConfig :: "native_config \<Rightarrow> native_filter" where
  "NativeFilterFromConfig c =
     \<lparr> nfEnabled = ncEnabled c, nfIncludeInternal = ncIncludeInternal c,
       nfFrom = (if length (ncFrom c) > 0 then Some (toLowerSet (ncFrom c)) else None),
       nfTo = (if length (ncTo c) > 0 then Some (toLowerSet (ncTo c)) else None) \<rparr>"

record native_transfer =
  ntxTx :: transaction
  ntxValueWei :: int
  ntxContractCreation :: bool

fun native_candidates :: "native_filter \<Rightarrow> transaction list \<Rightarrow> rpc_error + native_transfer list" where
  "native_candidates f [] = Inr []"
| "native_candidates f (tx # txs) =
     (case ValueBig tx of
        Inl e \<Rightarrow> Inl e
      | Inr val \<Rightarrow>
          (case native_candidates f txs of
             Inl e \<Rightarrow> Inl e
           | Inr cands \<Rightarrow>
               if val = 0 then Inr cands
               else if \<not> filter_matches f (txFrom tx) (txTo tx) then Inr cands
               else Inr (\<lparr> ntxTx = tx, ntxValueWei = val, ntxContractCreation = (txTo tx = []) \<rparr> # cands)))"

section \<open>Receipts\<close>

definition mark_succeeded :: "nat \<Rightarrow> receipt option \<Rightarrow> nat list \<Rightarrow> nat list" where
  "mark_succeeded i rcpt good =
     (case rcpt of Some x \<Rightarrow> if Succeeded x then i # good else good | None \<Rightarrow> good)"

text \<open>\<open>k\<close> goroutines are left, those of the indices \<open>todo\<close>; \<open>err\<close> is the first error and \<open>good\<close>
the indices whose receipt succeeded.\<close>

fun receipts_loop ::
  "nat \<Rightarrow> world \<Rightarrow> native_transfer list \<Rightarrow> nat list \<Rightarrow> rpc_error option \<Rightarrow> nat list
     \<Rightarrow> (stream, rpc_error option \<times> nat list) state" where
  "receipts_loop 0 W cands todo err good = State_Monad.return (err, good)"
| "receipts_loop (Suc k) W cands todo err good =
     do { h \<leftarrow> gets history;
          let i = todo ! (wPick W h mod length todo);
          if (wCancelled W h \<or> err \<noteq> None) \<and> \<not> wInFlight W h
          then receipts_loop k W cands (remove1 i todo) err good
          else do {
            r \<leftarrow> client_Receipt W (txHash (ntxTx (cands ! i)));
            (case r of
               Inl e \<Rightarrow> receipts_loop k W cands (remove1 i todo) (if err = None then Some e else err) good
             | Inr rcpt \<Rightarrow> receipts_loop k W cands (remove1 i todo) err
                 (mark_succeeded i rcpt good)) } }"

definition detectNativeTransfers :: "world \<Rightarrow> native_filter \<Rightarrow> block \<Rightarrow> native_transfer list sm" where
  "detectNativeTransfers W f blk =
     (if \<not> nfEnabled f then ok []
      else case native_candidates f (bTransactions blk) of
        Inl e \<Rightarrow> fail (RpcErr e)
      | Inr cands \<Rightarrow>
          if cands = [] then ok []
          else do {
            (err, good) \<leftarrow> receipts_loop (length cands) W cands [0..<length cands] None [];
            (case err of
               Some e \<Rightarrow> fail (RpcErr e)
             | None \<Rightarrow> ok (map ((!) cands) (filter (\<lambda>i. i \<in> set good) [0..<length cands]))) })"

section \<open>Emission\<close>

definition native_envelope :: "options \<Rightarrow> string \<Rightarrow> u64 \<Rightarrow> string \<Rightarrow> bool \<Rightarrow> native_transfer \<Rightarrow> envelope" where
  "native_envelope Op blkHash blkNum ts final t =
     zero_envelope\<lparr> eType := TypeNativeTransfer, eTool := ToolStream, eName := ''native'',
       eChain := oChainName Op, eChainID := oChainID Op, eBlockNumber := blkNum,
       eBlockHash := blkHash, eTxHash := txHash (ntxTx t), eTimestamp := ts, eFinalized := final,
       eData := DNative \<lparr> ntFrom = txFrom (ntxTx t),
         ntTo = (if ntxContractCreation t then [] else txTo (ntxTx t)),
         ntValueWei = show_int (ntxValueWei t), ntValue = weiToEther (ntxValueWei t),
         ntContractCreation = ntxContractCreation t \<rparr> \<rparr>"

definition emitNative :: "world \<Rightarrow> options \<Rightarrow> block \<Rightarrow> u64 \<Rightarrow> string \<Rightarrow> native_transfer \<Rightarrow> unit sm" where
  "emitNative W Op blk blkNum ts t =
     do { s \<leftarrow> gets id;
          check (emit W (native_envelope Op (bHash blk) blkNum ts (isFinalized s blkNum) t)) (\<lambda>_.
            do { metric IncNativeTransferRecord; metric (SetLastEmittedBlock blkNum); ok () }) }"

definition block_timestamp :: "block \<Rightarrow> string" where
  "block_timestamp blk = (case BlockTime (Some blk) of Some t \<Rightarrow> RFC3339 t | None \<Rightarrow> [])"

definition native_block :: "world \<Rightarrow> options \<Rightarrow> u64 \<Rightarrow> unit sm" where
  "native_block W Op n =
     check (lift_rpc (client_Block W n True)) (\<lambda>blk.
     check (pure_rpc (NumberUint blk)) (\<lambda>blkNum.
       (let ts = block_timestamp blk in
        do { f \<leftarrow> gets sNative;
             check (detectNativeTransfers W f blk) (\<lambda>transfers.
             check (for_each (emitNative W Op blk blkNum ts) transfers) (\<lambda>_.
               if nfIncludeInternal f then emitInternalTransfers W Op blk blkNum ts else ok ())) })))"

fun native_loop :: "nat \<Rightarrow> world \<Rightarrow> options \<Rightarrow> u64 \<Rightarrow> u64 \<Rightarrow> unit sm" where
  "native_loop 0 W Op n to = fail OutOfFuel"
| "native_loop (Suc fuel) W Op n to =
     (if n \<le> to then check (native_block W Op n) (\<lambda>_. native_loop fuel W Op (n + 1) to) else ok ())"

definition processNative :: "world \<Rightarrow> options \<Rightarrow> u64 \<Rightarrow> u64 \<Rightarrow> unit sm" where
  "processNative W Op from to = native_loop (wFuel W) W Op from to"

section \<open>Candidates and receipts\<close>

definition qualifies :: "native_filter \<Rightarrow> transaction \<Rightarrow> bool" where
  "qualifies f tx \<longleftrightarrow> (\<exists>v. ValueBig tx = Inr v \<and> v \<noteq> 0) \<and> filter_matches f (txFrom tx) (txTo tx)"

definition transfer_tx :: "transaction \<Rightarrow> native_transfer" where
  "transfer_tx tx = \<lparr> ntxTx = tx, ntxValueWei = (case ValueBig tx of Inr v \<Rightarrow> v | Inl _ \<Rightarrow> 0),
     ntxContractCreation = (txTo tx = []) \<rparr>"

lemma native_candidates_eq:
  "native_candidates f txs = Inr cands \<Longrightarrow> cands = map transfer_tx (filter (qualifies f) txs)"
proof (induction txs arbitrary: cands)
  case (Cons tx txs)
  then obtain v cs where v: "ValueBig tx = Inr v" and cs: "native_candidates f txs = Inr cs"
    by (auto split: sum.splits)
  with Cons show ?case by (auto simp: qualifies_def transfer_tx_def split: if_splits)
qed simp

lemma receipts_loop_err: "run_state (receipts_loop k W cands todo (Some e) good) s = ((err, g), s') \<Longrightarrow> err = Some e"
proof (induction k arbitrary: todo good s)
  case (Suc k)
  then show ?case
    by (auto simp: run_simps client_Receipt_def Let_def split: if_splits sum.splits option.splits)
qed simp

lemma mset_map_remove1: "i \<in> set xs \<Longrightarrow> mset (map F xs) = add_mset (F i) (mset (map F (remove1 i xs)))"
  by (induction xs) auto

text \<open>Without a cancellation every candidate's receipt is fetched exactly once, in some order.\<close>

lemma receipts_loop_spec:
  assumes "run_state (receipts_loop k W cands todo None good) s = ((None, good'), s')"
    and "length todo = k" and "distinct todo" and "\<forall>h. \<not> wCancelled W h"
  shows "\<exists>h rc. history s' = history s @ h
    \<and> mset h = mset (map (\<lambda>i. CallReceipt (txHash (ntxTx (cands ! i))) (Inr (rc i))) todo)
    \<and> set good' = set good \<union> {i \<in> set todo. \<exists>x. rc i = Some x \<and> Succeeded x}"
  using assms(1-3)
proof (induction k arbitrary: todo good s)
  case 0
  then show ?case by (intro exI [of _ "[]"]) auto
next
  case (Suc k)
  define i where "i = todo ! (wPick W (history s) mod length todo)"
  have ne: "todo \<noteq> []" using Suc.prems(2) by auto
  then have i: "i \<in> set todo" by (simp add: i_def)
  let ?tx = "txHash (ntxTx (cands ! i))"
  define r where "r = wReceipt W (history s) ?tx"
  let ?s1 = "add_history s [CallReceipt ?tx r]"
  have run: "run_state (case r of
               Inl e \<Rightarrow> receipts_loop k W cands (remove1 i todo) (Some e) good
             | Inr rcpt \<Rightarrow> receipts_loop k W cands (remove1 i todo) None
                 (mark_succeeded i rcpt good)) ?s1
       = ((None, good'), s')"
    using Suc.prems(1) assms(4)
    by (simp add: Let_def run_simps client_Receipt_def i_def r_def split: sum.splits)
  show ?case
  proof (cases r)
    case (Inl e)
    with run receipts_loop_err show ?thesis by fastforce
  next
    case (Inr rcpt)
    define g1 where "g1 = mark_succeeded i rcpt good"
    have run1: "run_state (receipts_loop k W cands (remove1 i todo) None g1) ?s1 = ((None, good'), s')"
      using run Inr by (simp add: g1_def)
    have len: "length (remove1 i todo) = k" and dis: "distinct (remove1 i todo)"
      using Suc.prems i by (auto simp: length_remove1)
    from Suc.IH [OF run1 len dis] obtain h rc where h: "history s' = history ?s1 @ h" and
      m: "mset h = mset (map (\<lambda>i. CallReceipt (txHash (ntxTx (cands ! i))) (Inr (rc i))) (remove1 i todo))" and
      g: "set good' = set g1 \<union> {j \<in> set (remove1 i todo). \<exists>x. rc j = Some x \<and> Succeeded x}"
      by blast
    let ?rc = "rc(i := rcpt)"
    let ?call = "\<lambda>rc i. CallReceipt (txHash (ntxTx (cands ! i))) (Inr (rc i))"
    have same: "map (?call ?rc) (remove1 i todo) = map (?call rc) (remove1 i todo)"
      using Suc.prems(3) by (intro map_cong) (auto simp: set_remove1_eq)
    have all: "mset (map (?call ?rc) todo) = add_mset (?call ?rc i) (mset (map (?call ?rc) (remove1 i todo)))"
      using i by (rule mset_map_remove1)
    have "mset (CallReceipt ?tx r # h) = mset (map (?call ?rc) todo)"
      unfolding all same m [symmetric] by (simp add: Inr)
    moreover have "set good' = set good \<union> {j \<in> set todo. \<exists>x. ?rc j = Some x \<and> Succeeded x}"
      using g i Suc.prems(3) by (auto simp: g1_def mark_succeeded_def set_remove1_eq split: option.splits if_splits)
    ultimately show ?thesis using h
      by (intro exI [of _ "CallReceipt ?tx r # h"] exI [of _ ?rc]) simp
  qed
qed

section \<open>Properties\<close>

text \<open>
C22: Native transfers are exact whatever the scheduling: on success the transfers of a block are
those of its value-bearing, allowlisted transactions whose receipt says success, in block
order, and the receipt of every such transaction was fetched exactly once - for every order in
which the goroutines run, as long as the context is not cancelled.
\<close>
theorem native_transfers_exact:
  assumes "run_state (detectNativeTransfers W f blk) s = (Inr out, s')"
    and "nfEnabled f" and "\<forall>h. \<not> wCancelled W h"
  shows "\<exists>h rc. history s' = history s @ h
    \<and> (let txs = filter (qualifies f) (bTransactions blk) in
       mset h = mset (map (\<lambda>i. CallReceipt (txHash (txs ! i)) (Inr (rc i))) [0..<length txs])
       \<and> out = map (\<lambda>i. transfer_tx (txs ! i))
                 (filter (\<lambda>i. \<exists>x. rc i = Some x \<and> Succeeded x) [0..<length txs]))"
proof -
  let ?txs = "filter (qualifies f) (bTransactions blk)"
  from assms(1,2) obtain cands where c: "native_candidates f (bTransactions blk) = Inr cands"
    by (cases "native_candidates f (bTransactions blk)") (simp_all add: detectNativeTransfers_def)
  then have cands: "cands = map transfer_tx ?txs" by (rule native_candidates_eq)
  show ?thesis
  proof (cases "cands = []")
    case True
    with assms(1,2) c have "out = []" "s' = s" by (simp_all add: detectNativeTransfers_def)
    moreover have "?txs = []" using True cands by simp
    ultimately show ?thesis by (intro exI [of _ "[]"]) (simp add: Let_def)
  next
    case False
    with assms(1,2) c obtain err good where
      run: "run_state (receipts_loop (length cands) W cands [0..<length cands] None []) s = ((err, good), s')"
      and res: "Inr out = (case err of Some e \<Rightarrow> Inl (RpcErr e)
         | None \<Rightarrow> Inr (map ((!) cands) (filter (\<lambda>i. i \<in> set good) [0..<length cands])))"
      by (auto simp: detectNativeTransfers_def split: prod.splits option.splits)
    from res have none: "err = None"
      and out: "out = map ((!) cands) (filter (\<lambda>i. i \<in> set good) [0..<length cands])"
      by (auto split: option.splits)
    from receipts_loop_spec [OF run [unfolded none] _ _ assms(3)] obtain h rc where
      h: "history s' = history s @ h" and
      m: "mset h = mset (map (\<lambda>i. CallReceipt (txHash (ntxTx (cands ! i))) (Inr (rc i))) [0..<length cands])" and
      g: "set good = {i \<in> set [0..<length cands]. \<exists>x. rc i = Some x \<and> Succeeded x}" by auto
    have len: "length cands = length ?txs" by (simp add: cands)
    have nth: "cands ! i = transfer_tx (?txs ! i)" if "i \<in> set [0..<length ?txs]" for i
      using that by (simp add: cands)
    have calls: "map (\<lambda>i. CallReceipt (txHash (ntxTx (cands ! i))) (Inr (rc i))) [0..<length cands]
        = map (\<lambda>i. CallReceipt (txHash (?txs ! i)) (Inr (rc i))) [0..<length ?txs]"
      unfolding len by (rule map_cong) (use nth in \<open>simp_all add: transfer_tx_def\<close>)
    have keep: "filter (\<lambda>i. i \<in> set good) [0..<length cands]
        = filter (\<lambda>i. \<exists>x. rc i = Some x \<and> Succeeded x) [0..<length ?txs]"
      unfolding len by (rule filter_cong) (auto simp: g len)
    have "out = map (\<lambda>i. transfer_tx (?txs ! i)) (filter (\<lambda>i. \<exists>x. rc i = Some x \<and> Succeeded x) [0..<length ?txs])"
      unfolding out keep by (rule map_cong) (use nth in auto)
    with h m calls show ?thesis unfolding Let_def by (intro exI [of _ h] exI [of _ rc]) simp
  qed
qed

definition pay_block :: block where
  "pay_block = \<lparr> bNumber = ''0x1'', bHash = ''0xb'', bParentHash = ''0xa'', bTimestamp = ''0x0'',
     bTransactions = [\<lparr> txHash = ''0xt'', txFrom = ''a'', txTo = ''b'', txValue = ''0x5'' \<rparr>] \<rparr>"

definition all_transfers :: native_filter where
  "all_transfers = \<lparr> nfEnabled = True, nfIncludeInternal = False, nfFrom = None, nfTo = None \<rparr>"

definition success :: receipt where
  "success = \<lparr> rStatus = ''0x1'', rTxHash = ''0xt'', rContractAddress = [] \<rparr>"

definition paying_world :: world where
  "paying_world = quiet_world\<lparr> wReceipt := (\<lambda>_ _. Inr (Some success)) \<rparr>"

lemma success_Succeeded [simp]: "Succeeded success"
  by (simp add: Succeeded_def success_def hexUint_def trim_0x_def trim_prefix_def has_prefix_def
      set_string_def digit_val_def code_of_def of_char_def)

lemma pay_candidates: "native_candidates all_transfers (bTransactions pay_block)
    = Inr [transfer_tx (hd (bTransactions pay_block))]"
  by (simp add: pay_block_def ValueBig_def all_transfers_def filter_matches_def transfer_tx_def)

lemma detect_pay:
  "\<exists>s'. run_state (detectNativeTransfers paying_world all_transfers pay_block) idle_stream
     = (Inr [transfer_tx (hd (bTransactions pay_block))], s')"
  unfolding detectNativeTransfers_def pay_candidates
  by (simp add: run_simps client_Receipt_def mark_succeeded_def paying_world_def quiet_world_def
      all_transfers_def Let_def)

lemma native_transfers_exact_witness:
  "\<exists>s' h. run_state (detectNativeTransfers paying_world all_transfers pay_block) idle_stream
     = (Inr [transfer_tx (hd (bTransactions pay_block))], s') \<and> history s' = history idle_stream @ h"
proof -
  obtain s' where r: "run_state (detectNativeTransfers paying_world all_transfers pay_block) idle_stream
     = (Inr [transfer_tx (hd (bTransactions pay_block))], s')" using detect_pay by blast
  from native_transfers_exact [OF r] r show ?thesis
    by (auto simp: all_transfers_def paying_world_def quiet_world_def)
qed

text \<open>The goroutines that start after a cancellation do nothing.\<close>

lemma receipts_loop_cancelled:
  assumes "\<forall>h. wCancelled W h \<and> \<not> wInFlight W h"
  shows "run_state (receipts_loop k W cands todo err good) s = ((err, good), s)"
  using assms by (induction k arbitrary: todo) (simp_all add: Let_def)

text \<open>
A cancellation that lands before the receipts of a block are requested is not reported: the
detection returns success with no transfer at all, whatever the block holds, so the caller
takes the block for a processed one.
\<close>
theorem cancelled_receipts_look_empty:
  assumes "\<forall>h. wCancelled W h \<and> \<not> wInFlight W h"
    and "native_candidates f (bTransactions blk) = Inr cands"
  shows "run_state (detectNativeTransfers W f blk) s = (Inr [], s)"
  using assms by (simp add: detectNativeTransfers_def receipts_loop_cancelled)

lemma cancelled_receipts_look_empty_witness:
  "run_state (detectNativeTransfers (paying_world\<lparr> wCancelled := (\<lambda>_. True) \<rparr>) all_transfers pay_block) idle_stream
     = (Inr [], idle_stream)"
  by (rule cancelled_receipts_look_empty [OF _ pay_candidates])
    (simp add: paying_world_def quiet_world_def)

end
