(* ===== verification/OnchainStream.thy ===== *)
theory OnchainStream
  imports Reorg Native
begin

text \<open>
  The stream's loop (\<^verbatim>\<open>internal/stream/stream.go\<close>): the watch set and its hot reload, the log
  query with its splitting, the emission of a log, one poll, one turn of the run loop with the
  checkpoint, and the start height. Loops that follow 64-bit counters carry fuel.
\<close>

section \<open>The watch set\<close>

definition add_topics :: "string list \<Rightarrow> string list \<Rightarrow> string list" where
  "add_topics known new = foldl (\<lambda>acc t. if t \<in> set acc then acc else acc @ [t]) known new"

text \<open>The keys of a contract's topic map are the topics of its events; Go enumerates them in no
particular order.\<close>

definition setWatchSet :: "resolved_contract list \<Rightarrow> native_filter \<Rightarrow> stream \<Rightarrow> stream" where
  "setWatchSet contracts native s = s\<lparr>
     sContracts := contracts, sNative := native, sAddresses := map rcAddress contracts,
     sTopic0Set := foldl (\<lambda>acc c. add_topics acc (map evTopic0 (rcEvents c))) [] contracts,
     sByAddrTopic := foldl (\<lambda>m c. m(rcAddress c \<mapsto> rcByTopic0 c)) Map.empty contracts \<rparr>"

definition new_stream :: "options \<Rightarrow> resolved_contract list \<Rightarrow> native_filter \<Rightarrow> stream" where
  "new_stream Op contracts native = setWatchSet contracts native
     \<lparr> sContracts = [], sNative = native, sAddresses = [], sTopic0Set = [], sByAddrTopic = Map.empty,
       sLastHead = 0, sSkippedSeen = {}, sReorg = newReorgTracker (oReorgDepth Op),
       sFinalizedUnsupported = False, sTraceBackend = BackendUnknown, sFinalizedBlock = 0,
       sFinalizedKnown = False, sPending = None, history = [] \<rparr>"

text \<open>\<^verbatim>\<open>New\<close> with its checks; which of the two parts are there, and the poll interval in nanoseconds.\<close>

definition stream_New :: "bool \<Rightarrow> bool \<Rightarrow> int \<Rightarrow> options \<Rightarrow> resolved_contract list \<Rightarrow> native_filter \<Rightarrow> string + stream" where
  "stream_New client emitter pollInterval Op contracts native =
     (if \<not> client then Inl ''stream: client is required''
      else if \<not> emitter then Inl ''stream: emitter is required''
      else if pollInterval \<le> 0 then Inl ''stream: poll_interval must be positive''
      else if oLogChunkBlocks Op = 0 then Inl ''stream: log_chunk_blocks must be positive''
      else Inr (new_stream Op contracts native))"

definition QueueReload :: "resolved_contract list \<Rightarrow> native_filter \<Rightarrow> (stream, unit) state" where
  "QueueReload contracts native =
     modify (\<lambda>s. s\<lparr> sPending := Some \<lparr> wsContracts = contracts, wsNative = native \<rparr> \<rparr>)"

definition contractKey :: "resolved_contract \<Rightarrow> string \<times> string" where
  "contractKey c = (rcName c, rcAddress c)"

fun reset_removed :: "(string \<times> string) set \<Rightarrow> resolved_contract list \<Rightarrow> (stream, unit) state" where
  "reset_removed keep [] = skip"
| "reset_removed keep (c # cs) =
     (if contractKey c \<in> keep then reset_removed keep cs
      else do { metric (ResetContractSeries (rcName c) (rcAddress c)); reset_removed keep cs })"

definition applyPendingReload :: "(stream, unit) state" where
  "applyPendingReload =
     do { ws \<leftarrow> gets sPending;
          modify (\<lambda>s. s\<lparr> sPending := None \<rparr>);
          (case ws of
             None \<Rightarrow> skip
           | Some w \<Rightarrow> do {
               old \<leftarrow> gets sContracts;
               reset_removed (set (map contractKey (wsContracts w))) old;
               modify (setWatchSet (wsContracts w) (wsNative w));
               modify (\<lambda>s. s\<lparr> sSkippedSeen := {} \<rparr>);
               metric IncConfigReload }) }"

section \<open>Emitting a log\<close>

definition contractNameFor :: "resolved_contract list \<Rightarrow> string \<Rightarrow> string" where
  "contractNameFor contracts addr =
     (case find (\<lambda>c. rcAddress c = to_lower addr) contracts of Some c \<Rightarrow> rcName c | None \<Rightarrow> to_lower addr)"

definition event_envelope :: "options \<Rightarrow> string \<Rightarrow> event_abi \<Rightarrow> log \<Rightarrow> u64 \<Rightarrow> u64 \<Rightarrow> bool
    \<Rightarrow> (string \<rightharpoonup> string) \<Rightarrow> envelope" where
  "event_envelope Op cName ev l blockNum logIndex final params =
     zero_envelope\<lparr> eType := TypeEvent, eTool := ToolStream, eName := cName,
       eChain := oChainName Op, eChainID := oChainID Op, eBlockNumber := blockNum,
       eBlockHash := lBlockHash l, eTxHash := lTxHash l, eLogIndex := Some logIndex, eFinalized := final,
       eData := DEvent \<lparr> edEvent = evName ev, edSignature = evSignature ev, edContract = lAddress l,
         edParams = params \<rparr> \<rparr>"

definition emitLog :: "world \<Rightarrow> options \<Rightarrow> log \<Rightarrow> unit sm" where
  "emitLog W Op l =
     (if lTopics l = [] then ok ()
      else if lRemoved l then ok ()
      else do {
        s \<leftarrow> gets id;
        (case sByAddrTopic s (to_lower (lAddress l)) of
           None \<Rightarrow> ok ()
         | Some byTopic \<Rightarrow>
             (case byTopic (to_lower (hd (lTopics l))) of
                None \<Rightarrow> ok ()
              | Some ev \<Rightarrow>
                  (case decodeLog ev l of
                     Inl (DPanic p) \<Rightarrow> fail (Panicked p)
                   | Inl (DErr e) \<Rightarrow> do {
                       metric IncSkippedLog;
                       modify (\<lambda>s. s\<lparr> sSkippedSeen := insert (to_lower (lAddress l) @ ''|'' @ evName ev) (sSkippedSeen s) \<rparr>);
                       ok () }
                   | Inr params \<Rightarrow>
                       (case BlockNumberUint l of
                          Inl e \<Rightarrow> fail (OtherErr (''parse log block number: '' @ error_text e))
                        | Inr blockNum \<Rightarrow>
                            (case LogIndexUint l of
                               Inl e \<Rightarrow> fail (OtherErr (''parse log index: '' @ error_text e))
                             | Inr logIndex \<Rightarrow>
                                 (let cName = contractNameFor (sContracts s) (lAddress l) in
                                  check (emit W (event_envelope Op cName ev l blockNum logIndex
                                           (isFinalized s blockNum) params)) (\<lambda>_.
                                    do { metric (IncEventRecord cName (to_lower (lAddress l)) (evName ev));
                                         metric (SetLastEmittedBlock blockNum);
                                         ok () }))))))) })"

section \<open>The log query\<close>

definition range_cap_phrases :: "string list" where
  "range_cap_phrases = [''more than 10000 results'', ''query returned more than'',
     ''response size exceeded'', ''log response size'', ''block range'', ''range too large'',
     ''range is too large'', ''too wide'', ''query timeout exceeded'', ''exceeds the limit'']"

definition isLogRangeCapError :: "rpc_error \<Rightarrow> bool" where
  "isLogRangeCapError e = (let msg = to_lower (error_text e) in list_ex (\<lambda>sub. contains sub msg) range_cap_phrases)"

definition log_filter_of :: "stream \<Rightarrow> u64 \<Rightarrow> u64 \<Rightarrow> log_filter" where
  "log_filter_of s from to = \<lparr> fFromBlock = from, fToBlock = to, fAddresses = sAddresses s,
     fTopics = (if sTopic0Set s \<noteq> [] then [sTopic0Set s] else []) \<rparr>"

lemma bind_cong_state [fundef_cong]:
  "m = m' \<Longrightarrow> (\<And>x. k x = k' x) \<Longrightarrow> State_Monad.bind m k = State_Monad.bind m' k'"
  by (metis ext)

lemma unat_mid_bounds:
  assumes "from < (to :: u64)"
  shows "unat (from + (to - from) div 2) = unat from + (unat to - unat from) div 2"
    and "unat (from + (to - from) div 2 + 1) = unat from + (unat to - unat from) div 2 + 1"
proof -
  have le: "unat from \<le> unat to" using assms by (simp add: word_less_nat_alt)
  have lt: "unat to < 2 ^ 64" using unsigned_less [of to, where 'a = nat] by simp
  have d: "unat (to - from) = unat to - unat from" using le by (simp add: unat_sub_if')
  have "unat ((to - from) div 2) = (unat to - unat from) div 2" by (simp add: unat_div d)
  moreover have "unat from + (unat to - unat from) div 2 < 2 ^ 64" using le lt by linarith
  ultimately show m: "unat (from + (to - from) div 2) = unat from + (unat to - unat from) div 2"
    by (simp add: unat_word_ariths)
  have "unat from + (unat to - unat from) div 2 + 1 < 2 ^ 64"
    using assms lt by (auto simp: word_less_nat_alt)
  then show "unat (from + (to - from) div 2 + 1) = unat from + (unat to - unat from) div 2 + 1"
    unfolding unat_word_ariths(1) [of _ 1] m by simp
qed

function processLogs :: "world \<Rightarrow> options \<Rightarrow> u64 \<Rightarrow> u64 \<Rightarrow> unit sm" where
  "processLogs W Op from to =
     do { s \<leftarrow> gets id;
          r \<leftarrow> client_Logs W (log_filter_of s from to);
          metric (ObserveLogChunk (to - from + 1));
          c \<leftarrow> cancelled W;
          (case r of
             Inl e \<Rightarrow>
               if from < to \<and> \<not> c \<and> isLogRangeCapError e
               then (let mid = from + (to - from) div 2 in
                     check (processLogs W Op from mid) (\<lambda>_. processLogs W Op (mid + 1) to))
               else fail (RpcErr e)
           | Inr logs \<Rightarrow> for_each (emitLog W Op) logs) }"
  by pat_completeness auto
termination
  by (relation "measure (\<lambda>(W, Op, from, to). unat to - unat from)")
    (auto simp: unat_mid_bounds word_less_nat_alt)

declare processLogs.simps [simp del]

definition processRange :: "world \<Rightarrow> options \<Rightarrow> u64 \<Rightarrow> u64 \<Rightarrow> unit sm" where
  "processRange W Op from to =
     do { s \<leftarrow> gets id;
          check (if sContracts s \<noteq> [] then processLogs W Op from to else ok ()) (\<lambda>_.
            if nfEnabled (sNative s) then processNative W Op from to else ok ()) }"

section \<open>One poll\<close>

definition updateHeadBlockTime :: "world \<Rightarrow> u64 \<Rightarrow> (stream, block option) state" where
  "updateHeadBlockTime W head =
     do { r \<leftarrow> client_Block W head False;
          (case r of
             Inl _ \<Rightarrow> State_Monad.return None
           | Inr blk \<Rightarrow>
               (case BlockTime (Some blk) of
                  None \<Rightarrow> State_Monad.return (Some blk)
                | Some t \<Rightarrow> do { metric (SetHeadBlockTime t); metric (HealthHeadBlockTime t);
                                 State_Monad.return (Some blk) })) }"

definition FinalizedBlockNumber :: "rpc_error + block \<Rightarrow> rpc_error + u64" where
  "FinalizedBlockNumber r = (case r of Inl e \<Rightarrow> Inl e | Inr blk \<Rightarrow> NumberUint blk)"

definition updateFinalizedBlock :: "world \<Rightarrow> (stream, unit) state" where
  "updateFinalizedBlock W =
     do { off \<leftarrow> gets sFinalizedUnsupported;
          if off then skip
          else do {
            r \<leftarrow> rpc_call (wFinalized W) CallFinalized;
            c \<leftarrow> cancelled W;
            (case FinalizedBlockNumber r of
               Inl e \<Rightarrow>
                 if c then skip
                 else if Classify (Some e) = ErrorTimeout \<or> Classify (Some e) = ErrorConnection then skip
                 else modify (\<lambda>s. s\<lparr> sFinalizedUnsupported := True \<rparr>)
             | Inr n \<Rightarrow> do {
                 metric (SetFinalizedBlock n);
                 modify (\<lambda>s. s\<lparr> sFinalizedBlock := n, sFinalizedKnown := True \<rparr>) }) } }"

definition chunk_end :: "u64 \<Rightarrow> u64 \<Rightarrow> u64 \<Rightarrow> u64" where
  "chunk_end cur chunk head = (if cur + chunk - 1 > head then head else cur + chunk - 1)"

fun chunk_loop :: "nat \<Rightarrow> world \<Rightarrow> options \<Rightarrow> u64 \<Rightarrow> u64 \<Rightarrow> (stream, u64 \<times> stream_error option) state" where
  "chunk_loop 0 W Op head cur = State_Monad.return (cur, Some OutOfFuel)"
| "chunk_loop (Suc fuel) W Op head cur =
     (if cur \<le> head then
        (let end' = chunk_end cur (oLogChunkBlocks Op) head in
         do { r \<leftarrow> processRange W Op cur end';
              (case r of
                 Inl e \<Rightarrow> State_Monad.return (cur, Some e)
               | Inr _ \<Rightarrow> do { metric (SetLastProcessedBlock end'); chunk_loop fuel W Op head (end' + 1) }) })
      else State_Monad.return (cur, None))"

definition pollOnce :: "world \<Rightarrow> options \<Rightarrow> u64 \<Rightarrow> (stream, u64 \<times> stream_error option) state" where
  "pollOnce W Op nextBlock =
     do { r \<leftarrow> client_BlockNumber W;
          (case r of
             Inl e \<Rightarrow> State_Monad.return (nextBlock, Some (RpcErr e))
           | Inr head \<Rightarrow> do {
               metric (SetHead head);
               headBlk \<leftarrow> updateHeadBlockTime W head;
               updateFinalizedBlock W;
               modify (\<lambda>s. s\<lparr> sLastHead := head \<rparr>);
               rr \<leftarrow> handleReorgIfAny W Op nextBlock head headBlk;
               (case rr of
                  Inl e \<Rightarrow> State_Monad.return (nextBlock, Some e)
                | Inr (nb, _) \<Rightarrow>
                    if nb > head then do {
                      metric (SetLagBlocks 0); metric (HealthLag 0);
                      State_Monad.return (nb, None) }
                    else do {
                      metric (SetLagBlocks (head - nb)); metric (HealthLag (head - nb));
                      (cur, err) \<leftarrow> chunk_loop (wFuel W) W Op head nb;
                      (case err of
                         Some e \<Rightarrow> State_Monad.return (cur, Some e)
                       | None \<Rightarrow> do {
                           (case headBlk of
                              Some b \<Rightarrow> modify (\<lambda>s. s\<lparr> sReorg := recordHash (sReorg s) head (bHash b) head \<rparr>)
                            | None \<Rightarrow> skip);
                           State_Monad.return (cur, None) }) }) }) }"

section \<open>The run loop\<close>

definition shouldSaveCheckpoint :: "u64 \<Rightarrow> u64 \<Rightarrow> bool" where
  "shouldSaveCheckpoint next lastSaved \<longleftrightarrow> next > 0 \<and> next \<noteq> lastSaved"

record run_vars =
  rNext :: u64
  rFailures :: nat
  rLastSaved :: u64

datatype run_outcome = Continue run_vars | Stopped "stream_error option"

definition save_cursor :: "world \<Rightarrow> cursor \<Rightarrow> (stream, bool) state" where
  "save_cursor W c = do { h \<leftarrow> gets history; let b = wSave W h c; observe (SaveCursor c b); State_Monad.return b }"

definition stage_reload :: "world \<Rightarrow> (stream, unit) state" where
  "stage_reload W =
     do { h \<leftarrow> gets history;
          (case wReload W h of Some w \<Rightarrow> QueueReload (wsContracts w) (wsNative w) | None \<Rightarrow> skip) }"

text \<open>What the loop does with a failed poll.\<close>

definition run_failed :: "world \<Rightarrow> run_vars \<Rightarrow> stream_error \<Rightarrow> (stream, run_outcome) state" where
  "run_failed W v e =
     do { c \<leftarrow> cancelled W;
          (case e of
             Panicked p \<Rightarrow> State_Monad.return (Stopped (Some e))
           | _ \<Rightarrow>
             if c then State_Monad.return (Stopped None)
             else if e = EmitErr EPIPE \<or> e = EmitErr EBADF then do {
               metric (SetPollOutcome False);
               State_Monad.return (Stopped (Some e)) }
             else do {
               metric (HealthRPCReachable False);
               metric (SetPollOutcome False);
               metric (SetConsecutiveFailures (rFailures v + 1));
               metric IncReconnects;
               slept \<leftarrow> sleep W;
               State_Monad.return (if \<not> slept then Stopped None
                                   else Continue (v\<lparr> rFailures := rFailures v + 1 \<rparr>)) }) }"

definition run_succeeded :: "world \<Rightarrow> options \<Rightarrow> run_vars \<Rightarrow> u64 \<Rightarrow> (stream, run_outcome) state" where
  "run_succeeded W Op v next =
     do { metric (HealthRPCReachable True);
          metric (SetPollOutcome True);
          metric (SetConsecutiveFailures 0);
          saved \<leftarrow> (if oCheckpoint Op \<and> shouldSaveCheckpoint next (rLastSaved v)
                   then do { b \<leftarrow> save_cursor W \<lparr> curChainID = oChainID Op, curLastBlock = next - 1 \<rparr>;
                             State_Monad.return (if b then next else rLastSaved v) }
                   else State_Monad.return (rLastSaved v));
          h \<leftarrow> gets history;
          State_Monad.return (if wTick W h
            then Continue \<lparr> rNext = next, rFailures = 0, rLastSaved = saved \<rparr> else Stopped None) }"

definition run_iter :: "world \<Rightarrow> options \<Rightarrow> run_vars \<Rightarrow> (stream, run_outcome) state" where
  "run_iter W Op v =
     do { stage_reload W;
          applyPendingReload;
          (next, err) \<leftarrow> pollOnce W Op (rNext v);
          (case err of Some e \<Rightarrow> run_failed W v e | None \<Rightarrow> run_succeeded W Op v next) }"

text \<open>At most \<open>n\<close> turns of the loop.\<close>

fun run_loop :: "nat \<Rightarrow> world \<Rightarrow> options \<Rightarrow> run_vars \<Rightarrow> (stream, run_outcome) state" where
  "run_loop 0 W Op v = State_Monad.return (Continue v)"
| "run_loop (Suc n) W Op v =
     do { r \<leftarrow> run_iter W Op v;
          (case r of Stopped e \<Rightarrow> State_Monad.return (Stopped e) | Continue v' \<Rightarrow> run_loop n W Op v') }"

section \<open>The start height\<close>

definition parseFromBlock :: "string \<Rightarrow> u64 option" where
  "parseFromBlock fb =
     (case set_string 10 (trim_space fb) of
        None \<Rightarrow> None
      | Some v \<Rightarrow> if v < 0 \<or> \<not> v < 2 ^ 64 then None else Some (word_of_int v))"

definition ValidateFromBlock :: "string \<Rightarrow> string option" where
  "ValidateFromBlock fromBlock =
     (let fb = trim_space fromBlock in
      if fb = [] \<or> equal_fold fb ''latest'' then None
      else (case parseFromBlock fb of None \<Rightarrow> Some (''invalid from_block '' @ fb) | Some _ \<Rightarrow> None))"

definition configured_start :: "world \<Rightarrow> options \<Rightarrow> u64 sm" where
  "configured_start W Op =
     (let fb = trim_space (oFromBlock Op) in
      if fb = [] \<or> equal_fold fb ''latest'' then
        check (lift_rpc (client_BlockNumber W)) (\<lambda>head. ok (head + 1))
      else (case parseFromBlock fb of
          None \<Rightarrow> fail (OtherErr (case ValidateFromBlock fb of Some m \<Rightarrow> m | None \<Rightarrow> []))
        | Some v \<Rightarrow> ok v))"

definition resolveStart :: "world \<Rightarrow> options \<Rightarrow> u64 sm" where
  "resolveStart W Op =
     (if oCheckpoint Op then
        do { h \<leftarrow> gets history;
             let r = wLoad W h;
             observe LoadCursor;
             (case r of
                Inr (Some cur) \<Rightarrow>
                  if curChainID cur \<noteq> 0 \<and> curChainID cur \<noteq> oChainID Op then configured_start W Op
                  else ok (curLastBlock cur + 1)
              | _ \<Rightarrow> configured_start W Op) }
      else configured_start W Op)"

definition Run :: "nat \<Rightarrow> world \<Rightarrow> options \<Rightarrow> (stream, run_outcome) state" where
  "Run n W Op =
     do { r \<leftarrow> resolveStart W Op;
          (case r of
             Inl e \<Rightarrow> State_Monad.return (Stopped (Some e))
           | Inr from \<Rightarrow> run_loop n W Op \<lparr> rNext = from, rFailures = 0, rLastSaved = from \<rparr>) }"

section \<open>Coverage of the chain\<close>

text \<open>The heights whose logs were queried successfully, and those whose full block was fetched.\<close>

definition logged1 :: "happening \<Rightarrow> nat list" where
  "logged1 x = (case x of CallLogs f (Inr _) \<Rightarrow> [unat (fFromBlock f)..<Suc (unat (fToBlock f))] | _ \<Rightarrow> [])"

definition scanned1 :: "happening \<Rightarrow> nat list" where
  "scanned1 x = (case x of CallBlock n True (Inr _) \<Rightarrow> [unat n] | _ \<Rightarrow> [])"

definition logged :: "hist \<Rightarrow> nat list" where "logged h = concat (map logged1 h)"
definition scanned :: "hist \<Rightarrow> nat list" where "scanned h = concat (map scanned1 h)"

lemma logged_simps [simp]: "logged [] = []" "logged (x # h) = logged1 x @ logged h" "logged (a @ b) = logged a @ logged b"
    "scanned [] = []" "scanned (x # h) = scanned1 x @ scanned h" "scanned (a @ b) = scanned a @ scanned b"
  by (simp_all add: logged_def scanned_def)

definition quiet :: "happening \<Rightarrow> bool" where
  "quiet x \<longleftrightarrow> logged1 x = [] \<and> scanned1 x = [] \<and> (\<forall>c b. x \<noteq> SaveCursor c b)"

lemma quiet_hist: "\<forall>x \<in> set h. quiet x \<Longrightarrow> logged h = [] \<and> scanned h = []"
  by (induction h) (auto simp: quiet_def)

lemma quiet_simps [simp]: "quiet (CallBlockNumber a)" "quiet (CallFinalized b)" "quiet (CallReceipt t rc)"
    "quiet (CallTraceBlock n tb)" "quiet (CallTraceTx t tt)" "quiet (CallTraceParity n tp)" "quiet (Emitted env er)"
    "quiet (Metric m)" "quiet LoadCursor" "quiet (Slept sl)" "quiet (CallBlock n False bl)"
    "quiet (CallLogs f (Inl e))" "quiet (CallBlock n full (Inl e))"
  by (simp_all add: quiet_def logged1_def scanned1_def split: bool.split)

text \<open>What a range of blocks may change besides the history.\<close>

definition steady :: "stream \<Rightarrow> stream" where
  "steady s = s\<lparr> history := [], sSkippedSeen := {}, sTraceBackend := BackendUnknown \<rparr>"

lemma settled_steady [simp]: "settled steady"
  by (simp add: settled_def steady_def)

lemma steady_fields:
  assumes "steady s' = steady s"
  shows "sContracts s' = sContracts s" "sNative s' = sNative s" "sAddresses s' = sAddresses s"
    "sTopic0Set s' = sTopic0Set s" "sByAddrTopic s' = sByAddrTopic s" "sReorg s' = sReorg s"
    "sLastHead s' = sLastHead s" "sFinalizedKnown s' = sFinalizedKnown s"
    "sFinalizedBlock s' = sFinalizedBlock s" "sPending s' = sPending s"
    "sFinalizedUnsupported s' = sFinalizedUnsupported s"
  using arg_cong [OF assms, of sContracts]
    arg_cong [OF assms, of sNative]
    arg_cong [OF assms, of sAddresses]
    arg_cong [OF assms, of sTopic0Set]
    arg_cong [OF assms, of sByAddrTopic]
    arg_cong [OF assms, of sReorg]
    arg_cong [OF assms, of sLastHead]
    arg_cong [OF assms, of sFinalizedKnown]
    arg_cong [OF assms, of sFinalizedBlock]
    arg_cong [OF assms, of sPending]
    arg_cong [OF assms, of sFinalizedUnsupported]
  by (simp_all add: steady_def)

lemma fr_steady_modify:
  "state_io_rel (frame steady P) (modify (\<lambda>s. s\<lparr> sSkippedSeen := g (sSkippedSeen s) \<rparr>))"
  "state_io_rel (frame steady P) (set_backend b)"
  unfolding set_backend_def by (rule fr_modify; simp add: steady_def)+

lemma emitLog_io: "state_io_rel (frame steady quiet) (emitLog W Op l)"
  unfolding emitLog_def
  by (intro fr_intros fr_steady_modify) (auto split: decode_error.split intro!: fr_intros fr_steady_modify)

lemma perTx_steady: "state_io_rel (frame steady quiet) (perTxTraces W txs)"
  by (induction txs) (auto intro!: fr_intros split: option.split)

lemma backends_steady:
  "state_io_rel (frame steady quiet) (blockLevelTraces W n)"
  "state_io_rel (frame steady quiet) (parityTraces W n)"
  unfolding blockLevelTraces_def parityTraces_def by (intro fr_intros; simp)+

lemma try_backends_steady:
  "\<forall>(b, m) \<in> set cs. state_io_rel (frame steady quiet) m \<Longrightarrow> state_io_rel (frame steady quiet) (try_backends W cs t)"
  by (induction cs) (auto intro!: fr_intros fr_steady_modify split: sum.split)

lemma selectBackend_steady: "state_io_rel (frame steady quiet) (selectBackend W blk n)"
  unfolding selectBackend_def Let_def
  by (rule try_backends_steady) (auto intro: backends_steady perTx_steady)

lemma fetchTraces_steady: "state_io_rel (frame steady quiet) (fetchTraces W blk n)"
  unfolding fetchTraces_def
  by (intro fr_intros) (auto split: trace_backend.split intro: backends_steady perTx_steady selectBackend_steady)

lemma trace_loop_steady: "state_io_rel (frame steady quiet) (trace_loop fuel W blk n attempt)"
proof (induction fuel arbitrary: attempt)
  case 0
  show ?case unfolding trace_loop.simps by (rule fr_intros)
next
  case (Suc fuel)
  show ?case unfolding trace_loop.simps
    by (intro fr_intros fetchTraces_steady fr_steady_modify Suc.IH) simp_all
qed

lemma emitInternalTransfers_steady: "state_io_rel (frame steady quiet) (emitInternalTransfers W Op blk n ts)"
  unfolding emitInternalTransfers_def traceBlockInternal_def emitInternal_def
  by (intro fr_intros trace_loop_steady) simp_all

lemma receipts_loop_steady: "state_io_rel (frame steady quiet) (receipts_loop k W cands todo err good)"
proof (induction k arbitrary: todo err good)
  case 0
  show ?case unfolding receipts_loop.simps by (rule fr_intros)
next
  case (Suc k)
  show ?case unfolding receipts_loop.simps by (intro fr_intros Suc.IH) simp_all
qed

lemma detectNativeTransfers_steady: "state_io_rel (frame steady quiet) (detectNativeTransfers W f blk)"
  unfolding detectNativeTransfers_def by (intro fr_intros receipts_loop_steady)

lemma emitNative_steady: "state_io_rel (frame steady quiet) (emitNative W Op blk n ts t)"
  unfolding emitNative_def by (intro fr_intros) simp_all

lemma frame_hist:
  assumes "state_io_rel (frame steady quiet) m" and "run_state m s = (r, s')"
  obtains h where "steady s' = steady s" "history s' = history s @ h" "logged h = []" "scanned h = []"
  using frameD [OF assms] quiet_hist by metis

lemma run_check_Inr:
  "run_state (check m k) s = (Inr y, s') \<longleftrightarrow> (\<exists>x s1. run_state m s = (Inr x, s1) \<and> run_state (k x) s1 = (Inr y, s'))"
  by (auto simp: run_check split: prod.splits sum.splits)

lemma native_block_covers:
  assumes "run_state (native_block W Op n) s = (Inr (), s')"
  shows "steady s' = steady s \<and> (\<exists>h. history s' = history s @ h \<and> logged h = [] \<and> scanned h = [unat n])"
proof -
  let ?r = "wBlock W (history s) n True"
  let ?s1 = "add_history s [CallBlock n True ?r]"
  from assms obtain blk where b: "?r = Inr blk" and
    run: "run_state (check (pure_rpc (NumberUint blk)) (\<lambda>blkNum.
       (let ts = block_timestamp blk in
        do { f \<leftarrow> gets sNative;
             check (detectNativeTransfers W f blk) (\<lambda>transfers.
             check (for_each (emitNative W Op blk blkNum ts) transfers) (\<lambda>_.
               if nfIncludeInternal f then emitInternalTransfers W Op blk blkNum ts else ok ())) }))) ?s1 = (Inr (), s')"
    unfolding native_block_def run_check_Inr
    by (auto simp: client_Block_def run_simps split: sum.splits)
  have io: "state_io_rel (frame steady quiet) (check (pure_rpc (NumberUint blk)) (\<lambda>blkNum.
       (let ts = block_timestamp blk in
        do { f \<leftarrow> gets sNative;
             check (detectNativeTransfers W f blk) (\<lambda>transfers.
             check (for_each (emitNative W Op blk blkNum ts) transfers) (\<lambda>_.
               if nfIncludeInternal f then emitInternalTransfers W Op blk blkNum ts else ok ())) })))"
    by (intro fr_intros detectNativeTransfers_steady emitNative_steady emitInternalTransfers_steady)
  from frame_hist [OF io run] obtain h where "steady s' = steady ?s1" "history s' = history ?s1 @ h"
    "logged h = []" "scanned h = []" by metis
  then show ?thesis using b
    by (intro conjI exI [of _ "CallBlock n True ?r # h"]) (simp_all add: steady_def scanned1_def logged1_def)
qed

lemma native_loop_covers:
  assumes "run_state (native_loop fuel W Op n to) s = (Inr (), s')" and "unat to < 2 ^ 64 - 1"
  shows "steady s' = steady s \<and> (\<exists>h. history s' = history s @ h \<and> logged h = [] \<and> scanned h = [unat n..<Suc (unat to)])"
  using assms(1)
proof (induction fuel arbitrary: n s)
  case (Suc fuel)
  show ?case
  proof (cases "n \<le> to")
    case False
    with Suc.prems have "s' = s" by simp
    moreover have "[unat n..<Suc (unat to)] = []" using False by (simp add: word_le_nat_alt)
    ultimately show ?thesis by (intro conjI exI [of _ "[]"]) simp_all
  next
    case True
    with Suc.prems obtain s1 where b: "run_state (native_block W Op n) s = (Inr (), s1)"
      and l: "run_state (native_loop fuel W Op (n + 1) to) s1 = (Inr (), s')"
      by (auto simp: run_check_Inr)
    have n1: "unat (n + 1) = Suc (unat n)"
    proof -
      have "unat n \<le> unat to" using True by (simp add: word_le_nat_alt)
      then have "unat n + 1 < 2 ^ 64" using assms(2) by linarith
      then show ?thesis by (simp add: unat_word_ariths)
    qed
    from native_block_covers [OF b] Suc.IH [OF l] obtain h1 h2 where
      h: "steady s' = steady s" "history s' = history s @ h1 @ h2" "logged (h1 @ h2) = []"
      "scanned (h1 @ h2) = unat n # [unat (n + 1)..<Suc (unat to)]"
      by fastforce
    have "unat n # [unat (n + 1)..<Suc (unat to)] = [unat n..<Suc (unat to)]"
      using True by (simp add: n1 word_le_nat_alt upt_conv_Cons)
    with h show ?thesis by metis
  qed
qed simp

text \<open>\<open>covers\<close>: a computation kept the steady part and its history has these heights.\<close>

definition covers :: "stream \<Rightarrow> stream \<Rightarrow> nat list \<Rightarrow> nat list \<Rightarrow> bool" where
  "covers s s' ls ns \<longleftrightarrow> steady s' = steady s
     \<and> (\<exists>h. history s' = history s @ h \<and> logged h = ls \<and> scanned h = ns)"

lemma covers_refl [simp]: "covers s s [] []"
  by (auto simp: covers_def)

lemma covers_trans: "covers s t a b \<Longrightarrow> covers t u c d \<Longrightarrow> covers s u (a @ c) (b @ d)"
  unfolding covers_def by (elim conjE exE, intro conjI, simp) (metis append.assoc logged_simps(3,6))

lemma covers_step: "covers s (add_history s [x]) (logged1 x) (scanned1 x)"
  unfolding covers_def by (intro conjI exI [of _ "[x]"]) (simp_all add: steady_def)

lemma covers_quiet: "quiet x \<Longrightarrow> covers s (add_history s [x]) [] []"
  using covers_step [of s x] by (simp add: quiet_def)

lemma frame_covers:
  assumes "state_io_rel (frame steady quiet) m" and "run_state m s = (r, s')"
  shows "covers s s' [] []"
  using frame_hist [OF assms] unfolding covers_def by metis

lemma for_each_covers: "run_state (for_each (emitLog W Op) logs) s = (r, s') \<Longrightarrow> covers s s' [] []"
  by (rule frame_covers [OF fr.io_for_each]) (rule emitLog_io)

lemma upt_split: "a \<le> m \<Longrightarrow> m \<le> b \<Longrightarrow> [a..<m] @ [m..<b] = [a..<(b :: nat)]"
  by (metis le_add_diff_inverse upt_add_eq_append)

lemma processLogs_covers:
  "run_state (processLogs W Op from to) s = (Inr (), s') \<Longrightarrow> from \<le> to \<Longrightarrow>
     covers s s' [unat from..<Suc (unat to)] []"
proof (induction W Op "from" to arbitrary: s s' rule: processLogs.induct)
  case (1 W Op "from" to)
  define r where "r = wLogs W (history s) (log_filter_of s from to)"
  let ?s1 = "add_history s [CallLogs (log_filter_of s from to) r]"
  let ?s2 = "add_history ?s1 [Metric (ObserveLogChunk (to - from + 1))]"
  have run: "run_state (case r of
             Inl e \<Rightarrow>
               if from < to \<and> \<not> wCancelled W (history ?s2) \<and> isLogRangeCapError e
               then (let mid = from + (to - from) div 2 in
                     check (processLogs W Op from mid) (\<lambda>_. processLogs W Op (mid + 1) to))
               else fail (RpcErr e)
           | Inr logs \<Rightarrow> for_each (emitLog W Op) logs) ?s2 = (Inr (), s')"
    using "1.prems"(1)
    by (subst (asm) processLogs.simps) (simp add: run_simps client_Logs_def r_def cong: sum.case_cong if_cong)
  show ?case
  proof (cases r)
    case (Inr logs)
    with run have c3: "covers ?s2 s' [] []" by (intro for_each_covers) simp
    have c1: "covers s ?s1 [unat from..<Suc (unat to)] []"
      using covers_step [of s "CallLogs (log_filter_of s from to) r"] Inr
      by (simp add: logged1_def scanned1_def log_filter_of_def)
    have c2: "covers ?s1 ?s2 [] []" by (rule covers_quiet) simp
    from covers_trans [OF c1 covers_trans [OF c2 c3]] show ?thesis by simp
  next
    case (Inl e)
    let ?mid = "from + (to - from) div 2"
    from run Inl have c: "from < to" and run2:
      "run_state (check (processLogs W Op from ?mid) (\<lambda>_. processLogs W Op (?mid + 1) to)) ?s2 = (Inr (), s')"
      and cond: "from < to \<and> \<not> wCancelled W (history ?s2) \<and> isLogRangeCapError e"
      by (auto simp: Let_def split: if_splits)
    from run2 obtain s3 where l: "run_state (processLogs W Op from ?mid) ?s2 = (Inr (), s3)"
      and rr: "run_state (processLogs W Op (?mid + 1) to) s3 = (Inr (), s')" by (auto simp: run_check_Inr)
    have lt: "unat from < unat to" using c by (simp add: word_less_nat_alt)
    note mid = unat_mid_bounds [OF c]
    have le: "from \<le> ?mid" "?mid + 1 \<le> to" unfolding word_le_nat_alt mid using lt by auto
    have c3: "covers ?s2 s3 [unat from..<Suc (unat ?mid)] []"
      by (rule "1.IH"(1) [OF Inl cond refl l le(1)])
    have c4: "covers s3 s' [unat (?mid + 1)..<Suc (unat to)] []"
      by (rule "1.IH"(2) [OF Inl cond refl rr le(2)])
    have whole: "[unat from..<Suc (unat ?mid)] @ [unat (?mid + 1)..<Suc (unat to)] = [unat from..<Suc (unat to)]"
      unfolding mid using lt upt_split [of "unat from" "Suc (unat from + (unat to - unat from) div 2)" "Suc (unat to)"]
      by simp
    have c1: "covers s ?s1 [] []" using Inl by (intro covers_quiet) simp
    have c2: "covers ?s1 ?s2 [] []" by (rule covers_quiet) simp
    from covers_trans [OF c1 covers_trans [OF c2 covers_trans [OF c3 c4]]] show ?thesis unfolding whole by simp
  qed
qed

lemma processNative_covers:
  assumes "run_state (processNative W Op from to) s = (Inr (), s')" and "unat to < 2 ^ 64 - 1"
  shows "covers s s' [] [unat from..<Suc (unat to)]"
  using native_loop_covers [OF assms(1) [unfolded processNative_def] assms(2)] unfolding covers_def by blast

text \<open>What a range must show for the configured sources.\<close>

definition log_part :: "stream \<Rightarrow> nat list \<Rightarrow> nat list" where
  "log_part s hs = (if sContracts s \<noteq> [] then hs else [])"

definition native_part :: "stream \<Rightarrow> nat list \<Rightarrow> nat list" where
  "native_part s hs = (if nfEnabled (sNative s) then hs else [])"

lemma parts_append [simp]:
  "log_part s a @ log_part s b = log_part s (a @ b)" "native_part s a @ native_part s b = native_part s (a @ b)"
  "log_part s [] = []" "native_part s [] = []"
  by (simp_all add: log_part_def native_part_def)

lemma parts_steady:
  assumes "steady s' = steady s"
  shows "log_part s' = log_part s" "native_part s' = native_part s"
  using steady_fields(1,2) [OF assms] by (simp_all add: fun_eq_iff log_part_def native_part_def)

lemma processRange_covers:
  assumes "run_state (processRange W Op from to) s = (Inr (), s')" and "from \<le> to" and "unat to < 2 ^ 64 - 1"
  shows "covers s s' (log_part s [unat from..<Suc (unat to)]) (native_part s [unat from..<Suc (unat to)])"
proof -
  from assms(1) obtain s1 where
    a: "run_state (if sContracts s \<noteq> [] then processLogs W Op from to else ok ()) s = (Inr (), s1)" and
    b: "run_state (if nfEnabled (sNative s) then processNative W Op from to else ok ()) s1 = (Inr (), s')"
    by (auto simp: processRange_def run_check_Inr)
  have c1: "covers s s1 (log_part s [unat from..<Suc (unat to)]) []"
    using a processLogs_covers [OF _ assms(2)] by (cases "sContracts s = []") (simp_all add: log_part_def)
  have c2: "covers s1 s' [] (native_part s [unat from..<Suc (unat to)])"
    using b processNative_covers [OF _ assms(3)] by (cases "nfEnabled (sNative s)") (simp_all add: native_part_def)
  from covers_trans [OF c1 c2] show ?thesis by simp
qed

lemma chunk_end_bounds:
  assumes "cur \<le> head" and "0 < chunk" and "unat head + unat chunk < 2 ^ 64"
  shows "cur \<le> chunk_end cur chunk head" "chunk_end cur chunk head \<le> head"
    "unat (chunk_end cur chunk head + 1) = Suc (unat (chunk_end cur chunk head))"
proof -
  have c: "unat cur \<le> unat head" "0 < unat chunk"
    using assms(1,2) by (simp_all add: word_le_nat_alt word_less_nat_alt)
  have s1: "unat (cur + chunk) = unat cur + unat chunk"
    using c assms(3) by (simp add: unat_word_ariths)
  have s2: "unat (cur + chunk - 1) = unat cur + unat chunk - 1"
    using s1 c by (simp add: unat_sub_if' s1)
  show le: "cur \<le> chunk_end cur chunk head"
    using assms(1) c s2 by (auto simp: chunk_end_def word_le_nat_alt)
  show h: "chunk_end cur chunk head \<le> head" by (auto simp: chunk_end_def)
  have "unat (chunk_end cur chunk head) + 1 < 2 ^ 64"
    using h assms(3) c(2) by (simp add: word_le_nat_alt)
  then show "unat (chunk_end cur chunk head + 1) = Suc (unat (chunk_end cur chunk head))"
    by (simp add: unat_word_ariths)
qed

lemma chunk_loop_covers:
  assumes "run_state (chunk_loop fuel W Op head cur) s = ((cur', None), s')"
    and "0 < oLogChunkBlocks Op" and "unat head + unat (oLogChunkBlocks Op) < 2 ^ 64"
    and "unat cur \<le> Suc (unat head)"
  shows "unat cur' = Suc (unat head)
    \<and> covers s s' (log_part s [unat cur..<Suc (unat head)]) (native_part s [unat cur..<Suc (unat head)])"
  using assms(1,4)
proof (induction fuel arbitrary: cur s)
  case (Suc fuel)
  show ?case
  proof (cases "cur \<le> head")
    case False
    then have "unat cur = Suc (unat head)" using Suc.prems(2) by (simp add: word_le_nat_alt)
    moreover have "cur' = cur" "s' = s" using Suc.prems(1) False by simp_all
    ultimately show ?thesis by simp
  next
    case True
    let ?e = "chunk_end cur (oLogChunkBlocks Op) head"
    note b = chunk_end_bounds [OF True assms(2,3)]
    from Suc.prems(1) True obtain s1 where
      p: "run_state (processRange W Op cur ?e) s = (Inr (), s1)" and
      l: "run_state (chunk_loop fuel W Op head (?e + 1)) (add_history s1 [Metric (SetLastProcessedBlock ?e)]) = ((cur', None), s')"
      by (auto simp: Let_def run_simps split: prod.splits sum.splits)
    let ?s2 = "add_history s1 [Metric (SetLastProcessedBlock ?e)]"
    have ue: "unat ?e \<le> unat head" using b(2) by (simp add: word_le_nat_alt)
    have small: "unat ?e < 2 ^ 64 - 1"
      using ue assms(2,3) by (simp add: word_less_nat_alt)
    have c1: "covers s s1 (log_part s [unat cur..<Suc (unat ?e)]) (native_part s [unat cur..<Suc (unat ?e)])"
      by (rule processRange_covers [OF p b(1) small])
    have c2: "covers s1 ?s2 [] []" by (rule covers_quiet) simp
    have "steady ?s2 = steady s" using c1 c2 by (simp add: covers_def)
    then have parts: "log_part ?s2 = log_part s" "native_part ?s2 = native_part s" by (rule parts_steady)+
    from Suc.IH [OF l] ue b(3) have fin: "unat cur' = Suc (unat head)" and
      c3: "covers ?s2 s' (log_part s [Suc (unat ?e)..<Suc (unat head)]) (native_part s [Suc (unat ?e)..<Suc (unat head)])"
      by (simp_all add: parts)
    have whole: "[unat cur..<Suc (unat ?e)] @ [Suc (unat ?e)..<Suc (unat head)] = [unat cur..<Suc (unat head)]"
      using b(1) ue by (intro upt_split) (simp_all add: word_le_nat_alt)
    from covers_trans [OF c1 covers_trans [OF c2 c3]] fin show ?thesis
      by (simp add: whole del: upt_Suc)
  qed
qed simp

end
