(* ===== verification/Polling.thy ===== *)
theory Polling
  imports OnchainStream
begin

text \<open>
  What one poll and the run loop of \<^verbatim>\<open>src/internal/stream/stream.go\<close> do to the chain: which
  heights a poll covers, that its loops end within their fuel, and which heights lie behind a
  saved cursor. The lemmas on the pieces of a poll are in OnchainStream.
\<close>

section \<open>The sources of a stream stay what they are during a poll\<close>

definition sources :: "stream \<Rightarrow> resolved_contract list \<times> native_filter \<times> watch_set option" where
  "sources s = (sContracts s, sNative s, sPending s)"

lemma settled_sources [simp]: "settled sources"
  by (simp add: settled_def sources_def)

lemma parts_sources:
  assumes "sources s' = sources s"
  shows "log_part s' = log_part s" "native_part s' = native_part s"
  using assms by (simp_all add: fun_eq_iff sources_def log_part_def native_part_def)

lemma updateHeadBlockTime_sources: "state_io_rel (frame sources quiet) (updateHeadBlockTime W head)"
  unfolding updateHeadBlockTime_def by (intro fr_intros) simp_all

lemma updateFinalizedBlock_sources: "state_io_rel (frame sources quiet) (updateFinalizedBlock W)"
  unfolding updateFinalizedBlock_def by (intro fr_intros fr_modify) (simp_all add: sources_def)

lemma fork_walk_sources: "state_io_rel (frame sources quiet) (fork_walk W t floor k)"
  by (induction k) (auto simp: Let_def intro!: fr_intros split: option.split)

lemma handleReorg_sources: "state_io_rel (frame sources quiet) (handleReorgIfAny W Op nb head hb)"
  unfolding handleReorgIfAny_def frontier_hash_def resolveFork_def canonicalHashAt_def emitReorg_def
  by (intro fr_intros fr_modify fork_walk_sources) (simp_all add: sources_def)

section \<open>The pieces of a successful poll\<close>

text \<open>\<open>spans s s' ls ns\<close>: the sources did not change and the heights in between are these.\<close>

definition spans :: "stream \<Rightarrow> stream \<Rightarrow> nat list \<Rightarrow> nat list \<Rightarrow> bool" where
  "spans s s' ls ns \<longleftrightarrow> sources s' = sources s
     \<and> (\<exists>h. history s' = history s @ h \<and> logged h = ls \<and> scanned h = ns)"

lemma spans_refl [simp]: "spans s s [] []"
  by (auto simp: spans_def)

lemma spans_parts:
  assumes "spans s s' a b"
  shows "log_part s' = log_part s" "native_part s' = native_part s"
  using assms unfolding spans_def by (auto dest: parts_sources)

lemma spans_trans: "spans s t a b \<Longrightarrow> spans t u c d \<Longrightarrow> spans s u (a @ c) (b @ d)"
  unfolding spans_def by (elim conjE exE, intro conjI, simp) (metis append.assoc logged_simps(3,6))

lemma steady_sources: "steady s' = steady s \<Longrightarrow> sources s' = sources s"
  by (simp add: sources_def steady_fields(1,2,10) [of s' s])

lemma covers_spans: "covers s s' a b \<Longrightarrow> spans s s' a b"
  unfolding covers_def spans_def using steady_sources by blast

lemma frame_spans:
  assumes "state_io_rel (frame sources quiet) m" and "run_state m s = (r, s')"
  shows "spans s s' [] []"
  using frameD [OF assms] quiet_hist unfolding spans_def by metis

lemma spans_quiet: "quiet x \<Longrightarrow> spans s (add_history s [x]) [] []"
  by (intro covers_spans covers_quiet)

text \<open>The head of a poll, the start after the reorg check, and how the poll ends.\<close>

definition poll_end :: "world \<Rightarrow> options \<Rightarrow> u64 \<Rightarrow> u64 \<Rightarrow> u64 \<Rightarrow> stream \<Rightarrow> stream \<Rightarrow> bool" where
  "poll_end W Op head start nb' s s' \<longleftrightarrow>
     (if start > head then nb' = start \<and> spans s s' [] []
      else \<exists>s1 s2. spans s s1 [] [] \<and> run_state (chunk_loop (wFuel W) W Op head start) s1 = ((nb', None), s2)
             \<and> spans s2 s' [] [])"

lemma pollOnce_pieces:
  assumes "run_state (pollOnce W Op nb) s = ((nb', None), s')"
  obtains head hb s1 start b s2 where "wBlockNumber W (history s) = Inr head"
    "spans s s1 [] []" "\<exists>h. history s1 = history s @ CallBlockNumber (Inr head) # h"
    "run_state (handleReorgIfAny W Op nb head hb) s1 = (Inr (start, b), s2)"
    "poll_end W Op head start nb' s2 s'"
proof -
  let ?r = "wBlockNumber W (history s)"
  let ?s0 = "add_history s [CallBlockNumber ?r]"
  from assms obtain head where r: "?r = Inr head"
    unfolding pollOnce_def by (auto simp: client_BlockNumber_def run_simps split: sum.splits)
  let ?a = "add_history ?s0 [Metric (SetHead head)]"
  obtain hb t where u: "run_state (updateHeadBlockTime W head) ?a = (hb, t)" by fastforce
  obtain t2 where f: "run_state (updateFinalizedBlock W) t = ((), t2)"
    by (cases "run_state (updateFinalizedBlock W) t") auto
  let ?s1 = "t2\<lparr> sLastHead := head \<rparr>"
  note pre = u [unfolded r, simplified] f r
  from assms obtain start b s2 where h: "run_state (handleReorgIfAny W Op nb head hb) ?s1 = (Inr (start, b), s2)"
    unfolding pollOnce_def
    by (cases "run_state (handleReorgIfAny W Op nb head hb) ?s1")
      (auto simp: client_BlockNumber_def run_simps pre split: sum.splits)
  have c1: "spans s ?s0 [] []" and c2: "spans ?s0 ?a [] []" by (intro spans_quiet; simp)+
  have c3: "spans ?a t [] []" by (rule frame_spans [OF updateHeadBlockTime_sources u])
  have c4: "spans t t2 [] []" by (rule frame_spans [OF updateFinalizedBlock_sources f])
  have c5: "spans t2 ?s1 [] []" by (simp add: spans_def sources_def)
  have sp: "spans s ?s1 [] []"
    using spans_trans [OF c1 spans_trans [OF c2 spans_trans [OF c3 spans_trans [OF c4 c5]]]] by simp
  have "spans ?s0 ?s1 [] []"
    using spans_trans [OF c2 spans_trans [OF c3 spans_trans [OF c4 c5]]] by simp
  then have called: "\<exists>h. history ?s1 = history s @ CallBlockNumber (Inr head) # h"
    unfolding spans_def by (auto simp: r)
  let ?m = "\<lambda>l. add_history (add_history s2 [Metric (SetLagBlocks l)]) [Metric (HealthLag l)]"
  have m: "spans s2 (?m l) [] []" for l
    using spans_trans [OF spans_quiet spans_quiet, of "Metric (SetLagBlocks l)" "Metric (HealthLag l)"] by simp
  have "poll_end W Op head start nb' s2 s'"
  proof (cases "start > head")
    case True
    with assms have "nb' = start" "s' = ?m 0"
      unfolding pollOnce_def by (simp_all add: client_BlockNumber_def run_simps pre h)
    with True m show ?thesis by (simp add: poll_end_def)
  next
    case False
    obtain cur err s3 where l: "run_state (chunk_loop (wFuel W) W Op head start) (?m (head - start)) = ((cur, err), s3)"
      by (metis surj_pair)
    with assms False have e: "err = None" "cur = nb'" and
      s': "s' = (case hb of Some bl \<Rightarrow> s3\<lparr> sReorg := recordHash (sReorg s3) head (bHash bl) head \<rparr> | None \<Rightarrow> s3)"
      unfolding pollOnce_def
      by (auto simp: client_BlockNumber_def run_simps pre h split: option.splits)
    have "spans s3 s' [] []" unfolding s' by (auto simp: spans_def sources_def split: option.split)
    with False m l e show ?thesis unfolding poll_end_def by auto
  qed
  with that [OF r sp called h] show thesis .
qed

section \<open>Coverage of a poll\<close>

lemma chunk_loop_spans:
  assumes "spans s s1 [] []" and "run_state (chunk_loop fuel W Op head cur) s1 = ((cur', None), s2)"
    and "spans s2 s' [] []" and "cur \<le> head"
    and "0 < oLogChunkBlocks Op" and "unat head + unat (oLogChunkBlocks Op) < 2 ^ 64"
  shows "unat cur' = Suc (unat head)"
    "spans s s' (log_part s [unat cur..<Suc (unat head)]) (native_part s [unat cur..<Suc (unat head)])"
proof -
  have le: "unat cur \<le> Suc (unat head)" using assms(4) by (simp add: word_le_nat_alt)
  note c = chunk_loop_covers [OF assms(2,5,6) le]
  then show "unat cur' = Suc (unat head)" by blast
  note p = spans_parts [OF assms(1)]
  from c have c2: "spans s1 s2 (log_part s [unat cur..<Suc (unat head)]) (native_part s [unat cur..<Suc (unat head)])"
    unfolding p by (blast intro: covers_spans)
  from spans_trans [OF assms(1) spans_trans [OF c2 assms(3)]]
  show "spans s s' (log_part s [unat cur..<Suc (unat head)]) (native_part s [unat cur..<Suc (unat head)])"
    by simp
qed

lemma frontier_bound: "nb \<noteq> 0 \<Longrightarrow> f \<le> frontier_of nb head \<Longrightarrow> f + 1 \<le> nb \<and> unat (f + 1) = Suc (unat f)"
proof -
  assume nb: "nb \<noteq> 0" and f: "f \<le> frontier_of nb head"
  have pos: "0 < unat nb" using nb by (simp add: unat_gt_0)
  then have "unat (nb - 1) = unat nb - 1" by (simp add: unat_sub_if')
  note u = this pos
  have "frontier_of nb head \<le> nb - 1" by (auto simp: frontier_of_def)
  with f have le: "unat f \<le> unat nb - 1" using u by (simp add: word_le_nat_alt)
  then have "unat f + 1 < 2 ^ 64" using u unsigned_less [of nb, where 'a = nat] by simp
  then have "unat (f + 1) = Suc (unat f)" by (simp add: unat_word_ariths)
  with le u show ?thesis by (simp add: word_le_nat_alt)
qed

lemma reorg_start:
  assumes "run_state (handleReorgIfAny W Op nb head hb) s = (Inr (start, b), s')"
  shows "start \<le> nb"
  using assms
proof (cases rule: handleReorg_cases)
  case (reorg t frontier rc h h2 d)
  then have "rdForkBlock d \<le> frontier_of nb head" by (simp add: fork_ok_def)
  with frontier_bound [OF reorg(3)] reorg show ?thesis by simp
qed simp

lemma poll_heights:
  assumes "run_state (pollOnce W Op nb) s = ((nb', None), s')"
    and "0 < oLogChunkBlocks Op"
    and "\<forall>h v. wBlockNumber W h = Inr v \<longrightarrow> unat v + unat (oLogChunkBlocks Op) < 2 ^ 64"
  shows "\<exists>head start h. history s' = history s @ CallBlockNumber (Inr head) # h \<and> start \<le> nb
    \<and> (if start > head then nb' = start \<and> logged h = [] \<and> scanned h = []
       else unat nb' = Suc (unat head)
         \<and> logged h = log_part s [unat start..<unat nb'] \<and> scanned h = native_part s [unat start..<unat nb'])"
  using assms(1)
proof (cases rule: pollOnce_pieces)
  case (1 head hb s1 start b s2)
  have small: "unat head + unat (oLogChunkBlocks Op) < 2 ^ 64" using assms(3) 1(1) by blast
  have a: "spans s s2 [] []"
    using spans_trans [OF 1(2) frame_spans [OF handleReorg_sources 1(4)]] by simp
  note p = spans_parts [OF a]
  let ?hs = "if start > head then [] else [unat start..<unat nb']"
  have e: "spans s2 s' (log_part s ?hs) (native_part s ?hs) \<and> (if start > head then nb' = start else unat nb' = Suc (unat head))"
  proof (cases "start > head")
    case False
    with 1(5) obtain t1 t2 where t: "spans s2 t1 [] []"
      "run_state (chunk_loop (wFuel W) W Op head start) t1 = ((nb', None), t2)" "spans t2 s' [] []"
      unfolding poll_end_def by auto
    have le: "start \<le> head" using False by simp
    from chunk_loop_spans [OF t le assms(2) small] False show ?thesis by (simp add: p)
  qed (use 1(5) in \<open>simp add: poll_end_def\<close>)
  from 1(3) obtain h1 where h1: "history s1 = history s @ CallBlockNumber (Inr head) # h1" ..
  from 1(2) h1 have q1: "logged h1 = []" "scanned h1 = []" by (auto simp: spans_def logged1_def scanned1_def)
  from spans_trans [OF frame_spans [OF handleReorg_sources 1(4)] conjunct1 [OF e]] obtain h2 where
    h2: "history s' = history s1 @ h2" "logged h2 = log_part s ?hs" "scanned h2 = native_part s ?hs"
    unfolding spans_def by auto
  show ?thesis
    by (intro exI [of _ head] exI [of _ start] exI [of _ "h1 @ h2"] conjI)
      (use h1 h2 q1 e reorg_start [OF 1(4)] in \<open>auto split: if_splits\<close>)
qed

section \<open>No loop of a poll runs out of fuel\<close>

text \<open>\<open>errors E m\<close>: every error that \<open>m\<close> returns satisfies \<open>E\<close>.\<close>

definition errors :: "('e \<Rightarrow> bool) \<Rightarrow> ('s, 'e + 'a) state \<Rightarrow> bool" where
  "errors E m \<longleftrightarrow> (\<forall>s e s'. run_state m s = (Inl e, s') \<longrightarrow> E e)"

lemma errors_ok: "errors E (ok x)"
  by (simp add: errors_def)

lemma errors_fail: "E e \<Longrightarrow> errors E (fail e)"
  by (simp add: errors_def)

lemma errors_bind: "(\<And>x. errors E (k x)) \<Longrightarrow> errors E (State_Monad.bind m k)"
  by (auto simp: errors_def split: prod.splits)

lemma errors_check: "errors E m \<Longrightarrow> (\<And>x. errors E (k x)) \<Longrightarrow> errors E (check m k)"
  unfolding errors_def by (auto simp: run_check split: prod.splits sum.splits)

lemma errors_if: "(b \<Longrightarrow> errors E m) \<Longrightarrow> (\<not> b \<Longrightarrow> errors E n) \<Longrightarrow> errors E (if b then m else n)"
  by simp

lemma errors_for_each: "(\<And>x. errors E (f x)) \<Longrightarrow> errors E (for_each f xs)"
  by (induction xs) (auto intro: errors_ok errors_check)

lemma errors_case_sum:
  "(\<And>e. r = Inl e \<Longrightarrow> errors E (f e)) \<Longrightarrow> (\<And>x. r = Inr x \<Longrightarrow> errors E (g x)) \<Longrightarrow>
     errors E (case r of Inl e \<Rightarrow> f e | Inr x \<Rightarrow> g x)"
  by (cases r) auto

lemma errors_case_option:
  "(r = None \<Longrightarrow> errors E f) \<Longrightarrow> (\<And>x. r = Some x \<Longrightarrow> errors E (g x)) \<Longrightarrow>
     errors E (case r of None \<Rightarrow> f | Some x \<Rightarrow> g x)"
  by (cases r) auto

lemma errors_case_list:
  "(r = [] \<Longrightarrow> errors E f) \<Longrightarrow> (\<And>x xs. r = x # xs \<Longrightarrow> errors E (g x xs)) \<Longrightarrow>
     errors E (case r of [] \<Rightarrow> f | x # xs \<Rightarrow> g x xs)"
  by (cases r) auto

lemma errors_case_prod: "(\<And>x y. r = (x, y) \<Longrightarrow> errors E (f x y)) \<Longrightarrow> errors E (case r of (x, y) \<Rightarrow> f x y)"
  by (cases r) auto

lemma errors_let: "(\<And>x. x = r \<Longrightarrow> errors E (f x)) \<Longrightarrow> errors E (Let r f)"
  by simp

lemma errors_lift_rpc: "(\<And>e. E (RpcErr e)) \<Longrightarrow> errors E (lift_rpc m)"
  by (auto simp: errors_def run_lift_rpc split: prod.splits sum.splits)

lemma errors_pure_rpc: "(\<And>e. E (RpcErr e)) \<Longrightarrow> errors E (pure_rpc r)"
  by (auto simp: errors_def run_pure_rpc split: sum.splits)

lemma errors_emit: "(\<And>e. E (EmitErr e)) \<Longrightarrow> errors E (emit W env)"
  by (auto simp: errors_def run_emit split: option.splits)

lemmas errors_intros = errors_ok errors_fail errors_bind errors_check errors_if errors_for_each
  errors_case_sum errors_case_option errors_case_list errors_case_prod errors_let errors_lift_rpc
  errors_pure_rpc errors_emit

abbreviation no_fuel_error :: "(stream, stream_error + 'a) state \<Rightarrow> bool" where
  "no_fuel_error \<equiv> errors (\<lambda>e. e \<noteq> OutOfFuel)"

lemma traceBlock_fueled: "no_fuel_error (traceBlockInternal W blk n)"
  unfolding errors_def traceBlockInternal_def maxTraceAttempts_def
  by (auto dest!: trace_loop_result)

lemma native_block_fueled: "no_fuel_error (native_block W Op n)"
  unfolding native_block_def detectNativeTransfers_def emitNative_def emitInternalTransfers_def emitInternal_def
  by (intro errors_intros traceBlock_fueled) simp_all

lemma native_loop_fueled:
  "unat n \<le> Suc (unat to) \<Longrightarrow> Suc (unat to) < unat n + fuel \<Longrightarrow> unat to < 2 ^ 64 - 1 \<Longrightarrow>
     no_fuel_error (native_loop fuel W Op n to)"
proof (induction fuel arbitrary: n)
  case (Suc fuel)
  show ?case
  proof (cases "n \<le> to")
    case True
    then have "unat n \<le> unat to" by (simp add: word_le_nat_alt)
    then have "unat (n + 1) = Suc (unat n)" and "unat n \<le> unat to"
      using Suc.prems(3) True by (simp_all add: unat_word_ariths)
    with Suc.IH [of "n + 1"] Suc.prems True show ?thesis
      by (auto intro!: errors_intros native_block_fueled)
  qed (simp add: errors_ok)
qed simp

lemma emitLog_fueled: "no_fuel_error (emitLog W Op l)"
  unfolding emitLog_def by (intro errors_intros) (auto split: decode_error.split intro!: errors_intros)

lemma processLogs_fueled: "no_fuel_error (processLogs W Op from to)"
proof (induction W Op "from" to rule: processLogs.induct)
  case (1 W Op "from" to)
  show ?case
    by (subst processLogs.simps, intro errors_intros emitLog_fueled) (use 1 in \<open>auto intro: errors_intros\<close>)
qed

lemma processRange_fueled:
  assumes "from \<le> to" and "unat to < 2 ^ 64 - 1" and "Suc (unat to) < wFuel W"
  shows "no_fuel_error (processRange W Op from to)"
proof -
  have "unat from \<le> Suc (unat to)" using assms(1) by (simp add: word_le_nat_alt)
  then show ?thesis unfolding processRange_def processNative_def
    by (intro errors_intros processLogs_fueled native_loop_fueled) (use assms in simp_all)
qed

lemma chunk_loop_fueled:
  assumes "run_state (chunk_loop fuel W Op head cur) s = ((cur', err), s')"
    and "unat cur \<le> Suc (unat head)" and "Suc (unat head) < unat cur + fuel"
    and "0 < oLogChunkBlocks Op" and "unat head + unat (oLogChunkBlocks Op) < 2 ^ 64" and "Suc (unat head) < wFuel W"
  shows "err \<noteq> Some OutOfFuel"
  using assms(1-3)
proof (induction fuel arbitrary: cur s)
  case (Suc fuel)
  show ?case
  proof (cases "cur \<le> head")
    case True
    let ?e = "chunk_end cur (oLogChunkBlocks Op) head"
    note b = chunk_end_bounds [OF True assms(4,5)]
    have ue: "unat ?e \<le> unat head" "unat cur \<le> unat ?e" using b(1,2) by (simp_all add: word_le_nat_alt)
    have small: "unat ?e < 2 ^ 64 - 1" using ue assms(4,5) by (simp add: word_less_nat_alt)
    have fu: "Suc (unat ?e) < wFuel W" using ue assms(6) by simp
    note nf = processRange_fueled [OF b(1) small fu]
    obtain r s1 where p: "run_state (processRange W Op cur ?e) s = (r, s1)" by (metis surj_pair)
    show ?thesis
    proof (cases r)
      case (Inl e)
      with nf p have "e \<noteq> OutOfFuel" by (simp add: errors_def) blast
      with Suc.prems(1) True p Inl show ?thesis by (auto simp: Let_def)
    next
      case (Inr x)
      with Suc.prems(1) True p have
        l: "run_state (chunk_loop fuel W Op head (?e + 1)) (add_history s1 [Metric (SetLastProcessedBlock ?e)]) = ((cur', err), s')"
        by (simp add: Let_def run_metric)
      show ?thesis by (rule Suc.IH [OF l]) (use ue b(3) Suc.prems in simp_all)
    qed
  qed (use Suc.prems in auto)
qed simp

lemma reorg_fueled: "no_fuel_error (handleReorgIfAny W Op nb head hb)"
proof -
  have "no_fuel_error (fork_walk W t floor k)" for t floor k
    by (induction k) (auto simp: Let_def intro!: errors_intros split: option.split)
  then show ?thesis
    unfolding handleReorgIfAny_def frontier_hash_def resolveFork_def canonicalHashAt_def emitReorg_def
    by (intro errors_intros) simp_all
qed

text \<open>Where a failed poll stopped.\<close>

lemma pollOnce_failed:
  assumes "run_state (pollOnce W Op nb) s = ((nb', Some e), s')"
  obtains (no_head) r where "e = RpcErr r" "sReorg s' = sReorg s"
  | (no_reorg_check) head hb s1 where "run_state (handleReorgIfAny W Op nb head hb) s1 = (Inl e, s')"
      "sReorg s1 = sReorg s" "\<exists>h. history s1 = history s @ h"
  | (chunk) head hb s1 start b s2 where "wBlockNumber W (history s) = Inr head"
      "sReorg s1 = sReorg s" "\<exists>h. history s1 = history s @ h"
      "run_state (handleReorgIfAny W Op nb head hb) s1 = (Inr (start, b), s2)" "\<not> head < start"
      "run_state (chunk_loop (wFuel W) W Op head start)
         (add_history s2 [Metric (SetLagBlocks (head - start)), Metric (HealthLag (head - start))]) = ((nb', Some e), s')"
proof (cases "wBlockNumber W (history s)")
  case (Inl r)
  with assms have "e = RpcErr r" "sReorg s' = sReorg s"
    unfolding pollOnce_def by (auto simp: client_BlockNumber_def run_simps)
  then show ?thesis by (rule no_head)
next
  case (Inr head)
  let ?a = "add_history s [CallBlockNumber (Inr head), Metric (SetHead head)]"
  obtain hb t where u: "run_state (updateHeadBlockTime W head) ?a = (hb, t)" by fastforce
  obtain t2 where f: "run_state (updateFinalizedBlock W) t = ((), t2)"
    by (cases "run_state (updateFinalizedBlock W) t") auto
  let ?s1 = "t2\<lparr> sLastHead := head \<rparr>"
  obtain rr s2 where h: "run_state (handleReorgIfAny W Op nb head hb) ?s1 = (rr, s2)" by (metis surj_pair)
  have i1: "state_io_rel (frame sReorg (\<lambda>_. True)) (updateHeadBlockTime W head)"
    unfolding updateHeadBlockTime_def by (intro fr_intros) (simp_all add: settled_def)
  have i2: "state_io_rel (frame sReorg (\<lambda>_. True)) (updateFinalizedBlock W)"
    unfolding updateFinalizedBlock_def by (intro fr_intros fr_modify) (simp_all add: settled_def)
  have pre: "sReorg ?s1 = sReorg s" "\<exists>h. history ?s1 = history s @ h"
    using state_io_relD [OF i1 u] state_io_relD [OF i2 f] unfolding frame_def by auto
  show ?thesis
  proof (cases rr)
    case (Inl e')
    with assms Inr u f h have "e' = e" "s2 = s'"
      unfolding pollOnce_def by (auto simp: client_BlockNumber_def run_simps)
    with h Inl pre show ?thesis using no_reorg_check by blast
  next
    case rr: (Inr sb)
    obtain start b where sb: "sb = (start, b)" by (cases sb)
    obtain cur err s3 where l: "run_state (chunk_loop (wFuel W) W Op head start)
        (add_history s2 [Metric (SetLagBlocks (head - start)), Metric (HealthLag (head - start))]) = ((cur, err), s3)"
      by (metis surj_pair)
    have nl: "\<not> head < start"
      using assms Inr u f h rr sb unfolding pollOnce_def
      by (auto simp: client_BlockNumber_def run_simps split: if_splits)
    have "cur = nb' \<and> err = Some e \<and> s3 = s'"
      using assms Inr u f h rr sb nl l unfolding pollOnce_def
      by (auto simp: client_BlockNumber_def run_simps split: option.splits)
    with l h rr sb nl Inr pre show ?thesis using chunk by blast
  qed
qed

text \<open>
C7: A poll always returns: with more fuel than the node's head is high, and a head the next chunk
  does not carry past the 64-bit range, none of its loops - chunks, bisection of log ranges,
  blocks, trace retries, the walk to the fork - is cut off, for every node, output and schedule.
\<close>
theorem poll_returns:
  assumes "run_state (pollOnce W Op nb) s = ((nb', err), s')"
    and "0 < oLogChunkBlocks Op"
    and "\<forall>h v. wBlockNumber W h = Inr v \<longrightarrow> unat v + unat (oLogChunkBlocks Op) < 2 ^ 64 \<and> Suc (unat v) < wFuel W"
  shows "err \<noteq> Some OutOfFuel"
proof
  assume e: "err = Some OutOfFuel"
  from assms(1) [unfolded e] show False
  proof (cases rule: pollOnce_failed)
    case (no_reorg_check head hb s1)
    then show False using reorg_fueled unfolding errors_def by blast
  next
    case (chunk head hb s1 start b s2)
    then have "\<not> head < start" "wBlockNumber W (history s) = Inr head" by blast+
    then have "Some OutOfFuel \<noteq> Some OutOfFuel"
      by (intro chunk_loop_fueled [OF chunk(6)])
        (use assms(2) spec [OF assms(3), of "history s"] in \<open>simp_all add: word_less_nat_alt\<close>)
    then show False by simp
  qed simp
qed

section \<open>What a range of blocks may change\<close>

text \<open>A frame may be weakened in what it keeps and in what may happen.\<close>

lemma io_weaken:
  assumes "state_io_rel (frame f P) m" and "\<And>x. P x \<Longrightarrow> Q x" and "\<And>s s'. f s' = f s \<Longrightarrow> g s' = g s"
  shows "state_io_rel (frame g Q) m"
  using assms unfolding state_io_rel_def frame_def by blast

definition no_save :: "happening \<Rightarrow> bool" where
  "no_save x \<longleftrightarrow> (\<forall>c b. x \<noteq> SaveCursor c b)"

lemma no_save_simps [simp]: "no_save (CallBlockNumber a)" "no_save (CallFinalized b)" "no_save (CallReceipt t rc)"
    "no_save (CallTraceBlock n tb)" "no_save (CallTraceTx t tt)" "no_save (CallTraceParity n tp)"
    "no_save (Emitted env er)" "no_save (Metric m)" "no_save LoadCursor" "no_save (Slept sl)"
    "no_save (CallBlock n full bl)" "no_save (CallLogs f lg)"
  by (simp_all add: no_save_def)

lemma io_quiet: "state_io_rel (frame f quiet) m \<Longrightarrow> state_io_rel (frame f no_save) m"
  by (erule io_weaken) (simp_all add: quiet_def no_save_def)

lemma native_block_steady: "state_io_rel (frame steady no_save) (native_block W Op n)"
  unfolding native_block_def
  by (intro fr_intros io_quiet [OF detectNativeTransfers_steady] io_quiet [OF emitNative_steady]
      io_quiet [OF emitInternalTransfers_steady]) simp_all

lemma native_loop_steady: "state_io_rel (frame steady no_save) (native_loop fuel W Op n to)"
proof (induction fuel arbitrary: n)
  case 0
  show ?case unfolding native_loop.simps by (rule fr_intros)
next
  case (Suc fuel)
  show ?case unfolding native_loop.simps by (intro fr_intros native_block_steady Suc.IH)
qed

lemma processLogs_steady: "state_io_rel (frame steady no_save) (processLogs W Op from to)"
proof (induction W Op "from" to rule: processLogs.induct)
  case (1 W Op "from" to)
  show ?case
    by (subst processLogs.simps, intro fr_intros io_quiet [OF emitLog_io])
      (use 1 in \<open>auto intro: fr_intros\<close>)
qed

lemma chunk_loop_steady: "state_io_rel (frame steady no_save) (chunk_loop fuel W Op head cur)"
proof (induction fuel arbitrary: cur)
  case 0
  show ?case unfolding chunk_loop.simps by (rule fr_intros)
next
  case (Suc fuel)
  show ?case unfolding chunk_loop.simps Let_def processRange_def processNative_def
    by (intro fr_intros processLogs_steady native_loop_steady Suc.IH) simp_all
qed

section \<open>A rewind whose re-scan fails\<close>

text \<open>An error of the reorg check leaves the tracker alone.\<close>

lemma handleReorg_error:
  assumes "run_state (handleReorgIfAny W Op nb head hb) s = (Inl e, s')"
  shows "sReorg s' = sReorg s"
proof -
  have w: "state_io_rel (frame sReorg (\<lambda>_. True)) (resolveFork W t f h)"
    "state_io_rel (frame sReorg (\<lambda>_. True)) (frontier_hash W f head hb)" for t f h
  proof -
    have fw: "state_io_rel (frame sReorg (\<lambda>_. True)) (fork_walk W t floor k)" for floor k
      by (induction k) (auto simp: Let_def settled_def intro!: fr_intros split: option.split)
    show "state_io_rel (frame sReorg (\<lambda>_. True)) (resolveFork W t f h)"
      unfolding resolveFork_def canonicalHashAt_def by (intro fr_intros fw) (simp_all add: settled_def)
    show "state_io_rel (frame sReorg (\<lambda>_. True)) (frontier_hash W f head hb)"
      unfolding frontier_hash_def by (intro fr_intros) (simp_all add: settled_def)
  qed
  have em: "state_io_rel (frame sReorg (\<lambda>_. True)) (emitReorg W Op d)" for d
    unfolding emitReorg_def by (intro fr_intros) (simp_all add: settled_def)
  from assms show ?thesis
    unfolding handleReorgIfAny_def
    by (auto simp: run_check run_simps Let_def split: option.splits if_splits prod.splits sum.splits
        dest!: state_io_relD [OF w(1)] state_io_relD [OF w(2)] state_io_relD [OF em] simp: frame_def)
qed


text \<open>\<open>rewound s s' nb fork\<close>: a marker over the heights above \<open>fork\<close> was written and the tracker
forgot them.\<close>

definition rewound :: "options \<Rightarrow> u64 \<Rightarrow> reorg_data \<Rightarrow> stream \<Rightarrow> stream \<Rightarrow> bool" where
  "rewound Op nb d s s' \<longleftrightarrow> nb \<noteq> 0 \<and> rdForkBlock d \<le> rdToBlock d \<and> rdToBlock d < nb
     \<and> sReorg s' = forgetAbove (sReorg s) (rdForkBlock d)
     \<and> (\<exists>h. history s' = history s @ h \<and> Emitted (reorg_envelope Op d) None \<in> set h)"

lemma handleReorg_rewound:
  assumes "run_state (handleReorgIfAny W Op nb head hb) s = (Inr (start, b), s')" and "sReorg s' \<noteq> sReorg s"
  shows "\<exists>d. start = rdForkBlock d + 1 \<and> rewound Op nb d s s'"
proof -
  have "b" using assms by (cases rule: handleReorg_cases) simp_all
  with assms(1) have "run_state (handleReorgIfAny W Op nb head hb) s = (Inr (start, True), s')" by simp
  then obtain t h0 h d where d: "sReorg s = Some t" "nb \<noteq> 0" "fork_ok t (frontier_of nb head) h d"
    "start = rdForkBlock d + 1"
    "s' = (add_history s (h0 @ [Emitted (reorg_envelope Op d) None, Metric IncReorgsDetected]))
          \<lparr> sReorg := forgetAbove (sReorg s) (rdForkBlock d) \<rparr>"
    by (rule reorg_detected) blast
  from frontier_bound [OF d(2) order_refl, of head] have "frontier_of nb head < nb"
    by (simp add: word_le_nat_alt word_less_nat_alt)
  moreover from d(3) have "rdToBlock d = frontier_of nb head" "rdForkBlock d \<le> rdToBlock d"
    by (simp_all add: fork_ok_def)
  moreover have "\<exists>h'. history s' = history s @ h' \<and> Emitted (reorg_envelope Op d) None \<in> set h'"
    using d(5) by (intro exI [of _ "h0 @ [Emitted (reorg_envelope Op d) None, Metric IncReorgsDetected]"]) simp
  moreover have "sReorg s' = forgetAbove (sReorg s) (rdForkBlock d)" using d(5) by simp
  ultimately show ?thesis unfolding rewound_def using d(2,4) by (intro exI [of _ d] conjI) simp_all
qed

lemma rewound_extend: "rewound Op nb d s t \<Longrightarrow> frame sReorg P t u \<Longrightarrow> rewound Op nb d s u"
  by (auto simp: rewound_def frame_def)

lemma rewound_prefix:
  "rewound Op nb d s1 t \<Longrightarrow> sReorg s1 = sReorg s \<Longrightarrow> \<exists>h. history s1 = history s @ h \<Longrightarrow> rewound Op nb d s t"
  by (auto simp: rewound_def)

lemma failed_poll_rewound:
  assumes "run_state (pollOnce W Op nb) s = ((nb', Some e), s')" and "sReorg s' \<noteq> sReorg s"
  shows "\<exists>d. rewound Op nb d s s'"
  using assms(1)
proof (cases rule: pollOnce_failed)
  case (no_head r)
  then show ?thesis using assms(2) by simp
next
  case (no_reorg_check head hb s1)
  then show ?thesis using handleReorg_error assms(2) by metis
next
  case (chunk head hb s1 start b s2)
  from state_io_relD [OF chunk_loop_steady chunk(6)] have st: "frame sReorg (\<lambda>_. True) s2 s'"
    unfolding frame_def using steady_fields(6) [of s'] by (auto simp: steady_def)
  then have "sReorg s2 \<noteq> sReorg s1" using assms(2) chunk(2) by (simp add: frame_def)
  from handleReorg_rewound [OF chunk(4) this] obtain d where "rewound Op nb d s1 s2" by blast
  from rewound_extend [OF rewound_prefix [OF this chunk(2,3)] st] show ?thesis by blast
qed

lemma reset_removed_io:
  "settled f \<Longrightarrow> (\<And>m. P (Metric m)) \<Longrightarrow> state_io_rel (frame f P) (reset_removed keep cs)"
  by (induction cs) (auto intro!: fr_intros)

lemma reload_sReorg:
  "state_io_rel (frame sReorg (\<lambda>_. True)) (stage_reload W)"
  "state_io_rel (frame sReorg (\<lambda>_. True)) applyPendingReload"
  unfolding stage_reload_def QueueReload_def applyPendingReload_def
  by (intro fr_intros fr_modify reset_removed_io; simp add: settled_def setWatchSet_def)+

lemma run_failed_continues:
  assumes "run_state (run_failed W v e) s = (Continue v', s')"
  shows "v' = v\<lparr> rFailures := rFailures v + 1 \<rparr>" "frame sReorg (\<lambda>_. True) s s'"
proof -
  show "v' = v\<lparr> rFailures := rFailures v + 1 \<rparr>"
    using assms unfolding run_failed_def
    by (auto simp: run_simps split: stream_error.splits if_splits)
  have "state_io_rel (frame sReorg (\<lambda>_. True)) (run_failed W v e)"
    unfolding run_failed_def
    by (intro fr_intros) (auto simp: settled_def split: stream_error.split intro!: fr_intros)
  from state_io_relD [OF this assms] show "frame sReorg (\<lambda>_. True) s s'" .
qed

lemma run_succeeded_continues:
  "run_state (run_succeeded W Op v n) s = (Continue v', s') \<Longrightarrow> rFailures v' = 0 \<and> rNext v' = n"
  unfolding run_succeeded_def by (auto simp: run_simps save_cursor_def Let_def split: if_splits)

lemma reorg_check_blind:
  assumes "sReorg s = forgetAbove r fork" and "fork < frontier_of nb head"
  shows "run_state (handleReorgIfAny W Op nb head hb) s = (Inr (nb, False), s)"
  using assms by (cases r) (simp_all add: handleReorgIfAny_def forgetAbove_def Let_def)

text \<open>
C8: A rewind is lost when the poll that announced it fails afterwards. The run loop keeps the old
  next height, and the tracker has already forgotten the orphaned frontier, so whatever the node
  answers from then on, the reorg check finds nothing to compare above the fork and scanning
  goes on after the orphaned range: its replacement blocks are never queried.
\<close>
theorem failed_rescan_is_lost:
  assumes "run_state (run_iter W Op v) s = (Continue v', s')"
    and "rFailures v' \<noteq> 0" and "sReorg s' \<noteq> sReorg s"
  shows "\<exists>d h. history s' = history s @ h \<and> Emitted (reorg_envelope Op d) None \<in> set h
    \<and> rdToBlock d < rNext v \<and> rNext v' = rNext v
    \<and> (\<forall>W' head hb. rdForkBlock d < frontier_of (rNext v') head \<longrightarrow>
         run_state (handleReorgIfAny W' Op (rNext v') head hb) s' = (Inr (rNext v', False), s'))"
proof -
  obtain t1 where a: "run_state (stage_reload W) s = ((), t1)" by (cases "run_state (stage_reload W) s") auto
  obtain t2 where b: "run_state applyPendingReload t1 = ((), t2)" by (cases "run_state applyPendingReload t1") auto
  obtain nx err t3 where p: "run_state (pollOnce W Op (rNext v)) t2 = ((nx, err), t3)" by (metis surj_pair)
  have pre: "sReorg t2 = sReorg s" "\<exists>h. history t2 = history s @ h"
    using state_io_relD [OF reload_sReorg(1) a] state_io_relD [OF reload_sReorg(2) b] by (auto simp: frame_def)
  have "err \<noteq> None"
  proof
    assume "err = None"
    with assms(1) a b p have "run_state (run_succeeded W Op v nx) t3 = (Continue v', s')"
      unfolding run_iter_def by (simp add: run_bind)
    from run_succeeded_continues [OF this] assms(2) show False by simp
  qed
  then obtain e where e: "err = Some e" by blast
  from assms(1) a b p e have f: "run_state (run_failed W v e) t3 = (Continue v', s')"
    unfolding run_iter_def by (auto simp: run_bind)
  note fc = run_failed_continues [OF f]
  have "sReorg t3 \<noteq> sReorg t2" using assms(3) fc(2) pre(1) by (simp add: frame_def)
  from failed_poll_rewound [OF p [unfolded e] this] obtain d where "rewound Op (rNext v) d t2 t3" by blast
  from rewound_extend [OF rewound_prefix [OF this pre] fc(2)] have r: "rewound Op (rNext v) d s s'" .
  then obtain h where "history s' = history s @ h" "Emitted (reorg_envelope Op d) None \<in> set h"
    by (auto simp: rewound_def)
  with r fc(1) show ?thesis
    unfolding rewound_def by (intro exI [of _ d] exI [of _ h]) (auto intro: reorg_check_blind)
qed

section \<open>What lies behind a saved cursor\<close>

lemma pollOnce_io: "state_io_rel (frame sources no_save) (pollOnce W Op nb)"
proof -
  have "state_io_rel (frame sources no_save) (chunk_loop fuel W Op head cur)" for fuel head cur
    by (rule io_weaken [OF chunk_loop_steady]) (auto intro: steady_sources)
  then show ?thesis unfolding pollOnce_def client_BlockNumber_def
    by (intro fr_intros fr_modify io_quiet [OF updateHeadBlockTime_sources] io_quiet [OF updateFinalizedBlock_sources]
        io_quiet [OF handleReorg_sources]) (simp_all add: sources_def)
qed

lemma run_failed_io: "state_io_rel (frame sources no_save) (run_failed W v e)"
  unfolding run_failed_def
  by (intro fr_intros) (auto simp: settled_def sources_def split: stream_error.split intro!: fr_intros)

text \<open>\<open>reached s0 from to h\<close>: every height in \<open>[from, to)\<close> is in the history \<open>h\<close>, its logs queried
when contracts are watched, its block fetched when native transfers are.\<close>

definition reached :: "stream \<Rightarrow> nat \<Rightarrow> nat \<Rightarrow> hist \<Rightarrow> bool" where
  "reached s0 from to h \<longleftrightarrow> (\<forall>k. from \<le> k \<and> k < to \<longrightarrow>
     (sContracts s0 \<noteq> [] \<longrightarrow> k \<in> set (logged h)) \<and> (nfEnabled (sNative s0) \<longrightarrow> k \<in> set (scanned h)))"

lemma reached_mono: "reached s0 from to h \<Longrightarrow> to' \<le> to \<Longrightarrow> reached s0 from to' (h @ h')"
  unfolding reached_def by auto

lemma reached_extend:
  assumes "reached s0 from nb h" and "start \<le> nb"
    and "logged h' = log_part s0 [start..<to]" and "scanned h' = native_part s0 [start..<to]"
  shows "reached s0 from to (h @ h')"
  unfolding reached_def
proof (intro allI impI)
  fix k
  assume k: "from \<le> k \<and> k < to"
  show "(sContracts s0 \<noteq> [] \<longrightarrow> k \<in> set (logged (h @ h'))) \<and> (nfEnabled (sNative s0) \<longrightarrow> k \<in> set (scanned (h @ h')))"
  proof (cases "k < start")
    case True
    then show ?thesis using assms(1,2) k unfolding reached_def by simp
  next
    case False
    then show ?thesis using assms(3,4) k unfolding log_part_def native_part_def by simp
  qed
qed

text \<open>Every cursor in a history is behind what the history had reached before it.\<close>

primrec cursors_ok :: "stream \<Rightarrow> nat \<Rightarrow> hist \<Rightarrow> hist \<Rightarrow> bool" where
  "cursors_ok s0 from done [] = True"
| "cursors_ok s0 from done (x # h) =
     ((case x of SaveCursor c b \<Rightarrow> reached s0 from (Suc (unat (curLastBlock c))) done | _ \<Rightarrow> True)
      \<and> cursors_ok s0 from (done @ [x]) h)"

lemma cursors_ok_append:
  "cursors_ok s0 from done (a @ b) \<longleftrightarrow> cursors_ok s0 from done a \<and> cursors_ok s0 from (done @ a) b"
  by (induction a arbitrary: "done") auto

lemma cursors_ok_no_save: "\<forall>x \<in> set h. no_save x \<Longrightarrow> cursors_ok s0 from done h"
  by (induction h arbitrary: "done") (auto simp: no_save_def split: happening.split)

text \<open>The invariant of the run loop between two turns.\<close>

definition run_ok :: "stream \<Rightarrow> u64 \<Rightarrow> stream \<Rightarrow> u64 \<Rightarrow> bool" where
  "run_ok s0 from s nb \<longleftrightarrow> sources s = sources s0
     \<and> (\<exists>h. history s = history s0 @ h \<and> reached s0 (unat from) (unat nb) h \<and> cursors_ok s0 (unat from) [] h)"

lemma run_ok_frame:
  assumes "run_ok s0 from s nb" and "frame sources no_save s s'"
  shows "run_ok s0 from s' nb"
proof -
  from assms obtain h h' where "history s = history s0 @ h" "reached s0 (unat from) (unat nb) h"
    "cursors_ok s0 (unat from) [] h" "history s' = history s @ h'" "\<forall>x \<in> set h'. no_save x"
    by (auto simp: run_ok_def frame_def)
  moreover from this have "reached s0 (unat from) (unat nb) (h @ h')" "cursors_ok s0 (unat from) [] (h @ h')"
    using reached_mono cursors_ok_no_save by (blast, simp add: cursors_ok_append cursors_ok_no_save)
  ultimately show ?thesis using assms by (auto simp: run_ok_def frame_def)
qed

lemma no_reload:
  assumes "sPending s = None" and "\<forall>h. wReload W h = None"
  shows "run_state (stage_reload W) s = ((), s)" "run_state applyPendingReload s = ((), s)"
  using assms by (simp_all add: stage_reload_def applyPendingReload_def run_simps)

lemma reached_poll:
  assumes "run_ok s0 from s nb" and "run_state (pollOnce W Op nb) s = ((nb', None), s')"
    and "0 < oLogChunkBlocks Op"
    and "\<forall>h v. wBlockNumber W h = Inr v \<longrightarrow> unat v + unat (oLogChunkBlocks Op) < 2 ^ 64"
  shows "run_ok s0 from s' nb'"
proof -
  from assms(1) obtain h where h: "history s = history s0 @ h" "reached s0 (unat from) (unat nb) h"
    "cursors_ok s0 (unat from) [] h" "sources s = sources s0" by (auto simp: run_ok_def)
  have p: "log_part s = log_part s0" "native_part s = native_part s0" using parts_sources [OF h(4)] .
  from frameD [OF pollOnce_io assms(2)] obtain h' where h': "history s' = history s @ h'"
    "\<forall>x \<in> set h'. no_save x" "sources s' = sources s" by metis
  from poll_heights [OF assms(2-4)] h'(1) obtain head start hh where st: "start \<le> nb"
    "h' = CallBlockNumber (Inr head) # hh"
    "if start > head then nb' = start \<and> logged hh = [] \<and> scanned hh = []
       else unat nb' = Suc (unat head)
         \<and> logged hh = log_part s [unat start..<unat nb'] \<and> scanned hh = native_part s [unat start..<unat nb']"
    by auto
  have le: "unat start \<le> unat nb" using st(1) by (simp add: word_le_nat_alt)
  have "logged h' = log_part s0 [unat start..<unat nb']" "scanned h' = native_part s0 [unat start..<unat nb']"
    using st(2,3) by (auto simp: p logged1_def scanned1_def split: if_splits)
  from reached_extend [OF h(2) le this] have "reached s0 (unat from) (unat nb') (h @ h')" .
  then show ?thesis using h h' unfolding run_ok_def
    by (intro conjI exI [of _ "h @ h'"]) (simp_all add: cursors_ok_append cursors_ok_no_save)
qed

lemma run_succeeded_ok:
  assumes "run_ok s0 from s nb'" and "run_state (run_succeeded W Op v nb') s = (r, s')"
  shows "run_ok s0 from s' nb'" "r = Continue v' \<Longrightarrow> rNext v' = nb'"
proof -
  let ?m = "[Metric (HealthRPCReachable True), Metric (SetPollOutcome True), Metric (SetConsecutiveFailures 0)]"
  let ?c = "\<lparr> curChainID = oChainID Op, curLastBlock = nb' - 1 \<rparr>"
  let ?t = "if oCheckpoint Op \<and> shouldSaveCheckpoint nb' (rLastSaved v)
            then [SaveCursor ?c (wSave W (history s @ ?m) ?c)] else []"
  have s': "s' = add_history s (?m @ ?t)"
    using assms(2) unfolding run_succeeded_def
    by (auto simp: run_simps save_cursor_def Let_def split: if_splits)
  from assms(1) obtain h where h: "history s = history s0 @ h" "reached s0 (unat from) (unat nb') h"
    "cursors_ok s0 (unat from) [] h" "sources s = sources s0" by (auto simp: run_ok_def)
  have "cursors_ok s0 (unat from) (h @ ?m) ?t"
  proof (cases "?t = []")
    case False
    then have "nb' > 0" by (auto simp: shouldSaveCheckpoint_def split: if_splits)
    then have "Suc (unat (nb' - 1)) = unat nb'"
      by (simp add: unat_sub_if' word_less_nat_alt)
    with reached_mono [OF h(2) order_refl, of ?m] show ?thesis by simp
  qed (simp only: cursors_ok.simps)
  then have "cursors_ok s0 (unat from) [] (h @ ?m @ ?t)"
    using h(3) by (simp add: cursors_ok_append cursors_ok_no_save)
  then show "run_ok s0 from s' nb'"
    using h reached_mono [OF h(2) order_refl] unfolding run_ok_def
    by (intro conjI exI [of _ "h @ ?m @ ?t"]) (simp_all add: s' sources_def)
  show "r = Continue v' \<Longrightarrow> rNext v' = nb'" using assms(2) run_succeeded_continues by blast
qed

lemma run_iter_ok:
  assumes "run_ok s0 from s (rNext v)" and "sPending s0 = None"
    and "run_state (run_iter W Op v) s = (r, s')"
    and "0 < oLogChunkBlocks Op"
    and "\<forall>h v. wBlockNumber W h = Inr v \<longrightarrow> unat v + unat (oLogChunkBlocks Op) < 2 ^ 64"
    and "\<forall>h. wReload W h = None"
  shows "\<exists>nb. run_ok s0 from s' nb \<and> (\<forall>v'. r = Continue v' \<longrightarrow> rNext v' = nb)"
proof -
  have "sPending s = None" using assms(1,2) by (simp add: run_ok_def sources_def)
  note nr = no_reload [OF this assms(6)]
  obtain nx err t where p: "run_state (pollOnce W Op (rNext v)) s = ((nx, err), t)" by (metis surj_pair)
  show ?thesis
  proof (cases err)
    case None
    with assms(3) p nr have su: "run_state (run_succeeded W Op v nx) t = (r, s')"
      unfolding run_iter_def by (simp add: run_bind)
    from reached_poll [OF assms(1) p [unfolded None] assms(4,5)] have "run_ok s0 from t nx" .
    from run_succeeded_ok [OF this su] show ?thesis by blast
  next
    case (Some e)
    with assms(3) p nr have f: "run_state (run_failed W v e) t = (r, s')"
      unfolding run_iter_def by (simp add: run_bind)
    have "run_ok s0 from t (rNext v)" by (rule run_ok_frame [OF assms(1) state_io_relD [OF pollOnce_io p]])
    then have "run_ok s0 from s' (rNext v)" by (rule run_ok_frame) (rule state_io_relD [OF run_failed_io f])
    moreover have "r = Continue v' \<Longrightarrow> rNext v' = rNext v" for v'
      using run_failed_continues(1) f by fastforce
    ultimately show ?thesis by blast
  qed
qed

lemma run_loop_ok:
  assumes "run_ok s0 from s (rNext v)" and "run_state (run_loop n W Op v) s = (r, s')"
    and "sPending s0 = None" and "0 < oLogChunkBlocks Op"
    and "\<forall>h v. wBlockNumber W h = Inr v \<longrightarrow> unat v + unat (oLogChunkBlocks Op) < 2 ^ 64"
    and "\<forall>h. wReload W h = None"
  shows "\<exists>nb. run_ok s0 from s' nb"
  using assms(1,2)
proof (induction n arbitrary: s v)
  case (Suc n)
  obtain r1 s1 where i: "run_state (run_iter W Op v) s = (r1, s1)" by (metis surj_pair)
  note st = run_iter_ok [OF Suc.prems(1) assms(3) i assms(4-6)]
  show ?case
  proof (cases r1)
    case (Stopped e)
    then show ?thesis using Suc.prems(2) i st by auto
  next
    case (Continue v1)
    with Suc.prems(2) i have l: "run_state (run_loop n W Op v1) s1 = (r, s')" by simp
    from st Continue have "run_ok s0 from s1 (rNext v1)" by auto
    from Suc.IH [OF this l] show ?thesis .
  qed
qed auto

section \<open>Properties\<close>

text \<open>
C6: A successful poll tiles the chain: it asked for the head, started at the next unprocessed
  height or, after a reorg, below it; and unless that is past the head it ends one past the
  head, having queried the logs and fetched the blocks of every height from the start to the
  head, each exactly once and in ascending order, whatever chunks and bisections were needed.
\<close>
theorem poll_tiles:
  assumes "run_state (pollOnce W Op nb) s = ((nb', None), s')"
    and "0 < oLogChunkBlocks Op"
    and "\<forall>h v. wBlockNumber W h = Inr v \<longrightarrow> unat v + unat (oLogChunkBlocks Op) < 2 ^ 64"
  shows "\<exists>head start h. history s' = history s @ CallBlockNumber (Inr head) # h \<and> start \<le> nb
    \<and> (if start > head then nb' = start \<and> logged h = [] \<and> scanned h = []
       else unat nb' = Suc (unat head)
         \<and> logged h = log_part s [unat start..<unat nb'] \<and> scanned h = native_part s [unat start..<unat nb'])"
  using assms by (rule poll_heights)

text \<open>
C5: Nothing is skipped before a saved cursor: whenever the run loop hands a cursor to the
  checkpoint, every height from the start of the run up to the cursor has been read before - its
  logs queried successfully when contracts are watched, its full block fetched when native
  transfers are - whatever polls failed, whatever reorgs happened and whether the save worked.
  (No reload in between, and heads that leave room for one more chunk.)
\<close>
theorem saved_cursor_is_behind_coverage:
  assumes "run_state (resolveStart W Op) s = (Inr from, s0)"
    and "run_state (Run n W Op) s = (r, s')"
    and "history s' = history s0 @ h1 @ SaveCursor c b # h2"
    and "sPending s = None" and "0 < oLogChunkBlocks Op"
    and "\<forall>h v. wBlockNumber W h = Inr v \<longrightarrow> unat v + unat (oLogChunkBlocks Op) < 2 ^ 64"
    and "\<forall>h. wReload W h = None"
    and "from \<le> k" and "k \<le> curLastBlock c"
  shows "(sContracts s \<noteq> [] \<longrightarrow> unat k \<in> set (logged h1)) \<and> (nfEnabled (sNative s) \<longrightarrow> unat k \<in> set (scanned h1))"
proof -
  let ?v = "\<lparr> rNext = from, rFailures = 0, rLastSaved = from \<rparr>"
  have "state_io_rel (frame sources (\<lambda>_. True)) (resolveStart W Op)"
    unfolding resolveStart_def configured_start_def client_BlockNumber_def Let_def
    by (intro fr_intros) (auto simp: settled_def sources_def split: option.split intro!: fr_intros)
  from state_io_relD [OF this assms(1)] have src: "sources s0 = sources s" by (simp add: frame_def)
  have l: "run_state (run_loop n W Op ?v) s0 = (r, s')"
    using assms(1,2) by (simp add: Run_def run_bind)
  have "run_ok s0 from s0 (rNext ?v)" by (auto simp: run_ok_def reached_def)
  from run_loop_ok [OF this l _ assms(5-7)] src assms(4) obtain nb where "run_ok s0 from s' nb"
    by (auto simp: sources_def)
  then have "cursors_ok s0 (unat from) [] (h1 @ SaveCursor c b # h2)"
    using assms(3) by (auto simp: run_ok_def)
  then have "reached s0 (unat from) (Suc (unat (curLastBlock c))) h1" by (simp add: cursors_ok_append)
  with assms(8,9) src show ?thesis
    unfolding reached_def by (simp add: word_le_nat_alt sources_def)
qed

section \<open>Sample runs\<close>

text \<open>A stream that watches one contract, on a node whose header of the head cannot be fetched.\<close>

definition watched_stream :: stream where
  "watched_stream = idle_stream\<lparr> sContracts := [\<lparr> rcName = ''t'', rcAddress = ''0xc'', rcByTopic0 = Map.empty, rcEvents = [] \<rparr>],
     sFinalizedUnsupported := True \<rparr>"

definition headless_world :: world where
  "headless_world = quiet_world\<lparr> wBlock := \<lambda>_ n _. if n = 12 then Inl DeadlineExceeded
     else Inr \<lparr> bNumber = [], bHash = (if n \<le> 10 then ''0xaa'' else ''0xbb''), bParentHash = [], bTimestamp = [], bTransactions = [] \<rparr> \<rparr>"

lemma headless_simps [simp]: "wBlockNumber headless_world h = Inr 12"
    "wBlock headless_world h n f = (if n = 12 then Inl DeadlineExceeded
     else Inr \<lparr> bNumber = [], bHash = (if n \<le> 10 then ''0xaa'' else ''0xbb''), bParentHash = [], bTimestamp = [], bTransactions = [] \<rparr>)"
    "wLogs headless_world h fl = Inr []" "wEmit headless_world h env = None" "wCancelled headless_world h = False"
    "wSleep headless_world h = True" "wTick headless_world h = True" "wLoad headless_world h = Inr None"
    "wSave headless_world h c = True" "wReload headless_world h = None" "wFuel headless_world = 100"
  by (simp_all add: headless_world_def quiet_world_def)

lemma watched_simps [simp]: "sContracts watched_stream \<noteq> []" "\<not> nfEnabled (sNative watched_stream)" "sFinalizedUnsupported watched_stream"
   "sReorg watched_stream = Some idle_tracker" "sPending watched_stream = None" "history watched_stream = []"
  by (simp_all add: watched_stream_def idle_stream_def idle_tracker_def)

lemma plain_simps [simp]: "oLogChunkBlocks plain_options = 4" "oChainID plain_options = 1" "oCheckpoint plain_options" "oFromBlock plain_options = ''latest''"
  by (simp_all add: plain_options_def)

lemma chunk_loop_numeral: "chunk_loop (numeral k) W Op head cur =
     (if cur \<le> head then
        (let end' = chunk_end cur (oLogChunkBlocks Op) head in
         do { r \<leftarrow> processRange W Op cur end';
              (case r of
                 Inl e \<Rightarrow> State_Monad.return (cur, Some e)
               | Inr _ \<Rightarrow> do { metric (SetLastProcessedBlock end'); chunk_loop (pred_numeral k) W Op head (end' + 1) }) })
      else State_Monad.return (cur, None))"
  unfolding numeral_eq_Suc by simp

lemma processLogs_quiet:
  "wLogs W (history s) (log_filter_of s a b) = Inr [] \<Longrightarrow> run_state (processLogs W Op a b) s =
     (Inr (), add_history s [CallLogs (log_filter_of s a b) (Inr []), Metric (ObserveLogChunk (b - a + 1))])"
  by (subst processLogs.simps) (simp add: client_Logs_def run_simps)

lemma processLogs_single:
  "wLogs W (history s) (log_filter_of s a a) = Inl e \<Longrightarrow> run_state (processLogs W Op a a) s =
     (Inl (RpcErr e), add_history s [CallLogs (log_filter_of s a a) (Inl e), Metric (ObserveLogChunk 1)])"
  by (subst processLogs.simps) (simp add: client_Logs_def run_simps)

lemmas poll_run = pollOnce_def client_BlockNumber_def client_Block_def client_Logs_def run_simps Let_def
  updateHeadBlockTime_def updateFinalizedBlock_def handleReorgIfAny_def chunk_loop_numeral chunk_end_def processRange_def
  processLogs_quiet processLogs_single



lemma sample_poll:
  "\<exists>s'. run_state (pollOnce headless_world plain_options 7) (watched_stream\<lparr> sReorg := None \<rparr>) = ((13, None), s')"
  by (simp add: poll_run)

lemma poll_tiles_witness:
  "\<exists>s' h. run_state (pollOnce headless_world plain_options 7) (watched_stream\<lparr> sReorg := None \<rparr>) = ((13, None), s')
     \<and> history s' = CallBlockNumber (Inr 12) # h \<and> (\<exists>start. start \<le> 7 \<and> logged h = [start..<13])"
proof -
  let ?s = "watched_stream\<lparr> sReorg := None \<rparr>"
  obtain s' where r: "run_state (pollOnce headless_world plain_options 7) ?s = ((13, None), s')"
    using sample_poll by blast
  from poll_tiles [OF r] obtain head start h where h: "history s' = CallBlockNumber (Inr head) # h"
    and st: "start \<le> 7" and c: "if start > head then 13 = start \<and> logged h = [] \<and> scanned h = []
       else unat (13::u64) = Suc (unat head) \<and> logged h = log_part ?s [unat start..<unat (13::u64)]
         \<and> scanned h = native_part ?s [unat start..<unat (13::u64)]"
    by auto
  from st have "start \<noteq> 13" by auto
  with c have hd: "13 = Suc (unat head)" and l: "logged h = [unat start..<13]"
    by (auto simp: log_part_def split: if_splits)
  have "head = 12" unfolding word_unat_eq_iff using hd by simp
  with h l r st show ?thesis by (auto simp: word_le_nat_alt)
qed

definition flaky_world :: world where
  "flaky_world = headless_world\<lparr> wLogs := \<lambda>_ _. Inl DeadlineExceeded \<rparr>"

lemma poll_returns_witness:
  "\<exists>nb' err s'. run_state (pollOnce flaky_world plain_options 7) watched_stream = ((nb', err), s') \<and> err \<noteq> Some OutOfFuel"
proof -
  obtain nb' err s' where r: "run_state (pollOnce flaky_world plain_options 7) watched_stream = ((nb', err), s')"
    by (metis surj_pair)
  from poll_returns [OF r] r show ?thesis by (simp add: flaky_world_def)
qed

lemma sample_failed:
  "\<exists>v' s'. run_state (run_iter flaky_world (plain_options\<lparr> oLogChunkBlocks := 1 \<rparr>)
      \<lparr> rNext = 12, rFailures = 0, rLastSaved = 12 \<rparr>) watched_stream = (Continue v', s')
      \<and> rFailures v' = 1 \<and> sReorg s' = forgetAbove (Some idle_tracker) 9"
  by (simp add: poll_run flaky_world_def run_iter_def run_failed_def stage_reload_def
      no_reload(2) [of watched_stream headless_world] frontier_of_def frontier_hash_def resolveFork_def
      fork_floor_def canonicalHashAt_def emitReorg_def fork_walk_numeral fork_data_def
      idle_tracker_def equal_fold_def to_lower_def lower_char_def code_of_def of_char_def)

lemma failed_rescan_is_lost_witness:
  "\<exists>v' s'. run_state (run_iter flaky_world (plain_options\<lparr> oLogChunkBlocks := 1 \<rparr>)
      \<lparr> rNext = 12, rFailures = 0, rLastSaved = 12 \<rparr>) watched_stream = (Continue v', s') \<and> rNext v' = 12"
proof -
  obtain v' s' where r: "run_state (run_iter flaky_world (plain_options\<lparr> oLogChunkBlocks := 1 \<rparr>)
      \<lparr> rNext = 12, rFailures = 0, rLastSaved = 12 \<rparr>) watched_stream = (Continue v', s')"
    and f: "rFailures v' = 1" "sReorg s' = forgetAbove (Some idle_tracker) 9" using sample_failed by blast
  have "recorded (sReorg s') 11 \<noteq> recorded (sReorg watched_stream) 11"
    unfolding f(2) recorded_forgetAbove by (simp add: recorded_def idle_tracker_def)
  then have "sReorg s' \<noteq> sReorg watched_stream" by metis
  from failed_rescan_is_lost [OF r _ this] f(1) r show ?thesis by auto
qed

definition resumed_world :: world where
  "resumed_world = headless_world\<lparr> wLoad := \<lambda>_. Inr (Some \<lparr> curChainID = 1, curLastBlock = 6 \<rparr>) \<rparr>"

lemma resumed_start:
  "\<exists>s0. run_state (resolveStart resumed_world plain_options) (watched_stream\<lparr> sReorg := None \<rparr>) = (Inr 7, s0) \<and> history s0 = [LoadCursor]"
  by (simp add: resolveStart_def resumed_world_def run_simps Let_def)

lemma sample_run:
  "\<exists>r s' h1. run_state (Run 1 resumed_world plain_options) (watched_stream\<lparr> sReorg := None \<rparr>) = (r, s')
     \<and> history s' = LoadCursor # h1 @ [SaveCursor \<lparr> curChainID = 1, curLastBlock = 12 \<rparr> True]"
  by (simp add: Run_def resolveStart_def poll_run resumed_world_def run_iter_def stage_reload_def
     run_succeeded_def save_cursor_def shouldSaveCheckpoint_def recordHash_def
     no_reload(2) [of "watched_stream\<lparr> sReorg := None, history := h \<rparr>" headless_world for h])

lemma saved_cursor_is_behind_coverage_witness:
  "\<exists>r s' h. run_state (Run 1 resumed_world plain_options) (watched_stream\<lparr> sReorg := None \<rparr>) = (r, s')
     \<and> history s' = LoadCursor # h @ [SaveCursor \<lparr> curChainID = 1, curLastBlock = 12 \<rparr> True] \<and> 9 \<in> set (logged h)"
proof -
  let ?s = "watched_stream\<lparr> sReorg := None \<rparr>"
  obtain s0 where a: "run_state (resolveStart resumed_world plain_options) ?s = (Inr 7, s0)" and b: "history s0 = [LoadCursor]"
    using resumed_start by blast
  obtain r s' h1 where r: "run_state (Run 1 resumed_world plain_options) ?s = (r, s')"
    and h: "history s' = LoadCursor # h1 @ [SaveCursor \<lparr> curChainID = 1, curLastBlock = 12 \<rparr> True]"
    using sample_run by blast
  have h': "history s' = history s0 @ h1 @ SaveCursor \<lparr> curChainID = 1, curLastBlock = 12 \<rparr> True # []" using h b by simp
  from saved_cursor_is_behind_coverage [OF a r h', of 9] have "9 \<in> set (logged h1)"
    by (simp add: resumed_world_def)
  with r h show ?thesis by blast
qed

end
