(* ===== verification/BalanceAbi.thy ===== *)
theory BalanceAbi
  imports Decode Units
begin

text \<open>
  The ABI helpers of evm-balance (\<^verbatim>\<open>internal/balance/abi.go\<close>): the call data of the four view
  functions it queries, and the reading of their results; and the amounts of
  \<^verbatim>\<open>internal/balance/format.go\<close>. Keccak-256 is a parameter.
\<close>

section \<open>Call data\<close>

definition functionSelector :: "keccak \<Rightarrow> string \<Rightarrow> string" where
  "functionSelector keccak sig = ''0x'' @ hex_encode (take 4 (keccak sig))"

definition callDataDecimals :: "keccak \<Rightarrow> string" where
  "callDataDecimals keccak = functionSelector keccak ''decimals()''"

definition callDataTotalSupply :: "keccak \<Rightarrow> string" where
  "callDataTotalSupply keccak = functionSelector keccak ''totalSupply()''"

definition low_chars :: "nat \<Rightarrow> string \<Rightarrow> string" where
  "low_chars n s = (if length s > n then drop (length s - n) s else s)"

definition padAddress :: "string \<Rightarrow> string" where
  "padAddress addr =
     (let a = low_chars 40 (to_lower (trim_prefix ''0X'' (trim_prefix ''0x'' addr)))
      in replicate (64 - length a) CHR ''0'' @ a)"

definition parseBigInt :: "string \<Rightarrow> int option" where
  "parseBigInt s =
     (let t = trim_space s in
      if t = [] then None
      else if has_prefix ''0x'' t \<or> has_prefix ''0X'' t then set_string 16 (drop 2 t)
      else set_string 10 t)"

definition padUint256 :: "string \<Rightarrow> string" where
  "padUint256 tokenID =
     (let v = (case parseBigInt tokenID of Some i \<Rightarrow> if i < 0 then 0 else i | None \<Rightarrow> 0);
          h = low_chars 64 (show_base 16 (nat v))
      in replicate (64 - length h) CHR ''0'' @ h)"

definition callDataBalanceOf :: "keccak \<Rightarrow> string \<Rightarrow> string" where
  "callDataBalanceOf keccak addr = functionSelector keccak ''balanceOf(address)'' @ padAddress addr"

definition callDataOwnerOf :: "keccak \<Rightarrow> string \<Rightarrow> string" where
  "callDataOwnerOf keccak tokenID = functionSelector keccak ''ownerOf(uint256)'' @ padUint256 tokenID"

section \<open>Results\<close>

text \<open>Why a result cannot be read: an empty one is permanent (no contract, or no such method).\<close>

datatype sample_cause = CauseRpc rpc_error | CauseEmptyResult | CauseDecode string

definition hexBytes :: "string \<Rightarrow> string + byte list" where
  "hexBytes s =
     (let t = trim_prefix ''0X'' (trim_prefix ''0x'' s) in
      if t = [] then Inr []
      else case hex_decode t of None \<Rightarrow> Inl ''encoding/hex: invalid input'' | Some bs \<Rightarrow> Inr bs)"

definition low_bytes :: "nat \<Rightarrow> byte list \<Rightarrow> byte list" where
  "low_bytes n b = (if length b > n then drop (length b - n) b else b)"

definition decodeAddress :: "string \<Rightarrow> sample_cause + string" where
  "decodeAddress res =
     (case hexBytes res of
        Inl e \<Rightarrow> Inl (CauseDecode (''decode call result: '' @ e))
      | Inr b \<Rightarrow> if b = [] then Inl CauseEmptyResult
                 else Inr (''0x'' @ hex_encode (low_bytes 20 (low_bytes 32 b))))"

definition decodeUint256 :: "string \<Rightarrow> sample_cause + int" where
  "decodeUint256 res =
     (case hexBytes res of
        Inl e \<Rightarrow> Inl (CauseDecode (''decode call result: '' @ e))
      | Inr b \<Rightarrow> if b = [] then Inl CauseEmptyResult
                 else Inr (int (set_bytes (low_bytes 32 b))))"

definition decodeUint8 :: "string \<Rightarrow> sample_cause + int" where
  "decodeUint8 res =
     (case decodeUint256 res of
        Inl e \<Rightarrow> Inl e
      | Inr v \<Rightarrow> if \<not> (- (2 ^ 63) \<le> v \<and> v < 2 ^ 63) \<or> v < 0 \<or> v > 255
                 then Inl (CauseDecode (''decimals() out of range: '' @ show_int v)) else Inr v)"

section \<open>Amounts\<close>

text \<open>\<^verbatim>\<open>format.go\<close> repeats the formatter of the stream; the two are the same function.\<close>

definition bal_formatUnits :: "int \<Rightarrow> int \<Rightarrow> string" where
  "bal_formatUnits amount decimals =
     (if decimals \<le> 0 then show_int amount
      else
        (let scale = 10 ^ nat decimals;
             intPart = nat \<bar>amount\<bar> div scale;
             fracPart = nat \<bar>amount\<bar> mod scale;
             frac0 = show_nat fracPart;
             frac1 = (if length frac0 < nat decimals
                      then replicate (nat decimals - length frac0) CHR ''0'' @ frac0 else frac0);
             frac2 = trim_right CHR ''0'' frac1;
             frac = (if frac2 = [] then ''0'' else frac2)
         in (if amount < 0 then ''-'' else []) @ show_nat intPart @ ''.'' @ frac))"

definition bal_weiToEther :: "int \<Rightarrow> string" where
  "bal_weiToEther wei = bal_formatUnits wei 18"

lemma bal_formatUnits_eq: "bal_formatUnits a d = formatUnits a d"
  by (simp add: bal_formatUnits_def formatUnits_def Let_def)

section \<open>Words\<close>

lemma length_low_chars: "length (low_chars n s) \<le> n"
  by (simp add: low_chars_def)

lemma length_padAddress: "length (padAddress a) = 64"
  using length_low_chars [of 40 "to_lower (trim_prefix ''0X'' (trim_prefix ''0x'' a))"]
  by (simp add: padAddress_def Let_def)

lemma length_padUint256: "length (padUint256 s) = 64"
  using length_low_chars [of 64] by (simp add: padUint256_def Let_def)

lemma hex_digit_val: "hex_digit c = Some d \<longleftrightarrow> digit_val c = Some d \<and> d < 16"
  by (auto simp: hex_digit_def split: option.splits if_splits)

text \<open>A text of an even number of hex digits decodes, and to the number it denotes.\<close>

lemma hex_decode_digits:
  "even (length s) \<Longrightarrow> \<forall>c \<in> set s. \<exists>d. hex_digit c = Some d \<Longrightarrow> \<exists>bs. hex_decode s = Some bs"
proof (induction s rule: hex_decode.induct)
  case (3 c d s)
  then obtain bs where "hex_decode s = Some bs" by fastforce
  moreover obtain h l where "hex_digit c = Some h" "hex_digit d = Some l" using "3.prems"(2) by auto
  ultimately show ?case by simp
qed auto

lemma unat_hex_byte: "h < 16 \<Longrightarrow> l < 16 \<Longrightarrow> unat (word_of_nat (16 * h + l) :: byte) = 16 * h + l"
  by (simp only: unat_of_nat) simp

lemma hex_decode_step:
  assumes "hex_decode (c # d # s) = Some bs"
  obtains h l bs' where "digit_val c = Some h" "h < 16" "digit_val d = Some l" "l < 16"
    "hex_decode s = Some bs'" "bs = word_of_nat (16 * h + l) # bs'"
  using assms by (auto simp: hex_digit_val split: option.splits)

lemma parse_hex_decode:
  "hex_decode s = Some bs \<Longrightarrow> parse_digits 16 acc s = Some (acc * 256 ^ length bs + set_bytes bs)"
proof (induction s arbitrary: bs acc rule: hex_decode.induct)
  case (3 c d s)
  from "3.prems" obtain h l bs' where hl: "digit_val c = Some h" "h < 16" "digit_val d = Some l" "l < 16"
    "hex_decode s = Some bs'" "bs = word_of_nat (16 * h + l) # bs'" by (rule hex_decode_step)
  from hl have d: "hex_digit c = Some h" "hex_digit d = Some l" by (simp_all add: hex_digit_val)
  have "parse_digits 16 ((acc * 16 + h) * 16 + l) s = Some (((acc * 16 + h) * 16 + l) * 256 ^ length bs' + set_bytes bs')"
    using "3.IH" d hl(5) by simp
  with hl unat_hex_byte [of h l] show ?case
    by (simp add: set_bytes_Cons algebra_simps del: of_nat_add of_nat_mult)
qed auto

text \<open>What is decoded is encoded back in lower case.\<close>

lemma digit_char_lower: "digit_val c = Some d \<Longrightarrow> digit_char d = lower_char c"
proof -
  assume a: "digit_val c = Some d"
  have "code_of c < 256" by (simp add: code_of_def)
  with a have "code_of (digit_char d) = code_of (lower_char c)"
    by (auto simp: digit_val_def digit_char_def code_of_lower_char Let_def split: if_splits)
  then show ?thesis by (simp add: code_of_inject)
qed

lemma hex_encode_decode: "hex_decode s = Some bs \<Longrightarrow> hex_encode bs = to_lower s"
proof (induction s arbitrary: bs rule: hex_decode.induct)
  case (3 c d s)
  from "3.prems" obtain h l bs' where hl: "digit_val c = Some h" "h < 16" "digit_val d = Some l" "l < 16"
    "hex_decode s = Some bs'" "bs = word_of_nat (16 * h + l) # bs'" by (rule hex_decode_step)
  have "hex_digit c = Some h" "hex_digit d = Some l" using hl by (simp_all add: hex_digit_val)
  then have "hex_encode bs' = to_lower s" using "3.IH" hl(5) by simp
  moreover have "(16 * h + l) div 16 = h" "(16 * h + l) mod 16 = l" using hl(4) by auto
  ultimately show ?case using hl unat_hex_byte [of h l]
    by (simp add: hex_encode_def hex_byte_def to_lower_def digit_char_lower del: of_nat_add of_nat_mult)
qed (simp_all add: hex_encode_def to_lower_def)

lemma hex_encode_drop: "hex_encode (drop k bs) = drop (2 * k) (hex_encode bs)"
proof (induction bs arbitrary: k)
  case (Cons b bs)
  then show ?case by (cases k) (simp_all add: hex_encode_def hex_byte_def)
qed (simp add: hex_encode_def)

lemma parse_zeros16: "parse_digits 16 0 (replicate k CHR ''0'' @ s) = parse_digits 16 0 s"
  by (induction k) auto

lemma show_base_length: "n < 16 ^ k \<Longrightarrow> 0 < k \<Longrightarrow> length (show_base 16 n) \<le> k"
proof (induction k arbitrary: n)
  case (Suc k)
  show ?case
  proof (cases "n < 16")
    case True
    then show ?thesis by (simp add: show_base.simps [of 16 n])
  next
    case False
    with Suc.prems have "n div 16 < 16 ^ k" by (simp add: less_mult_imp_div_less mult.commute)
    moreover have "0 < k" using False Suc.prems by (cases k) auto
    ultimately have "length (show_base 16 (n div 16)) \<le> k" by (rule Suc.IH)
    then show ?thesis using False by (simp add: show_base.simps [of 16 n])
  qed
qed simp

lemma hex_digit_zero [simp]: "hex_digit CHR ''0'' = Some 0"
  by (simp add: hex_digit_val)

lemma digit_char_hex: "d < 16 \<Longrightarrow> hex_digit (digit_char d) = Some d"
  by (simp add: hex_digit_val)

text \<open>A word of 64 hex digits is read as its 32 bytes.\<close>

lemma trim_word:
  assumes "\<forall>c \<in> set w. \<exists>d. hex_digit c = Some d" and "w \<noteq> []"
  shows "trim_prefix ''0X'' (trim_prefix ''0x'' (''0x'' @ w)) = w"
proof -
  have "\<not> has_prefix ''0X'' w"
  proof
    assume "has_prefix ''0X'' w"
    then have "CHR ''X'' \<in> set w" by (auto simp: has_prefix_iff)
    with assms(1) obtain d where "hex_digit CHR ''X'' = Some d" by blast
    then show False by (simp add: hex_digit_val digit_val_def code_of_def of_char_def) arith?
  qed
  then show ?thesis using trim_prefix_append [of "''0x''" w] by (simp add: trim_prefix_def)
qed

lemma hexBytes_word:
  assumes "\<forall>c \<in> set w. \<exists>d. hex_digit c = Some d" and "length w = 64"
  shows "\<exists>bs. hexBytes (''0x'' @ w) = Inr bs \<and> hex_decode w = Some bs \<and> length bs = 32"
proof -
  have "w \<noteq> []" using assms(2) by auto
  note tw = trim_word [OF assms(1) this]
  obtain bs where bs: "hex_decode w = Some bs" using hex_decode_digits [OF _ assms(1)] assms(2) by auto
  then have "length bs = 32" using length_hex_decode [OF bs] assms(2) by simp
  then show ?thesis unfolding hexBytes_def tw using bs \<open>w \<noteq> []\<close> by simp
qed

lemma decode_word:
  assumes "\<forall>c \<in> set w. \<exists>d. hex_digit c = Some d" and "length w = 64"
  shows "decodeUint256 (''0x'' @ w) = (case parse_digits 16 0 w of Some n \<Rightarrow> Inr (int n) | None \<Rightarrow> Inl CauseEmptyResult)"
    and "decodeAddress (''0x'' @ w) = Inr (''0x'' @ drop 24 (to_lower w))"
proof -
  obtain bs where bs: "hexBytes (''0x'' @ w) = Inr bs" "hex_decode w = Some bs" "length bs = 32"
    using hexBytes_word [OF assms] by blast
  show "decodeUint256 (''0x'' @ w) = (case parse_digits 16 0 w of Some n \<Rightarrow> Inr (int n) | None \<Rightarrow> Inl CauseEmptyResult)"
    using bs parse_hex_decode [OF bs(2), of 0] unfolding decodeUint256_def bs(1) by (auto simp: low_bytes_def)
  show "decodeAddress (''0x'' @ w) = Inr (''0x'' @ drop 24 (to_lower w))"
    using bs hex_encode_drop [of 12 bs] unfolding decodeAddress_def bs(1)
    by (auto simp: low_bytes_def hex_encode_decode [OF bs(2)])
qed

lemma parse_decimal: "parseBigInt (show_nat n) = Some (int n)"
proof -
  have c: "c \<in> set (show_nat n) \<Longrightarrow> 48 \<le> code_of c \<and> code_of c \<le> 57" for c by (rule show_nat_chars)
  have sp: "is_ascii_space d \<Longrightarrow> code_of d \<le> 32" for d
    by (auto simp: is_ascii_space_def code_of_def of_char_def)
  have "CHR ''x'' \<notin> set (show_nat n)" "CHR ''X'' \<notin> set (show_nat n)"
    using c by (force simp: code_of_def of_char_def)+
  then have "\<not> has_prefix ''0x'' (show_nat n)" "\<not> has_prefix ''0X'' (show_nat n)" by (auto simp: has_prefix_iff)
  moreover have "trim_space (show_nat n) = show_nat n"
    by (rule no_space_trim) (use c sp in fastforce)
  ultimately show ?thesis using set_string_show_int [of "int n"] by (simp add: parseBigInt_def show_int_def)
qed

lemma hex_digits_show: "\<forall>c \<in> set (show_base 16 n). \<exists>d. hex_digit c = Some d"
  using show_base_digits [of 16 _ n] digit_char_hex by fastforce

lemma padUint256_reads_back:
  assumes "n < 2 ^ 256"
  shows "decodeUint256 (''0x'' @ padUint256 (show_nat n)) = Inr (int n)"
proof -
  have "(2::nat) ^ 256 = 16 ^ 64" by simp
  with assms have "n < 16 ^ 64" by simp
  then have l: "length (show_base 16 n) \<le> 64" by (rule show_base_length) simp
  then have p: "padUint256 (show_nat n) = replicate (64 - length (show_base 16 n)) CHR ''0'' @ show_base 16 n"
    by (simp add: padUint256_def parse_decimal low_chars_def Let_def)
  have "\<forall>c \<in> set (padUint256 (show_nat n)). \<exists>d. hex_digit c = Some d"
    using hex_digits_show by (auto simp: p)
  from decode_word(1) [OF this length_padUint256] show ?thesis
    by (simp add: p parse_zeros16 parse_show_base)
qed

lemma padAddress_reads_back:
  assumes "length a = 40" and "\<forall>c \<in> set a. \<exists>d. hex_digit c = Some d"
  shows "decodeAddress (''0x'' @ padAddress (''0x'' @ a)) = Inr (''0x'' @ to_lower a)"
proof -
  have "a \<noteq> []" using assms(1) by auto
  from trim_word [OF assms(2) this] have p: "padAddress (''0x'' @ a) = replicate 24 CHR ''0'' @ to_lower a"
    using assms(1) unfolding padAddress_def by (simp add: low_chars_def to_lower_def)
  have "\<forall>c \<in> set (to_lower a). \<exists>d. hex_digit c = Some d"
    using assms(2) by (auto simp: to_lower_def hex_digit_val digit_val_lower)
  then have "\<forall>c \<in> set (padAddress (''0x'' @ a)). \<exists>d. hex_digit c = Some d" unfolding p by auto
  from decode_word(2) [OF this length_padAddress] show ?thesis unfolding p by (simp add: to_lower_def)
qed

lemma selector_length: "length (keccak sig) = 32 \<Longrightarrow> length (functionSelector keccak sig) = 10"
  by (simp add: functionSelector_def)

text \<open>
The words evm-balance sends and reads agree with each other and with the ABI: the call data
  of every query is the four-byte selector and one 32-byte word; a token identifier below 2^256,
  written in decimal, is sent as the word that reads back as the same number; and the word of a
  40-digit address reads back as that address in lower case.
\<close>
theorem call_words_roundtrip:
  assumes "length (keccak ''balanceOf(address)'') = 32" and "length (keccak ''ownerOf(uint256)'') = 32"
    and "n < 2 ^ 256" and "length a = 40" and "\<forall>c \<in> set a. \<exists>d. hex_digit c = Some d"
  shows "length (callDataBalanceOf keccak addr) = 74 \<and> length (callDataOwnerOf keccak tok) = 74
    \<and> decodeUint256 (''0x'' @ padUint256 (show_nat n)) = Inr (int n)
    \<and> decodeAddress (''0x'' @ padAddress (''0x'' @ a)) = Inr (''0x'' @ to_lower a)"
  using assms selector_length [of keccak "''balanceOf(address)''"] selector_length [of keccak "''ownerOf(uint256)''"]
    padUint256_reads_back padAddress_reads_back [of a]
  by (simp add: callDataBalanceOf_def callDataOwnerOf_def length_padAddress length_padUint256 del: append.simps)

lemma lower_A: "lower_char CHR ''A'' = CHR ''a''" "lower_char CHR ''0'' = CHR ''0''"
  by (simp_all add: code_of_inject [symmetric] code_of_lower_char) (simp_all add: code_of_def of_char_def)

lemma call_words_roundtrip_witness:
  "decodeAddress (''0x'' @ padAddress (''0x'' @ replicate 20 CHR ''0'' @ replicate 20 CHR ''A''))
     = Inr (''0x'' @ replicate 20 CHR ''0'' @ replicate 20 CHR ''a'')"
  using call_words_roundtrip [of "\<lambda>_. replicate 32 0" 7 "replicate 20 CHR ''0'' @ replicate 20 CHR ''A''" "''0x1''" "''7''"]
  by (simp add: hex_digit_def digit_val_def code_of_def of_char_def to_lower_def lower_A del: append.simps)

end
