(* ===== verification/BalanceTargets.thy ===== *)
theory BalanceTargets
  imports BalanceAbi
begin

text \<open>
  The configuration of evm-balance (\<^verbatim>\<open>internal/balance/resolve.go\<close>, the option types and \<^verbatim>\<open>New\<close> of
  \<^verbatim>\<open>balance.go\<close>): the resolved targets and the sampling cadence. \<^verbatim>\<open>time.ParseDuration\<close> is a
  parameter.
\<close>

section \<open>Targets\<close>

record native_target =
  nttName :: string
  nttAddress :: string

record erc20_target =
  ettName :: string
  ettToken :: string
  ettAddress :: string
  ettDecimals :: "int option"

record contract_target =
  cttName :: string
  cttAddress :: string
  cttNativeBalance :: bool
  cttTokenSupply :: bool
  cttWindow :: u64
  cttDecimals :: "int option"

record erc721_balance_target =
  ebtName :: string
  ebtToken :: string
  ebtOwner :: string

record erc721_ownership_target =
  eotName :: string
  eotToken :: string
  eotTokenID :: string

record cadence =
  cadInterval :: int
  cadEveryBlocks :: u64

record resolved =
  rsvCadence :: cadence
  rsvNative :: "native_target list"
  rsvERC20 :: "erc20_target list"
  rsvContracts :: "contract_target list"
  rsvERC721Balances :: "erc721_balance_target list"
  rsvERC721Ownership :: "erc721_ownership_target list"

section \<open>The configuration section\<close>

record contract_config =
  ccgName :: string
  ccgAddress :: string
  ccgNativeBalance :: bool
  ccgTokenSupply :: bool
  ccgWindow :: int
  ccgDecimals :: "int option"

record erc721_balance_config =
  ebcName :: string
  ebcToken :: string
  ebcOwner :: string
  ebcMode :: string

record balance_config =
  bcInterval :: string
  bcEveryBlocks :: int
  bcNative :: "native_target list"
  bcERC20 :: "erc20_target list"
  bcContracts :: "contract_config list"
  bcERC721Balances :: "erc721_balance_config list"
  bcERC721Ownership :: "erc721_ownership_target list"

section \<open>Resolution\<close>

definition erc721BalanceModeBalanceOf :: string where "erc721BalanceModeBalanceOf = ''balance_of''"

definition decimals_ok :: "int option \<Rightarrow> bool" where
  "decimals_ok d = (case d of None \<Rightarrow> True | Some n \<Rightarrow> \<not> (n < 0 \<or> n > 255))"

definition resolve_native :: "native_target \<Rightarrow> string + native_target" where
  "resolve_native n =
     (if nttName n = [] then Inl ''balance.native: missing name''
      else if nttAddress n = [] then Inl (''balance.native '' @ nttName n @ '': missing address'')
      else Inr n)"

definition resolve_erc20 :: "erc20_target \<Rightarrow> string + erc20_target" where
  "resolve_erc20 e =
     (if ettName e = [] then Inl ''balance.erc20: missing name''
      else if ettToken e = [] then Inl (''balance.erc20 '' @ ettName e @ '': missing token'')
      else if ettAddress e = [] then Inl (''balance.erc20 '' @ ettName e @ '': missing address (holder)'')
      else if \<not> decimals_ok (ettDecimals e) then Inl (''balance.erc20 '' @ ettName e @ '': decimals out of range [0,255]'')
      else Inr e)"

definition resolve_contract :: "contract_config \<Rightarrow> string + contract_target" where
  "resolve_contract c =
     (if ccgName c = [] then Inl ''balance.contracts: missing name''
      else if ccgAddress c = [] then Inl (''balance.contracts '' @ ccgName c @ '': missing address'')
      else if \<not> ccgNativeBalance c \<and> \<not> ccgTokenSupply c \<and> ccgWindow c \<le> 0
      then Inl (''balance.contracts '' @ ccgName c @ '': enable at least one of native_balance, token_supply, or transfer_count_window_blocks'')
      else if ccgWindow c < 0 then Inl (''balance.contracts '' @ ccgName c @ '': transfer_count_window_blocks must be non-negative'')
      else if \<not> decimals_ok (ccgDecimals c) then Inl (''balance.contracts '' @ ccgName c @ '': decimals out of range [0,255]'')
      else Inr \<lparr> cttName = ccgName c, cttAddress = ccgAddress c, cttNativeBalance = ccgNativeBalance c,
                 cttTokenSupply = ccgTokenSupply c, cttWindow = word_of_int (ccgWindow c), cttDecimals = ccgDecimals c \<rparr>)"

definition resolve_erc721_balance :: "erc721_balance_config \<Rightarrow> string + erc721_balance_target" where
  "resolve_erc721_balance b =
     (if ebcName b = [] then Inl ''balance.erc721_balances: missing name''
      else if ebcToken b = [] then Inl (''balance.erc721_balances '' @ ebcName b @ '': missing token'')
      else if ebcOwner b = [] then Inl (''balance.erc721_balances '' @ ebcName b @ '': missing owner'')
      else
        (let mode = (if ebcMode b = [] then erc721BalanceModeBalanceOf else ebcMode b) in
         if mode \<noteq> erc721BalanceModeBalanceOf
         then Inl (''balance.erc721_balances '' @ ebcName b @ '': unsupported mode '' @ ebcMode b)
         else Inr \<lparr> ebtName = ebcName b, ebtToken = ebcToken b, ebtOwner = ebcOwner b \<rparr>))"

definition resolve_erc721_ownership :: "erc721_ownership_target \<Rightarrow> string + erc721_ownership_target" where
  "resolve_erc721_ownership t =
     (if eotName t = [] then Inl ''balance.erc721_ownership: missing name''
      else if eotToken t = [] then Inl (''balance.erc721_ownership '' @ eotName t @ '': missing token'')
      else if eotTokenID t = [] then Inl (''balance.erc721_ownership '' @ eotName t @ '': missing token_id'')
      else if parseBigInt (eotTokenID t) = None
      then Inl (''balance.erc721_ownership '' @ eotName t @ '': token_id '' @ eotTokenID t @ '' is not a valid integer'')
      else Inr t)"

text \<open>The loops of \<^verbatim>\<open>Resolve\<close>: the first entry that is wrong ends the resolution.\<close>

fun resolve_all :: "('a \<Rightarrow> string + 'b) \<Rightarrow> 'a list \<Rightarrow> string + 'b list" where
  "resolve_all f [] = Inr []"
| "resolve_all f (x # xs) =
     (case f x of Inl e \<Rightarrow> Inl e
      | Inr y \<Rightarrow> (case resolve_all f xs of Inl e \<Rightarrow> Inl e | Inr ys \<Rightarrow> Inr (y # ys)))"

definition resolveCadence :: "(string \<Rightarrow> string + int) \<Rightarrow> balance_config \<Rightarrow> string + cadence" where
  "resolveCadence parse_duration cfg =
     (let hasInterval = bcInterval cfg \<noteq> []; hasBlocks = bcEveryBlocks cfg > 0 in
      if hasInterval \<and> hasBlocks then Inl ''set exactly one of balance.interval or balance.every_blocks, not both''
      else if \<not> hasInterval \<and> \<not> hasBlocks
      then Inl ''no sampling cadence: pass --interval or --every-blocks, or set balance.interval / balance.every_blocks''
      else if hasBlocks then
        (if bcEveryBlocks cfg < 0 then Inl ''balance.every_blocks must be positive''
         else Inr \<lparr> cadInterval = 0, cadEveryBlocks = word_of_int (bcEveryBlocks cfg) \<rparr>)
      else (case parse_duration (bcInterval cfg) of
          Inl e \<Rightarrow> Inl (''invalid balance.interval '' @ bcInterval cfg @ '': '' @ e)
        | Inr d \<Rightarrow> if d \<le> 0 then Inl (''balance.interval must be positive (got '' @ bcInterval cfg)
                   else Inr \<lparr> cadInterval = d, cadEveryBlocks = 0 \<rparr>))"

definition Resolve :: "(string \<Rightarrow> string + int) \<Rightarrow> balance_config \<Rightarrow> string + resolved" where
  "Resolve parse_duration cfg =
     (case resolveCadence parse_duration cfg of Inl e \<Rightarrow> Inl e | Inr cad \<Rightarrow>
     (case resolve_all resolve_native (bcNative cfg) of Inl e \<Rightarrow> Inl e | Inr ns \<Rightarrow>
     (case resolve_all resolve_erc20 (bcERC20 cfg) of Inl e \<Rightarrow> Inl e | Inr es \<Rightarrow>
     (case resolve_all resolve_contract (bcContracts cfg) of Inl e \<Rightarrow> Inl e | Inr cs \<Rightarrow>
     (case resolve_all resolve_erc721_balance (bcERC721Balances cfg) of Inl e \<Rightarrow> Inl e | Inr bs \<Rightarrow>
     (case resolve_all resolve_erc721_ownership (bcERC721Ownership cfg) of Inl e \<Rightarrow> Inl e | Inr os \<Rightarrow>
        if ns = [] \<and> es = [] \<and> cs = [] \<and> bs = [] \<and> os = [] then Inl ''nothing to poll''
        else Inr \<lparr> rsvCadence = cad, rsvNative = ns, rsvERC20 = es, rsvContracts = cs,
                   rsvERC721Balances = bs, rsvERC721Ownership = os \<rparr>))))))"

section \<open>The poller's own checks\<close>

definition validateCadence :: "cadence \<Rightarrow> string option" where
  "validateCadence c =
     (let hasInterval = cadInterval c > 0; hasBlocks = cadEveryBlocks c > 0 in
      if hasInterval \<and> hasBlocks then Some ''balance: set exactly one of interval or every_blocks, not both''
      else if \<not> hasInterval \<and> \<not> hasBlocks then Some ''balance: set exactly one of interval or every_blocks''
      else None)"

definition defaultMaxConcurrency :: int where "defaultMaxConcurrency = 8"

record bal_options =
  boChainName :: string
  boChainID :: int
  boCadence :: cadence
  boMaxConcurrency :: int
  boBackoffBase :: int
  boBackoffMax :: int

text \<open>\<^verbatim>\<open>New\<close>: the options with their defaults, or what is missing.\<close>

definition bal_New :: "bool \<Rightarrow> bool \<Rightarrow> bal_options \<Rightarrow> resolved \<Rightarrow> string + bal_options" where
  "bal_New client emitter Op r =
     (if \<not> client then Inl ''balance: client is required''
      else if \<not> emitter then Inl ''balance: emitter is required''
      else case validateCadence (boCadence Op) of
        Some e \<Rightarrow> Inl e
      | None \<Rightarrow>
          if rsvNative r = [] \<and> rsvERC20 r = [] \<and> rsvContracts r = [] \<and> rsvERC721Balances r = [] \<and> rsvERC721Ownership r = []
          then Inl ''balance: nothing to poll (no native/erc20/erc721/contract targets)''
          else Inr (Op\<lparr> boBackoffBase := (if boBackoffBase Op \<le> 0 then 500000000 else boBackoffBase Op),
                        boBackoffMax := (if boBackoffMax Op \<le> 0 then 30000000000 else boBackoffMax Op),
                        boMaxConcurrency := (if boMaxConcurrency Op \<le> 0 then defaultMaxConcurrency else boMaxConcurrency Op) \<rparr>))"

section \<open>A resolved configuration is usable\<close>

lemma resolve_all_set: "resolve_all f xs = Inr ys \<Longrightarrow> y \<in> set ys \<Longrightarrow> \<exists>x \<in> set xs. f x = Inr y"
  by (induction xs arbitrary: ys) (auto split: sum.splits)

lemma resolve_all_length: "resolve_all f xs = Inr ys \<Longrightarrow> length ys = length xs"
  by (induction xs arbitrary: ys) (auto split: sum.splits)

lemma resolve_all_map: "resolve_all f xs = Inr ys \<Longrightarrow> (\<And>x y. f x = Inr y \<Longrightarrow> g y = h x) \<Longrightarrow> map g ys = map h xs"
  by (induction xs arbitrary: ys) (auto split: sum.splits)

lemmas resolve_defs = resolve_native_def resolve_erc20_def resolve_contract_def resolve_erc721_balance_def
  resolve_erc721_ownership_def

lemma Resolve_parts:
  assumes "Resolve P cfg = Inr r"
  shows "resolveCadence P cfg = Inr (rsvCadence r)" "resolve_all resolve_native (bcNative cfg) = Inr (rsvNative r)"
    "resolve_all resolve_erc20 (bcERC20 cfg) = Inr (rsvERC20 r)" "resolve_all resolve_contract (bcContracts cfg) = Inr (rsvContracts r)"
    "resolve_all resolve_erc721_balance (bcERC721Balances cfg) = Inr (rsvERC721Balances r)"
    "resolve_all resolve_erc721_ownership (bcERC721Ownership cfg) = Inr (rsvERC721Ownership r)"
    "\<not> (rsvNative r = [] \<and> rsvERC20 r = [] \<and> rsvContracts r = [] \<and> rsvERC721Balances r = [] \<and> rsvERC721Ownership r = [])"
  using assms by (auto simp: Resolve_def split: sum.splits if_splits)

lemma pos_word: "0 < n \<Longrightarrow> n < 2 ^ 63 \<Longrightarrow> 0 < (word_of_int n :: u64)"
  by (simp add: word_less_def uint_word_of_int)

lemma cadence_valid:
  "resolveCadence P cfg = Inr cad \<Longrightarrow> bcEveryBlocks cfg < 2 ^ 63 \<Longrightarrow> validateCadence cad = None"
  using pos_word by (auto simp: resolveCadence_def validateCadence_def Let_def split: if_splits sum.splits)

definition contract_ok :: "contract_target \<Rightarrow> bool" where
  "contract_ok t \<longleftrightarrow> cttName t \<noteq> [] \<and> cttAddress t \<noteq> [] \<and> decimals_ok (cttDecimals t)
     \<and> (cttNativeBalance t \<or> cttTokenSupply t \<or> 0 < cttWindow t)"

text \<open>
C35: A configuration that resolves is one the poller accepts: the cadence passes the poller's own
  check, there is something to poll, the default bounds are positive, and every target is usable -
  named, addressed, its decimals in [0,255], its token identifier an integer, and a contract
  target with at least one field to observe.
\<close>
theorem resolved_is_accepted:
  assumes "Resolve P cfg = Inr r" and "boCadence Op = rsvCadence r"
    and "bcEveryBlocks cfg < 2 ^ 63" and "\<forall>c \<in> set (bcContracts cfg). ccgWindow c < 2 ^ 63"
  shows "(\<exists>Op'. bal_New True True Op r = Inr Op' \<and> 0 < boBackoffBase Op' \<and> 0 < boBackoffMax Op' \<and> 0 < boMaxConcurrency Op')
    \<and> (\<forall>t \<in> set (rsvNative r). nttName t \<noteq> [] \<and> nttAddress t \<noteq> [])
    \<and> (\<forall>t \<in> set (rsvERC20 r). ettName t \<noteq> [] \<and> ettToken t \<noteq> [] \<and> ettAddress t \<noteq> [] \<and> decimals_ok (ettDecimals t))
    \<and> (\<forall>t \<in> set (rsvContracts r). contract_ok t)
    \<and> (\<forall>t \<in> set (rsvERC721Balances r). ebtName t \<noteq> [] \<and> ebtToken t \<noteq> [] \<and> ebtOwner t \<noteq> [])
    \<and> (\<forall>t \<in> set (rsvERC721Ownership r). eotName t \<noteq> [] \<and> eotToken t \<noteq> [] \<and> parseBigInt (eotTokenID t) \<noteq> None)"
proof -
  note parts = Resolve_parts [OF assms(1)]
  note pos = pos_word and cad = cadence_valid [OF parts(1) assms(3)]
  from cad parts(7) assms(2) have "\<exists>Op'. bal_New True True Op r = Inr Op' \<and> 0 < boBackoffBase Op' \<and> 0 < boBackoffMax Op' \<and> 0 < boMaxConcurrency Op'"
    by (auto simp: bal_New_def defaultMaxConcurrency_def)
  moreover have "\<forall>t \<in> set (rsvContracts r). contract_ok t"
  proof
    fix t assume "t \<in> set (rsvContracts r)"
    with resolve_all_set [OF parts(4)] obtain c where "c \<in> set (bcContracts cfg)" "resolve_contract c = Inr t" by blast
    with assms(4) pos show "contract_ok t" by (auto simp: resolve_contract_def contract_ok_def split: if_splits)
  qed
  moreover have "\<forall>t \<in> set (rsvNative r). nttName t \<noteq> [] \<and> nttAddress t \<noteq> []"
    using resolve_all_set [OF parts(2)] by (fastforce simp: resolve_defs split: if_splits)
  moreover have "\<forall>t \<in> set (rsvERC20 r). ettName t \<noteq> [] \<and> ettToken t \<noteq> [] \<and> ettAddress t \<noteq> [] \<and> decimals_ok (ettDecimals t)"
    using resolve_all_set [OF parts(3)] by (fastforce simp: resolve_defs split: if_splits)
  moreover have "\<forall>t \<in> set (rsvERC721Balances r). ebtName t \<noteq> [] \<and> ebtToken t \<noteq> [] \<and> ebtOwner t \<noteq> []"
    using resolve_all_set [OF parts(5)] by (fastforce simp: resolve_defs Let_def split: if_splits)
  moreover have "\<forall>t \<in> set (rsvERC721Ownership r). eotName t \<noteq> [] \<and> eotToken t \<noteq> [] \<and> parseBigInt (eotTokenID t) \<noteq> None"
    using resolve_all_set [OF parts(6)] by (fastforce simp: resolve_defs split: if_splits)
  ultimately show ?thesis by blast
qed

definition sample_config :: balance_config where
  "sample_config = \<lparr> bcInterval = [], bcEveryBlocks = 5, bcNative = [\<lparr> nttName = ''vault'', nttAddress = ''0x1'' \<rparr>],
     bcERC20 = [], bcContracts = [], bcERC721Balances = [], bcERC721Ownership = [] \<rparr>"

lemma resolved_is_accepted_witness:
  "\<exists>r Op'. Resolve (\<lambda>_. Inl []) sample_config = Inr r
     \<and> bal_New True True \<lparr> boChainName = ''c'', boChainID = 1, boCadence = rsvCadence r, boMaxConcurrency = 0, boBackoffBase = 0, boBackoffMax = 0 \<rparr> r = Inr Op'"
proof -
  obtain r where r: "Resolve (\<lambda>_. Inl []) sample_config = Inr r"
    by (simp add: Resolve_def resolveCadence_def sample_config_def resolve_native_def)
  from resolved_is_accepted [OF r, of "\<lparr> boChainName = ''c'', boChainID = 1, boCadence = rsvCadence r, boMaxConcurrency = 0, boBackoffBase = 0, boBackoffMax = 0 \<rparr>"] r
  show ?thesis by (auto simp: sample_config_def)
qed

end
