(* ===== verification/Sampling.thy ===== *)
theory Sampling
  imports BalanceTargets StreamBase Backoff
begin

text \<open>
  evm-balance at work (\<^verbatim>\<open>internal/balance\<close>: \<^verbatim>\<open>sample.go\<close>, \<^verbatim>\<open>erc721.go\<close>, \<^verbatim>\<open>decimals.go\<close>, \<^verbatim>\<open>reload.go\<close> and
  the rest of \<^verbatim>\<open>balance.go\<close>): reading a target, change detection, a sampling tick, the hot reload
  and the two cadences.

  \<^verbatim>\<open>Poller\<close> is the record \<open>poller\<close>; the node, the output and the Go scheduler are the record
  \<open>bal_world\<close> of answers to everything that happened before, which the state keeps as
  \<open>pHistory\<close>. A target's timeout is an answer of the node. The targets of a tick are read by
  goroutines that share nothing but the node, so a schedule is an order of whole targets in
  which at most \<open>MaxConcurrency\<close> are started ahead. Log lines, durations and the conversion of
  gauge values to floats are left out: a gauge takes the exact value and its decimals.
\<close>

section \<open>The world and the state\<close>

datatype bal_error =
    HeadFailed rpc_error
  | SampleFailed string string sample_cause
  | EmitFailed emit_error

datatype gauge =
    AccountWei string string int | AccountEth string string int
  | AccountTokenRaw string string string string int | AccountToken string string string string int int
  | ContractWei string string int | ContractEth string string int
  | ContractSupply string string int int | ContractTransfers string string u64 nat
  | ResetAccount string string | ResetAccountToken string string string string | ResetContract string string
  | GHead u64 | GHeadBlockTime int | HHeadBlockTime int | GLastSampled u64 | GLag u64 | HLag u64
  | IncSample | IncChange | IncReconnect | IncReload
  | HReachable bool | GPollOutcome bool | GFailures nat | GBackoff int

datatype bal_event =
    HeadCall "rpc_error + u64"
  | BlockCall u64 "rpc_error + block"
  | BalanceCall string string "rpc_error + string"
  | ViewCall string string string "rpc_error + string"
  | LogsCall log_filter "rpc_error + log list"
  | Sent envelope "emit_error option"
  | Gauge gauge
  | Waited int bool

type_synonym bal_hist = "bal_event list"

record bal_watch_set =
  bwNative :: "native_target list"
  bwERC20 :: "erc20_target list"
  bwContracts :: "contract_target list"
  bwERC721Balances :: "erc721_balance_target list"
  bwERC721Ownership :: "erc721_ownership_target list"

record bal_world =
  bHead :: "bal_hist \<Rightarrow> rpc_error + u64"
  bBlock :: "bal_hist \<Rightarrow> u64 \<Rightarrow> rpc_error + block"
  bBalance :: "bal_hist \<Rightarrow> string \<Rightarrow> string \<Rightarrow> rpc_error + string"
  bView :: "bal_hist \<Rightarrow> string \<Rightarrow> string \<Rightarrow> string \<Rightarrow> rpc_error + string"
  bLogs :: "bal_hist \<Rightarrow> log_filter \<Rightarrow> rpc_error + log list"
  bEmit :: "bal_hist \<Rightarrow> envelope \<Rightarrow> emit_error option"
  bCancelled :: "bal_hist \<Rightarrow> bool"
  bSleep :: "bal_hist \<Rightarrow> bool"
  bTick :: "bal_hist \<Rightarrow> bool"
  bPick :: "bal_hist \<Rightarrow> nat"
  bReload :: "bal_hist \<Rightarrow> bal_watch_set option"
  bRand :: "bal_hist \<Rightarrow> int \<Rightarrow> int"
  bKeccak :: keccak

record poller =
  pTargets :: bal_watch_set
  pPrior :: "string \<rightharpoonup> int"
  pPriorOwner :: "string \<rightharpoonup> string"
  pPending :: "bal_watch_set option"
  pHistory :: bal_hist

type_synonym 'a bm = "(poller, bal_error + 'a) state"

definition happened :: "bal_event \<Rightarrow> (poller, unit) state" where
  "happened x = modify (\<lambda>p. p\<lparr> pHistory := pHistory p @ [x] \<rparr>)"

definition gauge :: "gauge \<Rightarrow> (poller, unit) state" where
  "gauge g = happened (Gauge g)"

definition ask :: "(bal_hist \<Rightarrow> 'a) \<Rightarrow> ('a \<Rightarrow> bal_event) \<Rightarrow> (poller, 'a) state" where
  "ask answer tag = do { h \<leftarrow> gets pHistory; let r = answer h; happened (tag r); State_Monad.return r }"

definition bal_cancelled :: "bal_world \<Rightarrow> (poller, bool) state" where
  "bal_cancelled W = do { h \<leftarrow> gets pHistory; State_Monad.return (bCancelled W h) }"

section \<open>Node calls\<close>

text \<open>\<^verbatim>\<open>Client.BalanceAt\<close>: the hex quantity of the answer.\<close>

definition BalanceAt :: "bal_world \<Rightarrow> string \<Rightarrow> string \<Rightarrow> (poller, rpc_error + int) state" where
  "BalanceAt W addr tag =
     do { r \<leftarrow> ask (\<lambda>h. bBalance W h addr tag) (BalanceCall addr tag);
          State_Monad.return (case r of
            Inl e \<Rightarrow> Inl e
          | Inr hex \<Rightarrow> (case hexBig hex of Inl e \<Rightarrow> Inl (DecodeError ''eth_getBalance'' (error_text e)) | Inr v \<Rightarrow> Inr v)) }"

definition eth_call :: "bal_world \<Rightarrow> string \<Rightarrow> string \<Rightarrow> string \<Rightarrow> (poller, rpc_error + string) state" where
  "eth_call W to data tag = ask (\<lambda>h. bView W h to data tag) (ViewCall to data tag)"

definition view_call :: "bal_world \<Rightarrow> string \<Rightarrow> string \<Rightarrow> string \<Rightarrow> (string \<Rightarrow> sample_cause + 'a)
    \<Rightarrow> (poller, sample_cause + 'a) state" where
  "view_call W to data tag decode =
     do { r \<leftarrow> eth_call W to data tag;
          State_Monad.return (case r of Inl e \<Rightarrow> Inl (CauseRpc e) | Inr raw \<Rightarrow> decode raw) }"

text \<open>\<^verbatim>\<open>fmt.Errorf("erc20 balanceOf %q: %w", t.Name, err)\<close> and its kin.\<close>

definition named :: "string \<Rightarrow> string \<Rightarrow> (poller, sample_cause + 'a) state \<Rightarrow> 'a bm" where
  "named what name m = do { r \<leftarrow> m; (case r of Inl c \<Rightarrow> fail (SampleFailed what name c) | Inr x \<Rightarrow> ok x) }"

definition caused :: "(poller, rpc_error + 'a) state \<Rightarrow> (poller, sample_cause + 'a) state" where
  "caused m = do { r \<leftarrow> m; State_Monad.return (case r of Inl e \<Rightarrow> Inl (CauseRpc e) | Inr x \<Rightarrow> Inr x) }"

section \<open>Readings\<close>

datatype observed = Amount int | Owner string

text \<open>\<open>rgChange\<close> builds the change record from the text of the previous value.\<close>

record reading =
  rgSample :: envelope
  rgKey :: string
  rgValue :: observed
  rgChange :: "string \<Rightarrow> envelope"

text \<open>What a tick knows of its block.\<close>

record tick_block =
  tbHead :: u64
  tbTimestamp :: string
  tbHash :: string

definition buildEnv :: "bal_options \<Rightarrow> string \<Rightarrow> string \<Rightarrow> tick_block \<Rightarrow> data \<Rightarrow> envelope" where
  "buildEnv Op typ name b data = zero_envelope\<lparr> eType := typ, eTool := ToolBalance, eName := name,
     eChain := boChainName Op, eChainID := boChainID Op, eBlockNumber := tbHead b, eBlockHash := tbHash b,
     eTimestamp := tbTimestamp b, eData := data \<rparr>"

definition blank_balance :: balance_data where
  "blank_balance = \<lparr> bdKind = [], bdAddress = [], bdToken = [], bdBalanceWei = [], bdBalanceRaw = [], bdBalance = [],
     bdCount = [], bdDecimals = None, bdPreviousWei = [], bdPreviousRaw = [], bdPreviousCount = [] \<rparr>"

definition blank_contract :: contract_data where
  "blank_contract = \<lparr> cdAddress = [], cdField = [], cdBalanceWei = [], cdBalance = [], cdTotalSupplyRaw = [],
     cdTotalSupply = [], cdCount = [], cdDecimals = None, cdWindowBlocks = None, cdPreviousWei = [],
     cdPreviousRaw = [], cdPreviousCount = [], cdPreviousTotalSupply = [] \<rparr>"

definition readNative :: "bal_world \<Rightarrow> bal_options \<Rightarrow> tick_block \<Rightarrow> native_target \<Rightarrow> reading bm" where
  "readNative W Op b t =
     check (named ''native balance'' (nttName t) (caused (BalanceAt W (nttAddress t) (BlockTag (tbHead b))))) (\<lambda>wei.
       do { gauge (AccountWei (nttName t) (to_lower (nttAddress t)) wei);
            gauge (AccountEth (nttName t) (to_lower (nttAddress t)) wei);
            (let d = blank_balance\<lparr> bdKind := KindNative, bdAddress := nttAddress t,
                       bdBalanceWei := show_int wei, bdBalance := bal_weiToEther wei \<rparr> in
             ok \<lparr> rgSample = buildEnv Op TypeBalanceSample (nttName t) b (DBalance d),
                  rgKey = ''native:'' @ nttName t, rgValue = Amount wei,
                  rgChange = (\<lambda>prev. buildEnv Op TypeBalanceChange (nttName t) b (DBalance (d\<lparr> bdPreviousWei := prev \<rparr>))) \<rparr>) })"

definition readERC20 :: "bal_world \<Rightarrow> bal_options \<Rightarrow> tick_block \<Rightarrow> erc20_target \<Rightarrow> reading bm" where
  "readERC20 W Op b t =
     check (named ''erc20 balanceOf'' (ettName t)
              (view_call W (ettToken t) (callDataBalanceOf (bKeccak W) (ettAddress t)) (BlockTag (tbHead b)) decodeUint256)) (\<lambda>val.
       do { gauge (AccountTokenRaw (ettName t) (to_lower (ettAddress t)) (ettName t) (to_lower (ettToken t)) val);
            (let d0 = blank_balance\<lparr> bdKind := KindERC20, bdAddress := ettAddress t, bdToken := ettToken t,
                        bdBalanceRaw := show_int val \<rparr>;
                 d = (case ettDecimals t of None \<Rightarrow> d0
                      | Some n \<Rightarrow> d0\<lparr> bdDecimals := Some n, bdBalance := bal_formatUnits val n \<rparr>) in
             do { (case ettDecimals t of None \<Rightarrow> skip
                   | Some n \<Rightarrow> gauge (AccountToken (ettName t) (to_lower (ettAddress t)) (ettName t) (to_lower (ettToken t)) val n));
                  ok \<lparr> rgSample = buildEnv Op TypeBalanceSample (ettName t) b (DBalance d),
                       rgKey = ''erc20:'' @ ettName t, rgValue = Amount val,
                       rgChange = (\<lambda>prev. buildEnv Op TypeBalanceChange (ettName t) b (DBalance (d\<lparr> bdPreviousRaw := prev \<rparr>))) \<rparr> }) })"

definition readERC721Balance :: "bal_world \<Rightarrow> bal_options \<Rightarrow> tick_block \<Rightarrow> erc721_balance_target \<Rightarrow> reading bm" where
  "readERC721Balance W Op b t =
     check (named ''erc721 balanceOf'' (ebtName t)
              (view_call W (ebtToken t) (callDataBalanceOf (bKeccak W) (ebtOwner t)) (BlockTag (tbHead b)) decodeUint256)) (\<lambda>count.
       do { gauge (AccountTokenRaw (ebtName t) (to_lower (ebtOwner t)) (ebtName t) (to_lower (ebtToken t)) count);
            (let d = blank_balance\<lparr> bdKind := KindERC721, bdAddress := ebtOwner t, bdToken := ebtToken t,
                       bdCount := show_int count \<rparr> in
             ok \<lparr> rgSample = buildEnv Op TypeBalanceSample (ebtName t) b (DBalance d),
                  rgKey = ''erc721-balance:'' @ ebtName t, rgValue = Amount count,
                  rgChange = (\<lambda>prev. buildEnv Op TypeBalanceChange (ebtName t) b (DBalance (d\<lparr> bdPreviousCount := prev \<rparr>))) \<rparr>) })"

definition readERC721Ownership :: "bal_world \<Rightarrow> bal_options \<Rightarrow> tick_block \<Rightarrow> erc721_ownership_target \<Rightarrow> reading bm" where
  "readERC721Ownership W Op b t =
     check (named ''erc721 ownerOf'' (eotName t)
              (view_call W (eotToken t) (callDataOwnerOf (bKeccak W) (eotTokenID t)) (BlockTag (tbHead b)) decodeAddress)) (\<lambda>owner.
       (let d = \<lparr> odKind = KindERC721, odToken = eotToken t, odTokenID = eotTokenID t, odOwner = owner, odPreviousOwner = [] \<rparr> in
        ok \<lparr> rgSample = buildEnv Op TypeOwnershipSample (eotName t) b (DOwnership d),
             rgKey = ''erc721-ownership:'' @ eotName t, rgValue = Owner owner,
             rgChange = (\<lambda>prev. buildEnv Op TypeOwnershipChange (eotName t) b (DOwnership (d\<lparr> odPreviousOwner := prev \<rparr>))) \<rparr>))"

definition readContractNative :: "bal_world \<Rightarrow> bal_options \<Rightarrow> tick_block \<Rightarrow> contract_target \<Rightarrow> reading bm" where
  "readContractNative W Op b t =
     check (named ''contract native balance'' (cttName t) (caused (BalanceAt W (cttAddress t) (BlockTag (tbHead b))))) (\<lambda>wei.
       do { gauge (ContractWei (cttName t) (to_lower (cttAddress t)) wei);
            gauge (ContractEth (cttName t) (to_lower (cttAddress t)) wei);
            (let d = blank_contract\<lparr> cdAddress := cttAddress t, cdField := FieldNativeBalance,
                       cdBalanceWei := show_int wei, cdBalance := bal_weiToEther wei \<rparr> in
             ok \<lparr> rgSample = buildEnv Op TypeContractSample (cttName t) b (DContract d),
                  rgKey = ''contract-native:'' @ cttName t, rgValue = Amount wei,
                  rgChange = (\<lambda>prev. buildEnv Op TypeContractChange (cttName t) b (DContract (d\<lparr> cdPreviousWei := prev \<rparr>))) \<rparr>) })"

definition readContractSupply :: "bal_world \<Rightarrow> bal_options \<Rightarrow> tick_block \<Rightarrow> contract_target \<Rightarrow> reading bm" where
  "readContractSupply W Op b t =
     check (named ''contract totalSupply'' (cttName t)
              (view_call W (cttAddress t) (callDataTotalSupply (bKeccak W)) (BlockTag (tbHead b)) decodeUint256)) (\<lambda>val.
       (let d0 = blank_contract\<lparr> cdAddress := cttAddress t, cdField := FieldTokenTotalSupply, cdTotalSupplyRaw := show_int val \<rparr>;
            d = (case cttDecimals t of None \<Rightarrow> d0
                 | Some n \<Rightarrow> d0\<lparr> cdDecimals := Some n, cdTotalSupply := bal_formatUnits val n \<rparr>) in
        do { gauge (ContractSupply (cttName t) (to_lower (cttAddress t)) val (case cttDecimals t of None \<Rightarrow> 0 | Some n \<Rightarrow> n));
             ok \<lparr> rgSample = buildEnv Op TypeContractSample (cttName t) b (DContract d),
                  rgKey = ''contract-supply:'' @ cttName t, rgValue = Amount val,
                  rgChange = (\<lambda>prev. buildEnv Op TypeContractChange (cttName t) b (DContract (d\<lparr> cdPreviousTotalSupply := prev \<rparr>))) \<rparr> }))"

definition transferTopic0 :: string where
  "transferTopic0 = ''0xddf252ad1be2c89b69c2b068fc378daa952ba7f163c4a11628f55a4df523b3ef''"

definition window_start :: "u64 \<Rightarrow> u64 \<Rightarrow> u64" where
  "window_start head window = (if head + 1 > window then head - window + 1 else 0)"

definition readContractTransferCount :: "bal_world \<Rightarrow> bal_options \<Rightarrow> tick_block \<Rightarrow> contract_target \<Rightarrow> reading bm" where
  "readContractTransferCount W Op b t =
     (let f = \<lparr> fFromBlock = window_start (tbHead b) (cttWindow t), fToBlock = tbHead b,
                fAddresses = [to_lower (cttAddress t)], fTopics = [[transferTopic0]] \<rparr> in
      check (named ''contract transfer_count'' (cttName t) (caused (ask (\<lambda>h. bLogs W h f) (LogsCall f)))) (\<lambda>logs.
        do { gauge (ContractTransfers (cttName t) (to_lower (cttAddress t)) (cttWindow t) (length logs));
             (let d = blank_contract\<lparr> cdAddress := cttAddress t, cdField := FieldTransferCount,
                        cdCount := show_int (int (length logs)), cdWindowBlocks := Some (sint (cttWindow t)) \<rparr> in
              ok \<lparr> rgSample = buildEnv Op TypeContractSample (cttName t) b (DContract d),
                   rgKey = ''contract-transfers:'' @ cttName t, rgValue = Amount (int (length logs)),
                   rgChange = (\<lambda>prev. buildEnv Op TypeContractChange (cttName t) b (DContract (d\<lparr> cdPreviousCount := prev \<rparr>))) \<rparr>) }))"

definition readContract :: "bal_world \<Rightarrow> bal_options \<Rightarrow> tick_block \<Rightarrow> contract_target \<Rightarrow> reading list bm" where
  "readContract W Op b t =
     check (if cttNativeBalance t then check (readContractNative W Op b t) (\<lambda>r. ok [r]) else ok []) (\<lambda>ns.
     check (if cttTokenSupply t then check (readContractSupply W Op b t) (\<lambda>r. ok [r]) else ok []) (\<lambda>ss.
     check (if cttWindow t > 0 then check (readContractTransferCount W Op b t) (\<lambda>r. ok [r]) else ok []) (\<lambda>cs.
       ok (ns @ ss @ cs))))"

section \<open>Change detection\<close>

definition peekChanged :: "poller \<Rightarrow> string \<Rightarrow> int \<Rightarrow> bool \<times> int option" where
  "peekChanged p key cur =
     (case pPrior p key of None \<Rightarrow> (False, None) | Some prev \<Rightarrow> (prev \<noteq> cur, Some prev))"

definition commitValue :: "string \<Rightarrow> int \<Rightarrow> poller \<Rightarrow> poller" where
  "commitValue key cur p = p\<lparr> pPrior := (pPrior p)(key \<mapsto> cur) \<rparr>"

definition peekOwnerChanged :: "poller \<Rightarrow> string \<Rightarrow> string \<Rightarrow> bool \<times> string option" where
  "peekOwnerChanged p key cur =
     (case pPriorOwner p key of None \<Rightarrow> (False, None) | Some prev \<Rightarrow> (\<not> equal_fold prev cur, Some prev))"

definition commitOwner :: "string \<Rightarrow> string \<Rightarrow> poller \<Rightarrow> poller" where
  "commitOwner key cur p = p\<lparr> pPriorOwner := (pPriorOwner p)(key \<mapsto> cur) \<rparr>"

definition applyChange :: "reading \<Rightarrow> poller \<Rightarrow> envelope option" where
  "applyChange r p =
     (case rgValue r of
        Amount v \<Rightarrow> (case peekChanged p (rgKey r) v of (True, Some prev) \<Rightarrow> Some (rgChange r (show_int prev)) | _ \<Rightarrow> None)
      | Owner w \<Rightarrow> (case peekOwnerChanged p (rgKey r) w of (True, Some prev) \<Rightarrow> Some (rgChange r prev) | _ \<Rightarrow> None))"

definition commit_reading :: "reading \<Rightarrow> poller \<Rightarrow> poller" where
  "commit_reading r = (case rgValue r of Amount v \<Rightarrow> commitValue (rgKey r) v | Owner w \<Rightarrow> commitOwner (rgKey r) w)"

definition emitEnv :: "bal_world \<Rightarrow> envelope \<Rightarrow> unit bm" where
  "emitEnv W env =
     do { r \<leftarrow> ask (\<lambda>h. bEmit W h env) (Sent env);
          (case r of
             Some e \<Rightarrow> fail (EmitFailed e)
           | None \<Rightarrow> do {
               gauge (if eType env \<in> {TypeBalanceChange, TypeContractChange, TypeOwnershipChange} then IncChange else IncSample);
               ok () }) }"

definition apply_reading :: "bal_world \<Rightarrow> reading \<Rightarrow> unit bm" where
  "apply_reading W r =
     check (emitEnv W (rgSample r)) (\<lambda>_.
       do { p \<leftarrow> gets id;
            (case applyChange r p of
               None \<Rightarrow> do { modify (commit_reading r); ok () }
             | Some env \<Rightarrow> check (emitEnv W env) (\<lambda>_. do { modify (commit_reading r); ok () })) })"

section \<open>A tick\<close>

type_synonym sample_task = "reading list bm"

definition buildTasks :: "bal_world \<Rightarrow> bal_options \<Rightarrow> tick_block \<Rightarrow> bal_watch_set \<Rightarrow> sample_task list" where
  "buildTasks W Op b ws =
     map (\<lambda>t. check (readNative W Op b t) (\<lambda>r. ok [r])) (bwNative ws)
     @ map (\<lambda>t. check (readERC20 W Op b t) (\<lambda>r. ok [r])) (bwERC20 ws)
     @ map (\<lambda>t. check (readERC721Balance W Op b t) (\<lambda>r. ok [r])) (bwERC721Balances ws)
     @ map (\<lambda>t. check (readERC721Ownership W Op b t) (\<lambda>r. ok [r])) (bwERC721Ownership ws)
     @ map (readContract W Op b) (bwContracts ws)"

text \<open>The goroutines: each finishing task stores its result under its index.\<close>

fun run_tasks :: "nat \<Rightarrow> bal_world \<Rightarrow> nat \<Rightarrow> (nat \<times> sample_task) list \<Rightarrow> (bal_error + reading list) list
    \<Rightarrow> (poller, (bal_error + reading list) list) state" where
  "run_tasks 0 W limit todo results = State_Monad.return results"
| "run_tasks (Suc k) W limit todo results =
     (if todo = [] then State_Monad.return results
      else do {
        h \<leftarrow> gets pHistory;
        let j = bPick W h mod min limit (length todo);
        r \<leftarrow> snd (todo ! j);
        run_tasks k W limit (take j todo @ drop (Suc j) todo) (results[fst (todo ! j) := r]) })"

definition permanent_error :: "bal_error \<Rightarrow> bool" where
  "permanent_error e = (case e of SampleFailed _ _ CauseEmptyResult \<Rightarrow> True | _ \<Rightarrow> False)"

fun select_error :: "bal_error option \<Rightarrow> bal_error option list \<Rightarrow> bal_error option" where
  "select_error first [] = first"
| "select_error first (None # errs) = select_error first errs"
| "select_error first (Some e # errs) =
     (if permanent_error e then Some e else select_error (if first = None then Some e else first) errs)"

definition selectError :: "bal_error option list \<Rightarrow> bal_error option" where
  "selectError errs = select_error None errs"

definition error_of :: "bal_error + 'a \<Rightarrow> bal_error option" where
  "error_of r = (case r of Inl e \<Rightarrow> Some e | Inr _ \<Rightarrow> None)"

definition value_of :: "bal_error + reading list \<Rightarrow> reading list" where
  "value_of r = (case r of Inl _ \<Rightarrow> [] | Inr rs \<Rightarrow> rs)"

definition readConcurrently :: "bal_world \<Rightarrow> bal_options \<Rightarrow> sample_task list \<Rightarrow> reading list list bm" where
  "readConcurrently W Op tasks =
     (let limit = (if boMaxConcurrency Op \<le> 0 then 1 else nat (boMaxConcurrency Op)) in
      do { results \<leftarrow> run_tasks (length tasks) W limit (zip [0..<length tasks] tasks) (replicate (length tasks) (Inr []));
           (case selectError (map error_of results) of
              Some e \<Rightarrow> fail e
            | None \<Rightarrow> ok (map value_of results)) })"

definition head_block :: "bal_world \<Rightarrow> u64 \<Rightarrow> (poller, tick_block) state" where
  "head_block W head =
     do { r \<leftarrow> ask (\<lambda>h. bBlock W h head) (BlockCall head);
          (case r of
             Inl e \<Rightarrow> State_Monad.return \<lparr> tbHead = head, tbTimestamp = [], tbHash = [] \<rparr>
           | Inr blk \<Rightarrow>
               (case BlockTime (Some blk) of
                  None \<Rightarrow> State_Monad.return \<lparr> tbHead = head, tbTimestamp = [], tbHash = bHash blk \<rparr>
                | Some bt \<Rightarrow> do {
                    gauge (GHeadBlockTime bt);
                    gauge (HHeadBlockTime bt);
                    State_Monad.return \<lparr> tbHead = head, tbTimestamp = RFC3339 bt, tbHash = bHash blk \<rparr> })) }"

definition sampleAll :: "bal_world \<Rightarrow> bal_options \<Rightarrow> u64 \<Rightarrow> unit bm" where
  "sampleAll W Op head =
     do { b \<leftarrow> head_block W head;
          ws \<leftarrow> gets pTargets;
          check (readConcurrently W Op (buildTasks W Op b ws)) (\<lambda>results.
          check (for_each (apply_reading W) (concat results)) (\<lambda>_.
            do { gauge (GLastSampled head); gauge (GLag 0); gauge (HLag 0); ok () })) }"

section \<open>Decimals\<close>

definition fetchDecimals :: "bal_world \<Rightarrow> string \<Rightarrow> (poller, int option) state" where
  "fetchDecimals W token =
     do { r \<leftarrow> eth_call W token (callDataDecimals (bKeccak W)) ''latest'';
          State_Monad.return (case r of
            Inl _ \<Rightarrow> None
          | Inr raw \<Rightarrow> (case decodeUint8 raw of Inl _ \<Rightarrow> None | Inr d \<Rightarrow> Some d)) }"

type_synonym decimals_cache = "string \<rightharpoonup> int option"

definition resolve_decimals :: "bal_world \<Rightarrow> decimals_cache \<Rightarrow> string \<Rightarrow> int option \<Rightarrow> (poller, decimals_cache \<times> int option) state" where
  "resolve_decimals W cache token override =
     (case override of
        Some d \<Rightarrow> State_Monad.return (cache, Some d)
      | None \<Rightarrow>
          (case cache (to_lower token) of
             Some d \<Rightarrow> State_Monad.return (cache, d)
           | None \<Rightarrow> do { d \<leftarrow> fetchDecimals W token; State_Monad.return (cache(to_lower token \<mapsto> d), d) }))"

fun resolve_erc20_decimals :: "bal_world \<Rightarrow> decimals_cache \<Rightarrow> erc20_target list \<Rightarrow> (poller, decimals_cache \<times> erc20_target list) state" where
  "resolve_erc20_decimals W cache [] = State_Monad.return (cache, [])"
| "resolve_erc20_decimals W cache (t # ts) =
     do { (cache1, d) \<leftarrow> resolve_decimals W cache (ettToken t) (ettDecimals t);
          (cache2, ts') \<leftarrow> resolve_erc20_decimals W cache1 ts;
          State_Monad.return (cache2, t\<lparr> ettDecimals := d \<rparr> # ts') }"

fun resolve_contract_decimals :: "bal_world \<Rightarrow> decimals_cache \<Rightarrow> contract_target list \<Rightarrow> (poller, decimals_cache \<times> contract_target list) state" where
  "resolve_contract_decimals W cache [] = State_Monad.return (cache, [])"
| "resolve_contract_decimals W cache (t # ts) =
     do { (cache1, d) \<leftarrow> (if \<not> cttTokenSupply t then State_Monad.return (cache, cttDecimals t)
                          else resolve_decimals W cache (cttAddress t) (cttDecimals t));
          (cache2, ts') \<leftarrow> resolve_contract_decimals W cache1 ts;
          State_Monad.return (cache2, t\<lparr> cttDecimals := d \<rparr> # ts') }"

definition resolveDecimals :: "bal_world \<Rightarrow> (poller, unit) state" where
  "resolveDecimals W =
     do { ws \<leftarrow> gets pTargets;
          (cache, es) \<leftarrow> resolve_erc20_decimals W Map.empty (bwERC20 ws);
          (cache', cs) \<leftarrow> resolve_contract_decimals W cache (bwContracts ws);
          modify (\<lambda>p. p\<lparr> pTargets := (pTargets p)\<lparr> bwERC20 := es, bwContracts := cs \<rparr> \<rparr>) }"

section \<open>Hot reload\<close>

definition bal_QueueReload :: "bal_watch_set \<Rightarrow> (poller, unit) state" where
  "bal_QueueReload ws = modify (\<lambda>p. p\<lparr> pPending := Some ws \<rparr>)"

definition forget_prior :: "string \<Rightarrow> (poller, unit) state" where
  "forget_prior key = modify (\<lambda>p. p\<lparr> pPrior := (pPrior p)(key := None) \<rparr>)"

definition forget_owner :: "string \<Rightarrow> (poller, unit) state" where
  "forget_owner key = modify (\<lambda>p. p\<lparr> pPriorOwner := (pPriorOwner p)(key := None) \<rparr>)"

primrec each_step :: "('a \<Rightarrow> (poller, unit) state) \<Rightarrow> 'a list \<Rightarrow> (poller, unit) state" where
  "each_step f [] = skip"
| "each_step f (x # xs) = do { f x; each_step f xs }"

definition names :: "('a \<Rightarrow> string) \<Rightarrow> 'a list \<Rightarrow> string set" where
  "names name xs = set (map name xs)"

text \<open>The window a staged contract of a name has: the last one of that name.\<close>

definition new_window :: "contract_target list \<Rightarrow> string \<Rightarrow> u64" where
  "new_window cs name = (case find (\<lambda>c. cttName c = name) (rev cs) of Some c \<Rightarrow> cttWindow c | None \<Rightarrow> 0)"

definition resetRemoved :: "bal_watch_set \<Rightarrow> bal_watch_set \<Rightarrow> (poller, unit) state" where
  "resetRemoved ws old =
     do { each_step (\<lambda>t. if nttName t \<in> names nttName (bwNative ws) then skip
            else do { gauge (ResetAccount (nttName t) (to_lower (nttAddress t))); forget_prior (''native:'' @ nttName t) })
            (bwNative old);
          each_step (\<lambda>t. if ettName t \<in> names ettName (bwERC20 ws) then skip
            else do { gauge (ResetAccountToken (ettName t) (to_lower (ettAddress t)) (ettName t) (to_lower (ettToken t)));
                      forget_prior (''erc20:'' @ ettName t) })
            (bwERC20 old);
          each_step (\<lambda>t. if cttName t \<notin> names cttName (bwContracts ws)
            then do { gauge (ResetContract (cttName t) (to_lower (cttAddress t)));
                      forget_prior (''contract-native:'' @ cttName t);
                      forget_prior (''contract-supply:'' @ cttName t);
                      forget_prior (''contract-transfers:'' @ cttName t) }
            else if new_window (bwContracts ws) (cttName t) \<noteq> cttWindow t
            then gauge (ResetContract (cttName t) (to_lower (cttAddress t)))
            else skip)
            (bwContracts old);
          each_step (\<lambda>t. if ebtName t \<in> names ebtName (bwERC721Balances ws) then skip
            else do { gauge (ResetAccountToken (ebtName t) (to_lower (ebtOwner t)) (ebtName t) (to_lower (ebtToken t)));
                      forget_prior (''erc721-balance:'' @ ebtName t) })
            (bwERC721Balances old);
          each_step (\<lambda>t. if eotName t \<in> names eotName (bwERC721Ownership ws) then skip
            else forget_owner (''erc721-ownership:'' @ eotName t))
            (bwERC721Ownership old) }"

definition bal_applyPendingReload :: "bal_world \<Rightarrow> (poller, unit) state" where
  "bal_applyPendingReload W =
     do { staged \<leftarrow> gets pPending;
          modify (\<lambda>p. p\<lparr> pPending := None \<rparr>);
          (case staged of
             None \<Rightarrow> skip
           | Some ws \<Rightarrow> do {
               old \<leftarrow> gets pTargets;
               resetRemoved ws old;
               modify (\<lambda>p. p\<lparr> pTargets := ws \<rparr>);
               resolveDecimals W;
               gauge IncReload }) }"

text \<open>What a SIGHUP staged since the last turn.\<close>

definition bal_stage_reload :: "bal_world \<Rightarrow> (poller, unit) state" where
  "bal_stage_reload W =
     do { h \<leftarrow> gets pHistory; (case bReload W h of Some ws \<Rightarrow> bal_QueueReload ws | None \<Rightarrow> skip) }"

section \<open>Failures\<close>

datatype bal_outcome = Finished "bal_error option" | Going nat

definition onSuccess :: "(poller, unit) state" where
  "onSuccess = do { gauge (HReachable True); gauge (GPollOutcome True); gauge (GFailures 0); gauge (GBackoff 0) }"

definition bal_backoffFor :: "bal_options \<Rightarrow> (int \<Rightarrow> int) \<Rightarrow> nat \<Rightarrow> int" where
  "bal_backoffFor Op randInt n = backoff_Jitter randInt (backoff_Duration (int n) (boBackoffBase Op) (boBackoffMax Op))"

text \<open>\<^verbatim>\<open>backoff.Sleep\<close>.\<close>

definition bal_sleep :: "bal_world \<Rightarrow> int \<Rightarrow> (poller, bool) state" where
  "bal_sleep W d =
     (if d \<le> 0 then do { c \<leftarrow> bal_cancelled W; State_Monad.return (\<not> c) }
      else ask (bSleep W) (Waited d))"

definition handleFailure :: "bal_world \<Rightarrow> bal_options \<Rightarrow> nat \<Rightarrow> (poller, bool) state" where
  "handleFailure W Op failures =
     do { gauge (HReachable False);
          gauge (GPollOutcome False);
          gauge (GFailures failures);
          h \<leftarrow> gets pHistory;
          let delay = bal_backoffFor Op (bRand W h) failures;
          gauge (GBackoff delay);
          gauge IncReconnect;
          bal_sleep W delay }"

definition handleError :: "bal_world \<Rightarrow> bal_options \<Rightarrow> nat \<Rightarrow> bal_error \<Rightarrow> (poller, bal_outcome) state" where
  "handleError W Op failures e =
     (if e = EmitFailed EPIPE \<or> e = EmitFailed EBADF then do { gauge (GPollOutcome False); State_Monad.return (Finished (Some e)) }
      else if permanent_error e then do { gauge (GPollOutcome False); State_Monad.return (Finished (Some e)) }
      else do {
        slept \<leftarrow> handleFailure W Op (failures + 1);
        State_Monad.return (if slept then Going (failures + 1) else Finished None) })"

section \<open>The cadences\<close>

definition bal_BlockNumber :: "bal_world \<Rightarrow> u64 bm" where
  "bal_BlockNumber W = do { r \<leftarrow> ask (bHead W) HeadCall; (case r of Inl e \<Rightarrow> fail (HeadFailed e) | Inr n \<Rightarrow> ok n) }"

definition tick :: "bal_world \<Rightarrow> bal_options \<Rightarrow> nat \<Rightarrow> (poller, bal_outcome) state" where
  "tick W Op failures =
     do { r \<leftarrow> check (bal_BlockNumber W) (\<lambda>head. do { gauge (GHead head); sampleAll W Op head });
          (case r of
             Inl e \<Rightarrow> do {
               c \<leftarrow> bal_cancelled W;
               if c then State_Monad.return (Finished None) else handleError W Op failures e }
           | Inr _ \<Rightarrow> do { onSuccess; State_Monad.return (Going 0) }) }"

text \<open>At most \<open>n\<close> turns of each loop.\<close>

fun runIntervalCadence :: "nat \<Rightarrow> bal_world \<Rightarrow> bal_options \<Rightarrow> nat \<Rightarrow> (poller, bal_outcome) state" where
  "runIntervalCadence 0 W Op failures = State_Monad.return (Going failures)"
| "runIntervalCadence (Suc n) W Op failures =
     do { bal_stage_reload W;
          bal_applyPendingReload W;
          r \<leftarrow> tick W Op failures;
          (case r of
             Finished e \<Rightarrow> State_Monad.return (Finished e)
           | Going failures' \<Rightarrow> do {
               h \<leftarrow> gets pHistory;
               if bTick W h then runIntervalCadence n W Op failures' else State_Monad.return (Finished None) }) }"

definition refreshHeadTime :: "bal_world \<Rightarrow> u64 \<Rightarrow> (poller, unit) state" where
  "refreshHeadTime W head =
     do { r \<leftarrow> ask (\<lambda>h. bBlock W h head) (BlockCall head);
          (case r of
             Inl _ \<Rightarrow> skip
           | Inr blk \<Rightarrow> (case BlockTime (Some blk) of
               None \<Rightarrow> skip
             | Some bt \<Rightarrow> do { gauge (GHeadBlockTime bt); gauge (HHeadBlockTime bt) })) }"

record block_vars =
  bvFailures :: nat
  bvLastSampled :: u64
  bvLastHeadTime :: u64
  bvHaveSampled :: bool

datatype block_outcome = BFinished "bal_error option" | BGoing block_vars bool

text \<open>One turn; the flag says whether the loop waits for its ticker before the next one.\<close>

definition block_failed :: "bal_world \<Rightarrow> bal_options \<Rightarrow> block_vars \<Rightarrow> bal_error \<Rightarrow> (poller, block_outcome) state" where
  "block_failed W Op v e =
     do { c \<leftarrow> bal_cancelled W;
          if c then State_Monad.return (BFinished None)
          else do {
            r \<leftarrow> handleError W Op (bvFailures v) e;
            State_Monad.return (case r of
              Finished err \<Rightarrow> BFinished err
            | Going failures \<Rightarrow> BGoing (v\<lparr> bvFailures := failures \<rparr>) False) } }"

definition block_due :: "bal_options \<Rightarrow> block_vars \<Rightarrow> u64 \<Rightarrow> bool" where
  "block_due Op v head \<longleftrightarrow> \<not> bvHaveSampled v \<or> head \<ge> bvLastSampled v + cadEveryBlocks (boCadence Op)"

definition block_iter :: "bal_world \<Rightarrow> bal_options \<Rightarrow> block_vars \<Rightarrow> (poller, block_outcome) state" where
  "block_iter W Op v =
     do { bal_stage_reload W;
          bal_applyPendingReload W;
          r \<leftarrow> bal_BlockNumber W;
          (case r of
             Inl e \<Rightarrow> block_failed W Op v e
           | Inr head \<Rightarrow> do {
               gauge (GHead head);
               onSuccess;
               let v1 = v\<lparr> bvFailures := 0 \<rparr>;
               (if head \<noteq> bvLastHeadTime v1 then refreshHeadTime W head else skip);
               let v2 = v1\<lparr> bvLastHeadTime := head \<rparr>;
               (if bvHaveSampled v2 \<and> head > bvLastSampled v2 then gauge (GLag (head - bvLastSampled v2)) else skip);
               if block_due Op v2 head then do {
                 s \<leftarrow> sampleAll W Op head;
                 (case s of
                    Inl e \<Rightarrow> block_failed W Op v2 e
                  | Inr _ \<Rightarrow> do {
                      onSuccess;
                      State_Monad.return (BGoing (v2\<lparr> bvLastSampled := head, bvHaveSampled := True \<rparr>) True) }) }
               else State_Monad.return (BGoing v2 True) }) }"

fun runBlockCadence :: "nat \<Rightarrow> bal_world \<Rightarrow> bal_options \<Rightarrow> block_vars \<Rightarrow> (poller, block_outcome) state" where
  "runBlockCadence 0 W Op v = State_Monad.return (BGoing v False)"
| "runBlockCadence (Suc n) W Op v =
     do { r \<leftarrow> block_iter W Op v;
          (case r of
             BFinished e \<Rightarrow> State_Monad.return (BFinished e)
           | BGoing v' waits \<Rightarrow> do {
               h \<leftarrow> gets pHistory;
               if \<not> waits \<or> bTick W h then runBlockCadence n W Op v' else State_Monad.return (BFinished None) }) }"

definition fresh_poller :: "bal_watch_set \<Rightarrow> poller" where
  "fresh_poller ws = \<lparr> pTargets = ws, pPrior = Map.empty, pPriorOwner = Map.empty, pPending = None, pHistory = [] \<rparr>"

definition first_vars :: block_vars where
  "first_vars = \<lparr> bvFailures = 0, bvLastSampled = 0, bvLastHeadTime = 0, bvHaveSampled = False \<rparr>"

text \<open>\<^verbatim>\<open>Run\<close>: \<open>None\<close> while the loop is still going.\<close>

definition bal_Run :: "nat \<Rightarrow> bal_world \<Rightarrow> bal_options \<Rightarrow> (poller, bal_error option option) state" where
  "bal_Run n W Op =
     do { resolveDecimals W;
          if cadEveryBlocks (boCadence Op) > 0 then do {
            r \<leftarrow> runBlockCadence n W Op first_vars;
            State_Monad.return (case r of BFinished e \<Rightarrow> Some e | BGoing _ _ \<Rightarrow> None) }
          else do {
            r \<leftarrow> runIntervalCadence n W Op 0;
            State_Monad.return (case r of Finished e \<Rightarrow> Some e | Going _ \<Rightarrow> None) } }"

end
