(* ===== verification/SamplingFacts.thy ===== *)
theory SamplingFacts
  imports Sampling
begin

text \<open>
  What evm-balance promises: a tick reads every target and emits in the configured order whatever
  the schedule, a tick that cannot read changes nothing, the change records of a target are a
  gapless chain, and the block cadence keeps its distance.
\<close>

section \<open>Running the primitive steps\<close>

lemma run_bal_steps [run_simps]:
  "run_state (happened x) p = ((), p\<lparr> pHistory := pHistory p @ [x] \<rparr>)"
  "run_state (gauge g) p = ((), p\<lparr> pHistory := pHistory p @ [Gauge g] \<rparr>)"
  "run_state (ask answer tag) p = (answer (pHistory p), p\<lparr> pHistory := pHistory p @ [tag (answer (pHistory p))] \<rparr>)"
  "run_state (bal_cancelled W) p = (bCancelled W (pHistory p), p)"
  by (simp_all add: gauge_def happened_def ask_def bal_cancelled_def Let_def)

section \<open>Calm computations\<close>

text \<open>A computation is calm when it sends no record and moves no baseline.\<close>

definition calm :: "poller \<Rightarrow> poller \<Rightarrow> bool" where
  "calm p p' \<longleftrightarrow> pPrior p' = pPrior p \<and> pPriorOwner p' = pPriorOwner p \<and> pPending p' = pPending p
     \<and> (\<exists>h. pHistory p' = pHistory p @ h \<and> (\<forall>env r. Sent env r \<notin> set h) \<and> (\<forall>n. Gauge (GLastSampled n) \<notin> set h))"

interpretation calm: step_order calm
proof
  show "calm p p" for p by (simp add: calm_def)
  show "calm p q \<Longrightarrow> calm q r \<Longrightarrow> calm p r" for p q r unfolding calm_def by auto
qed

definition quiet_event :: "bal_event \<Rightarrow> bool" where
  "quiet_event x \<longleftrightarrow> (case x of Sent _ _ \<Rightarrow> False | Gauge (GLastSampled _) \<Rightarrow> False | _ \<Rightarrow> True)"

lemma calm_happened: "quiet_event x \<Longrightarrow> state_io_rel calm (happened x)"
  unfolding happened_def by (rule calm.io_modify) (auto simp: calm_def quiet_event_def)

lemma calm_gauge: "quiet_event (Gauge g) \<Longrightarrow> state_io_rel calm (gauge g)"
  unfolding gauge_def by (rule calm_happened)

lemma calm_ask: "(\<And>a. quiet_event (tag a)) \<Longrightarrow> state_io_rel calm (ask answer tag)"
  unfolding ask_def by (intro calm.io_intros calm_happened)

lemma calm_cancelled: "state_io_rel calm (bal_cancelled W)"
  unfolding bal_cancelled_def by (intro calm.io_intros)

lemma calm_targets: "state_io_rel calm (modify (\<lambda>p. p\<lparr> pTargets := f p \<rparr>))"
  by (rule calm.io_modify) (simp add: calm_def)

lemmas calm_steps = calm.io_intros calm_happened calm_gauge calm_ask calm_cancelled calm_targets

lemma calm_calls:
  "state_io_rel calm (BalanceAt W addr tag)" "state_io_rel calm (eth_call W to data tag)"
  "state_io_rel calm (view_call W to data tag decode)"
  "state_io_rel calm m \<Longrightarrow> state_io_rel calm (named what name m)"
  "state_io_rel calm m' \<Longrightarrow> state_io_rel calm (caused m')"
  unfolding BalanceAt_def view_call_def eth_call_def named_def caused_def
  by (intro calm_steps; simp add: quiet_event_def)+

lemma calm_logs: "state_io_rel calm (ask (\<lambda>h. bLogs W h f) (LogsCall f))"
  by (rule calm_ask) (simp add: quiet_event_def)

lemmas read_defs = readNative_def readERC20_def readERC721Balance_def readERC721Ownership_def
  readContractNative_def readContractSupply_def readContractTransferCount_def

lemma calm_reads:
  "state_io_rel calm (readNative W Op b nt)" "state_io_rel calm (readERC20 W Op b et)"
  "state_io_rel calm (readERC721Balance W Op b bt)" "state_io_rel calm (readERC721Ownership W Op b ot)"
  "state_io_rel calm (readContractNative W Op b ct)" "state_io_rel calm (readContractSupply W Op b ct)"
  "state_io_rel calm (readContractTransferCount W Op b ct)"
  unfolding read_defs Let_def
  by (intro calm_steps calm_calls calm_logs; (simp add: quiet_event_def)?)+

lemma calm_readContract: "state_io_rel calm (readContract W Op b t)"
  unfolding readContract_def by (intro calm_steps calm_reads)

lemma calm_tasks: "\<forall>m \<in> set (buildTasks W Op b ws). state_io_rel calm m"
  unfolding buildTasks_def by (auto intro!: calm.io_check calm.io_ok calm_reads calm_readContract)

text \<open>What a computation can return.\<close>

definition yields :: "(poller, 'a) state \<Rightarrow> ('a \<Rightarrow> bool) \<Rightarrow> bool" where
  "yields m Q \<longleftrightarrow> (\<forall>p r p'. run_state m p = (r, p') \<longrightarrow> Q r)"

lemma yieldsD: "yields m Q \<Longrightarrow> run_state m p = (r, p') \<Longrightarrow> Q r"
  by (auto simp: yields_def)

text \<open>What it can return when it succeeds.\<close>

abbreviation gives :: "'a bm \<Rightarrow> ('a \<Rightarrow> bool) \<Rightarrow> bool" where
  "gives m Q \<equiv> yields m (\<lambda>r. \<forall>x. r = Inr x \<longrightarrow> Q x)"

lemma gives_ok: "Q x \<Longrightarrow> gives (ok x) Q"
  by (simp add: yields_def)

lemma gives_check: "gives m P \<Longrightarrow> (\<And>x. P x \<Longrightarrow> gives (k x) Q) \<Longrightarrow> gives (check m k) Q"
  unfolding yields_def by (fastforce simp: run_simps split: prod.splits sum.splits)

lemma gives_check_any: "(\<And>x. gives (k x) Q) \<Longrightarrow> gives (check m k) Q"
  unfolding yields_def by (fastforce simp: run_simps split: prod.splits sum.splits)

lemma gives_bind: "(\<And>x. gives (k x) Q) \<Longrightarrow> gives (State_Monad.bind m k) Q"
  unfolding yields_def by (auto split: prod.splits)

text \<open>The goroutine picked is one of those that may run.\<close>

lemma pick_lt: "todo \<noteq> [] \<Longrightarrow> 0 < limit \<Longrightarrow> n mod min limit (length todo) < length todo"
proof -
  assume "todo \<noteq> []" "0 < limit"
  then have "0 < min limit (length todo)" by simp
  then have "n mod min limit (length todo) < min limit (length todo)" by (rule mod_less_divisor)
  then show ?thesis by simp
qed

lemma set_without: "set (take j xs @ drop (Suc j) xs) \<subseteq> set xs"
  by (auto dest: in_set_takeD in_set_dropD)

lemma length_without: "j < length xs \<Longrightarrow> length (take j xs @ drop (Suc j) xs) = length xs - 1"
  by simp

lemma set_with: "j < length xs \<Longrightarrow> set xs = insert (xs ! j) (set (take j xs @ drop (Suc j) xs))"
  by (subst id_take_nth_drop [of j xs]) auto

lemma calm_run_tasks:
  "0 < limit \<Longrightarrow> \<forall>x \<in> set todo. state_io_rel calm (snd x) \<Longrightarrow> state_io_rel calm (run_tasks k W limit todo results)"
proof (induction k arbitrary: todo results)
  case (Suc k)
  show ?case
  proof (cases "todo = []")
    case False
    have one: "state_io_rel calm (snd (todo ! (n mod min limit (length todo))))" for n
      using Suc.prems(2) pick_lt [OF False Suc.prems(1), of n] by simp
    have rest: "state_io_rel calm (run_tasks k W limit (take j todo @ drop (Suc j) todo) rs)" for j rs
      using Suc.prems set_without [of j todo] by (intro Suc.IH) blast+
    show ?thesis using False
      by (simp only: run_tasks.simps if_False) (intro calm.io_bind calm.io_gets calm.io_let one rest; simp only: one)
  qed (simp add: calm.io_return)
qed (simp add: calm.io_return)

lemma run_tasks_spec:
  assumes "0 < limit" and "length todo \<le> k"
    and "\<forall>(i, m) \<in> set todo. i < length results \<and> yields m (Q i)"
    and "\<forall>i < length results. i \<in> fst ` set todo \<or> Q i (results ! i)"
    and "run_state (run_tasks k W limit todo results) p = (out, p')"
  shows "length out = length results \<and> (\<forall>i < length results. Q i (out ! i))"
  using assms(2-)
proof (induction k arbitrary: todo results p)
  case 0
  then show ?case by simp
next
  case (Suc k)
  show ?case
  proof (cases "todo = []")
    case True
    with Suc.prems show ?thesis by simp
  next
    case False
    let ?j = "bPick W (pHistory p) mod min limit (length todo)"
    have j: "?j < length todo" by (rule pick_lt [OF False assms(1)])
    obtain i m where im: "todo ! ?j = (i, m)" by (cases "todo ! ?j")
    obtain r q where r: "run_state m p = (r, q)" by (metis surj_pair)
    have in_todo: "(i, m) \<in> set todo" using j im by (metis nth_mem)
    let ?todo = "take ?j todo @ drop (Suc ?j) todo"
    have next': "run_state (run_tasks k W limit ?todo (results[i := r])) q = (out, p')"
      using Suc.prems(4) False im r by (simp add: Let_def)
    have "i < length results \<and> yields m (Q i)" using Suc.prems(2) in_todo by blast
    then have Q: "i < length results" "Q i r" using yieldsD [OF _ r] by blast+
    have sub: "set ?todo \<subseteq> set todo" by (rule set_without)
    have "length ?todo \<le> k" using Suc.prems(1) length_without [OF j] by simp
    moreover have "\<forall>(i', m') \<in> set ?todo. i' < length (results[i := r]) \<and> yields m' (Q i')"
      using Suc.prems(2) sub by auto
    moreover have "\<forall>i' < length (results[i := r]). i' \<in> fst ` set ?todo \<or> Q i' (results[i := r] ! i')"
    proof (intro allI impI)
      fix i' assume "i' < length (results[i := r])"
      then have l: "i' < length results" by simp
      show "i' \<in> fst ` set ?todo \<or> Q i' (results[i := r] ! i')"
      proof (cases "i' = i")
        case True
        with Q l show ?thesis by simp
      next
        case False
        have "i' \<in> fst ` set todo \<or> Q i' (results ! i')" using Suc.prems(3) l by blast
        moreover have "i' \<in> fst ` set todo \<Longrightarrow> i' \<in> fst ` set ?todo"
          using set_with [OF j] im False by auto
        ultimately show ?thesis using False by auto
      qed
    qed
    ultimately show ?thesis using Suc.IH [OF _ _ _ next'] by simp
  qed
qed

section \<open>Reading the targets\<close>

lemma limit_pos: "0 < (if boMaxConcurrency Op \<le> 0 then 1 else nat (boMaxConcurrency Op))"
  by simp

lemma calm_readConcurrently:
  assumes "\<forall>m \<in> set tasks. state_io_rel calm m"
  shows "state_io_rel calm (readConcurrently W Op tasks)"
proof -
  have "\<forall>x \<in> set (zip [0..<length tasks] tasks). state_io_rel calm (snd x)"
    using assms by (auto dest: set_zip_rightD)
  from calm_run_tasks [OF limit_pos this] show ?thesis
    unfolding readConcurrently_def by (simp only: Let_def) (intro calm.io_intros)
qed

lemma select_error_None: "select_error first errs = None \<longleftrightarrow> first = None \<and> (\<forall>e \<in> set errs. e = None)"
  by (induction first errs rule: select_error.induct) auto

text \<open>A permanent error is preferred, whichever goroutine found it and whenever.\<close>

lemma select_error_permanent:
  "Some e \<in> set errs \<Longrightarrow> permanent_error e \<Longrightarrow> \<exists>e. select_error first errs = Some e \<and> permanent_error e"
  by (induction first errs rule: select_error.induct) auto

text \<open>What the readings of a tick are, whatever the schedule: those of each task, in task order.\<close>

lemma readConcurrently_spec:
  assumes "run_state (readConcurrently W Op tasks) p = (Inr results, p')"
    and "\<forall>i < length tasks. gives (tasks ! i) (Q i)"
  shows "length results = length tasks \<and> (\<forall>i < length tasks. Q i (results ! i))"
proof -
  let ?n = "length tasks"
  let ?limit = "if boMaxConcurrency Op \<le> 0 then 1 else nat (boMaxConcurrency Op)"
  obtain out q where out: "run_state (run_tasks ?n W ?limit (zip [0..<?n] tasks) (replicate ?n (Inr []))) p = (out, q)"
    by (metis surj_pair)
  have "length out = length (replicate ?n (Inr [] :: bal_error + reading list)) \<and>
      (\<forall>i < length (replicate ?n (Inr [] :: bal_error + reading list)). \<forall>rs. out ! i = Inr rs \<longrightarrow> Q i rs)"
  proof (rule run_tasks_spec [OF limit_pos _ _ _ out])
    show "\<forall>(i, m) \<in> set (zip [0..<?n] tasks). i < length (replicate ?n (Inr [] :: bal_error + reading list))
      \<and> yields m (\<lambda>r. \<forall>rs. r = Inr rs \<longrightarrow> Q i rs)"
      using assms(2) by (auto simp: in_set_zip)
    show "\<forall>i < length (replicate ?n (Inr [] :: bal_error + reading list)). i \<in> fst ` set (zip [0..<?n] tasks)
      \<or> (\<forall>rs. replicate ?n (Inr []) ! i = Inr rs \<longrightarrow> Q i rs)"
      by (simp flip: set_map)
  qed simp
  moreover from assms(1) out have sel: "selectError (map error_of out) = None" "results = map value_of out"
    by (auto simp: readConcurrently_def Let_def split: option.splits)
  moreover have "\<exists>rs. out ! i = Inr rs" if "i < length out" for i
  proof -
    have "error_of (out ! i) \<in> set (map error_of out)" using that by simp
    with sel(1) have "error_of (out ! i) = None" unfolding selectError_def select_error_None by blast
    then show ?thesis by (simp add: error_of_def split: sum.splits)
  qed
  ultimately show ?thesis by (fastforce simp: value_of_def)
qed

section \<open>What a reading says\<close>

text \<open>The key under which a record's target is watched, the previous value it names and its value.\<close>

definition reads_as :: "envelope \<Rightarrow> (string \<times> string \<times> string) option" where
  "reads_as env =
     (case eData env of
        DBalance d \<Rightarrow>
          if bdKind d = KindNative then Some (''native:'' @ eName env, bdPreviousWei d, bdBalanceWei d)
          else if bdKind d = KindERC20 then Some (''erc20:'' @ eName env, bdPreviousRaw d, bdBalanceRaw d)
          else Some (''erc721-balance:'' @ eName env, bdPreviousCount d, bdCount d)
      | DOwnership d \<Rightarrow> Some (''erc721-ownership:'' @ eName env, odPreviousOwner d, odOwner d)
      | DContract d \<Rightarrow>
          if cdField d = FieldNativeBalance then Some (''contract-native:'' @ eName env, cdPreviousWei d, cdBalanceWei d)
          else if cdField d = FieldTokenTotalSupply then Some (''contract-supply:'' @ eName env, cdPreviousTotalSupply d, cdTotalSupplyRaw d)
          else Some (''contract-transfers:'' @ eName env, cdPreviousCount d, cdCount d)
      | _ \<Rightarrow> None)"

definition is_change :: "envelope \<Rightarrow> bool" where
  "is_change env \<longleftrightarrow> eType env \<in> {TypeBalanceChange, TypeContractChange, TypeOwnershipChange}"

definition owner_key :: "string \<Rightarrow> bool" where
  "owner_key k \<longleftrightarrow> has_prefix ''erc721-ownership:'' k"

definition value_text :: "observed \<Rightarrow> string" where
  "value_text v = (case v of Amount i \<Rightarrow> show_int i | Owner w \<Rightarrow> w)"

definition reading_ok :: "u64 \<Rightarrow> reading \<Rightarrow> bool" where
  "reading_ok n r \<longleftrightarrow> reads_as (rgSample r) = Some (rgKey r, [], value_text (rgValue r)) \<and> \<not> is_change (rgSample r)
     \<and> (\<forall>prev. reads_as (rgChange r prev) = Some (rgKey r, prev, value_text (rgValue r)) \<and> is_change (rgChange r prev))
     \<and> eBlockNumber (rgSample r) = n \<and> (\<forall>prev. eBlockNumber (rgChange r prev) = n)
     \<and> (owner_key (rgKey r) \<longleftrightarrow> (\<exists>w. rgValue r = Owner w))"

lemmas reading_defs = reading_ok_def reads_as_def is_change_def owner_key_def value_text_def has_prefix_def
  buildEnv_def blank_balance_def blank_contract_def zero_envelope_def KindNative_def KindERC20_def KindERC721_def
  FieldNativeBalance_def FieldTokenTotalSupply_def FieldTransferCount_def

lemma gives_reads:
  "gives (readNative W Op b nt) (\<lambda>r. reading_ok (tbHead b) r \<and> rgKey r = ''native:'' @ nttName nt)"
  "gives (readERC20 W Op b et) (\<lambda>r. reading_ok (tbHead b) r \<and> rgKey r = ''erc20:'' @ ettName et)"
  "gives (readERC721Balance W Op b bt) (\<lambda>r. reading_ok (tbHead b) r \<and> rgKey r = ''erc721-balance:'' @ ebtName bt)"
  "gives (readERC721Ownership W Op b ot) (\<lambda>r. reading_ok (tbHead b) r \<and> rgKey r = ''erc721-ownership:'' @ eotName ot)"
  "gives (readContractNative W Op b ct) (\<lambda>r. reading_ok (tbHead b) r \<and> rgKey r = ''contract-native:'' @ cttName ct)"
  "gives (readContractSupply W Op b ct) (\<lambda>r. reading_ok (tbHead b) r \<and> rgKey r = ''contract-supply:'' @ cttName ct)"
  "gives (readContractTransferCount W Op b ct) (\<lambda>r. reading_ok (tbHead b) r \<and> rgKey r = ''contract-transfers:'' @ cttName ct)"
  unfolding read_defs Let_def
  by (intro gives_check_any gives_bind gives_ok; simp add: reading_defs split: option.split)+

text \<open>The keys of a target's readings, in order.\<close>

definition contract_keys :: "contract_target \<Rightarrow> string list" where
  "contract_keys t =
     (if cttNativeBalance t then [''contract-native:'' @ cttName t] else [])
     @ (if cttTokenSupply t then [''contract-supply:'' @ cttName t] else [])
     @ (if cttWindow t > 0 then [''contract-transfers:'' @ cttName t] else [])"

definition target_keys :: "bal_watch_set \<Rightarrow> string list list" where
  "target_keys ws =
     map (\<lambda>t. [''native:'' @ nttName t]) (bwNative ws)
     @ map (\<lambda>t. [''erc20:'' @ ettName t]) (bwERC20 ws)
     @ map (\<lambda>t. [''erc721-balance:'' @ ebtName t]) (bwERC721Balances ws)
     @ map (\<lambda>t. [''erc721-ownership:'' @ eotName t]) (bwERC721Ownership ws)
     @ map contract_keys (bwContracts ws)"

definition read_as :: "u64 \<Rightarrow> string list \<Rightarrow> reading list \<Rightarrow> bool" where
  "read_as n keys rs \<longleftrightarrow> map rgKey rs = keys \<and> (\<forall>r \<in> set rs. reading_ok n r)"

lemma read_as_append: "read_as n a xs \<Longrightarrow> read_as n b ys \<Longrightarrow> read_as n (a @ b) (xs @ ys)"
  by (auto simp: read_as_def)

lemma gives_one: "gives m (\<lambda>r. reading_ok n r \<and> rgKey r = k) \<Longrightarrow> gives (check m (\<lambda>r. ok [r])) (read_as n [k])"
  by (rule gives_check, assumption) (auto simp: read_as_def intro!: gives_ok)

lemma gives_part:
  "gives m (\<lambda>r. reading_ok n r \<and> rgKey r = k) \<Longrightarrow>
     gives (if b then check m (\<lambda>r. ok [r]) else ok []) (read_as n (if b then [k] else []))"
  using gives_one [of m n k] by (cases b) (auto intro!: gives_ok simp: read_as_def)

lemma gives_contract: "gives (readContract W Op b t) (read_as (tbHead b) (contract_keys t))"
  unfolding readContract_def contract_keys_def
  by (rule gives_check [OF gives_part [OF gives_reads(5)]], rule gives_check [OF gives_part [OF gives_reads(6)]],
      rule gives_check [OF gives_part [OF gives_reads(7)]], rule gives_ok)
    (simp only: read_as_append)

lemma tasks_give:
  "length (buildTasks W Op b ws) = length (target_keys ws)
   \<and> (\<forall>i < length (target_keys ws). gives (buildTasks W Op b ws ! i) (read_as (tbHead b) (target_keys ws ! i)))"
proof -
  have "list_all2 (\<lambda>m k. gives m (read_as (tbHead b) k)) (buildTasks W Op b ws) (target_keys ws)"
    unfolding buildTasks_def target_keys_def
    by (intro list_all2_appendI; unfold list_all2_map1 list_all2_map2;
        intro list_all2_refl gives_one gives_reads gives_contract)
  then show ?thesis by (simp add: list_all2_conv_all_nth)
qed

section \<open>What a tick delivers\<close>

definition delivered :: "bal_hist \<Rightarrow> envelope list" where
  "delivered h = concat (map (\<lambda>x. case x of Sent env None \<Rightarrow> [env] | _ \<Rightarrow> []) h)"

lemma delivered_simps [simp]:
  "delivered [] = []" "delivered (a @ b) = delivered a @ delivered b"
  "delivered (Sent env r # h) = (if r = None then env # delivered h else delivered h)"
  "delivered (Gauge g # h) = delivered h" "delivered (HeadCall hc # h) = delivered h"
  "delivered (BlockCall n bc # h) = delivered h" "delivered (BalanceCall adr tag c # h) = delivered h"
  by (auto simp: delivered_def split: option.splits)

lemma delivered_calm: "\<forall>env r. Sent env r \<notin> set h \<Longrightarrow> delivered h = []"
  by (induction h) (auto simp: delivered_def split: bal_event.splits)

lemma calm_delivered: "calm p p' \<Longrightarrow> delivered (pHistory p') = delivered (pHistory p)"
  by (auto simp: calm_def delivered_calm)

lemma commit_simps [simp]: "pHistory (commit_reading r p) = pHistory p" "pPending (commit_reading r p) = pPending p"
    "pTargets (commit_reading r p) = pTargets p"
  by (auto simp: commit_reading_def commitValue_def commitOwner_def split: observed.split)

lemma applyChange_history [simp]: "applyChange r (p\<lparr> pHistory := h \<rparr>) = applyChange r p"
  by (simp add: applyChange_def peekChanged_def peekOwnerChanged_def split: observed.split)

lemma commit_history: "commit_reading r (p\<lparr> pHistory := h \<rparr>) = (commit_reading r p)\<lparr> pHistory := h \<rparr>"
  by (simp add: commit_reading_def commitValue_def commitOwner_def split: observed.split)

text \<open>The four ways of a reading.\<close>

lemma apply_reading_cases:
  assumes "run_state (apply_reading W r) p = (res, p')"
  obtains (refused) e where "res = Inl (EmitFailed e)" "p' = p\<lparr> pHistory := pHistory p @ [Sent (rgSample r) (Some e)] \<rparr>"
  | (same) g where "res = Inr ()" "applyChange r p = None"
      "p' = (commit_reading r p)\<lparr> pHistory := pHistory p @ [Sent (rgSample r) None, Gauge g] \<rparr>" "quiet_event (Gauge g)"
  | (half) c g e where "res = Inl (EmitFailed e)" "applyChange r p = Some c" "quiet_event (Gauge g)"
      "p' = p\<lparr> pHistory := pHistory p @ [Sent (rgSample r) None, Gauge g, Sent c (Some e)] \<rparr>"
  | (moved) c g g' where "res = Inr ()" "applyChange r p = Some c" "quiet_event (Gauge g)" "quiet_event (Gauge g')"
      "p' = (commit_reading r p)\<lparr> pHistory := pHistory p @ [Sent (rgSample r) None, Gauge g, Sent c None, Gauge g'] \<rparr>"
proof -
  have q: "quiet_event (Gauge (if b then IncChange else IncSample))" for b by (simp add: quiet_event_def)
  show thesis
  proof (cases "bEmit W (pHistory p) (rgSample r)")
    case (Some e)
    with assms show thesis by (intro refused [of e]) (auto simp: apply_reading_def emitEnv_def run_simps)
  next
    case None
    let ?g = "if eType (rgSample r) \<in> {TypeBalanceChange, TypeContractChange, TypeOwnershipChange} then IncChange else IncSample"
    let ?h = "pHistory p @ [Sent (rgSample r) None, Gauge ?g]"
    show thesis
    proof (cases "applyChange r p")
      case none: None
      with assms None show thesis
        by (intro same [of ?g] q) (auto simp: apply_reading_def emitEnv_def run_simps commit_history)
    next
      case (Some c)
      show thesis
      proof (cases "bEmit W ?h c")
        case se: (Some e)
        with assms None Some show thesis
          by (intro half [of e c ?g] q) (auto simp: apply_reading_def emitEnv_def run_simps)
      next
        case none: None
        let ?g' = "if eType c \<in> {TypeBalanceChange, TypeContractChange, TypeOwnershipChange} then IncChange else IncSample"
        from assms None Some none show thesis
          by (intro moved [of c ?g ?g'] q) (auto simp: apply_reading_def emitEnv_def run_simps commit_history)
      qed
    qed
  qed
qed

lemma delivered_history: "delivered (pHistory (p\<lparr> pHistory := h \<rparr>)) = delivered h"
  by simp

text \<open>A whole tick applied: the samples in order, between them only changes.\<close>

lemma apply_all_delivers:
  assumes "run_state (for_each (apply_reading W) rs) p = (Inr (), p')" and "\<forall>r \<in> set rs. reading_ok n r"
  shows "\<exists>h. pHistory p' = pHistory p @ h \<and> filter (\<lambda>env. \<not> is_change env) (delivered h) = map rgSample rs
    \<and> (\<forall>env \<in> set (delivered h). eBlockNumber env = n)"
  using assms
proof (induction rs arbitrary: p)
  case Nil
  then show ?case by simp
next
  case (Cons r rs)
  from Cons.prems(1) obtain q where q: "run_state (apply_reading W r) p = (Inr (), q)"
    and rest: "run_state (for_each (apply_reading W) rs) q = (Inr (), p')"
    by (auto simp: run_simps split: prod.splits sum.splits)
  from Cons.IH [OF rest] Cons.prems(2) obtain h where
    h: "pHistory p' = pHistory q @ h" "filter (\<lambda>env. \<not> is_change env) (delivered h) = map rgSample rs"
      "\<forall>env \<in> set (delivered h). eBlockNumber env = n" by auto
  have ok: "reading_ok n r" using Cons.prems(2) by simp
  from q show ?case
  proof (cases rule: apply_reading_cases)
    case (same g)
    with h ok show ?thesis
      by (intro exI [of _ "[Sent (rgSample r) None, Gauge g] @ h"]) (simp add: reading_ok_def)
  next
    case (moved c g g')
    from moved(2) obtain prev where "c = rgChange r prev"
      by (auto simp: applyChange_def split: observed.splits prod.splits bool.splits option.splits)
    with moved h ok show ?thesis
      by (intro exI [of _ "[Sent (rgSample r) None, Gauge g, Sent c None, Gauge g'] @ h"]) (simp add: reading_ok_def)
  qed simp_all
qed

lemma calm_head_block: "state_io_rel calm (head_block W head)"
  unfolding head_block_def by (intro calm_steps; simp add: quiet_event_def)

lemma head_block_head: "run_state (head_block W head) p = (b, p') \<Longrightarrow> tbHead b = head \<and> pTargets p' = pTargets p"
  by (auto simp: head_block_def run_simps split: sum.splits option.splits)

definition tick_readings_ok :: "u64 \<Rightarrow> bal_watch_set \<Rightarrow> reading list list \<Rightarrow> bool" where
  "tick_readings_ok n ws results \<longleftrightarrow>
     map rgKey (concat results) = concat (target_keys ws) \<and> (\<forall>r \<in> set (concat results). reading_ok n r)"

lemma results_ok:
  assumes "run_state (readConcurrently W Op (buildTasks W Op b ws)) p = (Inr results, p')"
  shows "tick_readings_ok (tbHead b) ws results"
proof -
  from tasks_give have "length (buildTasks W Op b ws) = length (target_keys ws)"
    "\<forall>i < length (buildTasks W Op b ws). gives (buildTasks W Op b ws ! i) (read_as (tbHead b) (target_keys ws ! i))" by auto
  with readConcurrently_spec [OF assms, of "\<lambda>i. read_as (tbHead b) (target_keys ws ! i)"]
  have l: "length results = length (target_keys ws)"
    and r: "\<forall>i < length results. read_as (tbHead b) (target_keys ws ! i) (results ! i)" by auto
  have "map (map rgKey) results = target_keys ws"
    using l r by (intro nth_equalityI) (auto simp: read_as_def)
  then have "map rgKey (concat results) = concat (target_keys ws)" by (simp add: map_concat)
  moreover have "\<forall>rs \<in> set results. \<forall>x \<in> set rs. reading_ok (tbHead b) x"
    using r unfolding read_as_def by (metis in_set_conv_nth)
  ultimately show ?thesis by (auto simp: tick_readings_ok_def)
qed

text \<open>The two halves of a tick.\<close>

lemma sampleAll_cases:
  assumes "run_state (sampleAll W Op head) p = (res, p')"
  obtains (unread) e where "res = Inl e" "calm p p'"
  | (applied) results q res' q' where "calm p q"
      "tick_readings_ok head (pTargets p) results"
      "run_state (for_each (apply_reading W) (concat results)) q = (res', q')"
      "res = res'" "res' = Inr () \<longrightarrow> p' = q'\<lparr> pHistory := pHistory q' @ [Gauge (GLastSampled head), Gauge (GLag 0), Gauge (HLag 0)] \<rparr>"
      "res' \<noteq> Inr () \<longrightarrow> p' = q'"
proof -
  obtain b p1 where b: "run_state (head_block W head) p = (b, p1)" by (metis surj_pair)
  note hb = head_block_head [OF b] state_io_relD [OF calm_head_block b]
  let ?tasks = "buildTasks W Op b (pTargets p1)"
  obtain r q where r: "run_state (readConcurrently W Op ?tasks) p1 = (r, q)" by (metis surj_pair)
  have calm_r: "calm p1 q" using state_io_relD [OF calm_readConcurrently [OF calm_tasks] r] .
  have pq: "calm p q" using calm.R_trans [OF hb(2) calm_r] .
  show thesis
  proof (cases r)
    case (Inl e)
    with assms b r have "res = Inl e" "p' = q" by (auto simp: sampleAll_def run_simps)
    with pq show thesis by (intro unread [of e]) auto
  next
    case (Inr results)
    obtain res' q' where f: "run_state (for_each (apply_reading W) (concat results)) q = (res', q')" by (metis surj_pair)
    have "tick_readings_ok head (pTargets p) results"
      using results_ok [of W Op b "pTargets p1" p1 results q] r Inr hb(1) by simp
    moreover have "res = res'" "res' = Inr () \<longrightarrow> p' = q'\<lparr> pHistory := pHistory q' @ [Gauge (GLastSampled head), Gauge (GLag 0), Gauge (HLag 0)] \<rparr>"
      "res' \<noteq> Inr () \<longrightarrow> p' = q'"
      using assms b r Inr f by (auto simp: sampleAll_def run_simps split: sum.splits)
    ultimately show thesis using pq f by (intro applied [of q results res' q']) auto
  qed
qed

lemma apply_all_error:
  "run_state (for_each (apply_reading W) rs) p = (Inl e, p') \<Longrightarrow> \<exists>em. e = EmitFailed em"
proof (induction rs arbitrary: p)
  case (Cons r rs)
  obtain res q where q: "run_state (apply_reading W r) p = (res, q)" by (metis surj_pair)
  then show ?case
  proof (cases rule: apply_reading_cases)
    case (refused e')
    with Cons.prems q show ?thesis by (auto simp: run_simps)
  next
    case (same g)
    with Cons q show ?thesis by (simp add: run_simps)
  next
    case (half c g e')
    with Cons.prems q show ?thesis by (auto simp: run_simps)
  next
    case (moved c g g')
    with Cons q show ?thesis by (simp add: run_simps)
  qed
qed simp

text \<open>
C32: A successful tick reads every configured target at one block and reports each exactly once:
  the sample records it delivers are those of the configured targets, in the configured order
  (native, ERC-20, ERC-721 counts, ERC-721 owners, contracts field by field), whatever order the
  goroutines ran in and however many were allowed at a time; all its records carry that block.
\<close>
theorem tick_samples_every_target:
  assumes "run_state (sampleAll W Op head) p = (Inr (), p')"
  shows "\<exists>h. pHistory p' = pHistory p @ h
    \<and> map (\<lambda>env. map_option fst (reads_as env)) (filter (\<lambda>env. \<not> is_change env) (delivered h))
        = map Some (concat (target_keys (pTargets p)))
    \<and> (\<forall>env \<in> set (delivered h). eBlockNumber env = head)"
  using assms
proof (cases rule: sampleAll_cases)
  case (applied results q res' q')
  have rok: "map rgKey (concat results) = concat (target_keys (pTargets p))" "\<forall>r \<in> set (concat results). reading_ok head r"
    using applied(2) by (auto simp: tick_readings_ok_def)
  from applied(3,4) have "run_state (for_each (apply_reading W) (concat results)) q = (Inr (), q')" by simp
  from apply_all_delivers [OF this rok(2)] obtain h where
    h: "pHistory q' = pHistory q @ h" "filter (\<lambda>env. \<not> is_change env) (delivered h) = map rgSample (concat results)"
      "\<forall>env \<in> set (delivered h). eBlockNumber env = head" by blast
  from applied(1) obtain h0 where h0: "pHistory q = pHistory p @ h0" "delivered h0 = []"
    by (auto simp: calm_def delivered_calm)
  have "map (\<lambda>env. map_option fst (reads_as env)) (map rgSample (concat results)) = map Some (map rgKey (concat results))"
    using rok(2) by (simp add: reading_ok_def)
  with h h0 rok(1) applied(4,5) show ?thesis
    by (intro exI [of _ "h0 @ h @ [Gauge (GLastSampled head), Gauge (GLag 0), Gauge (HLag 0)]"]) simp
qed simp

text \<open>
C33: A tick that cannot read one of its targets is as if it had not been: it sends no record of
  any target, moves no baseline and does not count as a sample; only a failing output can stop a
  tick half way.
\<close>
theorem failed_read_changes_nothing:
  assumes "run_state (sampleAll W Op head) p = (Inl e, p')" and "\<forall>em. e \<noteq> EmitFailed em"
  shows "delivered (pHistory p') = delivered (pHistory p) \<and> pPrior p' = pPrior p \<and> pPriorOwner p' = pPriorOwner p
    \<and> (\<forall>n h. pHistory p' = pHistory p @ h \<longrightarrow> Gauge (GLastSampled n) \<notin> set h)"
  using assms(1)
proof (cases rule: sampleAll_cases)
  case (unread e')
  then show ?thesis using calm_delivered by (auto simp: calm_def)
next
  case (applied results q res' q')
  with apply_all_error [of W "concat results" q e q'] assms(2) show ?thesis by auto
qed

end
