(* ===== verification/ChangeChain.thy ===== *)
theory ChangeChain
  imports SamplingFacts
begin

text \<open>
  Over a whole run of evm-balance: the change records of a target are a gapless chain, whatever
  fails in between and is retried, and the block cadence keeps its distance; and what a hot
  reload does to a baseline.
\<close>

section \<open>What was delivered for a key\<close>

definition samples_of :: "string \<Rightarrow> bal_hist \<Rightarrow> string list" where
  "samples_of k h = concat (map (\<lambda>env. case reads_as env of
     Some (k', _, v) \<Rightarrow> if k' = k \<and> \<not> is_change env then [v] else [] | None \<Rightarrow> []) (delivered h))"

definition changes_of :: "string \<Rightarrow> bal_hist \<Rightarrow> (string \<times> string) list" where
  "changes_of k h = concat (map (\<lambda>env. case reads_as env of
     Some (k', u, v) \<Rightarrow> if k' = k \<and> is_change env then [(u, v)] else [] | None \<Rightarrow> []) (delivered h))"

lemma of_append [simp]:
  "samples_of k (a @ b) = samples_of k a @ samples_of k b" "changes_of k (a @ b) = changes_of k a @ changes_of k b"
  "samples_of k [] = []" "changes_of k [] = []"
  by (simp_all add: samples_of_def changes_of_def)

lemma of_events [simp]:
  "samples_of k (Gauge g # h) = samples_of k h" "changes_of k (Gauge g # h) = changes_of k h"
  "samples_of k (Sent env (Some e) # h) = samples_of k h" "changes_of k (Sent env (Some e) # h) = changes_of k h"
  by (simp_all add: samples_of_def changes_of_def)

lemma of_sample:
  "reading_ok n r \<Longrightarrow> samples_of k (Sent (rgSample r) None # h) =
     (if rgKey r = k then value_text (rgValue r) # samples_of k h else samples_of k h)"
  "reading_ok n r \<Longrightarrow> changes_of k (Sent (rgSample r) None # h) = changes_of k h"
  by (simp_all add: samples_of_def changes_of_def reading_ok_def)

lemma of_change:
  "reading_ok n r \<Longrightarrow> samples_of k (Sent (rgChange r prev) None # h) = samples_of k h"
  "reading_ok n r \<Longrightarrow> changes_of k (Sent (rgChange r prev) None # h) =
     (if rgKey r = k then (prev, value_text (rgValue r)) # changes_of k h else changes_of k h)"
  by (simp_all add: samples_of_def changes_of_def reading_ok_def)

section \<open>Chains\<close>

text \<open>Each change starts where the one before ended, and moves.\<close>

fun chain :: "string \<Rightarrow> (string \<times> string) list \<Rightarrow> string \<Rightarrow> bool" where
  "chain v [] w \<longleftrightarrow> equal_fold v w"
| "chain v ((a, b) # cs) w \<longleftrightarrow> equal_fold v a \<and> \<not> equal_fold a b \<and> chain b cs w"

lemma chain_append: "chain v cs u \<Longrightarrow> \<not> equal_fold u w \<Longrightarrow> chain v (cs @ [(u, w)]) w"
  by (induction v cs u rule: chain.induct) auto

lemma chain_end: "chain v cs u \<Longrightarrow> equal_fold u w \<Longrightarrow> chain v cs w"
  by (induction v cs u rule: chain.induct) (auto intro: equal_fold_trans)

text \<open>The baseline of a key as text.\<close>

definition baseline :: "poller \<Rightarrow> string \<Rightarrow> string option" where
  "baseline p k = (if owner_key k then pPriorOwner p k else map_option show_int (pPrior p k))"

definition chain_holds :: "string option \<Rightarrow> string list \<Rightarrow> (string \<times> string) list \<Rightarrow> bool" where
  "chain_holds b ss cs \<longleftrightarrow>
     (case b of None \<Rightarrow> ss = [] \<and> cs = [] | Some w \<Rightarrow> ss \<noteq> [] \<and> chain (hd ss) cs w)"

definition chained :: "poller \<Rightarrow> string \<Rightarrow> bool" where
  "chained p k \<longleftrightarrow> chain_holds (baseline p k) (samples_of k (pHistory p)) (changes_of k (pHistory p))"

definition chains_ok :: "poller \<Rightarrow> bool" where
  "chains_ok p \<longleftrightarrow> pPending p = None \<and> (\<forall>k. chained p k)"

text \<open>Numbers print without letters, so folding their case changes nothing.\<close>

lemma lower_digit: "48 \<le> code_of c \<and> code_of c \<le> 57 \<or> c = CHR ''-'' \<Longrightarrow> lower_char c = c"
  by (auto simp: code_of_inject [symmetric] code_of_lower_char)

lemma lower_show_int: "to_lower (show_int i) = show_int i"
  unfolding to_lower_def by (rule map_idI) (use show_int_chars lower_digit in blast)

lemma equal_fold_show_int: "equal_fold (show_int a) (show_int b) \<longleftrightarrow> a = b"
  by (simp add: equal_fold_def lower_show_int)

section \<open>One reading keeps the chain\<close>

text \<open>What change detection says, in terms of the baseline.\<close>

lemma applyChange_baseline:
  assumes "reading_ok n r"
  shows "applyChange r p = (case baseline p (rgKey r) of None \<Rightarrow> None
     | Some u \<Rightarrow> if equal_fold u (value_text (rgValue r)) then None else Some (rgChange r u))"
  using assms by (cases "rgValue r")
    (auto simp: applyChange_def reading_ok_def baseline_def value_text_def peekChanged_def peekOwnerChanged_def
      equal_fold_show_int split: option.split bool.split)

lemma baseline_commit:
  assumes "reading_ok n r"
  shows "baseline (commit_reading r p) k = (if k = rgKey r then Some (value_text (rgValue r)) else baseline p k)"
  using assms by (cases "rgValue r")
    (auto simp: commit_reading_def reading_ok_def baseline_def value_text_def commitValue_def commitOwner_def)

lemma baseline_history [simp]: "baseline (p\<lparr> pHistory := h \<rparr>) k = baseline p k"
  by (simp add: baseline_def)

text \<open>What the four ways of a reading do to a chain.\<close>

lemma chain_holds_steps:
  "chain_holds b ss cs \<Longrightarrow> b = Some u \<Longrightarrow> chain_holds b (ss @ [x]) cs"
  "chain_holds b ss cs \<Longrightarrow> b = None \<Longrightarrow> chain_holds (Some x) (ss @ [x]) cs"
  "chain_holds b ss cs \<Longrightarrow> b = Some u \<Longrightarrow> equal_fold u x \<Longrightarrow> chain_holds (Some x) (ss @ [x]) cs"
  "chain_holds b ss cs \<Longrightarrow> b = Some u \<Longrightarrow> \<not> equal_fold u x \<Longrightarrow> chain_holds (Some x) (ss @ [x]) (cs @ [(u, x)])"
  by (auto simp: chain_holds_def chain_append intro: chain_end)

lemma apply_keeps:
  assumes ok: "reading_ok n r" and run: "run_state (apply_reading W r) p = (res, p')" and chains_ok: "chains_ok p"
  shows "chains_ok p'"
proof -
  note ev = of_sample [OF ok] of_change [OF ok] and base = applyChange_baseline [OF ok, of p] and com = baseline_commit [OF ok, of p]
  have ch: "chained p k" for k using chains_ok by (simp add: chains_ok_def)
  have "chained p' k" for k
    using run
  proof (cases rule: apply_reading_cases)
    case (refused e)
    with ch [of k] show ?thesis by (simp add: chained_def)
  next
    case (same g)
    let ?u = "baseline p (rgKey r)"
    have "?u = None \<or> (\<exists>u. ?u = Some u \<and> equal_fold u (value_text (rgValue r)))"
      using same(2) base by (auto split: option.splits if_splits)
    with ch [of k] chain_holds_steps(2,3) same(3) com [of k] show ?thesis by (auto simp: chained_def ev)
  next
    case (half c g e)
    from half(2) base obtain u where u: "baseline p (rgKey r) = Some u" "c = rgChange r u"
      by (auto split: option.splits if_splits)
    with ch [of k] chain_holds_steps(1) half(4) show ?thesis by (auto simp: chained_def ev)
  next
    case (moved c g g')
    from moved(2) base obtain u where u: "baseline p (rgKey r) = Some u" "c = rgChange r u" "\<not> equal_fold u (value_text (rgValue r))"
      by (auto split: option.splits if_splits)
    with ch [of k] chain_holds_steps(4) moved(5) com [of k] show ?thesis by (auto simp: chained_def ev)
  qed
  moreover have "pPending p' = None"
    using run chains_ok by (cases rule: apply_reading_cases) (auto simp: chains_ok_def)
  ultimately show ?thesis by (simp add: chains_ok_def)
qed

section \<open>A run keeps the chain\<close>

lemma of_delivered: "delivered h' = delivered h \<Longrightarrow> samples_of k h' = samples_of k h \<and> changes_of k h' = changes_of k h"
  by (simp add: samples_of_def changes_of_def)

lemma chains_same:
  assumes "chains_ok p" and "pPrior p' = pPrior p" and "pPriorOwner p' = pPriorOwner p" and "pPending p' = pPending p"
    and "delivered (pHistory p') = delivered (pHistory p)"
  shows "chains_ok p'"
proof -
  have "baseline p' k = baseline p k" for k using assms(2,3) by (simp add: baseline_def)
  then show ?thesis using assms(1,4) of_delivered [OF assms(5)] by (simp add: chains_ok_def chained_def)
qed

lemma chains_calm: "calm p p' \<Longrightarrow> chains_ok p \<Longrightarrow> chains_ok p'"
  by (erule chains_same) (auto simp: calm_def delivered_calm)

definition keeps :: "poller \<Rightarrow> poller \<Rightarrow> bool" where
  "keeps p p' \<longleftrightarrow> (chains_ok p \<longrightarrow> chains_ok p')"

interpretation keeps: step_order keeps
  by unfold_locales (auto simp: keeps_def)

lemma keeps_calm: "state_io_rel calm m \<Longrightarrow> state_io_rel keeps m"
  using chains_calm by (force simp: state_io_rel_def keeps_def)

lemma apply_all_keeps:
  assumes "run_state (for_each (apply_reading W) rs) p = (res, p')" and "\<forall>r \<in> set rs. reading_ok n r" and "chains_ok p"
  shows "chains_ok p'"
  using assms
proof (induction rs arbitrary: p)
  case (Cons r rs)
  obtain res1 q where q: "run_state (apply_reading W r) p = (res1, q)" by (metis surj_pair)
  have "reading_ok n r" using Cons.prems(2) by simp
  from apply_keeps [OF this q] Cons.prems(3) have "chains_ok q" by simp
  with Cons q show ?case by (cases res1) (auto simp: run_simps)
qed simp

lemma keeps_sampleAll: "state_io_rel keeps (sampleAll W Op head)"
proof
  fix p res p' assume run: "run_state (sampleAll W Op head) p = (res, p')"
  show "keeps p p'"
    unfolding keeps_def
  proof
    assume chains_ok: "chains_ok p"
    from run show "chains_ok p'"
    proof (cases rule: sampleAll_cases)
      case (unread e)
      with chains_ok show ?thesis using chains_calm by blast
    next
      case (applied results q res' q')
      have "chains_ok q" using chains_ok chains_calm applied(1) by blast
      then have "chains_ok q'" using apply_all_keeps [OF applied(3)] applied(2) by (auto simp: tick_readings_ok_def)
      then show ?thesis using applied(5,6) by (cases "res' = Inr ()") (auto intro: chains_same)
    qed
  qed
qed

lemma keeps_gauge: "quiet_event (Gauge g) \<Longrightarrow> state_io_rel keeps (gauge g)"
  by (rule keeps_calm) (rule calm_gauge)

lemma calm_resolve_decimals: "state_io_rel calm (resolve_decimals W cache token override)"
  unfolding resolve_decimals_def fetchDecimals_def by (intro calm_steps calm_calls)

lemma calm_resolve_erc20: "state_io_rel calm (resolve_erc20_decimals W cache es)"
proof (induction es arbitrary: cache)
  case (Cons t ts)
  show ?case unfolding resolve_erc20_decimals.simps by (intro calm_steps calm_resolve_decimals Cons)
qed (simp add: calm.io_return)

lemma calm_resolve_contract: "state_io_rel calm (resolve_contract_decimals W cache cs)"
proof (induction cs arbitrary: cache)
  case (Cons t ts)
  show ?case unfolding resolve_contract_decimals.simps by (intro calm_steps calm_resolve_decimals Cons)
qed (simp add: calm.io_return)

lemma calm_resolveDecimals: "state_io_rel calm (resolveDecimals W)"
  unfolding resolveDecimals_def by (intro calm_steps calm_resolve_erc20 calm_resolve_contract)

text \<open>Without a SIGHUP nothing is staged, and nothing staged is nothing applied.\<close>

lemma keeps_reload:
  assumes "\<forall>h. bReload W h = None"
  shows "state_io_rel keeps (bal_stage_reload W)" "state_io_rel keeps (bal_applyPendingReload W)"
  using assms by (auto simp: bal_stage_reload_def bal_applyPendingReload_def keeps_def chains_ok_def chained_def baseline_def
      state_io_rel_def split: option.split)

lemma calm_onSuccess: "state_io_rel calm onSuccess"
  unfolding onSuccess_def by (intro calm_steps; simp add: quiet_event_def)

lemma calm_handleError: "state_io_rel calm (handleError W Op failures e)"
  unfolding handleError_def handleFailure_def bal_sleep_def
  by (intro calm_steps; simp add: quiet_event_def)

lemma calm_BlockNumber: "state_io_rel calm (bal_BlockNumber W)"
  unfolding bal_BlockNumber_def by (intro calm_steps; simp add: quiet_event_def)

lemmas keeps_steps = keeps.io_intros keeps_gauge keeps_sampleAll keeps_calm [OF calm_cancelled]
  keeps_calm [OF calm_onSuccess] keeps_calm [OF calm_handleError] keeps_calm [OF calm_BlockNumber]

lemma keeps_tick: "state_io_rel keeps (tick W Op failures)"
  unfolding tick_def by (intro keeps_steps; simp add: quiet_event_def)

lemma keeps_interval: "\<forall>h. bReload W h = None \<Longrightarrow> state_io_rel keeps (runIntervalCadence n W Op failures)"
proof (induction n arbitrary: failures)
  case (Suc n)
  show ?case unfolding runIntervalCadence.simps
    by (intro keeps.io_bind keeps_reload keeps_tick Suc) (auto split: bal_outcome.split intro!: keeps_steps Suc)
qed (simp add: keeps.io_return)

lemma calm_refresh: "state_io_rel calm (refreshHeadTime W head)"
  unfolding refreshHeadTime_def by (intro calm_steps; simp add: quiet_event_def)

lemma calm_block_failed: "state_io_rel calm (block_failed W Op v e)"
  unfolding block_failed_def by (intro calm_steps calm_handleError)

lemma keeps_block_iter: "\<forall>h. bReload W h = None \<Longrightarrow> state_io_rel keeps (block_iter W Op v)"
  unfolding block_iter_def
  by (intro keeps.io_bind keeps_reload keeps_steps keeps_calm [OF calm_block_failed] keeps_calm [OF calm_refresh];
      simp add: quiet_event_def)

lemma keeps_block: "\<forall>h. bReload W h = None \<Longrightarrow> state_io_rel keeps (runBlockCadence n W Op v)"
proof (induction n arbitrary: v)
  case (Suc n)
  show ?case unfolding runBlockCadence.simps
    by (intro keeps.io_bind keeps_block_iter Suc) (auto split: block_outcome.split intro!: keeps_steps Suc)
qed (simp add: keeps.io_return)

lemma keeps_Run: "\<forall>h. bReload W h = None \<Longrightarrow> state_io_rel keeps (bal_Run n W Op)"
  unfolding bal_Run_def
  by (intro keeps.io_intros keeps_calm [OF calm_resolveDecimals] keeps_block keeps_interval)

text \<open>
C31: The change records of a target are a gapless chain: over a whole run without a reload of the
  targets, whatever reads and
  writes fail and are retried, the first change of a target starts from its first delivered sample,
  every later one starts where the one before it ended, each really is a change, and the last one
  ends at the baseline the next tick compares with; a target without a delivered sample has no
  change and no baseline.
\<close>
theorem change_records_chain:
  assumes "run_state (bal_Run n W Op) (fresh_poller ws) = (r, p)" and "\<forall>h. bReload W h = None"
  shows "(baseline p k = None \<longrightarrow> samples_of k (pHistory p) = [] \<and> changes_of k (pHistory p) = [])
    \<and> (\<forall>w. baseline p k = Some w \<longrightarrow> samples_of k (pHistory p) \<noteq> []
         \<and> chain (hd (samples_of k (pHistory p))) (changes_of k (pHistory p)) w)"
proof -
  have "chains_ok (fresh_poller ws)"
    by (simp add: chains_ok_def chained_def chain_holds_def fresh_poller_def baseline_def)
  with state_io_relD [OF keeps_Run [OF assms(2)] assms(1)] have "chained p k" by (simp add: keeps_def chains_ok_def)
  then show ?thesis by (auto simp: chained_def chain_holds_def)
qed

section \<open>A sample run\<close>

text \<open>One account whose balance moves after the first delivered record; headers cannot be fetched.\<close>

definition moving_node :: bal_world where
  "moving_node = \<lparr> bHead = (\<lambda>_. Inr 5), bBlock = (\<lambda>_ _. Inl DeadlineExceeded),
     bBalance = (\<lambda>h _ _. Inr (if delivered h = [] then ''0x7'' else ''0x9'')), bView = (\<lambda>_ _ _ _. Inl DeadlineExceeded),
     bLogs = (\<lambda>_ _. Inl DeadlineExceeded), bEmit = (\<lambda>_ _. None), bCancelled = (\<lambda>_. False), bSleep = (\<lambda>_. True),
     bTick = (\<lambda>_. True), bPick = (\<lambda>_. 0), bReload = (\<lambda>_. None), bRand = (\<lambda>_ _. 0), bKeccak = (\<lambda>_. []) \<rparr>"

definition every_minute :: bal_options where
  "every_minute = \<lparr> boChainName = ''c'', boChainID = 1, boCadence = \<lparr> cadInterval = 60000000000, cadEveryBlocks = 0 \<rparr>,
     boMaxConcurrency = 8, boBackoffBase = 1, boBackoffMax = 1 \<rparr>"

definition one_account :: bal_watch_set where
  "one_account = \<lparr> bwNative = [\<lparr> nttName = ''a'', nttAddress = ''0x1'' \<rparr>], bwERC20 = [], bwContracts = [],
     bwERC721Balances = [], bwERC721Ownership = [] \<rparr>"

lemma hexBig_digits: "hexBig ''0x7'' = Inr 7" "hexBig ''0x9'' = Inr 9"
  by (simp_all add: hexBig_def trim_0x_def trim_prefix_def has_prefix_def set_string_def digit_val_def code_of_def of_char_def)

lemma sample_tick:
  "\<exists>p. run_state (sampleAll moving_node every_minute 5) (fresh_poller one_account) = (Inr (), p)"
  by (simp add: sampleAll_def head_block_def moving_node_def fresh_poller_def one_account_def buildTasks_def
      readConcurrently_def every_minute_def readNative_def named_def caused_def BalanceAt_def run_simps Let_def
      selectError_def error_of_def value_of_def hexBig_digits apply_reading_def emitEnv_def applyChange_def
      peekChanged_def commit_reading_def commitValue_def)

lemmas sample_run_defs = sampleAll_def head_block_def moving_node_def fresh_poller_def one_account_def buildTasks_def
  readConcurrently_def every_minute_def readNative_def named_def caused_def BalanceAt_def run_simps Let_def
  selectError_def error_of_def value_of_def hexBig_digits apply_reading_def emitEnv_def applyChange_def
  peekChanged_def commit_reading_def commitValue_def bal_Run_def resolveDecimals_def tick_def bal_stage_reload_def
  bal_applyPendingReload_def bal_BlockNumber_def onSuccess_def eval_nat_numeral

lemma sample_two_ticks:
  "\<exists>r p. run_state (bal_Run 2 moving_node every_minute) (fresh_poller one_account) = (r, p) \<and> pPrior p ''native:a'' = Some 9"
  by (simp add: sample_run_defs)

lemma change_records_chain_witness:
  "\<exists>r p v vs. run_state (bal_Run 2 moving_node every_minute) (fresh_poller one_account) = (r, p)
     \<and> samples_of ''native:a'' (pHistory p) = v # vs \<and> chain v (changes_of ''native:a'' (pHistory p)) (show_int 9)"
proof -
  obtain r p where run: "run_state (bal_Run 2 moving_node every_minute) (fresh_poller one_account) = (r, p)"
    and base: "pPrior p ''native:a'' = Some 9" using sample_two_ticks by blast
  have "baseline p ''native:a'' = Some (show_int 9)" by (simp add: baseline_def owner_key_def has_prefix_def base)
  moreover have "\<forall>h. bReload moving_node h = None" by (simp add: moving_node_def)
  ultimately have "samples_of ''native:a'' (pHistory p) \<noteq> []
      \<and> chain (hd (samples_of ''native:a'' (pHistory p))) (changes_of ''native:a'' (pHistory p)) (show_int 9)"
    using change_records_chain [OF run, of "''native:a''"] by blast
  moreover from this obtain v vs where "samples_of ''native:a'' (pHistory p) = v # vs" by (auto simp: neq_Nil_conv)
  ultimately show ?thesis using run by (metis list.sel(1))
qed

lemma tick_samples_every_target_witness:
  "\<exists>p. run_state (sampleAll moving_node every_minute 5) (fresh_poller one_account) = (Inr (), p)
     \<and> map (\<lambda>env. map_option fst (reads_as env)) (filter (\<lambda>env. \<not> is_change env) (delivered (pHistory p))) = [Some ''native:a'']"
proof -
  obtain p where run: "run_state (sampleAll moving_node every_minute 5) (fresh_poller one_account) = (Inr (), p)"
    using sample_tick by blast
  from tick_samples_every_target [OF run] have
    "map (\<lambda>env. map_option fst (reads_as env)) (filter (\<lambda>env. \<not> is_change env) (delivered (pHistory p)))
      = map Some (concat (target_keys one_account))" by (auto simp: fresh_poller_def)
  with run show ?thesis by (simp add: target_keys_def one_account_def)
qed

text \<open>A node that answers no balance.\<close>

lemma failed_tick:
  "\<exists>p. run_state (sampleAll (moving_node\<lparr> bBalance := (\<lambda>_ _ _. Inl DeadlineExceeded) \<rparr>) every_minute 5) (fresh_poller one_account)
     = (Inl (SampleFailed ''native balance'' ''a'' (CauseRpc DeadlineExceeded)), p)"
  by (simp add: sample_run_defs permanent_error_def)

lemma failed_read_changes_nothing_witness:
  "\<exists>p. run_state (sampleAll (moving_node\<lparr> bBalance := (\<lambda>_ _ _. Inl DeadlineExceeded) \<rparr>) every_minute 5) (fresh_poller one_account)
     = (Inl (SampleFailed ''native balance'' ''a'' (CauseRpc DeadlineExceeded)), p) \<and> delivered (pHistory p) = []"
proof -
  obtain p where run: "run_state (sampleAll (moving_node\<lparr> bBalance := (\<lambda>_ _ _. Inl DeadlineExceeded) \<rparr>) every_minute 5) (fresh_poller one_account)
     = (Inl (SampleFailed ''native balance'' ''a'' (CauseRpc DeadlineExceeded)), p)" using failed_tick by blast
  from failed_read_changes_nothing [OF run] run show ?thesis by (auto simp: fresh_poller_def)
qed

section \<open>The block cadence\<close>

text \<open>
  The heights of the completed ticks (the last-sampled gauge, set at the end of a tick whose every
  record was accepted), and these among the heights of all the records delivered: a tick whose
  output failed half way has delivered records without being completed.
\<close>

definition sampled_at :: "bal_hist \<Rightarrow> u64 list" where
  "sampled_at h = concat (map (\<lambda>x. case x of Gauge (GLastSampled n) \<Rightarrow> [n] | _ \<Rightarrow> []) h)"

datatype height = Reported u64 | Completed u64

definition heights :: "bal_hist \<Rightarrow> height list" where
  "heights h = concat (map (\<lambda>x. case x of Gauge (GLastSampled n) \<Rightarrow> [Completed n]
     | Sent env None \<Rightarrow> [Reported (eBlockNumber env)] | _ \<Rightarrow> []) h)"

fun spaced :: "u64 \<Rightarrow> height \<Rightarrow> height \<Rightarrow> bool" where
  "spaced E (Completed a) (Completed b) \<longleftrightarrow> unat a + unat E \<le> unat b"
| "spaced E (Completed a) (Reported b) \<longleftrightarrow> unat a + unat E \<le> unat b"
| "spaced E (Reported a) y \<longleftrightarrow> True"

lemma heights_simps [simp]: "heights [] = []" "heights (a @ b) = heights a @ heights b"
    "heights (Sent env r # h) = (if r = None then Reported (eBlockNumber env) # heights h else heights h)"
    "heights (Gauge g # h) = (case g of GLastSampled n \<Rightarrow> Completed n # heights h | _ \<Rightarrow> heights h)"
  by (auto simp: heights_def split: gauge.split option.split)

lemma sampled_simps [simp]: "sampled_at [] = []" "sampled_at (a @ b) = sampled_at a @ sampled_at b"
    "sampled_at (Sent env r # h) = sampled_at h"
    "sampled_at (Gauge g # h) = (case g of GLastSampled n \<Rightarrow> n # sampled_at h | _ \<Rightarrow> sampled_at h)"
  by (auto simp: sampled_at_def split: gauge.split)

lemma completed_height: "Completed n \<in> set (heights h) \<longleftrightarrow> n \<in> set (sampled_at h)"
proof (induction h)
  case (Cons x h)
  then show ?case by (cases x) (auto simp: heights_def sampled_at_def split: gauge.split option.split)
qed simp

lemma reported_height: "Reported n \<in> set (heights h) \<longleftrightarrow> (\<exists>env \<in> set (delivered h). n = eBlockNumber env)"
proof (induction h)
  case (Cons x h)
  then show ?case by (cases x) (auto simp: heights_def delivered_def split: gauge.split option.split)
qed simp

lemma spaced_sampled:
  "sorted_wrt (spaced E) (heights h) \<Longrightarrow> sorted_wrt (\<lambda>a b. unat a + unat E \<le> unat b) (sampled_at h)"
proof (induction h)
  case (Cons x h)
  have x: "heights (x # h) = heights [x] @ heights h" "sampled_at (x # h) = sampled_at [x] @ sampled_at h"
    using heights_simps(2) [of "[x]" h] sampled_simps(2) [of "[x]" h] by simp_all
  have one: "sampled_at [x] = [] \<or> (\<exists>n. sampled_at [x] = [n] \<and> heights [x] = [Completed n])"
    by (simp add: sampled_at_def heights_def split: bal_event.split gauge.split)
  from Cons.prems x(1) have "sorted_wrt (spaced E) (heights h)"
    and after: "\<forall>a \<in> set (heights [x]). \<forall>b \<in> set (heights h). spaced E a b" by (simp_all add: sorted_wrt_append)
  moreover have "unat n + unat E \<le> unat m" if "heights [x] = [Completed n]" "m \<in> set (sampled_at h)" for n m
    using after that completed_height [of m h] by force
  ultimately show ?case using Cons.IH one x(2) by (auto simp: sorted_wrt_append)
qed simp

lemma spaced_delivered:
  assumes "sorted_wrt (spaced E) (heights (h1 @ Gauge (GLastSampled n) # h2))" and "env \<in> set (delivered h2)"
  shows "unat n + unat E \<le> unat (eBlockNumber env)"
proof -
  have "Reported (eBlockNumber env) \<in> set (heights h2)" using assms(2) reported_height by blast
  with assms(1) show ?thesis by (force simp: sorted_wrt_append)
qed

lemma heights_calm: "calm p p' \<Longrightarrow> heights (pHistory p') = heights (pHistory p)"
proof -
  have "\<forall>n. Gauge (GLastSampled n) \<notin> set h \<Longrightarrow> \<forall>env r. Sent env r \<notin> set h \<Longrightarrow> heights h = []" for h
    by (induction h) (auto simp: heights_def split: bal_event.splits gauge.splits)
  then show "calm p p' \<Longrightarrow> heights (pHistory p') = heights (pHistory p)" by (auto simp: calm_def)
qed

definition unsampled :: "poller \<Rightarrow> poller \<Rightarrow> bool" where
  "unsampled p p' \<longleftrightarrow> heights (pHistory p') = heights (pHistory p)"

interpretation unsampled: step_order unsampled
  by unfold_locales (simp_all add: unsampled_def)

lemma unsampled_calm: "state_io_rel calm m \<Longrightarrow> state_io_rel unsampled m"
  using heights_calm by (force simp: state_io_rel_def unsampled_def)

text \<open>Records of one height delivered, nothing completed.\<close>

definition reports_at :: "u64 \<Rightarrow> poller \<Rightarrow> poller \<Rightarrow> bool" where
  "reports_at n p p' \<longleftrightarrow> (\<exists>k. heights (pHistory p') = heights (pHistory p) @ replicate k (Reported n))"

interpretation reports_at: step_order "reports_at n"
proof
  show "reports_at n s s" for s by (auto simp: reports_at_def intro: exI [of _ 0])
next
  fix a b c
  assume "reports_at n a b" "reports_at n b c"
  then obtain j k where "heights (pHistory c) = heights (pHistory a) @ replicate (j + k) (Reported n)"
    by (auto simp: reports_at_def replicate_add)
  then show "reports_at n a c" by (auto simp: reports_at_def)
qed

lemma unsampled_each: "(\<And>x. state_io_rel unsampled (f x)) \<Longrightarrow> state_io_rel unsampled (each_step f xs)"
  by (induction xs) (auto intro: unsampled.io_skip unsampled.io_bind)

lemma unsampled_gauge: "quiet_event (Gauge g) \<Longrightarrow> state_io_rel unsampled (gauge g)"
  by (rule unsampled_calm) (rule calm_gauge)

lemma unsampled_modify: "(\<And>p. pHistory (f p) = pHistory p) \<Longrightarrow> state_io_rel unsampled (modify f)"
  by (rule unsampled.io_modify) (simp add: unsampled_def)

lemma unsampled_forget: "state_io_rel unsampled (forget_prior k)" "state_io_rel unsampled (forget_owner k)"
  unfolding forget_prior_def forget_owner_def by (rule unsampled_modify; simp)+

lemma unsampled_reset: "state_io_rel unsampled (resetRemoved ws old)"
  unfolding resetRemoved_def
  by (intro unsampled.io_bind unsampled_each unsampled.io_if unsampled.io_skip unsampled_gauge unsampled_forget;
      simp add: quiet_event_def)

lemma unsampled_reload: "state_io_rel unsampled (bal_stage_reload W)" "state_io_rel unsampled (bal_applyPendingReload W)"
  unfolding bal_stage_reload_def bal_applyPendingReload_def bal_QueueReload_def
  by (intro unsampled.io_intros unsampled_modify unsampled_reset unsampled_calm [OF calm_resolveDecimals] unsampled_gauge;
      simp add: quiet_event_def)+

lemma change_height: "applyChange r p = Some c \<Longrightarrow> reading_ok n r \<Longrightarrow> eBlockNumber c = n"
  by (auto simp: applyChange_def reading_ok_def split: observed.splits prod.splits bool.splits option.splits if_splits)

lemma heights_quiet [simp]: "quiet_event (Gauge g) \<Longrightarrow> heights (Gauge g # h) = heights h"
  by (auto simp: quiet_event_def split: gauge.split)

lemma apply_reading_reports: "reading_ok n r \<Longrightarrow> state_io_rel (reports_at n) (apply_reading W r)"
proof
  fix p res p' assume ok: "reading_ok n r" and run: "run_state (apply_reading W r) p = (res, p')"
  from ok have n: "eBlockNumber (rgSample r) = n" by (simp add: reading_ok_def)
  have by_count: "heights (pHistory p') = heights (pHistory p) @ replicate k (Reported n) \<Longrightarrow> reports_at n p p'" for k
    unfolding reports_at_def by blast
  from run show "reports_at n p p'"
  proof (cases rule: apply_reading_cases)
    case (refused e)
    then show ?thesis by (intro by_count [of 0]) simp
  next
    case (same g)
    with n show ?thesis by (intro by_count [of 1]) (simp del: heights_simps(4))
  next
    case (half c g e)
    with n show ?thesis by (intro by_count [of 1]) (simp del: heights_simps(4))
  next
    case (moved c g g')
    with n change_height [OF moved(2) ok] show ?thesis
      by (intro by_count [of 2]) (simp add: numeral_2_eq_2 del: heights_simps(4))
  qed
qed

lemma sampleAll_heights:
  assumes "run_state (sampleAll W Op head) p = (res, p')"
  obtains k where "heights (pHistory p') = heights (pHistory p) @ replicate k (Reported head)
      @ (if res = Inr () then [Completed head] else [])"
  using assms
proof (cases rule: sampleAll_cases)
  case (unread e)
  then show ?thesis using that [of 0] by (simp add: heights_calm)
next
  case (applied results q res' q')
  from applied(2) have ok: "\<forall>r \<in> set (concat results). reading_ok head r" by (simp add: tick_readings_ok_def)
  have "state_io_rel (reports_at head) (for_each (apply_reading W) (concat results))"
    by (rule reports_at.io_for_each) (use ok apply_reading_reports in blast)
  from state_io_relD [OF this applied(3)] obtain k where
    k: "heights (pHistory q') = heights (pHistory q) @ replicate k (Reported head)" by (auto simp: reports_at_def)
  show ?thesis
    using applied heights_calm [OF applied(1)] k that [of k] by (cases "res' = Inr ()") simp_all
qed

lemma block_failed_vars:
  "run_state (block_failed W Op v e) p = (out, p') \<Longrightarrow> out = BGoing v' w \<Longrightarrow> bvLastSampled v' = bvLastSampled v \<and> bvHaveSampled v' = bvHaveSampled v"
  by (auto simp: block_failed_def run_simps split: if_splits prod.splits bal_outcome.splits)

lemma run_unit:
  obtains s' where "run_state (m :: ('s, unit) state) s = ((), s')"
  by (cases "run_state m s") auto

text \<open>A turn of the block cadence: nothing, a tick left half way, or a whole one - when one was due.\<close>

lemma block_iter_cases:
  assumes "run_state (block_iter W Op v) p = (out, p')"
  obtains (idle) "heights (pHistory p') = heights (pHistory p)"
      "\<And>v' w. out = BGoing v' w \<Longrightarrow> bvLastSampled v' = bvLastSampled v \<and> bvHaveSampled v' = bvHaveSampled v"
  | (broken) h head k where "bHead W h = Inr head" "block_due Op v head"
      "heights (pHistory p') = heights (pHistory p) @ replicate k (Reported head)"
      "\<And>v' w. out = BGoing v' w \<Longrightarrow> bvLastSampled v' = bvLastSampled v \<and> bvHaveSampled v' = bvHaveSampled v"
  | (sampled) h head k v' w where "out = BGoing v' w" "bHead W h = Inr head" "block_due Op v head"
      "heights (pHistory p') = heights (pHistory p) @ replicate k (Reported head) @ [Completed head]"
      "bvLastSampled v' = head" "bvHaveSampled v'"
proof -
  have us: "unsampled p q \<Longrightarrow> heights (pHistory q) = heights (pHistory p)" for p q by (simp add: unsampled_def)
  obtain p1 where r1: "run_state (bal_stage_reload W) p = ((), p1)" by (rule run_unit)
  obtain p2 where r2: "run_state (bal_applyPendingReload W) p1 = ((), p2)" by (rule run_unit)
  obtain r p3 where r3: "run_state (bal_BlockNumber W) p2 = (r, p3)" by (metis surj_pair)
  have s3: "heights (pHistory p3) = heights (pHistory p)"
    using us [OF state_io_relD [OF unsampled_reload(1) r1]] us [OF state_io_relD [OF unsampled_reload(2) r2]]
      us [OF state_io_relD [OF unsampled_calm [OF calm_BlockNumber] r3]] by simp
  have failed: "heights (pHistory p') = heights (pHistory q)"
    "out = BGoing v' w \<Longrightarrow> bvLastSampled v' = bvLastSampled v0 \<and> bvHaveSampled v' = bvHaveSampled v0"
    if "run_state (block_failed W Op v0 e) q = (out, p')" for v0 e q v' w
    using block_failed_vars [OF that] us [OF state_io_relD [OF unsampled_calm [OF calm_block_failed] that]] by simp_all
  show thesis
  proof (cases r)
    case (Inl e)
    with assms r1 r2 r3 have "run_state (block_failed W Op v e) p3 = (out, p')" by (simp add: block_iter_def)
    from failed [OF this] s3 show thesis by (intro idle) simp_all
  next
    case (Inr head)
    then obtain h where hd: "bHead W h = Inr head"
      using r3 by (auto simp: bal_BlockNumber_def run_simps split: sum.splits)
    let ?v1 = "v\<lparr> bvFailures := 0 \<rparr>"
    let ?v2 = "?v1\<lparr> bvLastHeadTime := head \<rparr>"
    let ?refresh = "if head \<noteq> bvLastHeadTime ?v1 then refreshHeadTime W head else skip"
    let ?lag = "if bvHaveSampled ?v2 \<and> head > bvLastSampled ?v2 then gauge (GLag (head - bvLastSampled ?v2)) else skip"
    obtain p4 where r4: "run_state (gauge (GHead head)) p3 = ((), p4)" by (rule run_unit)
    obtain p5 where r5: "run_state onSuccess p4 = ((), p5)" by (rule run_unit)
    obtain p6 where r6: "run_state ?refresh p5 = ((), p6)" by (rule run_unit)
    obtain p7 where r7: "run_state ?lag p6 = ((), p7)" by (rule run_unit)
    have calm_if: "state_io_rel calm m \<Longrightarrow> state_io_rel calm (if b then m else skip)" for b m
      by (simp add: calm.io_skip)
    have "state_io_rel calm (gauge (GLag n))" for n by (rule calm_gauge) (simp add: quiet_event_def)
    moreover have "state_io_rel calm (gauge (GHead head))" by (rule calm_gauge) (simp add: quiet_event_def)
    ultimately have calm4: "state_io_rel calm (gauge (GHead head))" "state_io_rel calm ?refresh" "state_io_rel calm ?lag"
      using calm_if calm_refresh by blast+
    have "calm p3 p7"
      using state_io_relD [OF calm4(1) r4] state_io_relD [OF calm_onSuccess r5] state_io_relD [OF calm4(2) r6]
        state_io_relD [OF calm4(3) r7] by (blast intro: calm.R_trans)
    then have s7: "heights (pHistory p7) = heights (pHistory p)" using heights_calm s3 by simp
    have step: "run_state (if block_due Op ?v2 head then do {
                 s \<leftarrow> sampleAll W Op head;
                 (case s of
                    Inl e \<Rightarrow> block_failed W Op ?v2 e
                  | Inr _ \<Rightarrow> do { onSuccess; State_Monad.return (BGoing (?v2\<lparr> bvLastSampled := head, bvHaveSampled := True \<rparr>) True) }) }
               else State_Monad.return (BGoing ?v2 True)) p7 = (out, p')"
      using assms r1 r2 r3 r4 r5 r6 r7 Inr by (simp add: block_iter_def Let_def)
    show thesis
    proof (cases "block_due Op ?v2 head")
      case False
      with step s7 show thesis by (intro idle) auto
    next
      case True
      then have due: "block_due Op v head" by (simp add: block_due_def)
      obtain s p8 where r8: "run_state (sampleAll W Op head) p7 = (s, p8)" by (metis surj_pair)
      from r8 obtain k where s8: "heights (pHistory p8) = heights (pHistory p7) @ replicate k (Reported head)
        @ (if s = Inr () then [Completed head] else [])" by (rule sampleAll_heights)
      show thesis
      proof (cases s)
        case e: (Inl e)
        with step True r8 have "run_state (block_failed W Op ?v2 e) p8 = (out, p')" by simp
        from failed [OF this] s7 s8 e hd due show thesis by (intro broken [of h head k]) simp_all
      next
        case (Inr u)
        obtain p9 where r9: "run_state onSuccess p8 = ((), p9)" by (rule run_unit)
        have "out = BGoing (?v2\<lparr> bvLastSampled := head, bvHaveSampled := True \<rparr>) True" "p' = p9" using step True r8 r9 Inr by auto
        moreover have "heights (pHistory p9) = heights (pHistory p8)"
          using heights_calm [OF state_io_relD [OF calm_onSuccess r9]] .
        ultimately show thesis using s7 s8 Inr hd due
          by (intro sampled [of "?v2\<lparr> bvLastSampled := head, bvHaveSampled := True \<rparr>" True h head k]) simp_all
      qed
    qed
  qed
qed

text \<open>What the variables know of the heights sampled.\<close>

definition vars_ok :: "u64 \<Rightarrow> block_vars \<Rightarrow> bal_hist \<Rightarrow> bool" where
  "vars_ok E v h \<longleftrightarrow> sorted_wrt (spaced E) (heights h)
     \<and> (\<forall>n \<in> set (sampled_at h). bvHaveSampled v \<and> unat n \<le> unat (bvLastSampled v))
     \<and> (bvHaveSampled v \<longrightarrow> unat (bvLastSampled v) + unat E < 2 ^ 64)"

text \<open>A tick is due at heights a whole cadence above every completed one.\<close>

lemma due_spaced:
  assumes "vars_ok E v h" and "block_due Op v head" and "E = cadEveryBlocks (boCadence Op)" and "n \<in> set (sampled_at h)"
  shows "unat n + unat E \<le> unat head"
proof -
  have "bvLastSampled v + E \<le> head" using assms by (auto simp: vars_ok_def block_due_def)
  moreover have "unat (bvLastSampled v + E) = unat (bvLastSampled v) + unat E"
    using assms(1,4) by (intro unat_plus_simple [THEN iffD1]) (auto simp: vars_ok_def no_olen_add_nat)
  ultimately show ?thesis using assms(1,4) by (force simp: vars_ok_def word_le_nat_alt)
qed

lemma due_reports:
  assumes "vars_ok E v h" and "\<forall>n \<in> set (sampled_at h). unat n + unat E \<le> unat head"
  shows "sorted_wrt (spaced E) (heights h @ replicate k (Reported head))"
    and "sorted_wrt (spaced E) (heights h @ replicate k (Reported head) @ [Completed head])"
proof -
  have old: "spaced E a (Reported head) \<and> spaced E a (Completed head)" if "a \<in> set (heights h)" for a
  proof (cases a)
    case (Completed n)
    with that assms(2) completed_height [of n h] show ?thesis by simp
  qed simp
  have rep: "sorted_wrt (spaced E) (replicate k (Reported head))" by (induction k) auto
  with old assms(1) show "sorted_wrt (spaced E) (heights h @ replicate k (Reported head))"
    by (auto simp: sorted_wrt_append vars_ok_def)
  with old show "sorted_wrt (spaced E) (heights h @ replicate k (Reported head) @ [Completed head])"
    by (auto simp: sorted_wrt_append)
qed

lemma block_cadence_vars:
  assumes "\<forall>h head. bHead W h = Inr head \<longrightarrow> unat head + unat (cadEveryBlocks (boCadence Op)) < 2 ^ 64"
    and "run_state (runBlockCadence n W Op v) p = (r, p')"
    and "vars_ok (cadEveryBlocks (boCadence Op)) v (pHistory p)"
  shows "sorted_wrt (spaced (cadEveryBlocks (boCadence Op))) (heights (pHistory p'))"
  using assms(2,3)
proof (induction n arbitrary: v p)
  case 0
  then show ?case by (simp add: vars_ok_def)
next
  case (Suc n)
  let ?E = "cadEveryBlocks (boCadence Op)"
  obtain out q where q: "run_state (block_iter W Op v) p = (out, q)" by (metis surj_pair)
  note due = due_spaced [OF Suc.prems(2) _ refl]
  have same: "set (sampled_at (pHistory q)) = {n. Completed n \<in> set (heights (pHistory q))}"
    "set (sampled_at (pHistory p)) = {n. Completed n \<in> set (heights (pHistory p))}" by (auto simp: completed_height)
  have "sorted_wrt (spaced ?E) (heights (pHistory q)) \<and> (\<forall>v' w. out = BGoing v' w \<longrightarrow> vars_ok ?E v' (pHistory q))"
    using q
  proof (cases rule: block_iter_cases)
    case idle
    with Suc.prems(2) same show ?thesis by (auto simp: vars_ok_def)
  next
    case (broken h head k)
    with due_reports(1) [OF Suc.prems(2)] due Suc.prems(2) same show ?thesis by (auto simp: vars_ok_def)
  next
    case (sampled h head k v' w)
    have all: "\<forall>n \<in> set (sampled_at (pHistory p)). unat n + unat ?E \<le> unat head" using due sampled(3) by blast
    have "sorted_wrt (spaced ?E) (heights (pHistory q))"
      using due_reports(2) [OF Suc.prems(2) all] sampled(4) by simp
    moreover have "unat n \<le> unat head" if "n \<in> set (sampled_at (pHistory q))" for n
      using that all sampled(4) unfolding same by (auto simp: completed_height)
    moreover have "unat head + unat ?E < 2 ^ 64" using assms(1) sampled(2) by blast
    ultimately show ?thesis using sampled(1,5,6) by (simp add: vars_ok_def)
  qed
  with Suc.prems(1) Suc.IH q show ?case
    by (cases out) (auto split: if_splits)
qed

text \<open>
C34: With the block cadence, samples keep their distance from the last completed tick: whatever
  fails, and however the head moves - backwards included - any two heights at which a tick was
  completed are at least the configured number of blocks apart and rise, and no record delivered
  after a completed tick is of a height less than that number of blocks above it. Only a completed
  tick counts: one whose output failed half way has delivered some records and is taken again at
  the next head. The heads the node reports are assumed so low that head plus cadence does not
  wrap in 64 bits.
\<close>
theorem block_cadence_spacing:
  assumes "run_state (runBlockCadence n W Op first_vars) p = (r, p')" and "pHistory p = []"
    and "\<forall>h head. bHead W h = Inr head \<longrightarrow> unat head + unat (cadEveryBlocks (boCadence Op)) < 2 ^ 64"
  shows "sorted_wrt (\<lambda>a b. unat a + unat (cadEveryBlocks (boCadence Op)) \<le> unat b) (sampled_at (pHistory p'))
    \<and> (\<forall>h1 n h2 env. pHistory p' = h1 @ Gauge (GLastSampled n) # h2 \<longrightarrow> env \<in> set (delivered h2) \<longrightarrow>
         unat n + unat (cadEveryBlocks (boCadence Op)) \<le> unat (eBlockNumber env))"
proof -
  have "sorted_wrt (spaced (cadEveryBlocks (boCadence Op))) (heights (pHistory p'))"
    by (rule block_cadence_vars [OF assms(3,1)]) (simp add: vars_ok_def first_vars_def assms(2))
  with spaced_sampled spaced_delivered show ?thesis by metis
qed

text \<open>A head that jumps by three blocks, sampled every three.\<close>

definition jumping_node :: bal_world where
  "jumping_node = moving_node\<lparr> bBalance := (\<lambda>_ _ _. Inr ''0x7''), bHead := (\<lambda>h. Inr (if h = [] then 5 else 8)) \<rparr>"

definition every_three :: bal_options where
  "every_three = every_minute\<lparr> boCadence := \<lparr> cadInterval = 0, cadEveryBlocks = 3 \<rparr> \<rparr>"

lemma sampled_more [simp]: "sampled_at (HeadCall hc # h) = sampled_at h" "sampled_at (BlockCall n bc # h) = sampled_at h"
    "sampled_at (BalanceCall adr tag c # h) = sampled_at h"
  by (simp_all add: sampled_at_def)

lemma sample_jumps:
  "\<exists>r p. run_state (runBlockCadence 2 jumping_node every_three first_vars) (fresh_poller one_account) = (r, p)
     \<and> sampled_at (pHistory p) = [5, 8]"
  by (simp add: sample_run_defs jumping_node_def every_three_def block_iter_def first_vars_def block_due_def refreshHeadTime_def)

lemma block_cadence_spacing_witness:
  "\<exists>r p. run_state (runBlockCadence 2 jumping_node every_three first_vars) (fresh_poller one_account) = (r, p)
     \<and> sampled_at (pHistory p) = [5, 8] \<and> unat (5 :: u64) + unat (3 :: u64) \<le> unat (8 :: u64)"
proof -
  obtain r p where run: "run_state (runBlockCadence 2 jumping_node every_three first_vars) (fresh_poller one_account) = (r, p)"
    and at: "sampled_at (pHistory p) = [5, 8]" using sample_jumps by blast
  have "sorted_wrt (\<lambda>a b. unat a + unat (cadEveryBlocks (boCadence every_three)) \<le> unat b) (sampled_at (pHistory p))"
    using block_cadence_spacing [OF run]
    by (auto simp: fresh_poller_def jumping_node_def moving_node_def every_three_def)
  with run at show ?thesis by (simp add: every_three_def)
qed

text \<open>
  What is not promised: a tick whose output refused one record is not completed, and the next
  head takes it again. Two accounts, sampled every three blocks, a head that moves by one: the
  samples delivered are of the heights five, six and six.
\<close>

definition refusing_node :: bal_world where
  "refusing_node = moving_node\<lparr> bBalance := (\<lambda>_ _ _. Inr ''0x7''), bHead := (\<lambda>h. Inr (if h = [] then 5 else 6)),
     bEmit := (\<lambda>h env. if heights h = [Reported 5] \<and> eBlockNumber env = 5 then Some (emit_error.EmitFailed ''full'') else None) \<rparr>"

definition two_accounts :: bal_watch_set where
  "two_accounts = one_account\<lparr> bwNative := [\<lparr> nttName = ''a'', nttAddress = ''0x1'' \<rparr>, \<lparr> nttName = ''b'', nttAddress = ''0x2'' \<rparr>] \<rparr>"

lemma heights_more [simp]: "heights (HeadCall hc # h) = heights h" "heights (BlockCall n bc # h) = heights h"
    "heights (BalanceCall adr tag c # h) = heights h" "heights (Waited d b # h) = heights h"
  by (simp_all add: heights_def)

lemma built_height: "eBlockNumber (buildEnv Op ty name b d) = tbHead b"
  by (simp add: buildEnv_def zero_envelope_def)
lemma partial_tick_is_taken_again:
  "\<exists>r p. run_state (runBlockCadence 2 refusing_node every_three first_vars) (fresh_poller two_accounts) = (r, p)
     \<and> heights (pHistory p) = [Reported 5, Reported 6, Reported 6, Completed 6]"
  by (simp add: sample_run_defs refusing_node_def two_accounts_def every_three_def block_iter_def first_vars_def block_due_def
      refreshHeadTime_def block_failed_def handleError_def handleFailure_def permanent_error_def bal_backoffFor_def
      backoff_Duration_def backoff_Jitter_def bal_sleep_def bal_cancelled_def built_height)

section \<open>A reload keeps the baselines of the names it keeps\<close>

lemma each_keeps:
  assumes "\<And>x p p'. x \<in> set xs \<Longrightarrow> run_state (f x) p = ((), p') \<Longrightarrow> pPrior p' k = pPrior p k"
    and "run_state (each_step f xs) p = ((), p')"
  shows "pPrior p' k = pPrior p k"
  using assms
proof (induction xs arbitrary: p)
  case (Cons x xs)
  obtain q where q: "run_state (f x) p = ((), q)" by (rule run_unit)
  with Cons.prems(2) have "run_state (each_step f xs) q = ((), p')" by simp
  with Cons.IH Cons.prems(1) q show ?case by (metis list.set_intros(1,2))
qed simp

lemma run_forget [run_simps]:
  "run_state (forget_prior key) p = ((), p\<lparr> pPrior := (pPrior p)(key := None) \<rparr>)"
  "run_state (forget_owner key) p = ((), p\<lparr> pPriorOwner := (pPriorOwner p)(key := None) \<rparr>)"
  by (simp_all add: forget_prior_def forget_owner_def)

lemma reset_keeps_native:
  assumes "run_state (resetRemoved ws old) p = ((), p')" and "name \<in> names nttName (bwNative ws)"
  shows "pPrior p' (''native:'' @ name) = pPrior p (''native:'' @ name)"
proof -
  let ?k = "''native:'' @ name"
  from assms(1) obtain p1 p2 p3 p4 where
    s: "run_state (each_step (\<lambda>t. if nttName t \<in> names nttName (bwNative ws) then skip
            else do { gauge (ResetAccount (nttName t) (to_lower (nttAddress t))); forget_prior (''native:'' @ nttName t) })
            (bwNative old)) p = ((), p1)"
    "run_state (each_step (\<lambda>t. if ettName t \<in> names ettName (bwERC20 ws) then skip
            else do { gauge (ResetAccountToken (ettName t) (to_lower (ettAddress t)) (ettName t) (to_lower (ettToken t)));
                      forget_prior (''erc20:'' @ ettName t) }) (bwERC20 old)) p1 = ((), p2)"
    "run_state (each_step (\<lambda>t. if cttName t \<notin> names cttName (bwContracts ws)
            then do { gauge (ResetContract (cttName t) (to_lower (cttAddress t)));
                      forget_prior (''contract-native:'' @ cttName t);
                      forget_prior (''contract-supply:'' @ cttName t);
                      forget_prior (''contract-transfers:'' @ cttName t) }
            else if new_window (bwContracts ws) (cttName t) \<noteq> cttWindow t
            then gauge (ResetContract (cttName t) (to_lower (cttAddress t)))
            else skip) (bwContracts old)) p2 = ((), p3)"
    "run_state (each_step (\<lambda>t. if ebtName t \<in> names ebtName (bwERC721Balances ws) then skip
            else do { gauge (ResetAccountToken (ebtName t) (to_lower (ebtOwner t)) (ebtName t) (to_lower (ebtToken t)));
                      forget_prior (''erc721-balance:'' @ ebtName t) }) (bwERC721Balances old)) p3 = ((), p4)"
    "run_state (each_step (\<lambda>t. if eotName t \<in> names eotName (bwERC721Ownership ws) then skip
            else forget_owner (''erc721-ownership:'' @ eotName t)) (bwERC721Ownership old)) p4 = ((), p')"
    unfolding resetRemoved_def by (auto split: prod.splits)
  have "pPrior p1 ?k = pPrior p ?k"
    using assms(2) by (intro each_keeps [OF _ s(1)]) (auto simp: run_simps split: if_splits)
  moreover have "pPrior p2 ?k = pPrior p1 ?k" by (intro each_keeps [OF _ s(2)]) (auto simp: run_simps split: if_splits)
  moreover have "pPrior p3 ?k = pPrior p2 ?k" by (intro each_keeps [OF _ s(3)]) (auto simp: run_simps split: if_splits)
  moreover have "pPrior p4 ?k = pPrior p3 ?k" by (intro each_keeps [OF _ s(4)]) (auto simp: run_simps split: if_splits)
  moreover have "pPrior p' ?k = pPrior p4 ?k" by (intro each_keeps [OF _ s(5)]) (auto simp: run_simps split: if_splits)
  ultimately show ?thesis by simp
qed

text \<open>
C36: A reload that gives an existing name another address keeps the baseline of the old account:
  the first reading of the new account is compared with the old account's last balance, and a
  difference is reported as a change of the new account - of which nothing was ever sampled.
\<close>
theorem reload_reports_foreign_change:
  assumes "pPending p = Some ws" and "t \<in> set (bwNative ws)" and "pPrior p (''native:'' @ nttName t) = Some v"
    and "run_state (bal_applyPendingReload W) p = ((), p')"
    and "run_state (readNative W Op b t) p' = (Inr r, p'')" and "rgValue r \<noteq> Amount v"
  shows "\<exists>env. applyChange r p'' = Some env \<and> is_change env \<and> reads_as env = Some (''native:'' @ nttName t, show_int v, value_text (rgValue r))
    \<and> (\<forall>d. eData env = DBalance d \<longrightarrow> bdAddress d = nttAddress t)"
proof -
  have keep: "pPrior p' (''native:'' @ nttName t) = Some v" if "run_state (resetRemoved ws (pTargets p)) (p\<lparr> pPending := None \<rparr>) = ((), q)"
      "calm (q\<lparr> pTargets := ws \<rparr>) p'" for q
  proof -
    have "pPrior q (''native:'' @ nttName t) = pPrior (p\<lparr> pPending := None \<rparr>) (''native:'' @ nttName t)"
      by (rule reset_keeps_native [OF that(1)]) (use assms(2) in \<open>auto simp: names_def\<close>)
    with that(2) assms(3) show ?thesis by (simp add: calm_def)
  qed
  obtain q where q: "run_state (resetRemoved ws (pTargets p)) (p\<lparr> pPending := None \<rparr>) = ((), q)" by (rule run_unit)
  obtain q2 where q2: "run_state (resolveDecimals W) (q\<lparr> pTargets := ws \<rparr>) = ((), q2)" by (rule run_unit)
  have "run_state (gauge IncReload) q2 = ((), p')"
    using assms(1,4) q q2 by (simp add: bal_applyPendingReload_def)
  moreover have "state_io_rel calm (gauge IncReload)" by (rule calm_gauge) (simp add: quiet_event_def)
  ultimately have "calm (q\<lparr> pTargets := ws \<rparr>) p'"
    using state_io_relD [OF calm_resolveDecimals q2] by (blast intro: calm.R_trans)
  from keep [OF q this] have "pPrior p' (''native:'' @ nttName t) = Some v" .
  with state_io_relD [OF calm_reads(1) assms(5)] have pr: "pPrior p'' (''native:'' @ nttName t) = Some v" by (simp add: calm_def)
  have ok: "reading_ok (tbHead b) r \<and> rgKey r = ''native:'' @ nttName t"
    using gives_reads(1) [of W Op b t] assms(5) by (auto simp: yields_def)
  have g: "gives (readNative W Op b t) (\<lambda>r. \<forall>prev d. eData (rgChange r prev) = DBalance d \<longrightarrow> bdAddress d = nttAddress t)"
    unfolding readNative_def Let_def
    by (intro gives_check_any gives_bind gives_ok) (simp add: buildEnv_def)
  from yieldsD [OF g assms(5)]
  have addr: "\<forall>prev d. eData (rgChange r prev) = DBalance d \<longrightarrow> bdAddress d = nttAddress t" by blast
  have "\<not> owner_key (''native:'' @ nttName t)" by (simp add: owner_key_def has_prefix_def)
  with ok obtain w where w: "rgValue r = Amount w" by (cases "rgValue r") (auto simp: reading_ok_def)
  with assms(6) pr ok have "applyChange r p'' = Some (rgChange r (show_int v))"
    by (auto simp: applyChange_def peekChanged_def)
  with ok addr show ?thesis by (auto simp: reading_ok_def)
qed

lemma reload_reports_foreign_change_witness:
  "\<exists>r env p''. run_state (readNative moving_node every_minute \<lparr> tbHead = 5, tbTimestamp = [], tbHash = [] \<rparr> \<lparr> nttName = ''a'', nttAddress = ''0x2'' \<rparr>)
       (snd (run_state (bal_applyPendingReload moving_node)
         ((fresh_poller one_account)\<lparr> pPrior := [''native:a'' \<mapsto> 100],
            pPending := Some (one_account\<lparr> bwNative := [\<lparr> nttName = ''a'', nttAddress = ''0x2'' \<rparr>] \<rparr>) \<rparr>))) = (Inr r, p'')
     \<and> applyChange r p'' = Some env \<and> is_change env"
proof -
  let ?p = "(fresh_poller one_account)\<lparr> pPrior := [''native:a'' \<mapsto> 100],
            pPending := Some (one_account\<lparr> bwNative := [\<lparr> nttName = ''a'', nttAddress = ''0x2'' \<rparr>] \<rparr>) \<rparr>"
  let ?b = "\<lparr> tbHead = 5, tbTimestamp = [], tbHash = [] \<rparr>"
  let ?t = "\<lparr> nttName = ''a'', nttAddress = ''0x2'' \<rparr>"
  obtain p' where p': "run_state (bal_applyPendingReload moving_node) ?p = ((), p')" by (rule run_unit)
  obtain x p'' where x: "run_state (readNative moving_node every_minute ?b ?t) p' = (x, p'')" by (metis surj_pair)
  then have "\<exists>r. x = Inr r \<and> rgValue r \<noteq> Amount 100"
    by (auto simp: readNative_def named_def caused_def BalanceAt_def run_simps moving_node_def hexBig_digits Let_def split: if_splits)
  then obtain r where r: "x = Inr r" "rgValue r \<noteq> Amount 100" by blast
  from reload_reports_foreign_change [of ?p _ ?t 100, OF _ _ _ p' x [unfolded r(1)] r(2)]
  have "\<exists>env. applyChange r p'' = Some env \<and> is_change env" by auto
  with p' x r(1) show ?thesis by auto
qed

end
