(* ===== verification/Json.thy ===== *)
theory Json
  imports Records "HOL-Library.Char_ord" "HOL-Library.List_Lexorder"
begin

text \<open>
  The JSON texts that \<^verbatim>\<open>encoding/json\<close> writes and reads, as far as the record pipe uses them: strings
  with their escapes and their treatment of malformed UTF-8, numbers as literals, objects and
  arrays. \<open>encode_json\<close> is the encoder, with its two settings of HTML escaping; \<open>parse_value\<close>
  is the scanner, with the nesting limit of the library. What one writes the other reads
  back, whatever follows in the text.
\<close>

abbreviation DQ :: char where "DQ \<equiv> CHR 0x22"
abbreviation BS :: char where "BS \<equiv> CHR 0x5C"
abbreviation NL :: char where "NL \<equiv> CHR 0x0A"

section \<open>UTF-8\<close>

text \<open>The length of the well-formed sequence a text starts with; zero when there is none. The
second byte of a longer sequence has a narrower range after some first bytes (overlong forms,
surrogates, code points that do not exist).\<close>

definition continues :: "nat \<Rightarrow> nat \<Rightarrow> char \<Rightarrow> bool" where
  "continues lo hi b \<longleftrightarrow> lo \<le> code_of b \<and> code_of b \<le> hi"

definition second_byte :: "nat \<Rightarrow> char \<Rightarrow> bool" where
  "second_byte x = continues (if x = 224 then 160 else if x = 240 then 144 else 128)
                             (if x = 237 then 159 else if x = 244 then 143 else 191)"

definition rune_len :: "string \<Rightarrow> nat" where
  "rune_len s =
     (case s of
        [] \<Rightarrow> 0
      | a # r \<Rightarrow>
          (let x = code_of a in
           if x < 128 then 1
           else if 194 \<le> x \<and> x \<le> 223 then
             (case r of b # _ \<Rightarrow> (if second_byte x b then 2 else 0) | _ \<Rightarrow> 0)
           else if 224 \<le> x \<and> x \<le> 239 then
             (case r of b # c # _ \<Rightarrow> (if second_byte x b \<and> continues 128 191 c then 3 else 0) | _ \<Rightarrow> 0)
           else if 240 \<le> x \<and> x \<le> 244 then
             (case r of b # c # d # _ \<Rightarrow>
                (if second_byte x b \<and> continues 128 191 c \<and> continues 128 191 d then 4 else 0) | _ \<Rightarrow> 0)
           else 0))"

lemma rune_len_le: "rune_len s \<le> length s"
  by (auto simp: rune_len_def Let_def split: list.splits)

lemma rune_len_eqs:
  "code_of a < 128 \<Longrightarrow> rune_len (a # r) = 1"
  "194 \<le> code_of a \<Longrightarrow> code_of a \<le> 223 \<Longrightarrow> second_byte (code_of a) b \<Longrightarrow> rune_len (a # b # r) = 2"
  "224 \<le> code_of a \<Longrightarrow> code_of a \<le> 239 \<Longrightarrow> second_byte (code_of a) b \<Longrightarrow> continues 128 191 c \<Longrightarrow>
     rune_len (a # b # c # r) = 3"
  "240 \<le> code_of a \<Longrightarrow> code_of a \<le> 244 \<Longrightarrow> second_byte (code_of a) b \<Longrightarrow> continues 128 191 c \<Longrightarrow>
     continues 128 191 d \<Longrightarrow> rune_len (a # b # c # d # r) = 4"
  by (simp_all add: rune_len_def Let_def)

lemma rune_len_cases:
  assumes "rune_len s \<noteq> 0"
  obtains (1) a r where "s = a # r" "code_of a < 128"
  | (2) a b r where "s = a # b # r" "194 \<le> code_of a" "code_of a \<le> 223" "second_byte (code_of a) b"
  | (3) a b c r where "s = a # b # c # r" "224 \<le> code_of a" "code_of a \<le> 239" "second_byte (code_of a) b"
      "continues 128 191 c"
  | (4) a b c d r where "s = a # b # c # d # r" "240 \<le> code_of a" "code_of a \<le> 244" "second_byte (code_of a) b"
      "continues 128 191 c" "continues 128 191 d"
  using assms by (auto simp: rune_len_def Let_def split: list.splits if_splits)

lemma rune_len_take: "rune_len s \<noteq> 0 \<Longrightarrow> rune_len (take (rune_len s) s @ t) = rune_len s"
  by (erule rune_len_cases) (simp_all add: rune_len_eqs)

lemma rune_len_1: "rune_len (a # r) = 1 \<longleftrightarrow> code_of a < 128"
  by (auto simp: rune_len_def Let_def split: list.splits)

lemma rune_len_ascii [simp]: "code_of a < 128 \<Longrightarrow> rune_len (a # r) = Suc 0"
  using rune_len_1 by simp

text \<open>Malformed bytes become the replacement character, one by one.\<close>

definition replacement :: string where
  "replacement = [CHR 0xEF, CHR 0xBF, CHR 0xBD]"

function to_valid :: "string \<Rightarrow> string" where
  "to_valid [] = []"
| "to_valid (a # r) =
     (if rune_len (a # r) = 0 then replacement @ to_valid r
      else take (rune_len (a # r)) (a # r) @ to_valid (drop (rune_len (a # r) - 1) r))"
  by pat_completeness auto
termination by (relation "measure length") auto

text \<open>The bytes of a code point.\<close>

definition utf8_encode :: "nat \<Rightarrow> string" where
  "utf8_encode u =
     (if u < 128 then [char_of u]
      else if u < 2048 then [char_of (192 + u div 64), char_of (128 + u mod 64)]
      else if u < 65536 then [char_of (224 + u div 4096), char_of (128 + u div 64 mod 64), char_of (128 + u mod 64)]
      else [char_of (240 + u div 262144), char_of (128 + u div 4096 mod 64), char_of (128 + u div 64 mod 64),
            char_of (128 + u mod 64)])"

section \<open>Strings\<close>

definition unicode_escape :: "nat \<Rightarrow> string" where
  "unicode_escape u = [BS, CHR ''u'', digit_char (u div 4096 mod 16), digit_char (u div 256 mod 16),
     digit_char (u div 16 mod 16), digit_char (u mod 16)]"

definition escape_char :: "bool \<Rightarrow> char \<Rightarrow> string" where
  "escape_char html c =
     (if c = DQ \<or> c = BS then [BS, c]
      else if c = CHR 0x08 then [BS, CHR ''b'']
      else if c = CHR 0x0C then [BS, CHR ''f'']
      else if c = CHR 0x0A then [BS, CHR ''n'']
      else if c = CHR 0x0D then [BS, CHR ''r'']
      else if c = CHR 0x09 then [BS, CHR ''t'']
      else if code_of c < 32 \<or> html \<and> c \<in> {CHR ''<'', CHR ''>'', CHR ''&''} then unicode_escape (code_of c)
      else [c])"

function escape :: "bool \<Rightarrow> string \<Rightarrow> string" where
  "escape html [] = []"
| "escape html (a # r) =
     (let n = rune_len (a # r); rune = take n (a # r) in
      if n = 0 then unicode_escape 65533 @ escape html r
      else if n = 1 then escape_char html a @ escape html r
      else (if rune = utf8_encode 8232 then unicode_escape 8232
            else if rune = utf8_encode 8233 then unicode_escape 8233 else rune)
           @ escape html (drop (rune_len (a # r) - 1) r))"
  by pat_completeness auto
termination by (relation "measure (length \<circ> snd)") auto

definition json_string :: "bool \<Rightarrow> string \<Rightarrow> string" where
  "json_string html s = [DQ] @ escape html s @ [DQ]"

text \<open>Reading: four hex digits, the single-letter escapes, surrogate pairs.\<close>

definition hex4 :: "string \<Rightarrow> nat option" where
  "hex4 s =
     (case s of
        a # b # c # d # _ \<Rightarrow>
          (case (hex_digit a, hex_digit b, hex_digit c, hex_digit d) of
             (Some w, Some x, Some y, Some z) \<Rightarrow> Some (w * 4096 + x * 256 + y * 16 + z)
           | _ \<Rightarrow> None)
      | _ \<Rightarrow> None)"

definition unescape_char :: "char \<Rightarrow> char option" where
  "unescape_char e =
     (if e = DQ \<or> e = BS \<or> e = CHR ''/'' then Some e
      else if e = CHR ''b'' then Some (CHR 0x08)
      else if e = CHR ''f'' then Some (CHR 0x0C)
      else if e = CHR ''n'' then Some (CHR 0x0A)
      else if e = CHR ''r'' then Some (CHR 0x0D)
      else if e = CHR ''t'' then Some (CHR 0x09)
      else None)"

definition is_surrogate :: "nat \<Rightarrow> bool" where
  "is_surrogate u \<longleftrightarrow> 55296 \<le> u \<and> u < 57344"

definition surrogate_pair :: "nat \<Rightarrow> string \<Rightarrow> nat option" where
  "surrogate_pair u r =
     (if 55296 \<le> u \<and> u < 56320 then
        (case r of
           a # b # r' \<Rightarrow>
             if a = BS \<and> b = CHR ''u'' then
               (case hex4 r' of
                  Some v \<Rightarrow> if 56320 \<le> v \<and> v < 57344 then Some (65536 + (u - 55296) * 1024 + (v - 56320)) else None
                | None \<Rightarrow> None)
             else None
         | _ \<Rightarrow> None)
      else None)"

definition prepend :: "'a list \<Rightarrow> ('a list \<times> 'b) option \<Rightarrow> ('a list \<times> 'b) option" where
  "prepend p x = map_option (\<lambda>(t, r). (p @ t, r)) x"

function parse_str :: "string \<Rightarrow> (string \<times> string) option" where
  "parse_str [] = None"
| "parse_str (c # s) =
     (if c = DQ then Some ([], s)
      else if c = BS then
        (case s of
           [] \<Rightarrow> None
         | e # r \<Rightarrow>
             if e = CHR ''u'' then
               (case hex4 r of
                  None \<Rightarrow> None
                | Some u \<Rightarrow>
                    (case surrogate_pair u (drop 4 r) of
                       Some p \<Rightarrow> prepend (utf8_encode p) (parse_str (drop 10 r))
                     | None \<Rightarrow> prepend (if is_surrogate u then replacement else utf8_encode u) (parse_str (drop 4 r))))
             else
               (case unescape_char e of
                  None \<Rightarrow> None
                | Some x \<Rightarrow> prepend [x] (parse_str r)))
      else if code_of c < 32 then None
      else if rune_len (c # s) = 0 then prepend replacement (parse_str s)
      else prepend (take (rune_len (c # s)) (c # s)) (parse_str (drop (rune_len (c # s) - 1) s)))"
  by pat_completeness auto
termination by (relation "measure length") auto

section \<open>Values\<close>

fun encode_json :: "bool \<Rightarrow> json \<Rightarrow> string" where
  "encode_json html JNull = ''null''"
| "encode_json html (JBool b) = (if b then ''true'' else ''false'')"
| "encode_json html (JNum t) = t"
| "encode_json html (JStr s) = json_string html s"
| "encode_json html (JArr xs) = ''['' @ join '','' (map (encode_json html) xs) @ '']''"
| "encode_json html (JObj ms) =
     ''{'' @ join '','' (map (\<lambda>(k, v). json_string html k @ '':'' @ encode_json html v) ms) @ ''}''"

definition is_json_space :: "char \<Rightarrow> bool" where
  "is_json_space c \<longleftrightarrow> c \<in> {CHR '' '', CHR 0x09, CHR 0x0D, CHR 0x0A}"

definition skip_ws :: "string \<Rightarrow> string" where
  "skip_ws s = dropWhile is_json_space s"

definition is_digit :: "char \<Rightarrow> bool" where
  "is_digit c \<longleftrightarrow> 48 \<le> code_of c \<and> code_of c \<le> 57"

text \<open>The parts of a number: sign, integer without a leading zero, fraction, exponent.\<close>

definition scan_digits :: "string \<Rightarrow> (string \<times> string) option" where
  "scan_digits s = (if takeWhile is_digit s = [] then None else Some (takeWhile is_digit s, dropWhile is_digit s))"

definition scan_int :: "string \<Rightarrow> (string \<times> string) option" where
  "scan_int s =
     (case s of
        [] \<Rightarrow> None
      | c # r \<Rightarrow> if c = CHR ''0'' then Some (''0'', r) else scan_digits s)"

definition scan_frac :: "string \<Rightarrow> (string \<times> string) option" where
  "scan_frac s =
     (case s of
        c # r \<Rightarrow> if c = CHR ''.'' then prepend ''.'' (scan_digits r) else Some ([], s)
      | [] \<Rightarrow> Some ([], s))"

definition scan_exp :: "string \<Rightarrow> (string \<times> string) option" where
  "scan_exp s =
     (case s of
        c # r \<Rightarrow>
          if c = CHR ''e'' \<or> c = CHR ''E'' then
            (case r of
               d # r' \<Rightarrow> if d = CHR ''+'' \<or> d = CHR ''-'' then prepend [c, d] (scan_digits r') else prepend [c] (scan_digits r)
             | [] \<Rightarrow> None)
          else Some ([], s)
      | [] \<Rightarrow> Some ([], s))"

definition parse_number :: "string \<Rightarrow> (string \<times> string) option" where
  "parse_number s =
     (let (sg, r) = (if has_prefix ''-'' s then (''-'', drop 1 s) else ([], s)) in
      case scan_int r of
        None \<Rightarrow> None
      | Some (i, r1) \<Rightarrow>
          (case scan_frac r1 of
             None \<Rightarrow> None
           | Some (f, r2) \<Rightarrow> prepend (sg @ i @ f) (scan_exp r2)))"

text \<open>The scanner. \<open>n\<close> bounds the recursion and \<open>d\<close> is the nesting still allowed; twice
the length of the text is enough for \<open>n\<close>, as shown below.\<close>

definition maxNestingDepth :: nat where "maxNestingDepth = 10000"

fun parse_value :: "nat \<Rightarrow> nat \<Rightarrow> string \<Rightarrow> (json \<times> string) option"
  and parse_elems :: "nat \<Rightarrow> nat \<Rightarrow> string \<Rightarrow> (json list \<times> string) option"
  and parse_members :: "nat \<Rightarrow> nat \<Rightarrow> string \<Rightarrow> ((string \<times> json) list \<times> string) option" where
  "parse_value 0 d s = None"
| "parse_value (Suc n) d s =
     (case skip_ws s of
        [] \<Rightarrow> None
      | c # r \<Rightarrow>
          if c = DQ then map_option (\<lambda>(t, r'). (JStr t, r')) (parse_str r)
          else if c = CHR ''{'' then
            (if d = 0 then None
             else if has_prefix ''}'' (skip_ws r) then Some (JObj [], drop 1 (skip_ws r))
             else map_option (\<lambda>(ms, r'). (JObj ms, r')) (parse_members n (d - 1) r))
          else if c = CHR ''['' then
            (if d = 0 then None
             else if has_prefix '']'' (skip_ws r) then Some (JArr [], drop 1 (skip_ws r))
             else map_option (\<lambda>(xs, r'). (JArr xs, r')) (parse_elems n (d - 1) r))
          else if has_prefix ''true'' (c # r) then Some (JBool True, drop 3 r)
          else if has_prefix ''false'' (c # r) then Some (JBool False, drop 4 r)
          else if has_prefix ''null'' (c # r) then Some (JNull, drop 3 r)
          else map_option (\<lambda>(t, r'). (JNum t, r')) (parse_number (c # r)))"
| "parse_elems 0 d s = None"
| "parse_elems (Suc n) d s =
     (case parse_value n d s of
        None \<Rightarrow> None
      | Some (v, r) \<Rightarrow>
          (case skip_ws r of
             [] \<Rightarrow> None
           | c # r' \<Rightarrow>
               if c = CHR '']'' then Some ([v], r')
               else if c = CHR '','' then prepend [v] (parse_elems n d r')
               else None))"
| "parse_members 0 d s = None"
| "parse_members (Suc n) d s =
     (case skip_ws s of
        [] \<Rightarrow> None
      | q # r \<Rightarrow>
          if q \<noteq> DQ then None
          else
            (case parse_str r of
               None \<Rightarrow> None
             | Some (k, r1) \<Rightarrow>
                 (case skip_ws r1 of
                    [] \<Rightarrow> None
                  | c # r2 \<Rightarrow>
                      if c \<noteq> CHR '':'' then None
                      else
                        (case parse_value n d r2 of
                           None \<Rightarrow> None
                         | Some (v, r3) \<Rightarrow>
                             (case skip_ws r3 of
                                [] \<Rightarrow> None
                              | e # r4 \<Rightarrow>
                                  if e = CHR ''}'' then Some ([(k, v)], r4)
                                  else if e = CHR '','' then prepend [(k, v)] (parse_members n d r4)
                                  else None)))))"

declare to_valid.simps [simp del] escape.simps [simp del] parse_str.simps [simp del]
  parse_value.simps [simp del] parse_elems.simps [simp del] parse_members.simps [simp del]

section \<open>A written string reads back\<close>

lemma prepend_simps [simp]: "prepend p None = None" "prepend p (Some (t, r)) = Some (p @ t, r)"
  by (simp_all add: prepend_def)

lemma unicode_escape_read:
  assumes "u < 65536" and "\<not> is_surrogate u"
  shows "parse_str (unicode_escape u @ s) = prepend (utf8_encode u) (parse_str s)"
proof -
  have "hex4 (drop 2 (unicode_escape u) @ s) = Some (u div 4096 mod 16 * 4096 + u div 256 mod 16 * 256 + u div 16 mod 16 * 16 + u mod 16)"
    by (simp add: hex4_def unicode_escape_def)
  also have "u div 4096 mod 16 * 4096 + u div 256 mod 16 * 256 + u div 16 mod 16 * 16 + u mod 16 = u"
    using mod_mult2_eq [of u 16 16] mod_mult2_eq [of u 256 16] mod_mult2_eq [of u 4096 16] assms(1) by simp
  finally have h: "hex4 (digit_char (u div 4096 mod 16) # digit_char (u div 256 mod 16) # digit_char (u div 16 mod 16)
      # digit_char (u mod 16) # s) = Some u" by (simp add: unicode_escape_def)
  have "surrogate_pair u x = None" for x using assms(2) by (auto simp: surrogate_pair_def is_surrogate_def)
  with h show ?thesis using assms(2) by (simp add: parse_str.simps(2) [of BS] unicode_escape_def)
qed

lemma escape_char_read:
  assumes "code_of c < 128"
  shows "parse_str (escape_char html c @ s) = prepend [c] (parse_str s)"
proof -
  have u: "utf8_encode (code_of c) = [c]" using assms by (simp add: utf8_encode_def code_of_def)
  have e: "parse_str (unicode_escape (code_of c) @ s) = prepend [c] (parse_str s)"
    using unicode_escape_read [of "code_of c" s] assms u by (simp add: is_surrogate_def)
  show ?thesis
  proof (cases "c \<in> {DQ, BS, CHR 0x08, CHR 0x0C, CHR 0x0A, CHR 0x0D, CHR 0x09}")
    case True
    then show ?thesis by (auto simp: escape_char_def parse_str.simps(2) [of BS] unescape_char_def)
  next
    case False
    then show ?thesis using e assms by (auto simp: escape_char_def parse_str.simps(2) [of c])
  qed
qed

lemma line_separator_bytes: "utf8_encode 8232 = [CHR 0xE2, CHR 0x80, CHR 0xA8]" "utf8_encode 8233 = [CHR 0xE2, CHR 0x80, CHR 0xA9]"
    "utf8_encode 65533 = replacement"
  by (simp_all add: utf8_encode_def replacement_def code_of_inject [symmetric]) (simp_all add: code_of_def)

lemma rune_read:
  assumes "rune_len s \<noteq> 0" and "rune_len s \<noteq> 1"
  shows "parse_str (take (rune_len s) s @ t) = prepend (take (rune_len s) s) (parse_str t)"
proof -
  obtain a r where s: "s = a # r" using assms(1) by (auto simp: rune_len_def split: list.splits)
  have hi: "128 \<le> code_of a" using assms(2) rune_len_1 [of a r] s by simp
  then have "a \<noteq> DQ" "a \<noteq> BS" "\<not> code_of a < 32" by (auto simp: code_of_def)
  moreover obtain k where k: "rune_len s = Suc k" using assms(1) by (cases "rune_len s") auto
  moreover have "rune_len (a # take k r @ t) = Suc k" using rune_len_take [OF assms(1), of t] s k by simp
  moreover have "k \<le> length r" using rune_len_le [of s] s k by simp
  ultimately show ?thesis by (simp add: s parse_str.simps(2) [of a])
qed

lemma parse_escape: "parse_str (escape html s @ DQ # rest) = Some (to_valid s, rest)"
proof (induction html s rule: escape.induct)
  case (1 html)
  then show ?case by (simp add: escape.simps to_valid.simps parse_str.simps)
next
  case (2 html a r)
  let ?n = "rune_len (a # r)" and ?s = "a # r"
  let ?rest = "escape html (drop (?n - 1) r) @ DQ # rest"
  consider "?n = 0" | "?n = 1" | "?n \<noteq> 0" "?n \<noteq> 1" by blast
  then show ?case
  proof cases
    case 1
    then show ?thesis using 2 unicode_escape_read [of 65533 "escape html r @ DQ # rest"]
      by (simp add: escape.simps(2) [of html a r] to_valid.simps(2) [of a] is_surrogate_def line_separator_bytes)
  next
    case 2
    then have "code_of a < 128" using rune_len_1 [of a r] by simp
    then show ?thesis using "2.IH"(2) escape_char_read [of a html "escape html r @ DQ # rest"]
      by (simp add: escape.simps(2) [of html a r] to_valid.simps(2) [of a])
  next
    case 3
    have "parse_str ((if take ?n ?s = utf8_encode 8232 then unicode_escape 8232
         else if take ?n ?s = utf8_encode 8233 then unicode_escape 8233 else take ?n ?s) @ ?rest)
       = prepend (take ?n ?s) (parse_str ?rest)"
      using unicode_escape_read [of 8232 ?rest] unicode_escape_read [of 8233 ?rest] rune_read [of ?s ?rest] 3
      by (simp add: is_surrogate_def)
    then show ?thesis using 3 "2.IH"(3)
      by (simp add: escape.simps(2) [of html a r] to_valid.simps(2) [of a] Let_def)
  qed
qed

section \<open>A written value reads back\<close>

fun json_ok :: "json \<Rightarrow> bool" where
  "json_ok (JNum t) \<longleftrightarrow> (\<exists>i. t = show_int i)"
| "json_ok (JStr s) \<longleftrightarrow> to_valid s = s"
| "json_ok (JArr xs) \<longleftrightarrow> (\<forall>x \<in> set xs. json_ok x)"
| "json_ok (JObj ms) \<longleftrightarrow> distinct (map fst ms) \<and> (\<forall>(k, v) \<in> set ms. to_valid k = k \<and> json_ok v)"
| "json_ok _ \<longleftrightarrow> True"

fun json_depth :: "json \<Rightarrow> nat" where
  "json_depth (JArr xs) = Suc (fold max (map json_depth xs) 0)"
| "json_depth (JObj ms) = Suc (fold max (map (\<lambda>(k, v). json_depth v) ms) 0)"
| "json_depth _ = 0"

lemma fold_max: "fold max xs a \<le> d \<longleftrightarrow> a \<le> d \<and> (\<forall>x \<in> set xs. x \<le> d)" for d :: nat
  by (induction xs arbitrary: a) auto

text \<open>What may follow a number.\<close>

definition stops :: "string \<Rightarrow> bool" where
  "stops s \<longleftrightarrow> (case s of [] \<Rightarrow> True | c # _ \<Rightarrow> \<not> is_digit c \<and> c \<notin> {CHR ''.'', CHR ''e'', CHR ''E''})"

lemma stops_simps [simp]: "stops []" "stops (CHR '','' # s)" "stops (CHR '']'' # s)" "stops (CHR ''}'' # s)" "stops (NL # s)"
  by (simp_all add: stops_def is_digit_def code_of_def)

lemma show_nat_head: "n \<noteq> 0 \<Longrightarrow> hd (show_nat n) \<noteq> CHR ''0''"
proof -
  have "n \<noteq> 0 \<longrightarrow> hd (show_base 10 n) \<noteq> CHR ''0''"
  proof (induction n rule: less_induct)
    case (less n)
    show ?case
    proof (cases "n < 10")
      case True
      then have "code_of (digit_char n) = 48 + n" by (simp add: digit_char_def)
      then show ?thesis using True by (auto simp: show_base.simps [of 10 n] code_of_def)
    next
      case False
      then have "n div 10 < n" "n div 10 \<noteq> 0" by auto
      with less show ?thesis using False by (simp add: show_base.simps [of 10 n])
    qed
  qed
  then show "n \<noteq> 0 \<Longrightarrow> hd (show_nat n) \<noteq> CHR ''0''" by (simp add: show_nat_def)
qed

lemma digits_scan:
  assumes "stops rest"
  shows "takeWhile is_digit (show_nat n @ rest) = show_nat n" "dropWhile is_digit (show_nat n @ rest) = rest"
proof -
  have "\<forall>c \<in> set (show_nat n). is_digit c" using show_nat_chars by (auto simp: is_digit_def)
  moreover have "takeWhile is_digit rest = []" "dropWhile is_digit rest = rest"
    using assms by (cases rest; simp add: stops_def)+
  ultimately show "takeWhile is_digit (show_nat n @ rest) = show_nat n" "dropWhile is_digit (show_nat n @ rest) = rest"
    by simp_all
qed

lemma scan_int_show_nat: "stops rest \<Longrightarrow> scan_int (show_nat n @ rest) = Some (show_nat n, rest)"
proof (cases "n = 0")
  case True
  have "show_nat 0 = ''0''" by (simp add: show_nat_def show_base.simps digit_char_def code_of_inject [symmetric])
      (simp add: code_of_def)
  with True show ?thesis by (simp add: scan_int_def)
next
  case False
  obtain c r where c: "show_nat n = c # r" by (metis show_nat_not_Nil neq_Nil_conv)
  assume "stops rest"
  from digits_scan [OF this, of n] show_nat_head [OF False] c show ?thesis
    by (simp add: scan_int_def scan_digits_def)
qed

lemma stops_frac: "stops rest \<Longrightarrow> scan_frac rest = Some ([], rest) \<and> scan_exp rest = Some ([], rest)"
  by (cases rest) (auto simp: stops_def scan_frac_def scan_exp_def)

lemma parse_number_show_int:
  assumes "stops rest"
  shows "parse_number (show_int i @ rest) = Some (show_int i, rest)"
proof -
  obtain c r where c: "show_nat (nat i) = c # r" by (metis show_nat_not_Nil neq_Nil_conv)
  then have "c \<noteq> CHR ''-''" using show_nat_no [of "CHR ''-''" "nat i"] by auto
  with c have "\<not> has_prefix ''-'' (show_nat (nat i) @ rest)" by (simp add: has_prefix_def)
  moreover have "has_prefix ''-'' (CHR ''-'' # s)" for s by (simp add: has_prefix_def)
  ultimately show ?thesis using assms
    by (simp add: parse_number_def show_int_def scan_int_show_nat stops_frac)
qed

lemma skip_ws_simps [simp]: "\<not> is_json_space c \<Longrightarrow> skip_ws (c # s) = c # s" "skip_ws [] = []"
  by (simp_all add: skip_ws_def)

lemma not_json_space [simp]: "\<not> is_json_space DQ" "\<not> is_json_space CHR ''{''" "\<not> is_json_space CHR ''[''" "\<not> is_json_space CHR '']''"
    "\<not> is_json_space CHR ''}''" "\<not> is_json_space CHR '',''" "\<not> is_json_space CHR '':''"
  by (simp_all add: is_json_space_def)

text \<open>A value starts with a character that no white space, bracket or separator is.\<close>

definition starts_value :: "char \<Rightarrow> bool" where
  "starts_value c \<longleftrightarrow> c \<in> {DQ, CHR ''{'', CHR ''['', CHR ''t'', CHR ''f'', CHR ''n'', CHR ''-''} \<or> is_digit c"

lemma starts_value_plain: "starts_value c \<Longrightarrow> \<not> is_json_space c \<and> c \<noteq> CHR '']'' \<and> c \<noteq> CHR ''}''"
  by (auto simp: starts_value_def is_json_space_def is_digit_def code_of_def)

lemma show_int_starts: "\<exists>c r. show_int i = c # r \<and> (c = CHR ''-'' \<or> is_digit c)"
proof -
  obtain c r where c: "show_int i = c # r"
    by (cases "show_int i") (auto simp: show_int_def split: if_splits)
  then show ?thesis using show_int_chars [of c i] by (auto simp: is_digit_def)
qed

lemma encode_starts: "json_ok j \<Longrightarrow> \<exists>c r. encode_json html j = c # r \<and> starts_value c"
  using show_int_starts by (cases j) (fastforce simp: starts_value_def json_string_def)+

lemma parse_number_value:
  assumes "stops rest"
  shows "parse_value (Suc n) d (show_int i @ rest) = Some (JNum (show_int i), rest)"
proof -
  obtain c r where c: "show_int i = c # r" "c = CHR ''-'' \<or> is_digit c" using show_int_starts by blast
  then have "starts_value c" by (auto simp: starts_value_def)
  with c have "\<not> is_json_space c" "c \<noteq> DQ" "c \<noteq> CHR ''{''" "c \<noteq> CHR ''[''" "c \<noteq> CHR ''t''" "c \<noteq> CHR ''f''" "c \<noteq> CHR ''n''"
    by (auto simp: is_json_space_def is_digit_def code_of_def)
  then show ?thesis using parse_number_show_int [OF assms, of i] c(1)
    by (simp add: parse_value.simps has_prefix_def)
qed

lemma parse_elems_encode:
  assumes "xs \<noteq> []"
    and "\<And>x m rest. x \<in> set xs \<Longrightarrow> length (encode_json html x) \<le> m \<Longrightarrow> stops rest \<Longrightarrow>
       parse_value m d (encode_json html x @ rest) = Some (x, rest)"
    and "length (join '','' (map (encode_json html) xs)) < n"
  shows "parse_elems n d (join '','' (map (encode_json html) xs) @ CHR '']'' # rest) = Some (xs, rest)"
  using assms
proof (induction xs arbitrary: n)
  case (Cons x xs)
  then obtain m where m: "n = Suc m" by (cases n) auto
  show ?case
  proof (cases "xs = []")
    case True
    with Cons.prems(2) [of x m "CHR '']'' # rest"] Cons.prems(3) m show ?thesis by (simp add: parse_elems.simps)
  next
    case False
    let ?tl = "join '','' (map (encode_json html) xs) @ CHR '']'' # rest"
    have l: "length (encode_json html x) \<le> m" "length (join '','' (map (encode_json html) xs)) < m"
      using Cons.prems(3) m False by (simp_all add: join_Cons)
    have "parse_value m d (encode_json html x @ CHR '','' # ?tl) = Some (x, CHR '','' # ?tl)"
      using Cons.prems(2) l(1) by simp
    moreover have "parse_elems m d ?tl = Some (xs, rest)" by (rule Cons.IH [OF False Cons.prems(2) l(2)]) auto
    ultimately show ?thesis using False m by (simp add: join_Cons parse_elems.simps)
  qed
qed simp

lemma parse_members_encode:
  assumes "ms \<noteq> []"
    and "\<And>k v m rest. (k, v) \<in> set ms \<Longrightarrow> length (encode_json html v) \<le> m \<Longrightarrow> stops rest \<Longrightarrow>
       to_valid k = k \<and> parse_value m d (encode_json html v @ rest) = Some (v, rest)"
    and "length (join '','' (map (\<lambda>(k, v). json_string html k @ '':'' @ encode_json html v) ms)) < n"
  shows "parse_members n d (join '','' (map (\<lambda>(k, v). json_string html k @ '':'' @ encode_json html v) ms) @ CHR ''}'' # rest)
    = Some (ms, rest)"
  using assms
proof (induction ms arbitrary: n)
  case (Cons kv ms)
  then obtain m where m: "n = Suc m" by (cases n) auto
  obtain k v where kv: "kv = (k, v)" by force
  have k: "to_valid k = k" using Cons.prems(2) [of k v "length (encode_json html v)" "[]"] kv by simp
  show ?case
  proof (cases "ms = []")
    case True
    with Cons.prems(2) [of k v m "CHR ''}'' # rest"] Cons.prems(3) m kv k show ?thesis
      by (simp add: parse_members.simps json_string_def parse_escape)
  next
    case False
    let ?tl = "join '','' (map (\<lambda>(k, v). json_string html k @ '':'' @ encode_json html v) ms) @ CHR ''}'' # rest"
    have l: "length (encode_json html v) \<le> m"
      "length (join '','' (map (\<lambda>(k, v). json_string html k @ '':'' @ encode_json html v) ms)) < m"
      using Cons.prems(3) m False kv by (simp_all add: join_Cons json_string_def)
    have "parse_value m d (encode_json html v @ CHR '','' # ?tl) = Some (v, CHR '','' # ?tl)"
      using Cons.prems(2) [of k v m] l(1) kv by simp
    moreover have "parse_members m d ?tl = Some (ms, rest)"
      by (rule Cons.IH [OF False Cons.prems(2) l(2)]) auto
    ultimately show ?thesis using False m kv k by (simp add: join_Cons parse_members.simps json_string_def parse_escape)
  qed
qed simp

lemma parse_encode:
  assumes "json_ok j" and "json_depth j \<le> d" and "length (encode_json html j) \<le> n" and "stops rest"
  shows "parse_value n d (encode_json html j @ rest) = Some (j, rest)"
  using assms
proof (induction j arbitrary: n d rest)
  case JNull
  then obtain m where "n = Suc m" by (cases n) auto
  then show ?case by (simp add: parse_value.simps has_prefix_def is_json_space_def)
next
  case (JBool b)
  then obtain m where "n = Suc m" by (cases n) (auto split: if_splits)
  then show ?case by (simp add: parse_value.simps has_prefix_def is_json_space_def)
next
  case (JNum t)
  then obtain i where i: "t = show_int i" by auto
  obtain c r where "show_int i = c # r" using show_int_starts by blast
  with JNum i obtain m where "n = Suc m" by (cases n) auto
  with i show ?case using parse_number_value [OF JNum.prems(4)] by simp
next
  case (JStr s)
  then obtain m where "n = Suc m" by (cases n) (auto simp: json_string_def)
  with JStr show ?case by (simp add: parse_value.simps json_string_def parse_escape)
next
  case (JArr xs)
  then obtain m where m: "n = Suc m" by (cases n) auto
  from JArr.prems(2) obtain e where e: "d = Suc e" by (cases d) auto
  show ?case
  proof (cases "xs = []")
    case True
    with m e show ?thesis by (simp add: parse_value.simps has_prefix_def)
  next
    case False
    let ?b = "join '','' (map (encode_json html) xs) @ CHR '']'' # rest"
    obtain x ys where xs: "xs = x # ys" using False by (cases xs) auto
    obtain c r where "encode_json html x = c # r" "starts_value c" using encode_starts [of x html] JArr.prems(1) xs by auto
    then obtain r where "join '','' (map (encode_json html) xs) = c # r" using xs by (cases ys) auto
    note j = this \<open>starts_value c\<close>
    then have h: "\<not> has_prefix '']'' (skip_ws ?b)" using starts_value_plain [OF j(2)] j(1) by (simp add: has_prefix_def)
    have "parse_elems m e ?b = Some (xs, rest)"
    proof (rule parse_elems_encode [OF False])
      show "length (join '','' (map (encode_json html) xs)) < m" using JArr.prems(3) m by simp
    qed (use JArr e in \<open>auto simp: fold_max\<close>)
    with h m e show ?thesis by (simp add: parse_value.simps)
  qed
next
  case (JObj ms)
  then obtain m where m: "n = Suc m" by (cases n) auto
  from JObj.prems(2) obtain e where e: "d = Suc e" by (cases d) auto
  show ?case
  proof (cases "ms = []")
    case True
    with m e show ?thesis by (simp add: parse_value.simps has_prefix_def)
  next
    case False
    let ?j = "join '','' (map (\<lambda>(k, v). json_string html k @ '':'' @ encode_json html v) ms)"
    obtain r where "?j = DQ # r"
      using False by (cases ms; cases "tl ms") (auto simp: join_Cons json_string_def)
    then have h: "\<not> has_prefix ''}'' (skip_ws (?j @ CHR ''}'' # rest))" by (simp add: has_prefix_def)
    have "parse_members m e (?j @ CHR ''}'' # rest) = Some (ms, rest)"
    proof (rule parse_members_encode [OF False])
      show "length ?j < m" using JObj.prems(3) m by simp
    qed (use JObj e in \<open>fastforce simp: fold_max\<close>)
    with h m e show ?thesis by (simp add: parse_value.simps)
  qed
qed

section \<open>A written text has no control characters\<close>

definition printable :: "string \<Rightarrow> bool" where
  "printable s \<longleftrightarrow> (\<forall>c \<in> set s. 32 \<le> code_of c)"

lemma printable_simps [simp]: "printable []" "printable (a @ b) \<longleftrightarrow> printable a \<and> printable b"
    "printable (c # s) \<longleftrightarrow> 32 \<le> code_of c \<and> printable s"
  by (auto simp: printable_def)

lemma printable_digit_char: "d < 16 \<Longrightarrow> 32 \<le> code_of (digit_char d)"
  by (auto simp: digit_char_def)

lemma printable_unicode_escape: "printable (unicode_escape u)"
  by (simp add: unicode_escape_def printable_digit_char) (simp add: code_of_def)

lemma printable_rune: "rune_len s \<noteq> 0 \<Longrightarrow> rune_len s \<noteq> 1 \<Longrightarrow> printable (take (rune_len s) s)"
  by (erule rune_len_cases) (simp_all add: rune_len_eqs second_byte_def continues_def split: if_splits)

lemma printable_codes: "32 \<le> code_of DQ" "32 \<le> code_of BS" "32 \<le> code_of CHR ''b''" "32 \<le> code_of CHR ''f''"
    "32 \<le> code_of CHR ''n''" "32 \<le> code_of CHR ''r''" "32 \<le> code_of CHR ''t''"
  by (simp_all add: code_of_def)

lemma printable_escape_char: "printable (escape_char html c)"
  by (simp add: escape_char_def printable_unicode_escape printable_codes)

lemma printable_escape: "printable (escape html s)"
proof (induction html s rule: escape.induct)
  case (2 html a r)
  then show ?case
    using printable_unicode_escape printable_escape_char [of html a] printable_rune [of "a # r"]
    by (auto simp: escape.simps(2) [of html a r] Let_def)
qed (simp add: escape.simps)

lemma printable_join: "(\<And>x. x \<in> set xs \<Longrightarrow> printable x) \<Longrightarrow> printable (join '','' xs)"
  by (induction "'',''" xs rule: join.induct) (auto simp: code_of_def)

lemma printable_encode: "json_ok j \<Longrightarrow> printable (encode_json html j)"
proof (induction j)
  case (JNum t)
  then obtain i where "t = show_int i" by auto
  with show_int_chars [of _ i] show ?case by (fastforce simp: printable_def)
next
  case (JArr xs)
  then have "printable (join '','' (map (encode_json html) xs))" by (intro printable_join) auto
  then show ?case by (simp add: code_of_def)
next
  case (JObj ms)
  then have "printable (join '','' (map (\<lambda>(k, v). json_string html k @ '':'' @ encode_json html v) ms))"
    by (intro printable_join) (fastforce simp: json_string_def printable_escape code_of_def)
  then show ?case by (simp add: code_of_def)
qed (auto simp: json_string_def printable_escape code_of_def)

section \<open>Twice the length of the text is fuel enough\<close>

lemma prepend_Some: "prepend p x = Some (t, r) \<longleftrightarrow> (\<exists>t'. x = Some (t', r) \<and> t = p @ t')"
  by (cases x) auto

lemma parse_str_step:
  assumes "parse_str (c # s) = Some (t, r)"
  shows "c = DQ \<and> r = s \<or> (\<exists>k t'. parse_str (drop k s) = Some (t', r))"
proof -
  have tail: "\<exists>k t'. parse_str (drop k s) = Some (t', r)" if "prepend p (parse_str (drop k s)) = Some (t, r)" for p k
    using that by (auto simp: prepend_Some)
  consider "c = DQ" | "c = BS" | "c \<noteq> DQ" "c \<noteq> BS" by blast
  then show ?thesis
  proof cases
    case 2
    with assms obtain e q where s: "s = e # q" by (cases s) (auto simp: parse_str.simps(2) [of BS])
    show ?thesis
    proof (cases "e = CHR ''u''")
      case True
      with assms 2 s obtain u where u: "hex4 q = Some u" by (cases "hex4 q") (auto simp: parse_str.simps(2) [of BS])
      show ?thesis
      proof (cases "surrogate_pair u (drop 4 q)")
        case None
        then show ?thesis using assms 2 s True u tail [of "if is_surrogate u then replacement else utf8_encode u" 5]
          by (simp add: parse_str.simps(2) [of BS])
      next
        case (Some p)
        then show ?thesis using assms 2 s True u tail [of "utf8_encode p" 11] by (simp add: parse_str.simps(2) [of BS])
      qed
    next
      case False
      with assms 2 s obtain x where "unescape_char e = Some x"
        by (cases "unescape_char e") (auto simp: parse_str.simps(2) [of BS])
      then show ?thesis using assms 2 s False tail [of "[x]" 1] by (simp add: parse_str.simps(2) [of BS])
    qed
  next
    case 3
    then show ?thesis using assms tail [of replacement 0] tail [of "take (rune_len (c # s)) (c # s)" "rune_len (c # s) - 1"]
      by (simp add: parse_str.simps(2) [of c] split: if_splits)
  qed (use assms in \<open>simp add: parse_str.simps(2)\<close>)
qed

lemma parse_str_shorter: "parse_str s = Some (t, r) \<Longrightarrow> length r < length s"
proof (induction "length s" arbitrary: s t r rule: less_induct)
  case less
  then obtain c s' where s: "s = c # s'" by (cases s) (auto simp: parse_str.simps)
  from parse_str_step [of c s' t r] less.prems s
  consider "r = s'" | (k) k t' where "parse_str (drop k s') = Some (t', r)" by blast
  then show ?case
  proof cases
    case k
    have "length (drop k s') < length s" using s by simp
    from less.hyps [OF this k] this show ?thesis by linarith
  qed (use s in simp)
qed

lemma prepend_shorter: "prepend p x = Some (t, r) \<Longrightarrow> (\<And>t' r. x = Some (t', r) \<Longrightarrow> length r < n) \<Longrightarrow> length r < n"
  by (auto simp: prepend_Some)

lemma length_skip_ws: "length (skip_ws s) \<le> length s"
  by (simp add: skip_ws_def length_dropWhile_le)

lemma skip_ws_shorter: "skip_ws s = c # r \<Longrightarrow> length r < length s"
  using length_skip_ws [of s] by simp

lemma scan_digits_shorter: "scan_digits s = Some (t, r) \<Longrightarrow> length r < length s"
proof -
  assume a: "scan_digits s = Some (t, r)"
  then have "t \<noteq> []" "s = t @ r" by (auto simp: scan_digits_def split: if_splits)
  then show "length r < length s" by simp
qed

lemma parse_number_shorter: "parse_number s = Some (t, r) \<Longrightarrow> length r < length s"
proof -
  assume a: "parse_number s = Some (t, r)"
  define u where "u = (if has_prefix ''-'' s then drop 1 s else s)"
  from a obtain i r1 f r2 where i: "scan_int u = Some (i, r1)" and f: "scan_frac r1 = Some (f, r2)"
    and e: "\<exists>p t'. prepend p (scan_exp r2) = Some (t', r)"
    by (auto simp: parse_number_def u_def split: if_splits option.splits prod.splits)
  have "length r1 < length u"
    using i scan_digits_shorter [of u i r1] by (auto simp: scan_int_def split: list.splits if_splits)
  moreover have "length r2 \<le> length r1"
    using f by (auto simp: scan_frac_def prepend_Some split: list.splits if_splits dest!: scan_digits_shorter)
  moreover have "length r \<le> length r2"
    using e by (auto simp: scan_exp_def prepend_Some split: list.splits if_splits dest!: scan_digits_shorter)
  moreover have "length u \<le> length s" by (simp add: u_def)
  ultimately show "length r < length s" by linarith
qed

lemma parse_shorter:
  "parse_value n d s = Some (v, r) \<Longrightarrow> length r < length s"
  "parse_elems n d s = Some (vs, r) \<Longrightarrow> length r < length s"
  "parse_members n d s = Some (ms, r) \<Longrightarrow> length r < length s"
proof (induction n arbitrary: d s v vs ms r)
  case (Suc n)
  { case 1
    then obtain c t where c: "skip_ws s = c # t" by (cases "skip_ws s") (auto simp: parse_value.simps)
    have l: "length t < length s" by (rule skip_ws_shorter [OF c])
    have w: "length (skip_ws t) \<le> length t" by (rule length_skip_ws)
    from 1 c consider (str) u where "parse_str t = Some (u, r)"
      | (drop) k where "r = drop k t" | (drop1) "r = drop 1 (skip_ws t)"
      | (mem) ms where "parse_members n (d - 1) t = Some (ms, r)" | (el) xs where "parse_elems n (d - 1) t = Some (xs, r)"
      | (num) u where "parse_number (c # t) = Some (u, r)"
      by (auto simp: parse_value.simps split: if_splits)
    then show ?case
    proof cases
      case str
      with parse_str_shorter l show ?thesis by fastforce
    next
      case mem
      with Suc.IH(3) l show ?thesis by fastforce
    next
      case el
      with Suc.IH(2) l show ?thesis by fastforce
    next
      case num
      from parse_number_shorter [OF this] l show ?thesis by simp
    qed (use l w in auto)
  next
    case 2
    then obtain x r1 c t where v: "parse_value n d s = Some (x, r1)" and c: "skip_ws r1 = c # t"
      by (auto simp: parse_elems.simps split: option.splits list.splits)
    from 2 v c consider "r = t" | xs where "parse_elems n d t = Some (xs, r)"
      by (auto simp: parse_elems.simps prepend_Some split: if_splits)
    then show ?case using Suc.IH(1) [OF v] skip_ws_shorter [OF c] Suc.IH(2) [of d t _ r] by cases fastforce+
  next
    case 3
    then obtain q s1 k s2 c s3 x s4 e s5 where
      ch: "skip_ws s = q # s1" "parse_str s1 = Some (k, s2)" "skip_ws s2 = c # s3" "parse_value n d s3 = Some (x, s4)"
        "skip_ws s4 = e # s5"
      by (auto simp: parse_members.simps split: option.splits list.splits if_splits)
    have "length s5 < length s"
      using skip_ws_shorter [OF ch(1)] parse_str_shorter [OF ch(2)] skip_ws_shorter [OF ch(3)] Suc.IH(1) [OF ch(4)]
        skip_ws_shorter [OF ch(5)] by linarith
    moreover from 3 ch consider "r = s5" | xs where "parse_members n d s5 = Some (xs, r)"
      by (auto simp: parse_members.simps prepend_Some split: if_splits)
    ultimately show ?case using Suc.IH(3) [of d s5 _ r] by cases fastforce+ }
qed (simp_all add: parse_value.simps parse_elems.simps parse_members.simps)

text \<open>More fuel than twice the length of the text changes nothing.\<close>

lemma parse_one_more:
  "2 * length s < n \<Longrightarrow> parse_value (Suc n) d s = parse_value n d s"
  "2 * length s + 1 < n \<Longrightarrow> parse_elems (Suc n) d s = parse_elems n d s"
  "2 * length s < n \<Longrightarrow> parse_members (Suc n) d s = parse_members n d s"
proof (induction n arbitrary: d s)
  case (Suc n)
  { case 1
    show ?case
    proof (cases "skip_ws s")
      case (Cons c t)
      then have "2 * length t + 1 < n" using skip_ws_shorter [OF Cons] 1 by simp
      then show ?thesis using Cons Suc.IH(2,3) [of t] by (simp add: parse_value.simps(2))
    qed (simp add: parse_value.simps)
  next
    case 2
    then have v: "parse_value (Suc n) d s = parse_value n d s" by (intro Suc.IH(1)) simp
    have e: "parse_elems (Suc n) d t = parse_elems n d t"
      if "parse_value n d s = Some (x, r)" "skip_ws r = c # t" for x r c t
      using parse_shorter(1) [OF that(1)] skip_ws_shorter [OF that(2)] 2 by (intro Suc.IH(2)) simp
    show ?case
      unfolding parse_elems.simps(2) [of "Suc n" d s] parse_elems.simps(2) [of n d s] v
      by (auto simp: e split: option.split list.split)
  next
    case 3
    have v: "parse_value (Suc n) d s3 = parse_value n d s3 \<and>
        (\<forall>x s4 e s5. parse_value n d s3 = Some (x, s4) \<longrightarrow> skip_ws s4 = e # s5 \<longrightarrow>
           parse_members (Suc n) d s5 = parse_members n d s5)"
      if "skip_ws s = q # s1" "parse_str s1 = Some (k, s2)" "skip_ws s2 = c # s3" for q s1 k s2 c s3
    proof -
      have l: "2 * length s3 < n"
        using skip_ws_shorter [OF that(1)] parse_str_shorter [OF that(2)] skip_ws_shorter [OF that(3)] 3 by simp
      moreover have "length s5 < length s3" if "parse_value n d s3 = Some (x, s4)" "skip_ws s4 = e # s5" for x s4 e s5
        using parse_shorter(1) [OF that(1)] skip_ws_shorter [OF that(2)] by simp
      ultimately show ?thesis using Suc.IH(1,3) by (meson less_trans mult_less_mono2 zero_less_numeral)
    qed
    show ?case
      unfolding parse_members.simps(2) [of "Suc n" d s] parse_members.simps(2) [of n d s]
      using v by (auto split: option.split list.split)
  }
qed simp_all

lemma parse_fuel:
  assumes "2 * length s < n"
  shows "parse_value n d s = parse_value (Suc (2 * length s)) d s"
  using assms
proof (induction "n - Suc (2 * length s)" arbitrary: n)
  case (Suc k)
  then obtain m where m: "n = Suc m" "2 * length s < m" "k = m - Suc (2 * length s)" by (cases n) auto
  with Suc.hyps(1) [of m] parse_one_more(1) [of s m d] show ?case by simp
next
  case 0
  then have "n = Suc (2 * length s)" by simp
  then show ?case by simp
qed

section \<open>Reading looks no further than it must\<close>

text \<open>What follows a string, an object or an array has no influence on how it is read: a torn text is
not mistaken for a whole one.\<close>

lemma parse_str_quote: "parse_str s = Some (t, r) \<Longrightarrow> DQ \<in> set s"
proof (induction "length s" arbitrary: s t rule: less_induct)
  case less
  then obtain c s' where s: "s = c # s'" by (cases s) (auto simp: parse_str.simps)
  from parse_str_step [of c s' t r] less.prems s
  consider "c = DQ" | (k) k t' where "parse_str (drop k s') = Some (t', r)" by blast
  then show ?case
  proof cases
    case k
    have "length (drop k s') < length s" using s by simp
    from less.hyps [OF this k] show ?thesis using s in_set_dropD by fastforce
  qed (use s in simp)
qed

lemma quote_code: "code_of DQ = 34"
  by (simp add: code_of_def)

lemma rune_len_extend:
  assumes "DQ \<in> set s"
  shows "rune_len (a # s @ x) = rune_len (a # s)"
proof (cases "rune_len (a # s) = 0")
  case False
  let ?n = "rune_len (a # s)"
  have "rune_len (take ?n (a # s) @ drop ?n (a # s) @ x) = ?n" by (rule rune_len_take [OF False])
  then show ?thesis by (metis append_Cons append_assoc append_take_drop_id)
next
  case True
  have "rune_len (a # s @ x) = 0"
  proof (rule ccontr)
    assume "rune_len (a # s @ x) \<noteq> 0"
    then show False
    proof (cases rule: rune_len_cases)
      case (2 a' b r)
      then show False using assms True by (cases s) (auto simp: rune_len_eqs second_byte_def continues_def quote_code split: if_splits)
    next
      case (3 a' b c r)
      then show False using assms True
        by (cases s; cases "tl s") (auto simp: rune_len_eqs second_byte_def continues_def quote_code split: if_splits)
    next
      case (4 a' b c d r)
      then show False using assms True
        by (cases s; cases "tl s"; cases "tl (tl s)")
          (auto simp: rune_len_eqs second_byte_def continues_def quote_code split: if_splits)
    qed (use True in \<open>simp add: rune_len_eqs\<close>)
  qed
  with True show ?thesis by simp
qed

lemma hex_digit_quote: "hex_digit DQ = None"
  by (simp add: hex_digit_def digit_val_def quote_code)

lemma hex4_Some: "hex4 s = Some u \<Longrightarrow> 4 \<le> length s \<and> DQ \<notin> set (take 4 s) \<and> hex4 (s @ x) = Some u"
  by (auto simp: hex4_def hex_digit_quote split: list.splits option.splits)

lemma hex4_short: "4 \<le> length s \<Longrightarrow> hex4 (s @ x) = hex4 s"
  by (auto simp: hex4_def split: list.splits)

lemma surrogate_pair_extend:
  assumes "DQ \<in> set s"
  shows "surrogate_pair u (s @ x) = surrogate_pair u s"
proof (cases "\<exists>r. s = BS # CHR ''u'' # r")
  case True
  then obtain r where s: "s = BS # CHR ''u'' # r" by blast
  have "hex4 (r @ x) = hex4 r"
  proof (cases "4 \<le> length r")
    case False
    have "DQ \<in> set (take 4 (r @ x))" using False assms s by simp
    moreover have "hex4 r = None" using hex4_Some [of r] False by (cases "hex4 r") auto
    ultimately show ?thesis using hex4_Some [of "r @ x"] by (cases "hex4 (r @ x)") auto
  qed (rule hex4_short)
  then show ?thesis by (simp add: s surrogate_pair_def)
next
  case False
  then show ?thesis using assms
    by (cases s; cases "tl s") (auto simp: surrogate_pair_def split: list.splits)
qed

lemma surrogate_pair_length: "surrogate_pair u s = Some p \<Longrightarrow> 6 \<le> length s"
  by (auto simp: surrogate_pair_def split: if_splits list.splits option.splits dest!: hex4_Some)

lemma parse_str_extend: "parse_str s = Some (t, r) \<Longrightarrow> parse_str (s @ x) = Some (t, r @ x)"
proof (induction "length s" arbitrary: s t r rule: less_induct)
  case less
  then obtain c s' where s: "s = c # s'" by (cases s) (auto simp: parse_str.simps)
  have IH: "prepend p (parse_str (drop k s')) = Some (t, r) \<Longrightarrow> prepend p (parse_str (drop k s' @ x)) = Some (t, r @ x)" for p k
  proof -
    assume "prepend p (parse_str (drop k s')) = Some (t, r)"
    then obtain t' where "parse_str (drop k s') = Some (t', r)" "t = p @ t'" by (auto simp: prepend_Some)
    then show "prepend p (parse_str (drop k s' @ x)) = Some (t, r @ x)" using less.hyps [of "drop k s'" t' r] s by simp
  qed
  have q: "c \<noteq> DQ \<Longrightarrow> DQ \<in> set s'" using parse_str_quote [OF less.prems] s by auto
  consider "c = DQ" | "c = BS" | "c \<noteq> DQ" "c \<noteq> BS" by blast
  then show ?case
  proof cases
    case 1
    then show ?thesis using less.prems s by (simp add: parse_str.simps(2))
  next
    case 2
    with less.prems s obtain e y where y: "s' = e # y" by (cases s') (auto simp: parse_str.simps(2) [of BS])
    show ?thesis
    proof (cases "e = CHR ''u''")
      case True
      with less.prems 2 s y obtain u where u: "hex4 y = Some u" by (cases "hex4 y") (auto simp: parse_str.simps(2) [of BS])
      have len: "4 \<le> length y" and hx: "hex4 (y @ x) = Some u" using hex4_Some [OF u] by auto
      have "DQ \<in> set y" using q 2 y True by simp
      moreover have "set y = set (take 4 y) \<union> set (drop 4 y)" by (metis append_take_drop_id set_append)
      ultimately have "DQ \<in> set (drop 4 y)" using hex4_Some [OF u] by blast
      from surrogate_pair_extend [OF this, of u x] have sp: "surrogate_pair u (drop 4 (y @ x)) = surrogate_pair u (drop 4 y)"
        using len by simp
      show ?thesis
      proof (cases "surrogate_pair u (drop 4 y)")
        case None
        then show ?thesis using less.prems 2 s y True u hx sp len
            IH [of "if is_surrogate u then replacement else utf8_encode u" 5]
          by (simp add: parse_str.simps(2) [of BS])
      next
        case (Some p)
        then have "10 \<le> length y" using surrogate_pair_length [of u "drop 4 y" p] by simp
        then show ?thesis using less.prems 2 s y True u hx sp Some IH [of "utf8_encode p" 11]
          by (simp add: parse_str.simps(2) [of BS])
      qed
    next
      case False
      with less.prems 2 s y obtain z where "unescape_char e = Some z"
        by (cases "unescape_char e") (auto simp: parse_str.simps(2) [of BS])
      then show ?thesis using less.prems 2 s y False IH [of "[z]" 1] by (simp add: parse_str.simps(2) [of BS])
    qed
  next
    case 3
    let ?n = "rune_len (c # s')"
    have n: "rune_len (c # s' @ x) = ?n" using rune_len_extend [of s' c x] q 3 by simp
    have "?n \<noteq> 0 \<Longrightarrow> ?n - 1 \<le> length s' \<and> take ?n (c # s' @ x) = take ?n (c # s')"
      using rune_len_le [of "c # s'"] take_append [of ?n "c # s'" x] by auto
    then show ?thesis using less.prems s 3 n rune_len_le [of "c # s'"] IH [of replacement 0] IH [of "take ?n (c # s')" "?n - 1"]
      by (simp add: parse_str.simps(2) [of c] split: if_splits)
  qed
qed

lemma skip_ws_extend: "skip_ws s = c # r \<Longrightarrow> skip_ws (s @ x) = c # r @ x"
  by (induction s) (auto simp: skip_ws_def split: if_splits)

lemma digits_extend:
  assumes "dropWhile is_digit s \<noteq> []"
  shows "takeWhile is_digit (s @ x) = takeWhile is_digit s" "dropWhile is_digit (s @ x) = dropWhile is_digit s @ x"
  using assms by (induction s) auto

lemma scan_digits_extend: "scan_digits s = Some (t, r) \<Longrightarrow> r \<noteq> [] \<Longrightarrow> scan_digits (s @ x) = Some (t, r @ x)"
  by (auto simp: scan_digits_def digits_extend split: if_splits)

lemma scan_int_extend: "scan_int s = Some (t, r) \<Longrightarrow> r \<noteq> [] \<Longrightarrow> scan_int (s @ x) = Some (t, r @ x)"
  by (cases s) (auto simp: scan_int_def split: if_splits dest: scan_digits_extend [of _ _ _ x])

lemma scan_frac_extend: "scan_frac s = Some (t, r) \<Longrightarrow> r \<noteq> [] \<Longrightarrow> scan_frac (s @ x) = Some (t, r @ x)"
  by (cases s) (auto simp: scan_frac_def prepend_Some split: if_splits dest: scan_digits_extend [of _ _ _ x])

lemma scan_exp_extend: "scan_exp s = Some (t, r) \<Longrightarrow> r \<noteq> [] \<Longrightarrow> scan_exp (s @ x) = Some (t, r @ x)"
  by (auto simp: scan_exp_def prepend_Some split: if_splits list.splits
      dest: scan_digits_extend [of _ _ _ x] scan_digits_extend [of "_ # _" _ _ x])

lemma scan_rest:
  "scan_frac s = Some (t, r) \<Longrightarrow> r \<noteq> [] \<Longrightarrow> s \<noteq> []" "scan_exp s = Some (t, r) \<Longrightarrow> r \<noteq> [] \<Longrightarrow> s \<noteq> []"
  by (auto simp: scan_frac_def scan_exp_def)

lemma parse_number_extend:
  assumes "parse_number s = Some (t, r)" and "r \<noteq> []"
  shows "parse_number (s @ x) = Some (t, r @ x)"
proof -
  define sg where "sg = (if has_prefix ''-'' s then ''-'' else [])"
  define u where "u = (if has_prefix ''-'' s then drop 1 s else s)"
  have eq: "parse_number (z @ y) = (case scan_int ((if has_prefix ''-'' z then drop 1 z else z) @ y) of
        None \<Rightarrow> None
      | Some (i, r1) \<Rightarrow>
          (case scan_frac r1 of
             None \<Rightarrow> None
           | Some (f, r2) \<Rightarrow> prepend ((if has_prefix ''-'' z then ''-'' else []) @ i @ f) (scan_exp r2)))" if "z \<noteq> []" for z y
    using that by (cases z) (auto simp: parse_number_def has_prefix_def)
  have s: "s \<noteq> []" using assms by (auto simp: parse_number_def has_prefix_def scan_int_def)
  have "parse_number (s @ []) = Some (t, r)" using assms(1) by simp
  from this [unfolded eq [OF s]] obtain i r1 f r2 p where
    "scan_int u = Some (i, r1)" "scan_frac r1 = Some (f, r2)" "scan_exp r2 = Some (p, r)" "t = (sg @ i @ f) @ p"
    by (auto simp: u_def sg_def prepend_Some split: option.splits prod.splits)
  moreover from this scan_rest assms(2) have "r2 \<noteq> []" "r1 \<noteq> []" by blast+
  ultimately show ?thesis
    using eq [OF s, of x] scan_int_extend [of u i r1 x] scan_frac_extend [of r1 f r2 x] scan_exp_extend [of r2 p r x] assms(2)
    by (simp add: u_def sg_def)
qed

lemma has_prefix_extend: "has_prefix p s \<Longrightarrow> has_prefix p (s @ x)"
  by (auto simp: has_prefix_iff)

lemma literal_extend:
  assumes "has_prefix p s"
  shows "drop (length p) (s @ x) = drop (length p) s @ x"
  using assms by (auto simp: has_prefix_iff)

lemma parse_extend:
  "parse_value n d s = Some (v, r) \<Longrightarrow> r \<noteq> [] \<or> (\<forall>t. v \<noteq> JNum t) \<Longrightarrow> parse_value n d (s @ x) = Some (v, r @ x)"
  "parse_elems n d s = Some (vs, r) \<Longrightarrow> parse_elems n d (s @ x) = Some (vs, r @ x)"
  "parse_members n d s = Some (ms, r) \<Longrightarrow> parse_members n d (s @ x) = Some (ms, r @ x)"
proof (induction n arbitrary: d s v vs ms r)
  case (Suc n)
  { case 1
    then obtain c t where c: "skip_ws s = c # t" by (cases "skip_ws s") (auto simp: parse_value.simps)
    note cx = skip_ws_extend [OF c, of x]
    have ws: "skip_ws (t @ x) = skip_ws t @ x" if "skip_ws t \<noteq> []"
      using that skip_ws_extend [of t] by (cases "skip_ws t") auto
    consider "c = DQ" | "c = CHR ''{''" | "c = CHR ''[''" | "c \<notin> {DQ, CHR ''{'', CHR ''[''}" by blast
    then show ?case
    proof cases
      case 1
      then show ?thesis using "1.prems"(1) c cx parse_str_extend by (auto simp: parse_value.simps)
    next
      case 2
      show ?thesis
      proof (cases "has_prefix ''}'' (skip_ws t)")
        case True
        then obtain y where "skip_ws t = CHR ''}'' # y" by (auto simp: has_prefix_iff)
        with 2 show ?thesis using "1.prems"(1) c cx ws by (auto simp: parse_value.simps has_prefix_def split: if_splits)
      next
        case False
        with 2 "1.prems"(1) c obtain ms where m: "parse_members n (d - 1) t = Some (ms, r)" "d \<noteq> 0" "v = JObj ms"
          by (auto simp: parse_value.simps split: if_splits)
        then have "skip_ws t \<noteq> []" by (cases n) (auto simp: parse_members.simps)
        then have "\<not> has_prefix ''}'' (skip_ws (t @ x))" using False ws by (cases "skip_ws t") (auto simp: has_prefix_def)
        with 2 m cx Suc.IH(3) [OF m(1)] show ?thesis by (simp add: parse_value.simps)
      qed
    next
      case 3
      show ?thesis
      proof (cases "has_prefix '']'' (skip_ws t)")
        case True
        then obtain y where "skip_ws t = CHR '']'' # y" by (auto simp: has_prefix_iff)
        with 3 show ?thesis using "1.prems"(1) c cx ws by (auto simp: parse_value.simps has_prefix_def split: if_splits)
      next
        case False
        with 3 "1.prems"(1) c obtain xs where m: "parse_elems n (d - 1) t = Some (xs, r)" "d \<noteq> 0" "v = JArr xs"
          by (auto simp: parse_value.simps split: if_splits)
        then have "skip_ws t \<noteq> []"
          by (cases n; cases "n - 1") (auto simp: parse_elems.simps parse_value.simps split: option.splits)
        then have "\<not> has_prefix '']'' (skip_ws (t @ x))" using False ws by (cases "skip_ws t") (auto simp: has_prefix_def)
        with 3 m cx Suc.IH(2) [OF m(1)] show ?thesis by (simp add: parse_value.simps)
      qed
    next
      case 4
      show ?thesis
      proof (cases "has_prefix ''true'' (c # t) \<or> has_prefix ''false'' (c # t) \<or> has_prefix ''null'' (c # t)")
        case True
        then have "3 \<le> length t" by (auto simp: has_prefix_iff)
        with True show ?thesis using "1.prems"(1) c cx 4
          by (auto simp: parse_value.simps has_prefix_def eval_nat_numeral take_Suc drop_Suc split: if_splits)
      next
        case False
        with 4 "1.prems" c obtain u where u: "parse_number (c # t) = Some (u, r)" "r \<noteq> []" "v = JNum u"
          by (auto simp: parse_value.simps split: if_splits)
        from parse_number_extend [OF u(1,2), of x] have "parse_number (c # t @ x) = Some (u, r @ x)" by simp
        moreover have "\<not> has_prefix ''true'' (c # t @ x) \<and> \<not> has_prefix ''false'' (c # t @ x) \<and> \<not> has_prefix ''null'' (c # t @ x)"
        proof -
          have "c = CHR ''-'' \<or> is_digit c"
            using u(1) by (auto simp: parse_number_def has_prefix_def scan_int_def scan_digits_def is_digit_def code_of_def
                split: if_splits)
          then show ?thesis by (auto simp: has_prefix_def is_digit_def code_of_def)
        qed
        ultimately show ?thesis using 4 cx u(3) by (simp add: parse_value.simps)
      qed
    qed
  next
    case 2
    then obtain y r1 c t where v: "parse_value n d s = Some (y, r1)" and c: "skip_ws r1 = c # t"
      by (auto simp: parse_elems.simps split: option.splits list.splits)
    have "r1 \<noteq> []" using c by auto
    with Suc.IH(1) [OF v] have v': "parse_value n d (s @ x) = Some (y, r1 @ x)" by blast
    from 2 v c v' skip_ws_extend [OF c, of x] Suc.IH(2) [of d t] show ?case
      by (auto simp: parse_elems.simps prepend_Some split: if_splits)
  next
    case 3
    then obtain q s1 k s2 c s3 y s4 e s5 where
      ch: "skip_ws s = q # s1" "parse_str s1 = Some (k, s2)" "skip_ws s2 = c # s3" "parse_value n d s3 = Some (y, s4)"
        "skip_ws s4 = e # s5"
      by (auto simp: parse_members.simps split: option.splits list.splits if_splits)
    have "s4 \<noteq> []" using ch(5) by auto
    with Suc.IH(1) [OF ch(4)] have "parse_value n d (s3 @ x) = Some (y, s4 @ x)" by blast
    with 3 ch skip_ws_extend [OF ch(1), of x] parse_str_extend [OF ch(2), of x] skip_ws_extend [OF ch(3), of x]
      skip_ws_extend [OF ch(5), of x] Suc.IH(3) [of d s5] show ?case
      by (auto simp: parse_members.simps prepend_Some split: if_splits)
  }
qed (simp_all add: parse_value.simps parse_elems.simps parse_members.simps)

lemma parse_object_torn:
  assumes "p @ x = encode_json html (JObj ms)" and "x \<noteq> []" and "json_ok (JObj ms)" and "json_depth (JObj ms) \<le> d"
  shows "parse_value (Suc (2 * length p)) d p = None"
proof (rule ccontr)
  assume "parse_value (Suc (2 * length p)) d p \<noteq> None"
  then obtain v r where v: "parse_value (Suc (2 * length p)) d p = Some (v, r)" by auto
  let ?n = "Suc (2 * length (p @ x))"
  have n: "parse_value ?n d p = Some (v, r)" using v parse_fuel [of p ?n d] by simp
  obtain q where "p = CHR ''{'' # q"
    using assms(1) v by (cases p) (auto simp: parse_value.simps)
  with v have "\<forall>t. v \<noteq> JNum t" by (auto simp: parse_value.simps split: if_splits)
  with parse_extend(1) [OF n, of x] have "parse_value ?n d (p @ x) = Some (v, r @ x)" by blast
  moreover have "parse_value ?n d (encode_json html (JObj ms) @ []) = Some (JObj ms, [])"
    using assms by (intro parse_encode) (simp_all del: encode_json.simps flip: assms(1))
  ultimately show False using assms(1,2) by simp
qed

end
