(* ===== verification/Wire.thy ===== *)
theory Wire
  imports Json
begin

text \<open>
  Records on the wire (the JSON tags of \<^verbatim>\<open>internal/record/record.go\<close>, the decoding in
  \<^verbatim>\<open>internal/record/reader.go\<close>): the object an envelope is written as, with the fields it omits when
  empty, and what a line is read as: one JSON value, its fields matched to the envelope's by
  name, nothing after it, the schema version this build accepts. The payload is read into an
  \<^verbatim>\<open>any\<close>. Names are compared with ASCII case folding.
\<close>

section \<open>Writing\<close>

definition some_str :: "string \<Rightarrow> string \<Rightarrow> (string \<times> json) list" where
  "some_str k s = (if s = [] then [] else [(k, JStr s)])"

definition some_int :: "string \<Rightarrow> int option \<Rightarrow> (string \<times> json) list" where
  "some_int k v = (case v of None \<Rightarrow> [] | Some i \<Rightarrow> [(k, JNum (show_int i))])"

definition some_flag :: "string \<Rightarrow> bool \<Rightarrow> (string \<times> json) list" where
  "some_flag k b = (if b then [(k, JBool True)] else [])"

definition json_u64 :: "u64 \<Rightarrow> json" where
  "json_u64 n = JNum (show_int (uint n))"

definition event_json :: "event_data \<Rightarrow> json" where
  "event_json d = JObj
     [(''event'', JStr (edEvent d)), (''signature'', JStr (edSignature d)), (''contract'', JStr (edContract d)),
      (''params'', JObj (map (\<lambda>k. (k, JStr (the (edParams d k)))) (sorted_list_of_set (dom (edParams d)))))]"

definition native_transfer_json :: "native_transfer_data \<Rightarrow> json" where
  "native_transfer_json d = JObj
     ([(''from'', JStr (ntFrom d))] @ some_str ''to'' (ntTo d)
      @ [(''value_wei'', JStr (ntValueWei d)), (''value'', JStr (ntValue d))]
      @ some_flag ''contract_creation'' (ntContractCreation d))"

definition internal_transfer_json :: "internal_transfer_data \<Rightarrow> json" where
  "internal_transfer_json d = JObj
     ([(''from'', JStr (itdFrom d))] @ some_str ''to'' (itdTo d)
      @ [(''value_wei'', JStr (itdValueWei d)), (''value'', JStr (itdValue d)), (''call_type'', JStr (itdCallType d))]
      @ some_flag ''contract_creation'' (itdContractCreation d))"

definition reorg_json :: "reorg_data \<Rightarrow> json" where
  "reorg_json d = JObj
     ([(''fork_block'', json_u64 (rdForkBlock d)), (''from_block'', json_u64 (rdFromBlock d)),
       (''to_block'', json_u64 (rdToBlock d)), (''depth'', JNum (show_int (rdDepth d))), (''old_hash'', JStr (rdOldHash d))]
      @ some_str ''new_hash'' (rdNewHash d) @ some_flag ''depth_exceeded'' (rdDepthExceeded d))"

definition balance_json :: "balance_data \<Rightarrow> json" where
  "balance_json d = JObj
     ([(''kind'', JStr (bdKind d)), (''address'', JStr (bdAddress d))] @ some_str ''token'' (bdToken d)
      @ some_str ''balance_wei'' (bdBalanceWei d) @ some_str ''balance_raw'' (bdBalanceRaw d)
      @ some_str ''balance'' (bdBalance d) @ some_str ''count'' (bdCount d) @ some_int ''decimals'' (bdDecimals d)
      @ some_str ''previous_wei'' (bdPreviousWei d) @ some_str ''previous_raw'' (bdPreviousRaw d)
      @ some_str ''previous_count'' (bdPreviousCount d))"

definition ownership_json :: "ownership_data \<Rightarrow> json" where
  "ownership_json d = JObj
     ([(''kind'', JStr (odKind d)), (''token'', JStr (odToken d)), (''token_id'', JStr (odTokenID d)),
       (''owner'', JStr (odOwner d))] @ some_str ''previous_owner'' (odPreviousOwner d))"

definition contract_json :: "contract_data \<Rightarrow> json" where
  "contract_json d = JObj
     ([(''address'', JStr (cdAddress d)), (''field'', JStr (cdField d))] @ some_str ''balance_wei'' (cdBalanceWei d)
      @ some_str ''balance'' (cdBalance d) @ some_str ''total_supply_raw'' (cdTotalSupplyRaw d)
      @ some_str ''total_supply'' (cdTotalSupply d) @ some_str ''count'' (cdCount d) @ some_int ''decimals'' (cdDecimals d)
      @ some_int ''window_blocks'' (cdWindowBlocks d) @ some_str ''previous_wei'' (cdPreviousWei d)
      @ some_str ''previous_raw'' (cdPreviousRaw d) @ some_str ''previous_count'' (cdPreviousCount d)
      @ some_str ''previous_total_supply'' (cdPreviousTotalSupply d))"

definition payload_json :: "data \<Rightarrow> json" where
  "payload_json d =
     (case d of
        DEvent x \<Rightarrow> event_json x | DNative x \<Rightarrow> native_transfer_json x | DInternal x \<Rightarrow> internal_transfer_json x
      | DReorg x \<Rightarrow> reorg_json x | DBalance x \<Rightarrow> balance_json x | DOwnership x \<Rightarrow> ownership_json x
      | DContract x \<Rightarrow> contract_json x | DJson j \<Rightarrow> j)"

definition envelope_fields :: "envelope \<Rightarrow> (string \<times> json) list" where
  "envelope_fields env =
     [(''schema_version'', JNum (show_int (eSchemaVersion env))), (''type'', JStr (eType env)), (''tool'', JStr (eTool env)),
      (''name'', JStr (eName env)), (''chain'', JStr (eChain env)), (''chain_id'', JNum (show_int (eChainID env))),
      (''block_number'', json_u64 (eBlockNumber env))]
     @ some_str ''block_hash'' (eBlockHash env) @ some_str ''tx_hash'' (eTxHash env)
     @ some_int ''log_index'' (map_option uint (eLogIndex env))
     @ (if eTraceAddress env = [] then [] else [(''trace_address'', JArr (map (JNum \<circ> show_int) (eTraceAddress env)))])
     @ some_str ''timestamp'' (eTimestamp env) @ [(''emitted_at'', JStr (eEmittedAt env))]
     @ some_flag ''finalized'' (eFinalized env) @ [(''data'', payload_json (eData env))]"

definition envelope_json :: "envelope \<Rightarrow> json" where
  "envelope_json env = JObj (envelope_fields env)"

section \<open>Reading\<close>

text \<open>\<^verbatim>\<open>strconv.ParseInt\<close> and \<^verbatim>\<open>ParseUint\<close> on the literal of a number.\<close>

definition int64_literal :: "string \<Rightarrow> int option" where
  "int64_literal t =
     (case set_string 10 t of
        Some i \<Rightarrow> if - (2 ^ 63) \<le> i \<and> i < 2 ^ 63 then Some i else None
      | None \<Rightarrow> None)"

definition uint64_literal :: "string \<Rightarrow> u64 option" where
  "uint64_literal t =
     (if has_prefix ''-'' t then None
      else case set_string 10 t of
        Some i \<Rightarrow> if i < 2 ^ 64 then Some (word_of_int i) else None
      | None \<Rightarrow> None)"

text \<open>A number read into an \<^verbatim>\<open>any\<close> becomes a float64, an error when it would round to infinity. The
literal is kept: what it is rendered to is up to who prints it.\<close>

definition exponent_of :: "string \<Rightarrow> int" where
  "exponent_of t =
     (case dropWhile (\<lambda>c. c \<noteq> CHR ''e'' \<and> c \<noteq> CHR ''E'') t of
        [] \<Rightarrow> 0
      | c # r \<Rightarrow> (case set_string 10 r of Some i \<Rightarrow> i | None \<Rightarrow> 0))"

definition float64_finite :: "string \<Rightarrow> bool" where
  "float64_finite t =
     (let mant = takeWhile (\<lambda>c. c \<noteq> CHR ''e'' \<and> c \<noteq> CHR ''E'') t;
          frac = drop 1 (dropWhile (\<lambda>c. c \<noteq> CHR ''.'') mant);
          m = (case parse_digits 10 0 (filter is_digit mant) of Some n \<Rightarrow> n | None \<Rightarrow> 0);
          e = exponent_of t - int (length frac)
      in m = 0 \<or> (if e \<ge> 0 then m * 10 ^ nat e < 2 ^ 1024 - 2 ^ 970 else m < (2 ^ 1024 - 2 ^ 970) * 10 ^ nat (- e)))"

text \<open>An object becomes a map: of two members with one name the later one counts.\<close>

definition put_member :: "(string \<times> json) list \<Rightarrow> string \<times> json \<Rightarrow> (string \<times> json) list" where
  "put_member ms m = filter (\<lambda>p. fst p \<noteq> fst m) ms @ [m]"

fun any_value :: "json \<Rightarrow> json option" where
  "any_value (JNum t) = (if float64_finite t then Some (JNum t) else None)"
| "any_value (JArr xs) = map_option JArr (those (map any_value xs))"
| "any_value (JObj ms) =
     map_option (\<lambda>kvs. JObj (foldl put_member [] kvs)) (those (map (\<lambda>(k, v). map_option (Pair k) (any_value v)) ms))"
| "any_value j = Some j"

definition read_str :: "json \<Rightarrow> string \<Rightarrow> string option" where
  "read_str v old = (case v of JStr s \<Rightarrow> Some s | JNull \<Rightarrow> Some old | _ \<Rightarrow> None)"

definition read_int :: "json \<Rightarrow> int \<Rightarrow> int option" where
  "read_int v old = (case v of JNum t \<Rightarrow> int64_literal t | JNull \<Rightarrow> Some old | _ \<Rightarrow> None)"

definition read_u64 :: "json \<Rightarrow> u64 \<Rightarrow> u64 option" where
  "read_u64 v old = (case v of JNum t \<Rightarrow> uint64_literal t | JNull \<Rightarrow> Some old | _ \<Rightarrow> None)"

definition read_bool :: "json \<Rightarrow> bool \<Rightarrow> bool option" where
  "read_bool v old = (case v of JBool b \<Rightarrow> Some b | JNull \<Rightarrow> Some old | _ \<Rightarrow> None)"

text \<open>A pointer: \<^verbatim>\<open>null\<close> resets it. A slice: a null element keeps what is at its index, if anything.\<close>

definition read_index :: "json \<Rightarrow> u64 option \<Rightarrow> u64 option option" where
  "read_index v old =
     (case v of
        JNull \<Rightarrow> Some None
      | _ \<Rightarrow> map_option Some (read_u64 v (case old of Some n \<Rightarrow> n | None \<Rightarrow> 0)))"

fun read_ints :: "json list \<Rightarrow> int list \<Rightarrow> int list option" where
  "read_ints [] old = Some []"
| "read_ints (v # vs) old =
     (case read_int v (case old of [] \<Rightarrow> 0 | i # _ \<Rightarrow> i) of
        None \<Rightarrow> None
      | Some i \<Rightarrow> map_option ((#) i) (read_ints vs (drop 1 old)))"

definition read_slice :: "json \<Rightarrow> int list \<Rightarrow> int list option" where
  "read_slice v old = (case v of JArr vs \<Rightarrow> read_ints vs old | JNull \<Rightarrow> Some [] | _ \<Rightarrow> None)"

definition set_field :: "string \<Rightarrow> json \<Rightarrow> envelope \<Rightarrow> envelope option" where
  "set_field key v env =
     (let k = to_lower key in
      if k = ''schema_version'' then map_option (\<lambda>x. env\<lparr>eSchemaVersion := x\<rparr>) (read_int v (eSchemaVersion env))
      else if k = ''type'' then map_option (\<lambda>x. env\<lparr>eType := x\<rparr>) (read_str v (eType env))
      else if k = ''tool'' then map_option (\<lambda>x. env\<lparr>eTool := x\<rparr>) (read_str v (eTool env))
      else if k = ''name'' then map_option (\<lambda>x. env\<lparr>eName := x\<rparr>) (read_str v (eName env))
      else if k = ''chain'' then map_option (\<lambda>x. env\<lparr>eChain := x\<rparr>) (read_str v (eChain env))
      else if k = ''chain_id'' then map_option (\<lambda>x. env\<lparr>eChainID := x\<rparr>) (read_int v (eChainID env))
      else if k = ''block_number'' then map_option (\<lambda>x. env\<lparr>eBlockNumber := x\<rparr>) (read_u64 v (eBlockNumber env))
      else if k = ''block_hash'' then map_option (\<lambda>x. env\<lparr>eBlockHash := x\<rparr>) (read_str v (eBlockHash env))
      else if k = ''tx_hash'' then map_option (\<lambda>x. env\<lparr>eTxHash := x\<rparr>) (read_str v (eTxHash env))
      else if k = ''log_index'' then map_option (\<lambda>x. env\<lparr>eLogIndex := x\<rparr>) (read_index v (eLogIndex env))
      else if k = ''trace_address'' then map_option (\<lambda>x. env\<lparr>eTraceAddress := x\<rparr>) (read_slice v (eTraceAddress env))
      else if k = ''timestamp'' then map_option (\<lambda>x. env\<lparr>eTimestamp := x\<rparr>) (read_str v (eTimestamp env))
      else if k = ''emitted_at'' then map_option (\<lambda>x. env\<lparr>eEmittedAt := x\<rparr>) (read_str v (eEmittedAt env))
      else if k = ''finalized'' then map_option (\<lambda>x. env\<lparr>eFinalized := x\<rparr>) (read_bool v (eFinalized env))
      else if k = ''data'' then map_option (\<lambda>x. env\<lparr>eData := DJson x\<rparr>) (any_value v)
      else Some env)"

fun set_fields :: "(string \<times> json) list \<Rightarrow> envelope \<Rightarrow> envelope option" where
  "set_fields [] env = Some env"
| "set_fields ((k, v) # ms) env = (case set_field k v env of None \<Rightarrow> None | Some env' \<Rightarrow> set_fields ms env')"

definition decode_envelope :: "json \<Rightarrow> envelope option" where
  "decode_envelope j = (case j of JObj ms \<Rightarrow> set_fields ms zero_envelope | JNull \<Rightarrow> Some zero_envelope | _ \<Rightarrow> None)"

text \<open>Why a line is refused.\<close>

datatype malformed = BadJson | TrailingData | UnsupportedSchema int

text \<open>\<^verbatim>\<open>Decoder.More\<close>: whether another value can follow, judged by the next character alone.\<close>

definition decoder_More :: "string \<Rightarrow> bool" where
  "decoder_More r = (case skip_ws r of [] \<Rightarrow> False | c # _ \<Rightarrow> c \<noteq> CHR '']'' \<and> c \<noteq> CHR ''}'')"

definition decode_line :: "string \<Rightarrow> malformed + envelope" where
  "decode_line line =
     (case parse_value (Suc (2 * length line)) maxNestingDepth line of
        None \<Rightarrow> Inl BadJson
      | Some (j, rest) \<Rightarrow>
          (case decode_envelope j of
             None \<Rightarrow> Inl BadJson
           | Some env \<Rightarrow>
               if decoder_More rest then Inl TrailingData
               else if eSchemaVersion env \<noteq> SchemaVersion then Inl (UnsupportedSchema (eSchemaVersion env))
               else Inr env))"

section \<open>What was written reads back\<close>

definition utf8 :: "string \<Rightarrow> bool" where "utf8 s \<longleftrightarrow> to_valid s = s"

definition int64 :: "int \<Rightarrow> bool" where "int64 i \<longleftrightarrow> - (2 ^ 63) \<le> i \<and> i < 2 ^ 63"

text \<open>The records that read back as they were written: their texts are UTF-8, their integers have their width.
The producers do not guarantee the first: the value of a \<^verbatim>\<open>string\<close> parameter is the raw bytes of the
chain, and encoding replaces each byte that is no UTF-8 by the replacement character.\<close>

lemma invalid_byte_is_replaced: "parse_str (escape False [CHR 0xFF] @ [DQ]) = Some (utf8_encode 65533, [])"
  using parse_escape [of False "[CHR 0xFF]" "[]"]
  by (simp add: to_valid.simps rune_len_def code_of_def line_separator_bytes)

fun data_ok :: "data \<Rightarrow> bool" where
  "data_ok (DEvent d) \<longleftrightarrow> utf8 (edEvent d) \<and> utf8 (edSignature d) \<and> utf8 (edContract d) \<and> finite (dom (edParams d))
     \<and> (\<forall>k v. edParams d k = Some v \<longrightarrow> utf8 k \<and> utf8 v)"
| "data_ok (DNative d) \<longleftrightarrow> utf8 (ntFrom d) \<and> utf8 (ntTo d) \<and> utf8 (ntValueWei d) \<and> utf8 (ntValue d)"
| "data_ok (DInternal d) \<longleftrightarrow> utf8 (itdFrom d) \<and> utf8 (itdTo d) \<and> utf8 (itdValueWei d) \<and> utf8 (itdValue d) \<and> utf8 (itdCallType d)"
| "data_ok (DReorg d) \<longleftrightarrow> int64 (rdDepth d) \<and> utf8 (rdOldHash d) \<and> utf8 (rdNewHash d)"
| "data_ok (DBalance d) \<longleftrightarrow> (\<forall>s \<in> set [bdKind d, bdAddress d, bdToken d, bdBalanceWei d, bdBalanceRaw d, bdBalance d, bdCount d,
       bdPreviousWei d, bdPreviousRaw d, bdPreviousCount d]. utf8 s) \<and> (\<forall>i. bdDecimals d = Some i \<longrightarrow> int64 i)"
| "data_ok (DOwnership d) \<longleftrightarrow> (\<forall>s \<in> set [odKind d, odToken d, odTokenID d, odOwner d, odPreviousOwner d]. utf8 s)"
| "data_ok (DContract d) \<longleftrightarrow> (\<forall>s \<in> set [cdAddress d, cdField d, cdBalanceWei d, cdBalance d, cdTotalSupplyRaw d, cdTotalSupply d,
       cdCount d, cdPreviousWei d, cdPreviousRaw d, cdPreviousCount d, cdPreviousTotalSupply d]. utf8 s)
     \<and> (\<forall>i. cdDecimals d = Some i \<longrightarrow> int64 i) \<and> (\<forall>i. cdWindowBlocks d = Some i \<longrightarrow> int64 i)"
| "data_ok (DJson j) \<longleftrightarrow> json_ok j \<and> json_depth j < maxNestingDepth \<and> any_value j = Some j"

definition wire_ok :: "envelope \<Rightarrow> bool" where
  "wire_ok env \<longleftrightarrow>
     (\<forall>s \<in> set [eType env, eTool env, eName env, eChain env, eBlockHash env, eTxHash env, eTimestamp env, eEmittedAt env]. utf8 s)
     \<and> int64 (eSchemaVersion env) \<and> int64 (eChainID env) \<and> (\<forall>i \<in> set (eTraceAddress env). int64 i) \<and> data_ok (eData env)"

subsection \<open>Payloads\<close>

text \<open>Values that parse and decode to themselves.\<close>

definition readable :: "json \<Rightarrow> bool" where
  "readable j \<longleftrightarrow> json_ok j \<and> any_value j = Some j"

lemma show_int_mantissa:
  "takeWhile (\<lambda>c. c \<noteq> CHR ''e'' \<and> c \<noteq> CHR ''E'') (show_int i) = show_int i"
  "dropWhile (\<lambda>c. c \<noteq> CHR ''e'' \<and> c \<noteq> CHR ''E'') (show_int i) = []"
  "dropWhile (\<lambda>c. c \<noteq> CHR ''.'') (show_int i) = []"
proof -
  have "c \<noteq> CHR ''e'' \<and> c \<noteq> CHR ''E'' \<and> c \<noteq> CHR ''.''" if "c \<in> set (show_int i)" for c
    using show_int_chars [OF that] by (auto simp: code_of_def)
  then show "takeWhile (\<lambda>c. c \<noteq> CHR ''e'' \<and> c \<noteq> CHR ''E'') (show_int i) = show_int i"
    "dropWhile (\<lambda>c. c \<noteq> CHR ''e'' \<and> c \<noteq> CHR ''E'') (show_int i) = []"
    "dropWhile (\<lambda>c. c \<noteq> CHR ''.'') (show_int i) = []" by auto
qed

lemma filter_digits_show_int: "filter is_digit (show_int i) = show_nat (nat \<bar>i\<bar>)"
proof -
  have "filter is_digit (show_nat n) = show_nat n" for n
    using show_nat_chars [of _ n] by (auto simp: is_digit_def filter_id_conv)
  moreover have "\<not> is_digit CHR ''-''" by (simp add: is_digit_def)
  ultimately show ?thesis by (auto simp: show_int_def)
qed

lemma float64_finite_show_int: "\<bar>i\<bar> < 2 ^ 64 \<Longrightarrow> float64_finite (show_int i)"
proof -
  assume "\<bar>i\<bar> < 2 ^ 64"
  then have "nat \<bar>i\<bar> < 2 ^ 1024 - 2 ^ 970" by simp
  then show ?thesis
    by (simp add: float64_finite_def show_int_mantissa exponent_of_def filter_digits_show_int parse_show_base show_nat_def)
qed

lemma int64_abs: "int64 i \<Longrightarrow> \<bar>i\<bar> < 2 ^ 64"
  by (auto simp: int64_def)

lemma u64_abs: "\<bar>uint (n :: u64)\<bar> < 2 ^ 64"
  using uint_lt2p [of n] by simp

lemma foldl_put_member:
  "distinct (map fst (acc @ ms)) \<Longrightarrow> foldl put_member acc ms = acc @ ms"
proof (induction ms arbitrary: acc)
  case (Cons m ms)
  then have "fst m \<notin> fst ` set acc" by simp
  then have "filter (\<lambda>p. fst p \<noteq> fst m) acc = acc" by (intro filter_True) (metis imageI)
  with Cons.IH [of "acc @ [m]"] Cons.prems show ?case by (simp add: put_member_def)
qed simp

lemma readable_simps [simp]:
  "readable JNull" "readable (JBool b)" "readable (JStr s) \<longleftrightarrow> utf8 s"
  "\<bar>i\<bar> < 2 ^ 64 \<Longrightarrow> readable (JNum (show_int i))"
  by (auto simp: readable_def utf8_def float64_finite_show_int)

lemma readable_int64 [simp]: "int64 i \<Longrightarrow> readable (JNum (show_int i))"
  using int64_abs readable_simps(4) by blast

lemma those_map_Some: "(\<And>x. x \<in> set xs \<Longrightarrow> f x = Some (g x)) \<Longrightarrow> those (map f xs) = Some (map g xs)"
  by (induction xs) auto

lemma readable_JObj:
  assumes "distinct (map fst ms)" and "\<And>k v. (k, v) \<in> set ms \<Longrightarrow> utf8 k \<and> readable v"
  shows "readable (JObj ms)"
proof -
  have "those (map (\<lambda>(k, v). map_option (Pair k) (any_value v)) ms) = Some (map (\<lambda>m. m) ms)"
    using assms(2) by (intro those_map_Some) (auto simp: readable_def)
  with assms show ?thesis using foldl_put_member [of "[]" ms]
    by (auto simp: readable_def utf8_def)
qed

lemma opt_members [simp]:
  "x \<in> set (some_str k s) \<longleftrightarrow> s \<noteq> [] \<and> x = (k, JStr s)"
  "x \<in> set (some_int k v) \<longleftrightarrow> (\<exists>i. v = Some i \<and> x = (k, JNum (show_int i)))"
  "x \<in> set (some_flag k b) \<longleftrightarrow> b \<and> x = (k, JBool True)"
  by (auto simp: some_str_def some_int_def some_flag_def split: option.splits)

lemma opt_keys [simp]:
  "distinct (map fst (some_str k s))" "distinct (map fst (some_int k v))" "distinct (map fst (some_flag k b))"
  "fst ` set (some_str k s) = (if s = [] then {} else {k})" "fst ` set (some_int k v) = (if v = None then {} else {k})"
  "fst ` set (some_flag k b) = (if b then {k} else {})"
  by (auto simp: some_str_def some_int_def some_flag_def split: option.splits)

lemma utf8_ascii: "\<forall>c \<in> set s. code_of c < 128 \<Longrightarrow> utf8 s"
  by (induction s) (auto simp: utf8_def to_valid.simps)

lemma utf8_Nil [simp]: "utf8 []"
  by (simp add: utf8_ascii)

definition member_names :: "string list" where
  "member_names = [''event'', ''signature'', ''contract'', ''params'', ''from'', ''to'', ''value_wei'', ''value'',
     ''contract_creation'', ''call_type'', ''fork_block'', ''from_block'', ''to_block'', ''depth'', ''old_hash'', ''new_hash'',
     ''depth_exceeded'', ''kind'', ''address'', ''token'', ''balance_wei'', ''balance_raw'', ''balance'', ''count'', ''decimals'',
     ''previous_wei'', ''previous_raw'', ''previous_count'', ''token_id'', ''owner'', ''previous_owner'', ''field'',
     ''total_supply_raw'', ''total_supply'', ''window_blocks'', ''previous_total_supply'',
     ''schema_version'', ''type'', ''tool'', ''name'', ''chain'', ''chain_id'', ''block_number'', ''block_hash'', ''tx_hash'',
     ''log_index'', ''trace_address'', ''timestamp'', ''emitted_at'', ''finalized'', ''data'']"

lemma utf8_names: "\<forall>k \<in> set member_names. utf8 k"
proof -
  have "\<forall>k \<in> set member_names. \<forall>c \<in> set k. code_of c < 128"
    by (simp add: member_names_def code_of_def)
  then show ?thesis using utf8_ascii by blast
qed

lemmas utf8_name [simp] = utf8_names [unfolded member_names_def list.set ball_simps, simplified]

lemma readable_u64 [simp]: "readable (json_u64 n)"
  unfolding json_u64_def by (rule readable_simps(4) [OF u64_abs])

lemma readable_params:
  assumes "finite (dom m)" and "\<forall>k v. m k = Some v \<longrightarrow> utf8 k \<and> utf8 v"
  shows "readable (JObj (map (\<lambda>k. (k, JStr (the (m k)))) (sorted_list_of_set (dom m))))"
proof (rule readable_JObj)
  show "distinct (map fst (map (\<lambda>k. (k, JStr (the (m k)))) (sorted_list_of_set (dom m))))" by (simp add: comp_def)
  fix k v
  assume "(k, v) \<in> set (map (\<lambda>k. (k, JStr (the (m k)))) (sorted_list_of_set (dom m)))"
  with assms(1) obtain x where "m k = Some x" "v = JStr x" by auto
  with assms(2) show "utf8 k \<and> readable v" by simp
qed

lemmas payload_defs = event_json_def native_transfer_json_def internal_transfer_json_def reorg_json_def balance_json_def
  ownership_json_def contract_json_def

lemma payload_readable: "data_ok d \<Longrightarrow> readable (payload_json d)"
proof (cases d)
  case (DJson j)
  then show "data_ok d \<Longrightarrow> readable (payload_json d)" by (simp add: payload_json_def readable_def)
qed (auto intro!: readable_JObj readable_params simp: payload_json_def payload_defs)

lemma depth_JObj: "(\<And>k v. (k, v) \<in> set ms \<Longrightarrow> json_depth v \<le> n) \<Longrightarrow> json_depth (JObj ms) \<le> Suc n"
  by (auto simp: fold_max)

lemma payload_members:
  assumes "\<And>j. d \<noteq> DJson j"
  shows "\<exists>ms. payload_json d = JObj ms \<and> (\<forall>(k, v) \<in> set ms. json_depth v \<le> 1)"
proof (cases d)
  case (DEvent x)
  have "json_depth (JObj (map (\<lambda>k. (k, JStr (the (edParams x k)))) ks)) \<le> Suc 0" for ks
    by (rule depth_JObj) auto
  with DEvent show ?thesis by (simp add: payload_json_def event_json_def)
qed (use assms in \<open>auto simp: payload_json_def payload_defs json_u64_def\<close>)

lemma payload_depth: "data_ok d \<Longrightarrow> json_depth (payload_json d) < maxNestingDepth"
proof (cases "\<exists>j. d = DJson j")
  case False
  then obtain ms where ms: "payload_json d = JObj ms" "\<forall>(k, v) \<in> set ms. json_depth v \<le> 1" using payload_members by blast
  then have "json_depth (payload_json d) \<le> Suc 1" unfolding ms(1) by (intro depth_JObj) blast
  then show ?thesis by (simp add: maxNestingDepth_def)
qed (auto simp: payload_json_def)

subsection \<open>Envelopes\<close>

lemma int64_literal_show [simp]: "int64 i \<Longrightarrow> int64_literal (show_int i) = Some i"
  by (simp add: int64_literal_def set_string_show_int int64_def)

lemma uint64_literal_show [simp]: "uint64_literal (show_int (uint n)) = Some n"
proof -
  obtain c r where c: "show_nat (nat (uint n)) = c # r" by (metis show_nat_not_Nil neq_Nil_conv)
  then have "c \<noteq> CHR ''-''" using show_nat_no [of "CHR ''-''" "nat (uint n)"] by auto
  moreover have "show_int (uint n) = show_nat (nat (uint n))" by (simp add: show_int_def)
  ultimately have "\<not> has_prefix ''-'' (show_int (uint n))" using c by (simp add: has_prefix_def)
  then show ?thesis using uint_lt2p [of n] by (simp add: uint64_literal_def set_string_show_int)
qed

lemma read_ints_show: "\<forall>i \<in> set xs. int64 i \<Longrightarrow> read_ints (map (JNum \<circ> show_int) xs) old = Some xs"
  by (induction xs arbitrary: old) (auto simp: read_int_def)

lemma lower_names: "\<forall>k \<in> set member_names. to_lower k = k"
  by (simp add: member_names_def to_lower_def lower_char_def code_of_def)

lemmas lower_name [simp] = lower_names [unfolded member_names_def list.set ball_simps, simplified]

lemma set_fields_append:
  "set_fields (a @ b) env = (case set_fields a env of None \<Rightarrow> None | Some env' \<Rightarrow> set_fields b env')"
  by (induction a arbitrary: env) (auto split: option.split)

lemma unchanged:
  "eBlockHash e = s \<Longrightarrow> e\<lparr>eBlockHash := s\<rparr> = e" "eTxHash e = s \<Longrightarrow> e\<lparr>eTxHash := s\<rparr> = e"
  "eTimestamp e = s \<Longrightarrow> e\<lparr>eTimestamp := s\<rparr> = e" "eFinalized e = b \<Longrightarrow> e\<lparr>eFinalized := b\<rparr> = e"
  "eLogIndex e = n \<Longrightarrow> e\<lparr>eLogIndex := n\<rparr> = e" "eTraceAddress e = xs \<Longrightarrow> e\<lparr>eTraceAddress := xs\<rparr> = e"
  for e :: envelope
  by auto

lemma set_optional:
  "eBlockHash e = [] \<Longrightarrow> set_fields (some_str ''block_hash'' s @ ms) e = set_fields ms (e\<lparr>eBlockHash := s\<rparr>)"
  "eTxHash e = [] \<Longrightarrow> set_fields (some_str ''tx_hash'' s @ ms) e = set_fields ms (e\<lparr>eTxHash := s\<rparr>)"
  "eTimestamp e = [] \<Longrightarrow> set_fields (some_str ''timestamp'' s @ ms) e = set_fields ms (e\<lparr>eTimestamp := s\<rparr>)"
  by (simp_all add: unchanged some_str_def set_field_def read_str_def)

lemma set_finalized:
  "eFinalized e = False \<Longrightarrow> set_fields (some_flag ''finalized'' b @ ms) e = set_fields ms (e\<lparr>eFinalized := b\<rparr>)"
  by (cases b) (simp_all add: unchanged some_flag_def set_field_def read_bool_def)

lemma set_log_index:
  "eLogIndex e = None \<Longrightarrow>
     set_fields (some_int ''log_index'' (map_option uint n) @ ms) e = set_fields ms (e\<lparr>eLogIndex := n\<rparr>)"
  by (cases n) (simp_all add: unchanged some_int_def set_field_def read_index_def read_u64_def)

lemma set_trace:
  assumes "eTraceAddress e = []" and "\<forall>i \<in> set xs. int64 i"
  shows "set_fields ((if xs = [] then [] else [(''trace_address'', JArr (map (JNum \<circ> show_int) xs))]) @ ms) e
    = set_fields ms (e\<lparr>eTraceAddress := xs\<rparr>)"
  using assms read_ints_show [OF assms(2), of "[]"] by (simp add: unchanged set_field_def read_slice_def)

lemma envelope_reads_back:
  assumes "wire_ok env"
  shows "set_fields (envelope_fields env) zero_envelope = Some (env\<lparr>eData := DJson (payload_json (eData env))\<rparr>)"
proof -
  have "any_value (payload_json (eData env)) = Some (payload_json (eData env))"
    using assms payload_readable by (simp add: wire_ok_def readable_def)
  with assms show ?thesis
    by (simp add: envelope_fields_def set_optional set_finalized set_log_index set_trace zero_envelope_def wire_ok_def set_field_def [of _ "JNum _"]
        set_field_def [of _ "JStr _"] set_field_def [of "''data''"] set_field_def [of _ "json_u64 _"] json_u64_def
        read_str_def read_int_def read_u64_def)
qed

lemma envelope_readable:
  assumes "wire_ok env"
  shows "json_ok (envelope_json env)" and "json_depth (envelope_json env) \<le> maxNestingDepth"
proof -
  have num: "json_ok (JNum (show_int i))" for i by auto
  have p: "json_ok (payload_json (eData env))" "json_depth (payload_json (eData env)) < maxNestingDepth"
    using assms payload_readable payload_depth by (simp_all add: wire_ok_def readable_def)
  show "json_ok (envelope_json env)"
    using assms p(1) num by (auto simp: envelope_json_def envelope_fields_def wire_ok_def utf8_def [symmetric] json_u64_def)
  show "json_depth (envelope_json env) \<le> maxNestingDepth"
  proof -
    have "json_depth v \<le> maxNestingDepth - 1" if "(k, v) \<in> set (envelope_fields env)" for k v
      using that p(2) by (auto simp: envelope_fields_def json_u64_def fold_max maxNestingDepth_def split: if_splits)
    from depth_JObj [OF this] show ?thesis by (simp add: envelope_json_def maxNestingDepth_def)
  qed
qed

text \<open>The line of an envelope is one line, is not blank, and reads back as the envelope, its payload as
plain JSON.\<close>

lemma decode_encode:
  assumes "wire_ok env" and "eSchemaVersion env = SchemaVersion"
  shows "decode_line (encode_json html (envelope_json env)) = Inr (env\<lparr>eData := DJson (payload_json (eData env))\<rparr>)"
proof -
  let ?t = "encode_json html (envelope_json env)"
  have "parse_value (Suc (2 * length ?t)) maxNestingDepth (?t @ []) = Some (envelope_json env, [])"
    using envelope_readable [OF assms(1)] by (intro parse_encode) auto
  with envelope_reads_back [OF assms(1)] assms(2) show ?thesis
    by (simp add: decode_line_def decode_envelope_def envelope_json_def decoder_More_def)
qed

lemma encode_envelope_line:
  assumes "wire_ok env"
  shows "NL \<notin> set (encode_json html (envelope_json env))" and "\<exists>r. encode_json html (envelope_json env) = CHR ''{'' # r @ ''}''"
proof -
  have "code_of NL < 32" by (simp add: code_of_def)
  then show "NL \<notin> set (encode_json html (envelope_json env))"
    using printable_encode [OF envelope_readable(1) [OF assms], of html] by (auto simp: printable_def)
qed (simp add: envelope_json_def)

text \<open>A torn line is not a record.\<close>

lemma decode_torn:
  assumes "wire_ok env" and "p @ x = encode_json html (envelope_json env)" and "x \<noteq> []"
  shows "decode_line p = Inl BadJson"
  using parse_object_torn [of p x html "envelope_fields env" maxNestingDepth] envelope_readable [OF assms(1)] assms(2,3)
  by (simp add: decode_line_def envelope_json_def)

end
