(* ===== verification/Reader.thy ===== *)
theory Reader
  imports Wire Units
begin

text \<open>
  The two ends of the record pipe (\<^verbatim>\<open>internal/record/writer.go\<close>, \<^verbatim>\<open>reader.go\<close>): \<open>Emit\<close> puts one line
  at a time through a buffered writer whose errors are final; \<open>Next\<close> takes the stream apart again,
  and hands a line it cannot read to the quarantine hook, if there is one. The descriptor below
  the writer, and the hook, are arguments; the buffered writer and the line scanner are those
  of \<^verbatim>\<open>bufio\<close>. Concurrent calls of \<open>Emit\<close> are serialised by its lock, so a run of the writer is a
  sequence of calls.
\<close>

section \<open>The writer\<close>

text \<open>The answer of one \<^verbatim>\<open>Write\<close> call: everything was accepted, or that many bytes and an error.\<close>

datatype write_answer = Accepted | Refused nat string

record writer =
  wOut :: string
  wBuffer :: string
  wError :: "string option"

definition buffer_size :: nat where "buffer_size = 4096"

definition NewWriter :: writer where
  "NewWriter = \<lparr> wOut = [], wBuffer = [], wError = None \<rparr>"

text \<open>The call below the buffer: what it accepts is out, an error stays.\<close>

definition put_out :: "(string \<Rightarrow> string \<Rightarrow> write_answer) \<Rightarrow> string \<Rightarrow> (writer, nat \<times> string option) state" where
  "put_out W p =
     do { out \<leftarrow> gets wOut;
          (case W out p of
             Accepted \<Rightarrow> do { modify (\<lambda>w. w\<lparr>wOut := out @ p\<rparr>); State_Monad.return (length p, None) }
           | Refused n e \<Rightarrow> do {
               modify (\<lambda>w. w\<lparr>wOut := out @ take n p, wError := Some e\<rparr>);
               State_Monad.return (n, Some e) }) }"

definition bufio_Flush :: "(string \<Rightarrow> string \<Rightarrow> write_answer) \<Rightarrow> (writer, string + unit) state" where
  "bufio_Flush W =
     do { err \<leftarrow> gets wError;
          buf \<leftarrow> gets wBuffer;
          (case err of
             Some e \<Rightarrow> fail e
           | None \<Rightarrow>
               if buf = [] then ok ()
               else do {
                 (n, werr) \<leftarrow> put_out W buf;
                 (case werr of
                    Some e \<Rightarrow> do { modify (\<lambda>w. w\<lparr>wBuffer := drop n buf\<rparr>); fail e }
                  | None \<Rightarrow> do { modify (\<lambda>w. w\<lparr>wBuffer := []\<rparr>); ok () }) }) }"

definition direct_write :: "(string \<Rightarrow> string \<Rightarrow> write_answer) \<Rightarrow> string \<Rightarrow> (writer, string + unit) state" where
  "direct_write W p =
     do { (n, werr) \<leftarrow> put_out W p;
          (case werr of Some e \<Rightarrow> fail e | None \<Rightarrow> ok ()) }"

text \<open>What does not fit is written directly when the buffer is empty, and fills the buffer first when
it is not.\<close>

definition bufio_Write :: "(string \<Rightarrow> string \<Rightarrow> write_answer) \<Rightarrow> string \<Rightarrow> (writer, string + unit) state" where
  "bufio_Write W p =
     do { err \<leftarrow> gets wError;
          buf \<leftarrow> gets wBuffer;
          (let room = buffer_size - length buf in
           case err of
             Some e \<Rightarrow> fail e
           | None \<Rightarrow>
               if length p \<le> room then do { modify (\<lambda>w. w\<lparr>wBuffer := buf @ p\<rparr>); ok () }
               else if buf = [] then direct_write W p
               else do {
                 modify (\<lambda>w. w\<lparr>wBuffer := buf @ take room p\<rparr>);
                 check (bufio_Flush W) (\<lambda>_.
                   if length (drop room p) \<le> buffer_size
                   then do { modify (\<lambda>w. w\<lparr>wBuffer := drop room p\<rparr>); ok () }
                   else direct_write W (drop room p)) }) }"

text \<open>The line of a record: one object and a newline, no HTML escaping.\<close>

definition record_line :: "envelope \<Rightarrow> string" where
  "record_line env = encode_json False (envelope_json env)"

definition writer_write :: "(string \<Rightarrow> string \<Rightarrow> write_answer) \<Rightarrow> envelope \<Rightarrow> (writer, string + unit) state" where
  "writer_write W env = check (bufio_Write W (record_line env @ [NL])) (\<lambda>_. bufio_Flush W)"

definition stamped :: "int \<Rightarrow> envelope \<Rightarrow> envelope" where
  "stamped now env =
     (let env' = env\<lparr>eSchemaVersion := SchemaVersion\<rparr> in
      if eEmittedAt env' = [] then env'\<lparr>eEmittedAt := RFC3339 now\<rparr> else env')"

definition Emit :: "(string \<Rightarrow> string \<Rightarrow> write_answer) \<Rightarrow> int \<Rightarrow> envelope \<Rightarrow> (writer, string + unit) state" where
  "Emit W now env = writer_write W (stamped now env)"

text \<open>A sequence of calls, with the answer of each.\<close>

fun emit_all :: "(string \<Rightarrow> string \<Rightarrow> write_answer) \<Rightarrow> (int \<times> envelope) list \<Rightarrow> (writer, (string + unit) list) state" where
  "emit_all W [] = State_Monad.return []"
| "emit_all W ((now, env) # rest) =
     do { r \<leftarrow> Emit W now env;
          rs \<leftarrow> emit_all W rest;
          State_Monad.return (r # rs) }"

section \<open>The reader\<close>

definition maxLineBytes :: nat where "maxLineBytes = 16 * 2 ^ 20"

text \<open>The bytes still to come, what ends them (end of file, or a read error), the last line.\<close>

record reader =
  rdBytes :: string
  rdEnd :: "string option"
  rdRaw :: string

definition NewReader :: "string \<Rightarrow> string option \<Rightarrow> reader" where
  "NewReader bytes end = \<lparr> rdBytes = bytes, rdEnd = end, rdRaw = [] \<rparr>"

definition trimSpace :: "string \<Rightarrow> string" where
  "trimSpace b = rev (dropWhile is_json_space (rev (dropWhile is_json_space b)))"

datatype scanned = Line string | Ended | Broken string

text \<open>\<^verbatim>\<open>Scanner.Scan\<close> with \<^verbatim>\<open>ScanLines\<close>: up to the next newline, a final carriage return dropped; a line
that fills the buffer ends the scan for good.\<close>

definition drop_cr :: "string \<Rightarrow> string" where
  "drop_cr s = (if s \<noteq> [] \<and> last s = CHR 0x0D then butlast s else s)"

definition scanner_Scan :: "reader \<Rightarrow> scanned \<times> reader" where
  "scanner_Scan r =
     (let line = takeWhile (\<lambda>c. c \<noteq> NL) (rdBytes r) in
      if rdBytes r = [] then ((case rdEnd r of None \<Rightarrow> Ended | Some e \<Rightarrow> Broken e), r)
      else if maxLineBytes \<le> length line
      then (Broken ''bufio.Scanner: token too long'', r\<lparr>rdBytes := [], rdEnd := Some ''bufio.Scanner: token too long''\<rparr>)
      else (Line (drop_cr line), r\<lparr>rdBytes := drop (Suc (length line)) (rdBytes r)\<rparr>))"

datatype next_result =
    NextRecord envelope
  | NextEOF
  | NextReadFailed string
  | NextMalformed malformed
  | NextQuarantineFailed string

text \<open>The hook gets the line and the reason, and answers with an error or none.\<close>

type_synonym 'w quarantine = "string \<Rightarrow> malformed \<Rightarrow> 'w \<Rightarrow> string option \<times> 'w"

definition handleMalformed :: "'w quarantine option \<Rightarrow> string \<Rightarrow> malformed \<Rightarrow> 'w \<Rightarrow> next_result option \<times> 'w" where
  "handleMalformed q line err w =
     (case q of
        None \<Rightarrow> (Some (NextMalformed err), w)
      | Some f \<Rightarrow> (case f line err w of (None, w') \<Rightarrow> (None, w') | (Some e, w') \<Rightarrow> (Some (NextQuarantineFailed e), w')))"

lemma scan_shorter: "scanner_Scan r = (Line l, r') \<Longrightarrow> length (rdBytes r') < length (rdBytes r)"
  by (auto simp: scanner_Scan_def Let_def split: if_splits option.splits)

function Next :: "'w quarantine option \<Rightarrow> reader \<Rightarrow> 'w \<Rightarrow> next_result \<times> reader \<times> 'w" where
  "Next q r w =
     (case scanner_Scan r of
        (Ended, r') \<Rightarrow> (NextEOF, r', w)
      | (Broken e, r') \<Rightarrow> (NextReadFailed e, r', w)
      | (Line line, r') \<Rightarrow>
          if trimSpace line = [] then Next q r' w
          else
            (case decode_line line of
               Inr env \<Rightarrow> (NextRecord env, r'\<lparr>rdRaw := line\<rparr>, w)
             | Inl err \<Rightarrow>
                 (case handleMalformed q line err w of
                    (Some e, w') \<Rightarrow> (e, r'\<lparr>rdRaw := line\<rparr>, w')
                  | (None, w') \<Rightarrow> Next q (r'\<lparr>rdRaw := line\<rparr>) w')))"
  by pat_completeness auto
termination
  by (relation "measure (\<lambda>(q, r, w). length (rdBytes r))") (auto dest!: sym [THEN scan_shorter] scan_shorter)

declare Next.simps [simp del]

text \<open>\<^verbatim>\<open>NextCtx\<close>: the context may end before the read is asked for, or while it is under way; in the
second case the read goes on in the background and what it yields is dropped.\<close>

definition NextCtx :: "bool \<Rightarrow> bool \<Rightarrow> 'w quarantine option \<Rightarrow> reader \<Rightarrow> 'w \<Rightarrow> (next_result \<times> string) option \<times> reader \<times> 'w" where
  "NextCtx before during q r w =
     (if before then (None, r, w)
      else
        (let (res, r', w') = Next q r w in
         if during then (None, r', w')
         else (Some (res, (case res of NextRecord _ \<Rightarrow> rdRaw r' | _ \<Rightarrow> [])), r', w')))"

text \<open>Reading on until something other than a record comes back: the records with their lines.\<close>

fun drain :: "nat \<Rightarrow> 'w quarantine option \<Rightarrow> reader \<Rightarrow> 'w \<Rightarrow> (envelope \<times> string) list \<times> next_result option \<times> reader \<times> 'w" where
  "drain 0 q r w = ([], None, r, w)"
| "drain (Suc n) q r w =
     (case Next q r w of
        (NextRecord env, r', w') \<Rightarrow> (let (recs, res) = drain n q r' w' in ((env, rdRaw r') # recs, res))
      | (res, r', w') \<Rightarrow> ([], Some res, r', w'))"

section \<open>What the writer puts out\<close>

text \<open>Nothing is buffered between two calls, unless an error has ended the writer.\<close>

definition settled_writer :: "writer \<Rightarrow> bool" where
  "settled_writer w \<longleftrightarrow> wBuffer w = [] \<and> wError w = None"

definition call_line :: "int \<times> envelope \<Rightarrow> string" where
  "call_line c = record_line (stamped (fst c) (snd c)) @ [NL]"

lemma call_line_not_Nil [simp]: "call_line c \<noteq> []"
  by (simp add: call_line_def)

lemma Emit_settled:
  assumes "settled_writer w"
  shows "W (wOut w) (call_line (now, env)) = Accepted \<Longrightarrow>
       run_state (Emit W now env) w = (Inr (), w\<lparr>wOut := wOut w @ call_line (now, env)\<rparr>)"
    and "W (wOut w) (call_line (now, env)) = Refused n e \<Longrightarrow>
       \<exists>buf. run_state (Emit W now env) w
         = (Inl e, \<lparr>wOut = wOut w @ take n (call_line (now, env)), wBuffer = buf, wError = Some e\<rparr>)"
proof -
  obtain out where w: "w = \<lparr>wOut = out, wBuffer = [], wError = None\<rparr>"
    using assms by (cases w) (auto simp: settled_writer_def)
  note run = Emit_def writer_write_def bufio_Write_def bufio_Flush_def direct_write_def put_out_def run_simps Let_def
  show "W (wOut w) (call_line (now, env)) = Accepted \<Longrightarrow>
       run_state (Emit W now env) w = (Inr (), w\<lparr>wOut := wOut w @ call_line (now, env)\<rparr>)"
    using w by (simp add: run call_line_def split: if_splits)
  show "W (wOut w) (call_line (now, env)) = Refused n e \<Longrightarrow>
       \<exists>buf. run_state (Emit W now env) w
         = (Inl e, \<lparr>wOut = wOut w @ take n (call_line (now, env)), wBuffer = buf, wError = Some e\<rparr>)"
    using w by (simp add: run call_line_def split: if_splits)
qed

lemma Emit_broken: "wError w = Some e \<Longrightarrow> run_state (Emit W now env) w = (Inl e, w)"
  by (simp add: Emit_def writer_write_def bufio_Write_def run_simps Let_def)

lemma emit_all_broken:
  "wError w = Some e \<Longrightarrow> run_state (emit_all W calls) w = (map (\<lambda>_. Inl e) calls, w)"
  by (induction calls) (auto simp: Emit_broken)

lemma emit_all_lines:
  assumes "run_state (emit_all W calls) w = (rs, w')" and "settled_writer w"
  shows "\<exists>k frag e. k \<le> length calls \<and> rs = replicate k (Inr ()) @ replicate (length calls - k) (Inl e)
    \<and> wOut w' = wOut w @ concat (map call_line (take k calls)) @ frag
    \<and> (if k = length calls then frag = [] else prefix frag (call_line (calls ! k)))"
  using assms
proof (induction calls arbitrary: w rs)
  case Nil
  then show ?case by simp
next
  case (Cons c calls)
  obtain now env where c: "c = (now, env)" by force
  show ?case
  proof (cases "W (wOut w) (call_line c)")
    case Accepted
    let ?w = "w\<lparr>wOut := wOut w @ call_line c\<rparr>"
    obtain rs1 where rs1: "run_state (emit_all W calls) ?w = (rs1, w')" "rs = Inr () # rs1"
      using Cons.prems(1) Emit_settled(1) [OF Cons.prems(2)] Accepted c by (auto split: prod.splits)
    have "settled_writer ?w" using Cons.prems(2) by (simp add: settled_writer_def)
    from Cons.IH [OF rs1(1) this] obtain k frag e where k: "k \<le> length calls"
      "rs1 = replicate k (Inr ()) @ replicate (length calls - k) (Inl e)"
      "wOut w' = wOut ?w @ concat (map call_line (take k calls)) @ frag"
      "if k = length calls then frag = [] else prefix frag (call_line (calls ! k))" by blast
    then show ?thesis using rs1(2)
      by (intro exI [of _ "Suc k"] exI [of _ frag] exI [of _ e]) (simp split: if_splits)
  next
    case (Refused n e)
    from Emit_settled(2) [OF Cons.prems(2), of W now env n e] Refused c obtain buf where
      "run_state (Emit W now env) w = (Inl e, \<lparr>wOut = wOut w @ take n (call_line c), wBuffer = buf, wError = Some e\<rparr>)" by auto
    with Cons.prems(1) c emit_all_broken [of "\<lparr>wOut = wOut w @ take n (call_line c), wBuffer = buf, wError = Some e\<rparr>" e W calls]
    have "rs = Inl e # map (\<lambda>_. Inl e) calls" "wOut w' = wOut w @ take n (call_line c)" by auto
    then show ?thesis
      by (intro exI [of _ 0] exI [of _ "take n (call_line c)"] exI [of _ e]) (simp add: take_is_prefix map_replicate_const)
  qed
qed

section \<open>What the reader makes of lines\<close>

definition received :: "envelope \<Rightarrow> envelope" where
  "received env = env\<lparr>eData := DJson (payload_json (eData env))\<rparr>"

definition fits :: "envelope \<Rightarrow> bool" where
  "fits env \<longleftrightarrow> wire_ok env \<and> eSchemaVersion env = SchemaVersion \<and> length (record_line env) < maxLineBytes"

lemma record_line_shape:
  assumes "wire_ok env"
  shows "NL \<notin> set (record_line env)" "trimSpace (record_line env) \<noteq> []" "drop_cr (record_line env) = record_line env"
proof -
  obtain r where r: "record_line env = CHR ''{'' # r @ ''}''"
    using encode_envelope_line(2) [OF assms] by (auto simp: record_line_def)
  then show "trimSpace (record_line env) \<noteq> []" "drop_cr (record_line env) = record_line env"
    by (simp_all add: trimSpace_def drop_cr_def)
  show "NL \<notin> set (record_line env)" using encode_envelope_line(1) [OF assms] by (simp add: record_line_def)
qed

lemma scan_line:
  assumes "NL \<notin> set line" and "length line < maxLineBytes" and "line \<noteq> [] \<or> rest \<noteq> []" and "rest = [] \<or> hd rest = NL"
  shows "scanner_Scan \<lparr>rdBytes = line @ rest, rdEnd = e, rdRaw = raw\<rparr>
    = (Line (drop_cr line), \<lparr>rdBytes = tl rest, rdEnd = e, rdRaw = raw\<rparr>)"
proof -
  have "takeWhile (\<lambda>c. c \<noteq> NL) (line @ rest) = line"
    using assms(4) takeWhile_append2 [of line "\<lambda>c. c \<noteq> NL" rest] assms(1) by (cases rest) (auto simp del: takeWhile_append2)
  moreover have "drop (Suc (length line)) (line @ rest) = tl rest" by (cases rest) auto
  ultimately show ?thesis using assms(2,3) by (auto simp: scanner_Scan_def Let_def)
qed

lemma Next_record:
  assumes "fits env"
  shows "Next q \<lparr>rdBytes = record_line env @ NL # rest, rdEnd = e, rdRaw = raw\<rparr> u
    = (NextRecord (received env), \<lparr>rdBytes = rest, rdEnd = e, rdRaw = record_line env\<rparr>, u)"
  using assms record_line_shape [of env] scan_line [of "record_line env" "NL # rest" e raw]
    decode_encode [of env False]
  by (subst Next.simps) (simp add: fits_def record_line_def received_def)

lemma drain_records:
  assumes "\<forall>env \<in> set envs. fits env"
  shows "\<exists>raw'. drain (length envs + n) q \<lparr>rdBytes = concat (map (\<lambda>env. record_line env @ [NL]) envs) @ rest, rdEnd = e, rdRaw = raw\<rparr> u
    = (let (recs, res) = drain n q \<lparr>rdBytes = rest, rdEnd = e, rdRaw = raw'\<rparr> u
       in (map (\<lambda>env. (received env, record_line env)) envs @ recs, res))"
  using assms
proof (induction envs arbitrary: raw)
  case (Cons env envs)
  then obtain raw' where "drain (length envs + n) q
      \<lparr>rdBytes = concat (map (\<lambda>env. record_line env @ [NL]) envs) @ rest, rdEnd = e, rdRaw = record_line env\<rparr> u
    = (let (recs, res) = drain n q \<lparr>rdBytes = rest, rdEnd = e, rdRaw = raw'\<rparr> u
       in (map (\<lambda>env. (received env, record_line env)) envs @ recs, res))" by auto
  moreover have "fits env" using Cons.prems by simp
  ultimately show ?case by (intro exI [of _ raw']) (simp add: Next_record split: prod.split)
qed (auto split: prod.split)

section \<open>From writer to reader\<close>

lemma fits_record:
  assumes "fits env"
  shows "printable (record_line env)" and "\<exists>r. record_line env = CHR ''{'' # r"
proof -
  show "printable (record_line env)"
    using assms printable_encode envelope_readable(1) by (auto simp: fits_def record_line_def)
  show "\<exists>r. record_line env = CHR ''{'' # r"
    using assms encode_envelope_line(2) by (fastforce simp: fits_def record_line_def)
qed

lemma printable_whole:
  assumes "printable s"
  shows "drop_cr s = s" and "NL \<notin> set s"
proof -
  have c: "c \<notin> set s" if "code_of c < 32" for c using assms that by (auto simp: printable_def)
  then have "CHR 0x0D \<notin> set s" by (simp add: code_of_def)
  then show "drop_cr s = s" by (metis drop_cr_def last_in_set)
  show "NL \<notin> set s" by (rule c) (simp add: code_of_def)
qed

text \<open>The end of a stream that stops inside a line.\<close>

lemma drain_fragment:
  assumes "fits env" and "prefix frag (record_line env @ [NL])"
  shows "\<exists>m res r. drain (Suc (Suc n)) None \<lparr>rdBytes = frag, rdEnd = None, rdRaw = raw\<rparr> u
       = (replicate m (received env, record_line env), Some res, r, u)
    \<and> m \<le> 1 \<and> res \<in> {NextEOF, NextMalformed BadJson} \<and> (frag = [] \<longrightarrow> m = 0 \<and> res = NextEOF)"
proof -
  have ended: "Next q \<lparr>rdBytes = [], rdEnd = None, rdRaw = rw\<rparr> w = (NextEOF, \<lparr>rdBytes = [], rdEnd = None, rdRaw = rw\<rparr>, w)"
    for q :: "'a quarantine option" and rw w by (subst Next.simps) (simp add: scanner_Scan_def)
  from assms(2) consider "frag = []" | "frag = record_line env @ [NL]" | "frag = record_line env"
    | (torn) x where "frag @ x = record_line env" "x \<noteq> []" "frag \<noteq> []"
    by (metis append_Nil2 prefix_def prefix_snoc)
  then show ?thesis
  proof cases
    case 1
    then show ?thesis by (intro exI [of _ 0]) (simp add: ended)
  next
    case 2
    then show ?thesis using Next_record [OF assms(1), of None "[]" None raw u] by (intro exI [of _ 1]) (simp add: ended)
  next
    case 3
    have "Next None \<lparr>rdBytes = record_line env, rdEnd = None, rdRaw = raw\<rparr> u
      = (NextRecord (received env), \<lparr>rdBytes = [], rdEnd = None, rdRaw = record_line env\<rparr>, u)"
      using assms(1) record_line_shape [of env] scan_line [of "record_line env" "[]" None raw] fits_record(2) [OF assms(1)]
        decode_encode [of env False]
      by (subst Next.simps) (auto simp: fits_def record_line_def received_def)
    moreover have "record_line env \<noteq> []" using fits_record(2) [OF assms(1)] by auto
    ultimately show ?thesis using 3 by (intro exI [of _ 1]) (simp add: ended)
  next
    case torn
    have "wire_ok env" using assms(1) by (simp add: fits_def)
    have len: "length frag < maxLineBytes" and nl: "NL \<notin> set frag"
      using assms(1) record_line_shape(1) [OF \<open>wire_ok env\<close>] unfolding fits_def torn(1) [symmetric] by simp_all
    have pr: "printable frag" using fits_record(1) [OF assms(1)] unfolding torn(1) [symmetric] by simp
    note printable_whole(1) [OF pr]
    moreover obtain y where "frag = CHR ''{'' # y" 
      using fits_record(2) [OF assms(1)] torn(3) unfolding torn(1) [symmetric] by (cases frag) auto
    then have "trimSpace frag \<noteq> []" by (simp add: trimSpace_def)
    moreover have "decode_line frag = Inl BadJson"
      using decode_torn [OF \<open>wire_ok env\<close>, of frag x False] torn by (simp add: record_line_def)
    ultimately have "Next None \<lparr>rdBytes = frag, rdEnd = None, rdRaw = raw\<rparr> u
      = (NextMalformed BadJson, \<lparr>rdBytes = [], rdEnd = None, rdRaw = frag\<rparr>, u)"
      using scan_line [of frag "[]" None raw] len nl torn(3)
      by (subst Next.simps) (simp add: handleMalformed_def)
    then show ?thesis using torn(3) by (intro exI [of _ 0]) simp
  qed
qed

definition emitted_call :: "int \<times> envelope \<Rightarrow> envelope" where
  "emitted_call c = stamped (fst c) (snd c)"

lemma DedupKey_received: "DedupKey (received env) = DedupKey env"
  by (simp add: received_def DedupKey_def Let_def cong: if_cong)

text \<open>
C10: The pipe keeps the contract for records that fit it - texts that are UTF-8, integers of their
  width, the current schema version, a line below the reader's limit of 16 MiB: of a sequence of such
  records emitted, the reader gets, in order and complete, every record whose emission was acknowledged, byte for byte its line and field for
  field its envelope with the same deduplication key; at most one more, when the error hit after
  its last byte; and then the end of the stream, or a malformed last line. A torn line is
  never taken for a record, and after an error nothing more is written.
\<close>
theorem pipe_delivers:
  assumes "run_state (emit_all W calls) NewWriter = (rs, w)" and "\<forall>c \<in> set calls. fits (emitted_call c)"
    and "length calls + 2 \<le> n"
  shows "\<exists>k m e res r. rs = replicate k (Inr ()) @ replicate (length calls - k) (Inl e) \<and> k \<le> length calls
    \<and> k \<le> m \<and> m \<le> k + 1
    \<and> drain n None (NewReader (wOut w) None) () =
        (map (\<lambda>c. (received (emitted_call c), record_line (emitted_call c))) (take m calls), Some res, r, ())
    \<and> res \<in> {NextEOF, NextMalformed BadJson} \<and> (k = length calls \<longrightarrow> m = k \<and> res = NextEOF)
    \<and> (\<forall>c. DedupKey (received (emitted_call c)) = DedupKey (emitted_call c))"
proof -
  from emit_all_lines [OF assms(1)] obtain k frag e where k: "k \<le> length calls"
    "rs = replicate k (Inr ()) @ replicate (length calls - k) (Inl e)"
    "wOut w = concat (map call_line (take k calls)) @ frag"
    "if k = length calls then frag = [] else prefix frag (call_line (calls ! k))"
    by (auto simp: settled_writer_def NewWriter_def)
  let ?envs = "map emitted_call (take k calls)" and ?next = "if k = length calls then [] else [emitted_call (calls ! k)]"
  have out: "wOut w = concat (map (\<lambda>env. record_line env @ [NL]) ?envs) @ frag"
    using k(3) by (simp add: call_line_def [abs_def] emitted_call_def comp_def)
  obtain j where j: "n = length ?envs + Suc (Suc j)" using assms(3) k(1) by (auto dest!: le_Suc_ex)
  have fit: "\<forall>env \<in> set ?envs. fits env" using assms(2) by (auto dest: in_set_takeD)
  from drain_records [OF this, of "Suc (Suc j)" None frag None "[]" "()"] obtain raw where
    d: "drain n None (NewReader (wOut w) None) () =
      (let (recs, res) = drain (Suc (Suc j)) None \<lparr>rdBytes = frag, rdEnd = None, rdRaw = raw\<rparr> ()
       in (map (\<lambda>env. (received env, record_line env)) ?envs @ recs, res))"
    unfolding out j NewReader_def by blast
  show ?thesis
  proof (cases "k = length calls")
    case True
    then have "frag = []" using k(4) by simp
    with d True k show ?thesis
      by (intro exI [of _ k] exI [of _ k] exI [of _ e])
        (simp add: DedupKey_received comp_def, subst Next.simps, simp add: scanner_Scan_def)
  next
    case False
    let ?env = "emitted_call (calls ! k)"
    have "fits ?env" using assms(2) k(1) False by simp
    from drain_fragment [OF this, of frag j raw "()"] k(4) False obtain m res r where
      f: "drain (Suc (Suc j)) None \<lparr>rdBytes = frag, rdEnd = None, rdRaw = raw\<rparr> () =
        (replicate m (received ?env, record_line ?env), Some res, r, ())" "m \<le> 1" "res \<in> {NextEOF, NextMalformed BadJson}"
      by (auto simp: call_line_def emitted_call_def)
    have "take (k + m) calls = take k calls @ replicate m (calls ! k)"
      using f(2) k(1) False by (cases m) (auto simp: take_Suc_conv_app_nth)
    with d f k False show ?thesis
      by (intro exI [of _ k] exI [of _ "k + m"] exI [of _ e] exI [of _ res] exI [of _ r])
        (simp add: DedupKey_received comp_def)
  qed
qed

text \<open>A marker of a reorg, written to a descriptor that breaks inside the second line.\<close>

definition marker :: envelope where
  "marker = zero_envelope\<lparr> eType := TypeReorg, eTool := ToolStream, eName := ''reorg'', eChain := ''ethereum'', eChainID := 1,
     eBlockNumber := 100, eBlockHash := ''0xab'', eEmittedAt := ''2026-01-01T00:00:00Z'',
     eData := DReorg \<lparr> rdForkBlock = 98, rdFromBlock = 99, rdToBlock = 100, rdDepth = 2, rdOldHash = ''0xcd'', rdNewHash = [],
       rdDepthExceeded = False \<rparr> \<rparr>"

definition brief_pipe :: "string \<Rightarrow> string \<Rightarrow> write_answer" where
  "brief_pipe out p = (if out = [] then Accepted else Refused 7 ''broken pipe'')"

lemma marker_emitted: "emitted_call (0, marker) = marker\<lparr>eSchemaVersion := 1\<rparr>"
  by (simp add: emitted_call_def stamped_def marker_def SchemaVersion_def Let_def)

lemma marker_json: "envelope_json (marker\<lparr>eSchemaVersion := 1\<rparr>) = JObj
  [(''schema_version'', JNum (show_int 1)), (''type'', JStr ''reorg''), (''tool'', JStr ''evm-stream''), (''name'', JStr ''reorg''),
   (''chain'', JStr ''ethereum''), (''chain_id'', JNum (show_int 1)), (''block_number'', JNum (show_int 100)),
   (''block_hash'', JStr ''0xab''), (''emitted_at'', JStr ''2026-01-01T00:00:00Z''),
   (''data'', JObj [(''fork_block'', JNum (show_int 98)), (''from_block'', JNum (show_int 99)), (''to_block'', JNum (show_int 100)),
      (''depth'', JNum (show_int 2)), (''old_hash'', JStr ''0xcd'')])]"
  by (simp add: envelope_json_def envelope_fields_def marker_def zero_envelope_def payload_json_def reorg_json_def json_u64_def
      some_str_def some_int_def some_flag_def TypeReorg_def ToolStream_def)

lemma marker_length: "length (record_line (marker\<lparr>eSchemaVersion := 1\<rparr>)) < 400"
  unfolding record_line_def marker_json by code_simp

lemma marker_fits: "fits (emitted_call (0, marker))"
proof -
  have "\<forall>s \<in> {TypeReorg, ToolStream, ''reorg'', ''ethereum'', ''0xab'', ''2026-01-01T00:00:00Z'', ''0xcd''}. utf8 s"
    by (auto intro!: utf8_ascii simp: TypeReorg_def ToolStream_def code_of_def)
  then have "wire_ok (emitted_call (0, marker))"
    unfolding marker_emitted by (simp add: wire_ok_def marker_def zero_envelope_def int64_def)
  moreover have "length (record_line (emitted_call (0, marker))) < maxLineBytes"
    using marker_length unfolding marker_emitted maxLineBytes_def by simp
  moreover have "eSchemaVersion (emitted_call (0, marker)) = SchemaVersion"
    unfolding marker_emitted by (simp add: SchemaVersion_def)
  ultimately show ?thesis by (simp add: fits_def)
qed

lemma brief_pipe_run:
  "\<exists>w. run_state (emit_all brief_pipe [(0, marker), (0, marker)]) NewWriter = ([Inr (), Inl ''broken pipe''], w)"
proof -
  let ?w = "NewWriter\<lparr>wOut := wOut NewWriter @ call_line (0, marker)\<rparr>"
  have s: "settled_writer NewWriter" "settled_writer ?w" by (simp_all add: settled_writer_def NewWriter_def)
  have "run_state (Emit brief_pipe 0 marker) NewWriter = (Inr (), ?w)"
    by (rule Emit_settled(1) [OF s(1)]) (simp add: brief_pipe_def NewWriter_def)
  moreover obtain w where "run_state (Emit brief_pipe 0 marker) ?w = (Inl ''broken pipe'', w)"
    using Emit_settled(2) [OF s(2), of brief_pipe 0 marker 7 "''broken pipe''"] by (auto simp: brief_pipe_def NewWriter_def)
  ultimately show ?thesis by simp
qed

lemma pipe_delivers_witness:
  "\<exists>w m. run_state (emit_all brief_pipe [(0, marker), (0, marker)]) NewWriter = ([Inr (), Inl ''broken pipe''], w)
     \<and> 1 \<le> m \<and> fst (drain 4 None (NewReader (wOut w) None) ())
         = take m [(received (emitted_call (0, marker)), record_line (emitted_call (0, marker))),
                   (received (emitted_call (0, marker)), record_line (emitted_call (0, marker)))]"
proof -
  obtain w where w: "run_state (emit_all brief_pipe [(0, marker), (0, marker)]) NewWriter = ([Inr (), Inl ''broken pipe''], w)"
    using brief_pipe_run by blast
  have "\<forall>c \<in> set [(0, marker), (0, marker)]. fits (emitted_call c)" using marker_fits by simp
  from pipe_delivers [OF w this, of 4] obtain k m e res r where
    k: "[Inr (), Inl ''broken pipe''] = replicate k (Inr ()) @ replicate (length [(0 :: int, marker), (0, marker)] - k) (Inl e)"
      "k \<le> m" and d: "drain 4 None (NewReader (wOut w) None) () =
        (map (\<lambda>c. (received (emitted_call c), record_line (emitted_call c))) (take m [(0, marker), (0, marker)]), Some res, r, ())"
    by auto
  have "k \<noteq> 0" using k(1) by (cases k) auto
  moreover from d have "fst (drain 4 None (NewReader (wOut w) None) ()) =
      take m (map (\<lambda>c. (received (emitted_call c), record_line (emitted_call c))) [(0, marker), (0, marker)])"
    by (simp only: fst_conv take_map)
  ultimately show ?thesis using w k(2) by (intro exI [of _ w] exI [of _ m]) simp
qed

section \<open>Reading line by line\<close>

text \<open>What a stream of bytes is as lines, and what reading them one by one amounts to: the
specification of the loop over \<open>Next\<close>.\<close>

definition text_lines :: "string \<Rightarrow> string list" where
  "text_lines s = (let ps = split_on NL s in map drop_cr (if last ps = [] then butlast ps else ps))"

definition blank :: "string \<Rightarrow> bool" where
  "blank l \<longleftrightarrow> trimSpace l = []"

definition stream_lines :: "string \<Rightarrow> string list" where
  "stream_lines s = filter (\<lambda>l. \<not> blank l) (text_lines s)"

definition lines_fit :: "string \<Rightarrow> bool" where
  "lines_fit s \<longleftrightarrow> (\<forall>l \<in> set (split_on NL s). length l < maxLineBytes)"

fun consume :: "'w quarantine option \<Rightarrow> string list \<Rightarrow> 'w \<Rightarrow> (envelope \<times> string) list \<times> next_result \<times> 'w" where
  "consume q [] w = ([], NextEOF, w)"
| "consume q (l # ls) w =
     (case decode_line l of
        Inr env \<Rightarrow> (let (recs, res) = consume q ls w in ((env, l) # recs, res))
      | Inl m \<Rightarrow>
          (case handleMalformed q l m w of
             (Some e, w') \<Rightarrow> ([], e, w')
           | (None, w') \<Rightarrow> consume q ls w'))"

lemma split_first:
  assumes "s \<noteq> []"
  defines "l \<equiv> takeWhile (\<lambda>c. c \<noteq> NL) s" and "r \<equiv> drop (Suc (length (takeWhile (\<lambda>c. c \<noteq> NL) s))) s"
  shows "text_lines s = drop_cr l # text_lines r" and "lines_fit s \<Longrightarrow> length l < maxLineBytes \<and> lines_fit r"
proof -
  have nl: "NL \<notin> set l" unfolding l_def using set_takeWhileD by fastforce
  consider "s = l" "r = []" | "s = l @ NL # r"
  proof (cases "dropWhile (\<lambda>c. c \<noteq> NL) s")
    case Nil
    then have "s = l" unfolding l_def by (metis append_Nil2 takeWhile_dropWhile_id)
    moreover from this have "r = []" unfolding r_def l_def by simp
    ultimately show ?thesis using that by blast
  next
    case (Cons c t)
    then have "c = NL" using hd_dropWhile [of "\<lambda>c. c \<noteq> NL" s] by auto
    then have s: "s = l @ NL # t" unfolding l_def using Cons by (metis takeWhile_dropWhile_id)
    have "r = t" unfolding r_def l_def [symmetric] by (subst s) simp
    with s show ?thesis using that by blast
  qed
  then have "text_lines s = drop_cr l # text_lines r \<and> (lines_fit s \<longrightarrow> length l < maxLineBytes \<and> lines_fit r)"
  proof cases
    case 1
    then have "split_on NL s = [s]" using nl by (simp add: split_on_no_sep)
    with 1 assms(1) show ?thesis by (simp add: text_lines_def lines_fit_def maxLineBytes_def)
  next
    case 2
    then have "split_on NL s = l # split_on NL r" using nl by (simp add: split_on_append)
    then show ?thesis by (simp add: text_lines_def lines_fit_def Let_def)
  qed
  then show "text_lines s = drop_cr l # text_lines r" "lines_fit s \<Longrightarrow> length l < maxLineBytes \<and> lines_fit r" by blast+
qed

lemma text_lines_Nil [simp]: "text_lines [] = []" "stream_lines [] = []"
  by (simp_all add: text_lines_def stream_lines_def)

lemma drain_consume:
  assumes "lines_fit bytes" and "length (stream_lines bytes) < n"
  shows "\<exists>r'. drain n q \<lparr>rdBytes = bytes, rdEnd = None, rdRaw = raw\<rparr> w
    = (let (recs, res, w') = consume q (stream_lines bytes) w in (recs, Some res, r', w'))"
  using assms
proof (induction "length bytes" arbitrary: bytes n raw w rule: less_induct)
  case less
  obtain m where n: "n = Suc m" using less.prems(2) by (cases n) auto
  show ?case
  proof (cases "bytes = []")
    case True
    then have "Next q \<lparr>rdBytes = bytes, rdEnd = None, rdRaw = raw\<rparr> w = (NextEOF, \<lparr>rdBytes = bytes, rdEnd = None, rdRaw = raw\<rparr>, w)"
      by (subst Next.simps) (simp add: scanner_Scan_def)
    with True n show ?thesis by simp
  next
    case False
    let ?l = "takeWhile (\<lambda>c. c \<noteq> NL) bytes" and ?r = "drop (Suc (length (takeWhile (\<lambda>c. c \<noteq> NL) bytes))) bytes"
    let ?line = "drop_cr ?l"
    note sp = split_first [OF False]
    have short: "length ?r < length bytes" using False by (cases bytes) auto
    have scan: "scanner_Scan \<lparr>rdBytes = bytes, rdEnd = None, rdRaw = rw\<rparr> = (Line ?line, \<lparr>rdBytes = ?r, rdEnd = None, rdRaw = rw\<rparr>)" for rw
      using False sp(2) less.prems(1) by (simp add: scanner_Scan_def Let_def)
    have ls: "stream_lines bytes = (if blank ?line then [] else [?line]) @ stream_lines ?r"
      using sp(1) by (simp add: stream_lines_def)
    have fit: "lines_fit ?r" using sp(2) less.prems(1) by simp
    note IH = less.hyps [OF short fit]
    consider "blank ?line" | (rec) env where "\<not> blank ?line" "decode_line ?line = Inr env"
      | (bad) m where "\<not> blank ?line" "decode_line ?line = Inl m" by (cases "decode_line ?line") auto
    then show ?thesis
    proof cases
      case 1
      then have "Next q \<lparr>rdBytes = bytes, rdEnd = None, rdRaw = raw\<rparr> w = Next q \<lparr>rdBytes = ?r, rdEnd = None, rdRaw = raw\<rparr> w"
        by (subst Next.simps) (simp add: scan blank_def)
      with IH [of n raw w] less.prems(2) ls 1 n show ?thesis by simp
    next
      case rec
      then have "Next q \<lparr>rdBytes = bytes, rdEnd = None, rdRaw = raw\<rparr> w
        = (NextRecord env, \<lparr>rdBytes = ?r, rdEnd = None, rdRaw = ?line\<rparr>, w)"
        by (subst Next.simps) (simp add: scan blank_def)
      moreover obtain r' where "drain m q \<lparr>rdBytes = ?r, rdEnd = None, rdRaw = ?line\<rparr> w
        = (let (recs, res, w') = consume q (stream_lines ?r) w in (recs, Some res, r', w'))"
        using IH [of m ?line w] less.prems(2) ls rec n by auto
      ultimately show ?thesis using rec n ls by (auto split: prod.split)
    next
      case (bad e)
      obtain h w1 where h: "handleMalformed q ?line e w = (h, w1)" by force
      show ?thesis
      proof (cases h)
        case None
        with bad h have "Next q \<lparr>rdBytes = bytes, rdEnd = None, rdRaw = raw\<rparr> w = Next q \<lparr>rdBytes = ?r, rdEnd = None, rdRaw = ?line\<rparr> w1"
          by (subst Next.simps) (simp add: scan blank_def)
        with IH [of n ?line w1] less.prems(2) ls bad h None n show ?thesis by simp
      next
        case (Some x)
        with bad h have "Next q \<lparr>rdBytes = bytes, rdEnd = None, rdRaw = raw\<rparr> w = (x, \<lparr>rdBytes = ?r, rdEnd = None, rdRaw = ?line\<rparr>, w1)"
          by (subst Next.simps) (simp add: scan blank_def)
        moreover have "\<forall>env. x \<noteq> NextRecord env"
          using h Some by (auto simp: handleMalformed_def split: option.splits prod.splits)
        ultimately show ?thesis using ls bad h Some n by (auto split: next_result.split)
      qed
    qed
  qed
qed

end
