(* ===== verification/DeadLetter.thy ===== *)
theory DeadLetter
  imports Reader
begin

text \<open>
  The dead-letter file (\<^verbatim>\<open>internal/deadletter/deadletter.go\<close>): the quarantine hook that appends a line
  the reader cannot parse, base64-encoded, as one JSON entry, and has it on the disk before it
  answers; and what reader and file together guarantee of a stream. The answers of the file
  system and the clock are functions of the file so far.
\<close>

section \<open>Base64\<close>

definition b64_digit :: "nat \<Rightarrow> char" where
  "b64_digit n =
     (if n < 26 then char_of (65 + n)
      else if n < 52 then char_of (71 + n)
      else if n < 62 then char_of (n - 4)
      else if n = 62 then CHR ''+'' else CHR ''/'')"


text \<open>The inverse, as \<^verbatim>\<open>base64 -d\<close> reads it.\<close>

definition b64_value :: "char \<Rightarrow> nat" where
  "b64_value c =
     (let x = code_of c in
      if 65 \<le> x \<and> x \<le> 90 then x - 65
      else if 97 \<le> x \<and> x \<le> 122 then x - 71
      else if 48 \<le> x \<and> x \<le> 57 then x + 4
      else if x = 43 then 62 else 63)"


lemma b64_digit_code: "n < 64 \<Longrightarrow> code_of (b64_digit n) =
    (if n < 26 then 65 + n else if n < 52 then 71 + n else if n < 62 then n - 4 else if n = 62 then 43 else 47)"
  by (simp add: b64_digit_def) (simp add: code_of_def)

lemma b64_value_digit [simp]: "n < 64 \<Longrightarrow> b64_value (b64_digit n) = n"
  by (auto simp: b64_value_def b64_digit_code Let_def)

lemma b64_digit_not_pad [simp]: "n < 64 \<Longrightarrow> b64_digit n \<noteq> CHR ''=''"
proof
  assume "n < 64" "b64_digit n = CHR ''=''"
  then have "code_of (b64_digit n) = 61" by (simp add: code_of_def)
  with b64_digit_code [OF \<open>n < 64\<close>] show False by (auto split: if_splits)
qed

lemma code_of_bound: "code_of c < 256"
  by (simp add: code_of_def)

lemma b64_bounds [simp]: "code_of a div 4 < 64" "code_of a mod 4 * 16 + code_of b div 16 < 64"
    "code_of b mod 16 * 4 + code_of c div 64 < 64" "code_of a mod 4 * 16 < 64" "code_of b mod 16 * 4 < 64"
  using code_of_bound [of a] code_of_bound [of b] code_of_bound [of c] by auto

lemma char_of_code [simp]: "char_of (code_of c) = c"
  by (simp add: code_of_def)

lemma b64_parts [simp]: "code_of a div 16 div 16 = 0" "code_of a div 64 div 4 = 0"
    "code_of a div 16 mod 16 = code_of a div 16" "code_of a div 64 mod 4 = code_of a div 64"
  using code_of_bound [of a] by (simp_all flip: div_mult2_eq)



section \<open>The file\<close>

text \<open>The file's content, how much of it is known to be on the disk, whether it is open.\<close>

record dead_letter =
  dlPath :: string
  dlSink :: string
  dlFile :: string
  dlDurable :: string
  dlOpen :: bool

record dl_world =
  dlWrite :: "string \<Rightarrow> string \<Rightarrow> write_answer"
  dlSync :: "string \<Rightarrow> string option"
  dlClose :: "string \<Rightarrow> string option"
  dlNow :: "string \<Rightarrow> string"
  dlErrorText :: "malformed \<Rightarrow> string"




text \<open>\<open>dir\<close> is \<^verbatim>\<open>filepath.Dir\<close> of the path, \<open>mkdir\<close> and \<open>opened\<close> what the system answers; an existing
file is appended to.\<close>

definition dl_NewWriter :: "string \<Rightarrow> string \<Rightarrow> string \<Rightarrow> (string \<Rightarrow> string option) \<Rightarrow> (string \<Rightarrow> string + string) \<Rightarrow> string + dead_letter" where
  "dl_NewWriter path sink dir mkdir opened =
     (if path = [] then Inl ''deadletter: empty file path''
      else case (if dir \<noteq> [] \<and> dir \<noteq> ''.'' then mkdir dir else None) of
        Some e \<Rightarrow> Inl (''deadletter: create dir '' @ dir @ '': '' @ e)
      | None \<Rightarrow>
          (case opened path of
             Inl e \<Rightarrow> Inl (''deadletter: open '' @ path @ '': '' @ e)
           | Inr content \<Rightarrow>
               Inr \<lparr> dlPath = path, dlSink = sink, dlFile = content, dlDurable = content, dlOpen = True \<rparr>))"


definition dl_Close :: "dl_world \<Rightarrow> dead_letter \<Rightarrow> string option \<times> dead_letter" where
  "dl_Close W w =
     (if \<not> dlOpen w then (None, w)
      else
        (case dlClose W (dlFile w) of
           Some e \<Rightarrow> (Some (''deadletter: close '' @ dlPath w @ '': '' @ e), w\<lparr>dlOpen := False\<rparr>)
         | None \<Rightarrow> (None, w\<lparr>dlOpen := False\<rparr>)))"

section \<open>Nothing is dropped\<close>

text \<open>The lines of a stream, by what becomes of them.\<close>

definition records_of :: "string list \<Rightarrow> (envelope \<times> string) list" where
  "records_of ls = concat (map (\<lambda>l. case decode_line l of Inr env \<Rightarrow> [(env, l)] | Inl _ \<Rightarrow> []) ls)"

definition poison_of :: "string list \<Rightarrow> string list" where
  "poison_of ls = filter (\<lambda>l. \<exists>m. decode_line l = Inl m) ls"

lemma lines_of_simps [simp]:
  "records_of [] = []" "poison_of [] = []"
  "decode_line l = Inr env \<Longrightarrow> records_of (l # ls) = (env, l) # records_of ls" "decode_line l = Inr env \<Longrightarrow> poison_of (l # ls) = poison_of ls"
  "decode_line l = Inl m \<Longrightarrow> records_of (l # ls) = records_of ls" "decode_line l = Inl m \<Longrightarrow> poison_of (l # ls) = l # poison_of ls"
  by (auto simp: records_of_def poison_of_def)







section \<open>Reading the file back\<close>










end
