(* ===== verification/Checkpoint.thy ===== *)
theory Checkpoint
  imports Wire
begin

text \<open>
  The resume cursor on the disk (\<^verbatim>\<open>internal/checkpoint/checkpoint.go\<close>), over a file system with crashes:
  names point to files, a file's content is on the disk only once it was synchronised, and a power
  loss may also undo the latest changes of names. Every system call may succeed, fail, or be the
  last one of the process.
\<close>

section \<open>The disk\<close>

text \<open>The names as a process sees them; the versions of the names a power loss may fall back to, the
current one among them; content and state of each file; the number of the next file.\<close>

record disk =
  dkNames :: "string \<rightharpoonup> nat"
  dkVersions :: "(string \<rightharpoonup> nat) set"
  dkData :: "nat \<Rightarrow> string"
  dkSynced :: "nat \<Rightarrow> bool"
  dkNext :: nat

definition set_names :: "(string \<rightharpoonup> nat) \<Rightarrow> disk \<Rightarrow> disk" where
  "set_names m d = d\<lparr>dkNames := m, dkVersions := insert m (dkVersions d)\<rparr>"

definition set_data :: "nat \<Rightarrow> string \<Rightarrow> disk \<Rightarrow> disk" where
  "set_data i s d = d\<lparr>dkData := (dkData d)(i := s), dkSynced := (dkSynced d)(i := False)\<rparr>"

text \<open>A power loss: one of the versions of the names, and any content for what was not synchronised.\<close>

definition power_loss :: "disk \<Rightarrow> disk \<Rightarrow> bool" where
  "power_loss d d' \<longleftrightarrow>
     dkNames d' \<in> dkVersions d \<and> dkVersions d' = {dkNames d'} \<and> dkNext d' = dkNext d
     \<and> (\<forall>i. dkSynced d i \<longrightarrow> dkSynced d' i \<and> dkData d' i = dkData d i)"

datatype syscall =
    MkdirAll
  | OpenTruncate string
  | WriteFile nat string
  | SyncFile nat
  | CloseFile nat
  | Rename string string
  | Remove string

text \<open>A call is done, fails - a write after some bytes -, or the process dies in it, before or after
its effect.\<close>

datatype answer = Done | Fails nat string | Dies bool

type_synonym ck_world = "syscall list \<Rightarrow> syscall \<Rightarrow> answer"

record ck_state =
  ckDisk :: disk
  ckCalls :: "syscall list"

datatype ck_error = Died | CkFailed string

fun effect :: "syscall \<Rightarrow> disk \<Rightarrow> disk" where
  "effect MkdirAll d = d"
| "effect (OpenTruncate p) d =
     (case dkNames d p of
        Some i \<Rightarrow> set_data i [] d
      | None \<Rightarrow> (set_data (dkNext d) [] (set_names ((dkNames d)(p \<mapsto> dkNext d)) d))\<lparr>dkNext := Suc (dkNext d)\<rparr>)"
| "effect (WriteFile i s) d = set_data i (dkData d i @ s) d"
| "effect (SyncFile i) d = d\<lparr>dkSynced := (dkSynced d)(i := True)\<rparr>"
| "effect (CloseFile i) d = d"
| "effect (Rename a b) d = set_names ((dkNames d)(b := dkNames d a, a := None)) d"
| "effect (Remove p) d = set_names ((dkNames d)(p := None)) d"

definition failed_effect :: "nat \<Rightarrow> syscall \<Rightarrow> disk \<Rightarrow> disk" where
  "failed_effect n c d = (case c of WriteFile i s \<Rightarrow> effect (WriteFile i (take n s)) d | _ \<Rightarrow> d)"

definition sys :: "ck_world \<Rightarrow> syscall \<Rightarrow> (ck_state, ck_error + unit) state" where
  "sys W c =
     do { h \<leftarrow> gets ckCalls;
          modify (\<lambda>s. s\<lparr>ckCalls := h @ [c]\<rparr>);
          (case W h c of
             Done \<Rightarrow> do { modify (\<lambda>s. s\<lparr>ckDisk := effect c (ckDisk s)\<rparr>); ok () }
           | Fails n e \<Rightarrow> do { modify (\<lambda>s. s\<lparr>ckDisk := failed_effect n c (ckDisk s)\<rparr>); fail (CkFailed e) }
           | Dies b \<Rightarrow> do { modify (\<lambda>s. s\<lparr>ckDisk := (if b then effect c (ckDisk s) else ckDisk s)\<rparr>); fail Died }) }"

section \<open>Load and Save\<close>

record cursor =
  cuChainID :: int
  cuLastBlock :: u64

definition cursor_json :: "cursor \<Rightarrow> json" where
  "cursor_json c = JObj [(''chain_id'', JNum (show_int (cuChainID c))), (''last_block'', json_u64 (cuLastBlock c))]"

definition cursor_text :: "cursor \<Rightarrow> string" where
  "cursor_text c = encode_json True (cursor_json c) @ [NL]"

fun cursor_fields :: "(string \<times> json) list \<Rightarrow> cursor \<Rightarrow> cursor option" where
  "cursor_fields [] c = Some c"
| "cursor_fields ((k, v) # ms) c =
     (if to_lower k = ''chain_id'' then
        (case read_int v (cuChainID c) of None \<Rightarrow> None | Some x \<Rightarrow> cursor_fields ms (c\<lparr>cuChainID := x\<rparr>))
      else if to_lower k = ''last_block'' then
        (case read_u64 v (cuLastBlock c) of None \<Rightarrow> None | Some x \<Rightarrow> cursor_fields ms (c\<lparr>cuLastBlock := x\<rparr>))
      else cursor_fields ms c)"

text \<open>\<^verbatim>\<open>json.Unmarshal\<close>: one value and nothing else.\<close>

definition parse_cursor :: "string \<Rightarrow> cursor option" where
  "parse_cursor s =
     (case parse_value (Suc (2 * length s)) maxNestingDepth s of
        Some (j, r) \<Rightarrow>
          if skip_ws r \<noteq> [] then None
          else
            (case j of
               JObj ms \<Rightarrow> cursor_fields ms \<lparr>cuChainID = 0, cuLastBlock = 0\<rparr>
             | JNull \<Rightarrow> Some \<lparr>cuChainID = 0, cuLastBlock = 0\<rparr>
             | _ \<Rightarrow> None)
      | None \<Rightarrow> None)"

text \<open>\<open>denied\<close> is an error of reading an existing file.\<close>

definition ck_Load :: "string option \<Rightarrow> string \<Rightarrow> disk \<Rightarrow> string + cursor option" where
  "ck_Load denied path d =
     (case dkNames d path of
        None \<Rightarrow> Inr None
      | Some i \<Rightarrow>
          (case denied of
             Some e \<Rightarrow> Inl (''checkpoint: read '' @ path @ '': '' @ e)
           | None \<Rightarrow>
               (case parse_cursor (dkData d i) of
                  None \<Rightarrow> Inl (''checkpoint: parse '' @ path)
                | Some c \<Rightarrow> Inr (Some c))))"

definition tmp_of :: "string \<Rightarrow> string" where
  "tmp_of path = path @ ''.tmp''"

text \<open>The deferred clean-up of a failed step, its own errors ignored; a process that died does nothing
any more.\<close>

definition or_remove :: "ck_world \<Rightarrow> syscall list \<Rightarrow> string \<Rightarrow> (ck_state, ck_error + unit) state \<Rightarrow> (ck_state, ck_error + unit) state" where
  "or_remove W before text m =
     do { r \<leftarrow> m;
          (case r of
             Inr u \<Rightarrow> ok u
           | Inl Died \<Rightarrow> fail Died
           | Inl (CkFailed e) \<Rightarrow> do {
               r2 \<leftarrow> for_each (\<lambda>c. do { x \<leftarrow> sys W c; (if x = Inl Died then fail Died else ok ()) }) before;
               (case r2 of Inl _ \<Rightarrow> fail Died | Inr _ \<Rightarrow> fail (CkFailed (''checkpoint: '' @ text @ '': '' @ e))) }) }"

definition write_temp :: "ck_world \<Rightarrow> string \<Rightarrow> cursor \<Rightarrow> nat \<Rightarrow> (ck_state, ck_error + unit) state" where
  "write_temp W path c f =
     (let tmp = tmp_of path in
      check (or_remove W [CloseFile f, Remove tmp] ''write temp'' (sys W (WriteFile f (cursor_text c)))) (\<lambda>_.
      check (or_remove W [CloseFile f, Remove tmp] ''fsync temp'' (sys W (SyncFile f))) (\<lambda>_.
      check (or_remove W [Remove tmp] ''close temp'' (sys W (CloseFile f))) (\<lambda>_.
        or_remove W [Remove tmp] ''rename'' (sys W (Rename tmp path))))))"

text \<open>The file that is open is the one the temporary name stands for.\<close>

definition ck_Save :: "ck_world \<Rightarrow> string \<Rightarrow> cursor \<Rightarrow> (ck_state, ck_error + unit) state" where
  "ck_Save W path c =
     check (or_remove W [] ''create dir'' (sys W MkdirAll)) (\<lambda>_.
     check (or_remove W [] ''open temp'' (sys W (OpenTruncate (tmp_of path)))) (\<lambda>_.
     do { names \<leftarrow> gets (\<lambda>s. dkNames (ckDisk s));
          write_temp W path c (the (names (tmp_of path))) }))"

section \<open>What a crash can leave\<close>

text \<open>Every version of the names shows, at the path, a synchronised file with the text of a cursor that
was saved, or none; the file at the temporary name is never that of the same version, and the
file it stands for now is that of no version.\<close>

definition saved_file :: "cursor set \<Rightarrow> disk \<Rightarrow> nat \<Rightarrow> bool" where
  "saved_file S d i \<longleftrightarrow> dkSynced d i \<and> dkData d i \<in> cursor_text ` S"

definition numbered :: "nat \<Rightarrow> (string \<rightharpoonup> nat) \<Rightarrow> bool" where
  "numbered n m \<longleftrightarrow> (\<forall>p i. m p = Some i \<longrightarrow> i < n)"

definition ck_ok :: "string \<Rightarrow> cursor set \<Rightarrow> disk \<Rightarrow> bool" where
  "ck_ok path S d \<longleftrightarrow>
     dkNames d \<in> dkVersions d
     \<and> (\<forall>m \<in> dkVersions d. numbered (dkNext d) m \<and> (\<forall>i. m path = Some i \<longrightarrow> saved_file S d i)
          \<and> (\<forall>j. m (tmp_of path) = Some j \<longrightarrow> m path \<noteq> Some j))
     \<and> (\<forall>j. dkNames d (tmp_of path) = Some j \<longrightarrow> (\<forall>m \<in> dkVersions d. m path \<noteq> Some j))"

lemma ck_okD:
  assumes "ck_ok path S d"
  shows "dkNames d \<in> dkVersions d" "m \<in> dkVersions d \<Longrightarrow> m path = Some i \<Longrightarrow> saved_file S d i"
    "m \<in> dkVersions d \<Longrightarrow> m p \<noteq> Some (dkNext d)"
proof -
  show "dkNames d \<in> dkVersions d" "m \<in> dkVersions d \<Longrightarrow> m path = Some i \<Longrightarrow> saved_file S d i"
    using assms unfolding ck_ok_def by blast+
  assume "m \<in> dkVersions d"
  with assms have "numbered (dkNext d) m" by (simp add: ck_ok_def)
  then show "m p \<noteq> Some (dkNext d)" by (auto simp: numbered_def)
qed

lemma saved_file_mono: "saved_file S d i \<Longrightarrow> S \<subseteq> S' \<Longrightarrow> saved_file S' d i"
  by (auto simp: saved_file_def)

lemma ck_ok_mono: "ck_ok path S d \<Longrightarrow> S \<subseteq> S' \<Longrightarrow> ck_ok path S' d"
  unfolding ck_ok_def by (meson saved_file_mono)

text \<open>What a reader finds at the path.\<close>

definition view :: "string \<Rightarrow> disk \<Rightarrow> string option" where
  "view path d = map_option (dkData d) (dkNames d path)"

lemma tmp_neq [simp]: "tmp_of path \<noteq> path" "path \<noteq> tmp_of path"
  by (simp_all add: tmp_of_def)

lemma set_data_simps [simp]: "dkNames (set_data f s d) = dkNames d" "dkVersions (set_data f s d) = dkVersions d"
    "dkNext (set_data f s d) = dkNext d" "dkData (set_data f s d) = (dkData d)(f := s)"
    "i \<noteq> f \<Longrightarrow> saved_file S (set_data f s d) i = saved_file S d i"
  by (simp_all add: set_data_def saved_file_def)

lemma set_names_simps [simp]: "dkNames (set_names m d) = m" "dkVersions (set_names m d) = insert m (dkVersions d)"
    "dkNext (set_names m d) = dkNext d" "dkData (set_names m d) = dkData d"
    "dkSynced (set_names m d) = dkSynced d" "saved_file S (set_names m d) i = saved_file S d i"
  by (simp_all add: set_names_def saved_file_def)

text \<open>The calls before the renaming keep both.\<close>

definition same :: "string \<Rightarrow> cursor set \<Rightarrow> string option \<Rightarrow> disk \<Rightarrow> bool" where
  "same path S v d \<longleftrightarrow> ck_ok path S d \<and> view path d = v"

lemma not_shown:
  assumes "ck_ok path S d" and "\<forall>m \<in> dkVersions d. m path \<noteq> Some f"
  shows "ck_ok path S (set_data f s d)" and "view path (set_data f s d) = view path d"
proof -
  have c: "dkNames d \<in> dkVersions d" using assms(1) by (simp add: ck_ok_def)
  show "ck_ok path S (set_data f s d)" using assms unfolding ck_ok_def by (metis set_data_simps(1-3,5))
  show "view path (set_data f s d) = view path d" using assms(2) c by (cases "dkNames d path") (auto simp: view_def)
qed

lemma same_data:
  "same path S v d \<Longrightarrow> dkNames d (tmp_of path) = Some f \<Longrightarrow> same path S v (set_data f s d)"
  using not_shown [of path S d f s] by (auto simp: same_def ck_ok_def)

lemma new_name:
  assumes "ck_ok path S d" and "dkNames d (tmp_of path) = None"
  shows "ck_ok path S ((set_names ((dkNames d)(tmp_of path \<mapsto> dkNext d)) d)\<lparr>dkNext := Suc (dkNext d)\<rparr>)"
proof -
  let ?m = "(dkNames d)(tmp_of path \<mapsto> dkNext d)"
  have n: "numbered (dkNext d) (dkNames d)" using assms(1) by (simp add: ck_ok_def)
  have lt: "numbered (Suc (dkNext d)) m" if "numbered (dkNext d) m" for m using that by (auto simp: numbered_def less_Suc_eq)
  have "numbered (Suc (dkNext d)) ?m" using lt [OF n] by (auto simp: numbered_def)
  moreover have "m path \<noteq> Some (dkNext d)" if "m \<in> dkVersions d" for m
    using ck_okD(3) [OF assms(1) that] .
  moreover have "saved_file S (x\<lparr>dkNext := k\<rparr>) i = saved_file S x i" for x k i by (simp add: saved_file_def)
  ultimately show ?thesis using assms lt
    by (auto simp: ck_ok_def)
qed

lemma same_open:
  assumes "same path S v d"
  defines "d' \<equiv> effect (OpenTruncate (tmp_of path)) d"
  shows "same path S v d'" and "\<exists>f. dkNames d' (tmp_of path) = Some f \<and> dkData d' f = []"
proof -
  show "\<exists>f. dkNames d' (tmp_of path) = Some f \<and> dkData d' f = []"
    unfolding d'_def by (cases "dkNames d (tmp_of path)") auto
  show "same path S v d'"
  proof (cases "dkNames d (tmp_of path)")
    case None
    let ?d = "(set_names ((dkNames d)(tmp_of path \<mapsto> dkNext d)) d)\<lparr>dkNext := Suc (dkNext d)\<rparr>"
    have ok: "ck_ok path S d" using assms(1) by (simp add: same_def)
    have d': "d' = set_data (dkNext d) [] ?d" unfolding d'_def using None by (simp add: set_data_def set_names_def)
    have "\<forall>m \<in> dkVersions ?d. m path \<noteq> Some (dkNext d)"
      using ck_okD(3) [OF ok] ok by (auto simp: ck_ok_def)
    moreover have "ck_ok path S ?d" by (rule new_name [OF ok None])
    moreover have "view path ?d = view path d" by (simp add: view_def)
    ultimately show ?thesis using not_shown [of path S ?d "dkNext d" "[]"] assms(1) unfolding d' by (simp add: same_def)
  next
    case (Some i)
    with same_data [OF assms(1)] show ?thesis unfolding d'_def by simp
  qed
qed

lemma same_remove: "same path S v d \<Longrightarrow> same path S v (effect (Remove (tmp_of path)) d)"
  by (auto simp: same_def ck_ok_def view_def numbered_def)

lemma same_sync: "same path S v d \<Longrightarrow> same path S v (effect (SyncFile f) d)"
  by (auto simp: same_def ck_ok_def view_def saved_file_def)

text \<open>Any outcome of a call that is not the renaming.\<close>

definition harmless :: "string \<Rightarrow> nat \<Rightarrow> syscall \<Rightarrow> bool" where
  "harmless path f c \<longleftrightarrow> (case c of
      MkdirAll \<Rightarrow> True | OpenTruncate p \<Rightarrow> p = tmp_of path | WriteFile i _ \<Rightarrow> i = f | SyncFile _ \<Rightarrow> True | CloseFile _ \<Rightarrow> True
    | Remove p \<Rightarrow> p = tmp_of path | Rename _ _ \<Rightarrow> False)"

lemma harmless_effect:
  assumes "same path S v d" and "harmless path f c" and "dkNames d (tmp_of path) = Some f \<or> (\<forall>s. c \<noteq> WriteFile f s)"
  shows "same path S v (effect c d)" and "same path S v (failed_effect n c d)"
  using assms same_data [OF assms(1)] same_open(1) [OF assms(1)] same_remove [OF assms(1)] same_sync [OF assms(1)]
  by (cases c; force simp: harmless_def failed_effect_def simp del: effect.simps(2,4,7))+

lemma sys_outcome:
  assumes "run_state (sys W c) s = (r, s')"
  shows "r = Inr () \<and> ckDisk s' = effect c (ckDisk s)
    \<or> (\<exists>e. r = Inl (CkFailed e)) \<and> (\<exists>n. ckDisk s' = failed_effect n c (ckDisk s))
    \<or> r = Inl Died \<and> (ckDisk s' = ckDisk s \<or> ckDisk s' = effect c (ckDisk s))"
  using assms by (auto simp: sys_def run_simps split: answer.splits if_splits)

lemma sys_same:
  assumes "run_state (sys W c) s = (r, s')" and "same path S v (ckDisk s)" and "harmless path f c"
    and "dkNames (ckDisk s) (tmp_of path) = Some f \<or> (\<forall>t. c \<noteq> WriteFile f t)"
  shows "same path S v (ckDisk s')"
  using sys_outcome [OF assms(1)] harmless_effect [OF assms(2-4)] assms(2) by auto

text \<open>The clean-up keeps both, too.\<close>

interpretation keep_same: step_order "\<lambda>s s'. same path S v (ckDisk s) \<longrightarrow> same path S v (ckDisk s')" for path S v
  by unfold_locales auto

lemma or_remove_outcome:
  assumes "run_state (or_remove W before t m) s = (r, s')" and "\<forall>c \<in> set before. \<exists>f. c = CloseFile f \<or> c = Remove (tmp_of path)"
  obtains (finished) "r = Inr ()" "run_state m s = (Inr (), s')"
  | (failed) e r1 s1 where "r = Inl e" "run_state m s = (Inl r1, s1)"
      "\<And>S v. same path S v (ckDisk s1) \<Longrightarrow> same path S v (ckDisk s')"
proof -
  let ?tidy = "for_each (\<lambda>c. do { x \<leftarrow> sys W c; (if x = Inl Died then fail Died else ok ()) }) before"
  have keep: "same path S v (ckDisk s1) \<longrightarrow> same path S v (ckDisk s2)"
    if "run_state ?tidy s1 = (x, s2)" for S v s1 s2 and x :: "ck_error + unit"
  proof -
    have io: "state_io_rel (\<lambda>s s'. same path S v (ckDisk s) \<longrightarrow> same path S v (ckDisk s')) ?tidy"
    proof (intro keep_same.io_intros)
      fix c assume "c \<in> set before"
      with assms(2) have h: "harmless path 0 c" "dkNames d p = Some 0 \<or> (\<forall>t. c \<noteq> WriteFile 0 t)" for d p
        by (auto simp: harmless_def)
      show "state_io_rel (\<lambda>s s'. same path S v (ckDisk s) \<longrightarrow> same path S v (ckDisk s')) (sys W c)"
        unfolding state_io_rel_def by (intro allI impI) (rule sys_same [OF prod.collapse [symmetric] _ h])
    qed
    show ?thesis by (rule state_io_relD [OF io that])
  qed
  obtain r1 s1 where m: "run_state m s = (r1, s1)" by force
  show thesis
  proof (cases r1)
    case (Inr u)
    with assms(1) m show thesis by (intro finished) (auto simp: or_remove_def run_simps)
  next
    case (Inl e1)
    show thesis
    proof (cases e1)
      case Died
      with assms(1) m Inl show thesis by (intro failed [of Died e1 s1]) (auto simp: or_remove_def run_simps)
    next
      case (CkFailed x)
      obtain r2 s2 where t: "run_state ?tidy s1 = (r2, s2)" by force
      with assms(1) m Inl CkFailed have "\<exists>e. r = Inl e" "s' = s2"
        by (auto simp: or_remove_def run_simps split: sum.splits)
      with m Inl keep [OF t] show thesis by (auto intro: failed)
    qed
  qed
qed

section \<open>Saving\<close>

lemma run_check_cases:
  assumes "run_state (check m k) s = (r, s')"
  obtains (err) e where "run_state m s = (Inl e, s')" "r = Inl e"
  | (ok) x s1 where "run_state m s = (Inr x, s1)" "run_state (k x) s1 = (r, s')"
  using assms by (auto simp: run_check split: prod.splits sum.splits)

lemma step_same:
  assumes "run_state (or_remove W before t (sys W c)) s = (r, s')"
    and "\<forall>c \<in> set before. \<exists>f. c = CloseFile f \<or> c = Remove (tmp_of path)"
    and "same path S v (ckDisk s)" and "harmless path f c"
    and "dkNames (ckDisk s) (tmp_of path) = Some f \<or> (\<forall>t. c \<noteq> WriteFile f t)"
  shows "same path S v (ckDisk s')" and "r = Inr () \<Longrightarrow> ckDisk s' = effect c (ckDisk s)"
proof -
  have "same path S v (ckDisk s') \<and> (r = Inr () \<longrightarrow> ckDisk s' = effect c (ckDisk s))"
  proof (cases rule: or_remove_outcome [OF assms(1,2)])
    case 1
    with sys_same [OF 1(2) assms(3-5)] sys_outcome [OF 1(2)] show ?thesis by auto
  next
    case (2 e r1 s1)
    with sys_same [OF 2(2) assms(3-5)] show ?thesis by auto
  qed
  then show "same path S v (ckDisk s')" "r = Inr () \<Longrightarrow> ckDisk s' = effect c (ckDisk s)" by blast+
qed

lemma renamed:
  assumes "same path S v d" and "dkNames d (tmp_of path) = Some f" and "dkSynced d f" and "dkData d f = cursor_text c" and "c \<in> S"
  shows "same path S (Some (cursor_text c)) (effect (Rename (tmp_of path) path) d)"
  using assms by (auto simp: same_def ck_ok_def view_def numbered_def saved_file_def)

lemma rename_step:
  assumes "run_state (or_remove W [Remove (tmp_of path)] t (sys W (Rename (tmp_of path) path))) s = (r, s')"
    and "same path S v (ckDisk s)" and "dkNames (ckDisk s) (tmp_of path) = Some f" and "dkSynced (ckDisk s) f"
    and "dkData (ckDisk s) f = cursor_text c" and "c \<in> S"
  shows "same path S (Some (cursor_text c)) (ckDisk s') \<or> r \<noteq> Inr () \<and> same path S v (ckDisk s')"
proof -
  note new = renamed [OF assms(2-6)]
  have b: "\<forall>x \<in> set [Remove (tmp_of path)]. \<exists>f. x = CloseFile f \<or> x = Remove (tmp_of path)" by simp
  show ?thesis
  proof (cases rule: or_remove_outcome [OF assms(1) b])
    case 1
    with sys_outcome [OF 1(2)] new show ?thesis by auto
  next
    case (2 e r1 s1)
    from sys_outcome [OF 2(2)] assms(2) new
    have "same path S v (ckDisk s1) \<or> same path S (Some (cursor_text c)) (ckDisk s1)" by (auto simp: failed_effect_def)
    with 2 show ?thesis by auto
  qed
qed

lemma write_outcome:
  assumes "run_state (write_temp W path c f) s = (r, s')" and "same path S v (ckDisk s)" and "c \<in> S"
    and "dkNames (ckDisk s) (tmp_of path) = Some f" and "dkData (ckDisk s) f = []"
  shows "same path S (Some (cursor_text c)) (ckDisk s') \<or> r \<noteq> Inr () \<and> same path S v (ckDisk s')"
  using assms(1) unfolding write_temp_def Let_def
proof (cases rule: run_check_cases)
  have clean: "\<forall>c \<in> set [CloseFile f, Remove (tmp_of path)]. \<exists>f. c = CloseFile f \<or> c = Remove (tmp_of path)"
    "\<forall>c \<in> set [Remove (tmp_of path)]. \<exists>f. c = CloseFile f \<or> c = Remove (tmp_of path)" by auto
  {
    case (err e)
    with step_same(1) [OF err(1) clean(1) assms(2), where f = f] assms(4) show ?thesis by (auto simp: harmless_def)
  next
    case (ok _ s3)
    have d3: "same path S v (ckDisk s3)" and e3: "ckDisk s3 = effect (WriteFile f (cursor_text c)) (ckDisk s)"
      using step_same [OF ok(1) clean(1) assms(2), where f = f] assms(4) by (simp_all add: harmless_def del: effect.simps)
    from ok(2) show ?thesis
    proof (cases rule: run_check_cases)
      case (err e)
      with step_same(1) [OF err(1) clean(1) d3, where f = f] show ?thesis by (auto simp: harmless_def)
    next
      case (ok _ s4)
      have d4: "same path S v (ckDisk s4)" and e4: "ckDisk s4 = effect (SyncFile f) (ckDisk s3)"
        using step_same [OF ok(1) clean(1) d3, where f = f] by (simp_all add: harmless_def del: effect.simps)
      from ok(2) show ?thesis
      proof (cases rule: run_check_cases)
        case (err e)
        with step_same(1) [OF err(1) clean(2) d4, where f = f] show ?thesis by (auto simp: harmless_def)
      next
        case (ok _ s5)
        have d5: "same path S v (ckDisk s5)" and e5: "ckDisk s5 = effect (CloseFile f) (ckDisk s4)"
          using step_same [OF ok(1) clean(2) d4, where f = f] by (simp_all add: harmless_def del: effect.simps)
        show ?thesis by (rule rename_step [OF ok(2) d5 _ _ _ assms(3), where f = f]) (simp_all add: e5 e4 e3 assms(4,5))
      qed
    qed
  }
qed

text \<open>A save shows the new cursor when it succeeds; otherwise the old one or the new one.\<close>

lemma save_outcome:
  assumes "run_state (ck_Save W path c) s = (r, s')" and "same path S v (ckDisk s)" and "c \<in> S"
  shows "same path S (Some (cursor_text c)) (ckDisk s') \<or> r \<noteq> Inr () \<and> same path S v (ckDisk s')"
  using assms(1) unfolding ck_Save_def
proof (cases rule: run_check_cases)
  case (err e)
  with step_same(1) [OF err(1) _ assms(2), where f = 0] show ?thesis by (auto simp: harmless_def)
next
  case (ok _ s1)
  have d1: "same path S v (ckDisk s1)" using step_same(1) [OF ok(1) _ assms(2), where f = 0] by (simp add: harmless_def)
  from ok(2) show ?thesis
  proof (cases rule: run_check_cases)
    case (err e)
    with step_same(1) [OF err(1) _ d1, where f = 0] show ?thesis by (auto simp: harmless_def)
  next
    case (ok _ s2)
    have d2: "same path S v (ckDisk s2)" and e2: "ckDisk s2 = effect (OpenTruncate (tmp_of path)) (ckDisk s1)"
      using step_same [OF ok(1) _ d1, where f = 0] by (simp_all add: harmless_def del: effect.simps)
    from same_open(2) [OF d1] obtain f where f: "dkNames (ckDisk s2) (tmp_of path) = Some f" "dkData (ckDisk s2) f = []"
      unfolding e2 by blast
    from ok(2) f(1) have "run_state (write_temp W path c f) s2 = (r, s')" by (simp add: run_simps)
    from write_outcome [OF this d2 assms(3) f] show ?thesis .
  qed
qed

section \<open>Saves and power losses in any order\<close>

text \<open>The disks that can come about from one without a cursor, and the cursors whose saving was begun.\<close>

inductive ck_runs :: "string \<Rightarrow> cursor set \<Rightarrow> disk \<Rightarrow> bool" for path where
  start: "dkNames d path = None \<Longrightarrow> dkVersions d = {dkNames d} \<Longrightarrow> numbered (dkNext d) (dkNames d) \<Longrightarrow> ck_runs path {} d"
| save: "ck_runs path S d \<Longrightarrow> run_state (ck_Save W path c) \<lparr>ckDisk = d, ckCalls = h\<rparr> = (r, s') \<Longrightarrow>
     ck_runs path (insert c S) (ckDisk s')"
| loss: "ck_runs path S d \<Longrightarrow> power_loss d d' \<Longrightarrow> ck_runs path S d'"

lemma loss_ok: "ck_ok path S d \<Longrightarrow> power_loss d d' \<Longrightarrow> ck_ok path S d'"
  unfolding ck_ok_def power_loss_def saved_file_def by auto

lemma ck_runs_ok: "ck_runs path S d \<Longrightarrow> ck_ok path S d"
proof (induction rule: ck_runs.induct)
  case (start d)
  then show ?case by (simp add: ck_ok_def)
next
  case (save S d W c h r s')
  then have "same path (insert c S) (view path d) d" by (auto simp: same_def intro: ck_ok_mono)
  with save_outcome [OF save.hyps(2)] show ?case by (auto simp: same_def)
next
  case (loss S d d')
  then show ?case by (blast intro: loss_ok)
qed

lemma cursor_reads_back:
  assumes "int64 (cuChainID c)"
  shows "parse_cursor (cursor_text c) = Some c"
proof -
  let ?t = "encode_json True (cursor_json c)"
  have names: "utf8 ''chain_id''" "utf8 ''last_block''" by (auto intro!: utf8_ascii simp: code_of_def)
  have "parse_value (Suc (2 * length (cursor_text c))) maxNestingDepth (?t @ [NL]) = Some (cursor_json c, [NL])"
    using names by (intro parse_encode) (auto simp: cursor_json_def json_u64_def utf8_def maxNestingDepth_def cursor_text_def)
  moreover have "skip_ws [NL] = []" by (simp add: skip_ws_def is_json_space_def)
  moreover have "to_lower ''chain_id'' = ''chain_id''" "to_lower ''last_block'' = ''last_block''"
    by (simp_all add: to_lower_def lower_char_def code_of_def)
  ultimately show ?thesis using assms
    by (simp add: parse_cursor_def cursor_text_def cursor_json_def json_u64_def read_int_def read_u64_def)
qed

lemma Load_view:
  "ck_Load None path d = (case view path d of None \<Rightarrow> Inr None
     | Some s \<Rightarrow> (case parse_cursor s of None \<Rightarrow> Inl (''checkpoint: parse '' @ path) | Some c \<Rightarrow> Inr (Some c)))"
  by (simp add: ck_Load_def view_def split: option.split)

text \<open>
C9: No crash tears the cursor: after any sequence of saves - each completed, failed or cut off at
  any system call - and of power losses in between, loading finds no cursor or one whose
  saving was begun, never a torn or empty file. Until the next power loss, a save that returned
  is the cursor that is loaded, and one that did not leaves the old cursor or the new one. A power
  loss may bring back an older cursor, or none, although a later save was acknowledged: the rename
  is not made durable (\<open>acknowledged_save_can_be_lost\<close>).
\<close>
theorem cursor_survives_crashes:
  assumes "ck_runs path S d" and "\<forall>c \<in> S. int64 (cuChainID c)"
  shows "(ck_Load None path d = Inr None \<or> (\<exists>c \<in> S. ck_Load None path d = Inr (Some c)))
    \<and> (\<forall>W c h r s'. run_state (ck_Save W path c) \<lparr>ckDisk = d, ckCalls = h\<rparr> = (r, s') \<longrightarrow> int64 (cuChainID c) \<longrightarrow>
         ck_Load None path (ckDisk s') = Inr (Some c)
         \<or> r \<noteq> Inr () \<and> ck_Load None path (ckDisk s') = ck_Load None path d)"
proof (intro conjI allI impI)
  have ok: "ck_ok path S d" by (rule ck_runs_ok [OF assms(1)])
  show "ck_Load None path d = Inr None \<or> (\<exists>c \<in> S. ck_Load None path d = Inr (Some c))"
  proof (cases "dkNames d path")
    case (Some i)
    then have "saved_file S d i" using ck_okD(1,2) [OF ok] by blast
    then obtain c where "c \<in> S" "dkData d i = cursor_text c" by (auto simp: saved_file_def)
    with Some assms(2) cursor_reads_back [of c] show ?thesis by (auto simp: ck_Load_def)
  qed (simp add: ck_Load_def)
  fix W c h r s'
  assume run: "run_state (ck_Save W path c) \<lparr>ckDisk = d, ckCalls = h\<rparr> = (r, s')" and c: "int64 (cuChainID c)"
  have "same path (insert c S) (view path d) d" using ok by (auto simp: same_def intro: ck_ok_mono)
  with save_outcome [OF run, of "insert c S" "view path d"]
  have "view path (ckDisk s') = Some (cursor_text c) \<or> r \<noteq> Inr () \<and> view path (ckDisk s') = view path d"
    by (auto simp: same_def)
  with cursor_reads_back [OF c] show "ck_Load None path (ckDisk s') = Inr (Some c)
      \<or> r \<noteq> Inr () \<and> ck_Load None path (ckDisk s') = ck_Load None path d"
    by (auto simp: Load_view)
qed

definition blank_disk :: disk where
  "blank_disk = \<lparr> dkNames = Map.empty, dkVersions = {Map.empty}, dkData = (\<lambda>_. []), dkSynced = (\<lambda>_. False), dkNext = 0 \<rparr>"

definition sample_cursor :: cursor where
  "sample_cursor = \<lparr> cuChainID = 1, cuLastBlock = 100 \<rparr>"

text \<open>Every call succeeds, the save is acknowledged, and the power goes before the directory reaches the disk.\<close>

lemma acknowledged_save_can_be_lost:
  "\<exists>s' d'. run_state (ck_Save (\<lambda>_ _. Done) ''cursor.json'' sample_cursor) \<lparr>ckDisk = blank_disk, ckCalls = []\<rparr> = (Inr (), s')
     \<and> ck_Load None ''cursor.json'' (ckDisk s') = Inr (Some sample_cursor)
     \<and> power_loss (ckDisk s') d' \<and> ck_Load None ''cursor.json'' d' = Inr None"
proof -
  obtain s' where run: "run_state (ck_Save (\<lambda>_ _. Done) ''cursor.json'' sample_cursor) \<lparr>ckDisk = blank_disk, ckCalls = []\<rparr> = (Inr (), s')"
    and old: "Map.empty \<in> dkVersions (ckDisk s')"
    by (simp add: ck_Save_def write_temp_def or_remove_def sys_def run_simps Let_def blank_disk_def set_data_def set_names_def tmp_of_def)
  let ?d = "(ckDisk s')\<lparr>dkNames := Map.empty, dkVersions := {Map.empty}\<rparr>"
  have "ck_runs ''cursor.json'' {} blank_disk" by (rule ck_runs.start) (simp_all add: blank_disk_def numbered_def)
  then have "ck_ok ''cursor.json'' {} blank_disk" by (rule ck_runs_ok)
  then have "same ''cursor.json'' (insert sample_cursor {}) (view ''cursor.json'' blank_disk) blank_disk"
    by (auto simp: same_def intro: ck_ok_mono)
  with save_outcome [OF run, of "{sample_cursor}" "view ''cursor.json'' blank_disk"]
  have "view ''cursor.json'' (ckDisk s') = Some (cursor_text sample_cursor)" by (auto simp: same_def)
  with cursor_reads_back [of sample_cursor] have "ck_Load None ''cursor.json'' (ckDisk s') = Inr (Some sample_cursor)"
    by (simp add: Load_view sample_cursor_def int64_def)
  moreover have "power_loss (ckDisk s') ?d" using old by (simp add: power_loss_def)
  moreover have "ck_Load None ''cursor.json'' ?d = Inr None" by (simp add: ck_Load_def)
  ultimately show ?thesis using run by blast
qed

text \<open>A machine that loses power in the fourth system call.\<close>

definition power_cut :: ck_world where
  "power_cut h c = (if length h = 3 then Dies False else Done)"

lemma cursor_survives_crashes_witness:
  "\<exists>r s'. run_state (ck_Save power_cut ''cursor.json'' sample_cursor) \<lparr>ckDisk = blank_disk, ckCalls = []\<rparr> = (r, s')
     \<and> r \<noteq> Inr () \<and> ck_Load None ''cursor.json'' (ckDisk s') = Inr None"
proof -
  obtain r s' where run: "run_state (ck_Save power_cut ''cursor.json'' sample_cursor) \<lparr>ckDisk = blank_disk, ckCalls = []\<rparr> = (r, s')"
    by force
  then have died: "r = Inl Died"
    by (auto simp: ck_Save_def write_temp_def or_remove_def sys_def run_simps power_cut_def Let_def)
  have start: "ck_runs ''cursor.json'' {} blank_disk"
    by (rule ck_runs.start) (simp_all add: blank_disk_def numbered_def)
  from cursor_survives_crashes [OF start] have "ck_Load None ''cursor.json'' blank_disk = Inr None" by simp
  moreover from cursor_survives_crashes [OF ck_runs.save [OF start run]]
  have "ck_Load None ''cursor.json'' (ckDisk s') = Inr None \<or> ck_Load None ''cursor.json'' (ckDisk s') = Inr (Some sample_cursor)"
    by (auto simp: sample_cursor_def int64_def)
  moreover have "ck_Load None ''cursor.json'' (ckDisk s') \<noteq> Inr (Some sample_cursor)"
    using run by (auto simp: ck_Save_def write_temp_def or_remove_def sys_def run_simps power_cut_def Let_def blank_disk_def
        set_data_def set_names_def ck_Load_def tmp_of_def)
  ultimately show ?thesis using run died by auto
qed

end
