(* ===== verification/FileWriter.thy ===== *)
theory FileWriter
  imports Units Json "HOL-Library.AList" "HOL-Library.Char_ord" "HOL-Library.List_Lexorder"
    "HOL-Library.Product_Lexorder"
begin

text \<open>
  The rotating writer of \<^verbatim>\<open>evm-sink-file\<close>: \<^verbatim>\<open>internal/filesink/writer.go\<close>. The output directory is a
  finite map from names to files; every system call may fail, as the world decides from the calls
  made before it, except that a missing file, a closed handle and a missing handle always fail.
\<close>

section \<open>The output directory\<close>

text \<open>\<^verbatim>\<open>During\<close> is an error wrapped with \<^verbatim>\<open>%w\<close>; \<^verbatim>\<open>TransientError\<close> is the sink's own marker.\<close>

datatype file_error =
    ENOSPC
  | EDQUOT
  | ErrClosed
  | ErrNotExist
  | NilFile
  | Fault string
  | TransientError string "file_error option"
  | During string file_error

record entry =
  feContent :: string
  feMod :: int
  feDir :: bool

type_synonym directory = "(string \<times> entry) list"

text \<open>The calls that name no file are on the active one.\<close>

datatype fs_call =
    FsMkdirAll
  | FsOpenAppend
  | FsStat
  | FsCloseOpened
  | FsAppend string
  | FsTruncate nat
  | FsSync
  | FsClose
  | FsRename string string
  | FsOpenSource string
  | FsCloseSource string
  | FsCreate string
  | FsWriteTo string string
  | FsSyncOf string
  | FsCloseOf string
  | FsRemove string
  | FsReadDir
  | FsInfo string

datatype fs_answer = FsGood | FsBad nat file_error

text \<open>\<^verbatim>\<open>compress/gzip\<close> turns a text into the bytes it writes while copying and those of its \<^verbatim>\<open>Close\<close>.\<close>

record fw_world =
  fwAnswer :: "fs_call list \<Rightarrow> fs_call \<Rightarrow> fs_answer"
  fwNow :: "fs_call list \<Rightarrow> int"
  fwGzip :: "string \<Rightarrow> string \<times> string"

section \<open>The writer\<close>

text \<open>\<^verbatim>\<open>RotateConfig\<close>; \<open>rcDir\<close> and \<open>rcName\<close> are \<^verbatim>\<open>filepath.Dir\<close> and \<^verbatim>\<open>filepath.Base\<close> of the path.\<close>

record rotate_config =
  rcPath :: string
  rcDir :: string
  rcName :: string
  rcMaxSize :: int
  rcMaxAge :: int
  rcMaxBackups :: int
  rcCompress :: bool
  rcFsync :: bool

datatype handle = NoHandle | OpenHandle | ClosedHandle

datatype fw_note = Rotated | CompressionFailed file_error | PruneFailed file_error

record file_writer =
  fwHandle :: handle
  fwSize :: nat
  fwOpenedAt :: int
  fwDirectory :: directory
  fwCalls :: "fs_call list"
  fwNotes :: "fw_note list"

definition file_at :: "directory \<Rightarrow> string \<Rightarrow> string" where
  "file_at d n = (case map_of d n of Some e \<Rightarrow> feContent e | None \<Rightarrow> [])"

definition put_file :: "int \<Rightarrow> string \<Rightarrow> string \<Rightarrow> directory \<Rightarrow> directory" where
  "put_file now n s d = AList.update n \<lparr>feContent = s, feMod = now, feDir = False\<rparr> d"

definition pathExists :: "directory \<Rightarrow> string \<Rightarrow> bool" where
  "pathExists d p \<longleftrightarrow> map_of d p \<noteq> None"

text \<open>The errors the system gives in any world.\<close>

definition closed_error :: "handle \<Rightarrow> file_error option" where
  "closed_error h = (case h of OpenHandle \<Rightarrow> None | ClosedHandle \<Rightarrow> Some ErrClosed | NoHandle \<Rightarrow> Some NilFile)"

definition missing_error :: "directory \<Rightarrow> string \<Rightarrow> file_error option" where
  "missing_error d p = (if pathExists d p then None else Some ErrNotExist)"

definition fs_refuses :: "rotate_config \<Rightarrow> fs_call \<Rightarrow> file_writer \<Rightarrow> file_error option" where
  "fs_refuses cfg c w =
     (case c of
        FsAppend s \<Rightarrow> closed_error (fwHandle w)
      | FsSync \<Rightarrow> closed_error (fwHandle w)
      | FsClose \<Rightarrow> closed_error (fwHandle w)
      | FsTruncate n \<Rightarrow> missing_error (fwDirectory w) (rcName cfg)
      | FsRename a b \<Rightarrow> missing_error (fwDirectory w) a
      | FsOpenSource p \<Rightarrow> missing_error (fwDirectory w) p
      | FsRemove p \<Rightarrow> missing_error (fwDirectory w) p
      | _ \<Rightarrow> None)"

definition fs_good :: "rotate_config \<Rightarrow> int \<Rightarrow> fs_call \<Rightarrow> directory \<Rightarrow> directory" where
  "fs_good cfg now c d =
     (case c of
        FsOpenAppend \<Rightarrow> if pathExists d (rcName cfg) then d else put_file now (rcName cfg) [] d
      | FsAppend s \<Rightarrow> put_file now (rcName cfg) (file_at d (rcName cfg) @ s) d
      | FsTruncate n \<Rightarrow> put_file now (rcName cfg) (take n (file_at d (rcName cfg))) d
      | FsRename a b \<Rightarrow> (case map_of d a of None \<Rightarrow> d | Some e \<Rightarrow> AList.update b e (AList.delete a d))
      | FsCreate p \<Rightarrow> put_file now p [] d
      | FsWriteTo p s \<Rightarrow> put_file now p (file_at d p @ s) d
      | FsRemove p \<Rightarrow> AList.delete p d
      | _ \<Rightarrow> d)"

text \<open>A failed write may have written some of its bytes.\<close>

definition fs_bad :: "rotate_config \<Rightarrow> int \<Rightarrow> nat \<Rightarrow> fs_call \<Rightarrow> directory \<Rightarrow> directory" where
  "fs_bad cfg now n c d =
     (case c of
        FsAppend s \<Rightarrow> fs_good cfg now (FsAppend (take n s)) d
      | FsWriteTo p s \<Rightarrow> fs_good cfg now (FsWriteTo p (take n s)) d
      | _ \<Rightarrow> d)"

text \<open>One call: its error comes with the number of bytes written; a handle is closed by \<^verbatim>\<open>Close\<close> even
when that reports an error.\<close>

definition fs :: "fw_world \<Rightarrow> rotate_config \<Rightarrow> fs_call \<Rightarrow> (file_writer, (nat \<times> file_error) + unit) state" where
  "fs W cfg c =
     do { w \<leftarrow> gets id;
          let h = fwCalls w;
          modify (\<lambda>w. w\<lparr>fwCalls := h @ [c]\<rparr>);
          (case fs_refuses cfg c w of
             Some e \<Rightarrow> fail (0, e)
           | None \<Rightarrow> do {
               (if c = FsClose then modify (\<lambda>w. w\<lparr>fwHandle := ClosedHandle\<rparr>) else skip);
               (case fwAnswer W h c of
                  FsGood \<Rightarrow> do { modify (\<lambda>w. w\<lparr>fwDirectory := fs_good cfg (fwNow W h) c (fwDirectory w)\<rparr>); ok () }
                | FsBad n e \<Rightarrow> do {
                    modify (\<lambda>w. w\<lparr>fwDirectory := fs_bad cfg (fwNow W h) n c (fwDirectory w)\<rparr>); fail (n, e) }) }) }"

definition fw_now :: "fw_world \<Rightarrow> (file_writer, int) state" where
  "fw_now W = gets (\<lambda>w. fwNow W (fwCalls w))"

definition fw_note :: "fw_note \<Rightarrow> (file_writer, unit) state" where
  "fw_note x = modify (\<lambda>w. w\<lparr>fwNotes := fwNotes w @ [x]\<rparr>)"

text \<open>A call whose error is wrapped, after the clean-up calls, whose own errors are ignored.\<close>

definition attempt_calls :: "fw_world \<Rightarrow> rotate_config \<Rightarrow> fs_call list \<Rightarrow> (file_writer, file_error + unit) state" where
  "attempt_calls W cfg cs = for_each (\<lambda>c. do { _ \<leftarrow> fs W cfg c; ok () }) cs"

definition or_cleanup :: "fw_world \<Rightarrow> rotate_config \<Rightarrow> (file_error \<Rightarrow> file_error) \<Rightarrow> fs_call list \<Rightarrow> fs_call \<Rightarrow> (file_writer, file_error + unit) state" where
  "or_cleanup W cfg wrap cleanup c =
     do { r \<leftarrow> fs W cfg c;
          (case r of
             Inr _ \<Rightarrow> ok ()
           | Inl (n, e) \<Rightarrow> check (attempt_calls W cfg cleanup) (\<lambda>_. fail (wrap e))) }"

section \<open>Opening and rotating\<close>

text \<open>\<^verbatim>\<open>open\<close>: a failed \<^verbatim>\<open>Stat\<close> closes the new handle and keeps the old one.\<close>

definition fw_open :: "fw_world \<Rightarrow> rotate_config \<Rightarrow> (file_writer, file_error + unit) state" where
  "fw_open W cfg =
     check (if rcDir cfg \<noteq> [] \<and> rcDir cfg \<noteq> ''.''
            then or_cleanup W cfg (During ''filesink: create output directory'') [] FsMkdirAll else ok ()) (\<lambda>_.
     check (or_cleanup W cfg (During (''filesink: open '' @ rcPath cfg)) [] FsOpenAppend) (\<lambda>_.
     check (or_cleanup W cfg (During (''filesink: stat '' @ rcPath cfg)) [FsCloseOpened] FsStat) (\<lambda>_.
     do { t \<leftarrow> fw_now W;
          modify (\<lambda>w. w\<lparr>fwHandle := OpenHandle, fwSize := length (file_at (fwDirectory w) (rcName cfg)), fwOpenedAt := t\<rparr>);
          ok () })))"

definition fw_NewWriter :: "fw_world \<Rightarrow> rotate_config \<Rightarrow> (file_writer, file_error + unit) state" where
  "fw_NewWriter W cfg = (if trim_space (rcPath cfg) = [] then fail (Fault ''filesink: path is required'') else fw_open W cfg)"

text \<open>\<^verbatim>\<open>filepath.Ext\<close>: from the last dot on.\<close>

definition filepath_Ext :: "string \<Rightarrow> string" where
  "filepath_Ext name = (if CHR ''.'' \<in> set name then CHR ''.'' # rev (takeWhile (\<lambda>c. c \<noteq> CHR ''.'') (rev name)) else [])"

definition ext_of :: "rotate_config \<Rightarrow> string" where
  "ext_of cfg = filepath_Ext (rcName cfg)"

definition base_of :: "rotate_config \<Rightarrow> string" where
  "base_of cfg = trim_suffix (ext_of cfg) (rcName cfg)"

text \<open>\<^verbatim>\<open>rotatedTimeFormat\<close> of an instant in nanoseconds.\<close>

definition rotated_stamp :: "int \<Rightarrow> string" where
  "rotated_stamp t =
     (let secs = t div 1000000000; (y, m, d) = civil_from_days (secs div 86400); r = nat (secs mod 86400) in
      (if y < 0 then ''-'' else []) @ pad 4 (nat \<bar>y\<bar>) @ pad 2 (nat m) @ pad 2 (nat d) @ ''T''
        @ pad 2 (r div 3600) @ pad 2 (r mod 3600 div 60) @ pad 2 (r mod 60) @ ''.''
        @ pad 3 (nat (t mod 1000000000 div 1000000)))"

definition segment_name :: "rotate_config \<Rightarrow> string \<Rightarrow> nat \<Rightarrow> string" where
  "segment_name cfg ts i = base_of cfg @ ''-'' @ ts @ (if i = 0 then [] else ''-'' @ show_nat i) @ ext_of cfg"

fun free_name :: "nat \<Rightarrow> rotate_config \<Rightarrow> directory \<Rightarrow> string \<Rightarrow> nat \<Rightarrow> string option" where
  "free_name 0 cfg d ts i = None"
| "free_name (Suc fuel) cfg d ts i =
     (if \<not> pathExists d (segment_name cfg ts i) \<and> \<not> pathExists d (segment_name cfg ts i @ ''.gz'')
      then Some (segment_name cfg ts i)
      else free_name fuel cfg d ts (Suc i))"

text \<open>The loop needs at most one step more than twice the files there are.\<close>

definition rotatedName :: "fw_world \<Rightarrow> rotate_config \<Rightarrow> (file_writer, string option) state" where
  "rotatedName W cfg =
     do { t \<leftarrow> fw_now W;
          d \<leftarrow> gets fwDirectory;
          State_Monad.return (free_name (Suc (2 * length d)) cfg d (rotated_stamp t) 0) }"

section \<open>Compression\<close>

definition gz_of :: "string \<Rightarrow> string" where "gz_of src = src @ ''.gz''"
definition gz_tmp :: "string \<Rightarrow> string" where "gz_tmp src = gz_of src @ ''.tmp''"

text \<open>Up to the rename, which makes the compressed copy visible; then the source goes.\<close>

definition gzip_into :: "fw_world \<Rightarrow> rotate_config \<Rightarrow> string \<Rightarrow> (file_writer, file_error + unit) state" where
  "gzip_into W cfg src =
     (let tmp = gz_tmp src; close = FsCloseSource src in
      check (or_cleanup W cfg id [] (FsOpenSource src)) (\<lambda>_.
      check (or_cleanup W cfg id [close] (FsCreate tmp)) (\<lambda>_.
      do { d \<leftarrow> gets fwDirectory;
           let (body, trailer) = fwGzip W (file_at d src);
           check (or_cleanup W cfg id [FsWriteTo tmp trailer, FsCloseOf tmp, FsRemove tmp, close] (FsWriteTo tmp body)) (\<lambda>_.
           check (or_cleanup W cfg id [FsCloseOf tmp, FsRemove tmp, close] (FsWriteTo tmp trailer)) (\<lambda>_.
           check (or_cleanup W cfg id [FsCloseOf tmp, FsRemove tmp, close] (FsSyncOf tmp)) (\<lambda>_.
             or_cleanup W cfg id [FsRemove tmp, close] (FsCloseOf tmp)))) })))"

definition compressFile :: "fw_world \<Rightarrow> rotate_config \<Rightarrow> string \<Rightarrow> (file_writer, file_error + unit) state" where
  "compressFile W cfg src =
     check (gzip_into W cfg src) (\<lambda>_.
     check (or_cleanup W cfg id [FsRemove (gz_tmp src), FsCloseSource src] (FsRename (gz_tmp src) (gz_of src))) (\<lambda>_.
     do { _ \<leftarrow> fs W cfg (FsCloseSource src);
          or_cleanup W cfg id [] (FsRemove src) }))"

section \<open>Retention\<close>

text \<open>The zero \<^verbatim>\<open>time.Time\<close>, which a segment has whose information cannot be read.\<close>

definition zero_time :: int where "zero_time = - 62135596800 * 1000000000"

definition is_segment :: "rotate_config \<Rightarrow> string \<times> entry \<Rightarrow> bool" where
  "is_segment cfg = (\<lambda>(n, e). \<not> feDir e \<and> n \<noteq> rcName cfg \<and> has_prefix (base_of cfg @ ''-'') n
     \<and> (has_suffix (ext_of cfg) n \<or> has_suffix (ext_of cfg @ ''.gz'') n))"

fun stat_segments :: "fw_world \<Rightarrow> rotate_config \<Rightarrow> (string \<times> entry) list \<Rightarrow> (file_writer, (int \<times> string) list) state" where
  "stat_segments W cfg [] = State_Monad.return []"
| "stat_segments W cfg ((n, e) # es) =
     (if \<not> is_segment cfg (n, e) then stat_segments W cfg es
      else do {
        r \<leftarrow> fs W cfg (FsInfo n);
        rest \<leftarrow> stat_segments W cfg es;
        State_Monad.return (((case r of Inr _ \<Rightarrow> feMod e | Inl _ \<Rightarrow> zero_time), n) # rest) })"

fun remove_segments :: "fw_world \<Rightarrow> rotate_config \<Rightarrow> (int \<times> string) list \<Rightarrow> (file_writer, unit) state" where
  "remove_segments W cfg [] = skip"
| "remove_segments W cfg ((m, n) # ss) =
     do { r \<leftarrow> fs W cfg (FsRemove n);
          (case r of Inr _ \<Rightarrow> skip | Inl (k, e) \<Rightarrow> fw_note (PruneFailed e));
          remove_segments W cfg ss }"

text \<open>\<^verbatim>\<open>os.ReadDir\<close> lists by name; the order of the segments is by time, then name.\<close>

definition prune :: "fw_world \<Rightarrow> rotate_config \<Rightarrow> (file_writer, unit) state" where
  "prune W cfg =
     (if rcMaxBackups cfg \<le> 0 then skip
      else do {
        r \<leftarrow> fs W cfg FsReadDir;
        (case r of
           Inl (n, e) \<Rightarrow> fw_note (PruneFailed e)
         | Inr _ \<Rightarrow> do {
             d \<leftarrow> gets fwDirectory;
             segments \<leftarrow> stat_segments W cfg (sort_key fst d);
             (if int (length segments) \<le> rcMaxBackups cfg then skip
              else remove_segments W cfg (take (length segments - nat (rcMaxBackups cfg)) (sort segments))) }) })"

section \<open>Writing\<close>

definition rotate_file :: "fw_world \<Rightarrow> rotate_config \<Rightarrow> (file_writer, file_error + unit) state" where
  "rotate_file W cfg =
     check (or_cleanup W cfg (During ''filesink: close before rotate'') [] FsClose) (\<lambda>_.
     do { rotated \<leftarrow> rotatedName W cfg;
          (case rotated of
             None \<Rightarrow> fail (Fault ''no name'')
           | Some rotated \<Rightarrow>
               check (or_cleanup W cfg (During ''filesink: rename on rotate'') [] (FsRename (rcName cfg) rotated)) (\<lambda>_.
               do { (if rcCompress cfg
                     then do { r \<leftarrow> compressFile W cfg rotated;
                               (case r of Inr _ \<Rightarrow> skip | Inl e \<Rightarrow> fw_note (CompressionFailed e)) }
                     else skip);
                    check (fw_open W cfg) (\<lambda>_.
                    do { prune W cfg;
                         fw_note Rotated;
                         ok () }) })) })"

definition shouldRotate :: "rotate_config \<Rightarrow> nat \<Rightarrow> file_writer \<Rightarrow> int \<Rightarrow> bool" where
  "shouldRotate cfg need w now \<longleftrightarrow>
     (if fwSize w = 0 then False
      else if rcMaxSize cfg > 0 \<and> int (fwSize w) + int need > rcMaxSize cfg then True
      else if rcMaxAge cfg > 0 \<and> now - fwOpenedAt w \<ge> rcMaxAge cfg then True
      else False)"

text \<open>The append itself: a fragment is rolled back, by the path, to the size before.\<close>

definition fw_append :: "fw_world \<Rightarrow> rotate_config \<Rightarrow> string \<Rightarrow> (file_writer, file_error + nat) state" where
  "fw_append W cfg line =
     (let buf = line @ [NL] in
      do { r \<leftarrow> fs W cfg (FsAppend buf);
           size \<leftarrow> gets fwSize;
           (case r of
              Inl (n, err) \<Rightarrow>
                if n > 0 then
                  do { t \<leftarrow> fs W cfg (FsTruncate size);
                       (case t of
                          Inl (_, terr) \<Rightarrow> fail (During ''filesink: rollback of partial write failed'' terr)
                        | Inr _ \<Rightarrow> fail err) }
                else fail err
            | Inr _ \<Rightarrow> do {
                modify (\<lambda>w. w\<lparr>fwSize := size + length buf\<rparr>);
                (if rcFsync cfg
                 then check (or_cleanup W cfg (During ''filesink: fsync'') [] FsSync) (\<lambda>_. ok (length buf))
                 else ok (length buf)) }) })"

definition fw_Write :: "fw_world \<Rightarrow> rotate_config \<Rightarrow> string \<Rightarrow> (file_writer, file_error + nat) state" where
  "fw_Write W cfg line =
     do { w \<leftarrow> gets id;
          now \<leftarrow> fw_now W;
          check (if shouldRotate cfg (length line + 1) w now then rotate_file W cfg else ok ()) (\<lambda>_.
            fw_append W cfg line) }"

definition fw_Sync :: "fw_world \<Rightarrow> rotate_config \<Rightarrow> (file_writer, file_error + unit) state" where
  "fw_Sync W cfg = do { h \<leftarrow> gets fwHandle; (if h = NoHandle then ok () else or_cleanup W cfg id [] FsSync) }"

definition fw_Close :: "fw_world \<Rightarrow> rotate_config \<Rightarrow> (file_writer, file_error + unit) state" where
  "fw_Close W cfg =
     do { h \<leftarrow> gets fwHandle;
          (if h = NoHandle then ok ()
           else do { r \<leftarrow> fs W cfg FsClose;
                     modify (\<lambda>w. w\<lparr>fwHandle := NoHandle\<rparr>);
                     (case r of Inl (n, e) \<Rightarrow> fail e | Inr _ \<Rightarrow> ok ()) }) }"

section \<open>What one call does\<close>

lemma map_of_updates [simp]: "map_of (AList.update k v d) = (map_of d)(k \<mapsto> v)" "map_of (AList.delete k d) = (map_of d)(k := None)"
  by (simp_all add: update_conv' delete_conv')

lemma file_at_put [simp]: "file_at (put_file now n s d) m = (if m = n then s else file_at d m)"
    "pathExists (put_file now n s d) m = (m = n \<or> pathExists d m)"
  by (auto simp: file_at_def put_file_def pathExists_def)

lemma file_at_cong: "map_of d' n = map_of d n \<Longrightarrow> file_at d' n = file_at d n" "map_of d' n = map_of d n \<Longrightarrow> pathExists d' n = pathExists d n"
  by (simp_all add: file_at_def pathExists_def)

text \<open>The names a call may change.\<close>

definition touches :: "rotate_config \<Rightarrow> fs_call \<Rightarrow> string set" where
  "touches cfg c = (case c of FsOpenAppend \<Rightarrow> {rcName cfg} | FsAppend _ \<Rightarrow> {rcName cfg} | FsTruncate _ \<Rightarrow> {rcName cfg}
     | FsRename a b \<Rightarrow> {a, b} | FsCreate p \<Rightarrow> {p} | FsWriteTo p _ \<Rightarrow> {p} | FsRemove p \<Rightarrow> {p} | _ \<Rightarrow> {})"

definition within :: "string set \<Rightarrow> file_writer \<Rightarrow> file_writer \<Rightarrow> bool" where
  "within T w w' \<longleftrightarrow> (\<forall>n. n \<notin> T \<longrightarrow> map_of (fwDirectory w') n = map_of (fwDirectory w) n)
     \<and> fwSize w' = fwSize w \<and> fwOpenedAt w' = fwOpenedAt w \<and> fwHandle w' = fwHandle w"

lemma withinD: "within T w w' \<Longrightarrow> n \<notin> T \<Longrightarrow> map_of (fwDirectory w') n = map_of (fwDirectory w) n"
    "within T w w' \<Longrightarrow> fwSize w' = fwSize w" "within T w w' \<Longrightarrow> fwOpenedAt w' = fwOpenedAt w" "within T w w' \<Longrightarrow> fwHandle w' = fwHandle w"
  by (simp_all add: within_def)

lemma within_mono: "within S w w' \<Longrightarrow> S \<subseteq> T \<Longrightarrow> within T w w'"
  by (auto simp: within_def)

interpretation untouched: step_order "within T" for T
  by unfold_locales (auto simp: within_def)

lemma good_outside: "n \<notin> touches cfg c \<Longrightarrow> map_of (fs_good cfg now c d) n = map_of d n"
  by (auto simp: fs_good_def touches_def put_file_def split: fs_call.splits option.splits)

lemma bad_outside: "n \<notin> touches cfg c \<Longrightarrow> map_of (fs_bad cfg now k c d) n = map_of d n"
  unfolding fs_bad_def by (cases c) (auto simp: touches_def intro!: good_outside)

lemma fs_run:
  "run_state (fs W cfg c) w =
     (let w0 = w\<lparr>fwCalls := fwCalls w @ [c]\<rparr> in
      case fs_refuses cfg c w of
        Some e \<Rightarrow> (Inl (0, e), w0)
      | None \<Rightarrow>
          (let w1 = (if c = FsClose then w0\<lparr>fwHandle := ClosedHandle\<rparr> else w0); now = fwNow W (fwCalls w) in
           case fwAnswer W (fwCalls w) c of
             FsGood \<Rightarrow> (Inr (), w1\<lparr>fwDirectory := fs_good cfg now c (fwDirectory w)\<rparr>)
           | FsBad n e \<Rightarrow> (Inl (n, e), w1\<lparr>fwDirectory := fs_bad cfg now n c (fwDirectory w)\<rparr>)))"
  by (auto simp: fs_def run_simps Let_def split: option.split fs_answer.split)

text \<open>A call that succeeds, and one that fails.\<close>

lemma fs_success:
  assumes "run_state (fs W cfg c) w = (Inr u, w')"
  shows "fs_refuses cfg c w = None" "fwDirectory w' = fs_good cfg (fwNow W (fwCalls w)) c (fwDirectory w)"
    "fwSize w' = fwSize w" "fwOpenedAt w' = fwOpenedAt w" "fwHandle w' = (if c = FsClose then ClosedHandle else fwHandle w)"
    "fwNotes w' = fwNotes w"
  using assms by (auto simp: fs_run Let_def split: option.splits fs_answer.splits if_splits)

lemma fs_failure:
  assumes "run_state (fs W cfg c) w = (Inl (n, e), w')"
  shows "fwDirectory w' = (if fs_refuses cfg c w = None then fs_bad cfg (fwNow W (fwCalls w)) n c (fwDirectory w) else fwDirectory w)"
    "fs_refuses cfg c w \<noteq> None \<Longrightarrow> n = 0 \<and> fs_refuses cfg c w = Some e"
    "fs_refuses cfg c w = None \<Longrightarrow> fwAnswer W (fwCalls w) c = FsBad n e"
    "fwSize w' = fwSize w" "fwOpenedAt w' = fwOpenedAt w"
    "fwHandle w' = (if c = FsClose \<and> fwHandle w = OpenHandle then ClosedHandle else fwHandle w)"
  using assms by (auto simp: fs_run Let_def fs_refuses_def closed_error_def split: option.splits fs_answer.splits if_splits handle.splits)

lemma fs_within: "touches cfg c \<subseteq> T \<Longrightarrow> c \<noteq> FsClose \<Longrightarrow> state_io_rel (within T) (fs W cfg c)"
  by (auto simp: state_io_rel_def within_def fs_run Let_def subset_iff split: option.splits fs_answer.splits
      intro!: good_outside bad_outside)

lemma attempts_within:
  assumes "\<forall>c \<in> set cs. touches cfg c \<subseteq> T \<and> c \<noteq> FsClose"
  shows "state_io_rel (within T) (attempt_calls W cfg cs)"
  unfolding attempt_calls_def using assms by (intro untouched.io_intros fs_within) auto

lemma attempts_ok: "\<exists>w'. run_state (attempt_calls W cfg cs) w = (Inr (), w')"
proof (induction cs arbitrary: w)
  case (Cons c cs)
  obtain r w1 where "run_state (fs W cfg c) w = (r, w1)" by force
  with Cons [of w1] show ?case by (auto simp: attempt_calls_def run_simps)
qed (simp add: attempt_calls_def run_simps)

lemma io_within_mono: "state_io_rel (within S) m \<Longrightarrow> S \<subseteq> T \<Longrightarrow> state_io_rel (within T) m"
  by (auto simp: state_io_rel_def intro: within_mono)

lemma or_cleanup_within:
  assumes "\<forall>x \<in> set (c # cs). touches cfg x \<subseteq> T \<and> x \<noteq> FsClose"
  shows "state_io_rel (within T) (or_cleanup W cfg wrap cs c)"
  unfolding or_cleanup_def using assms by (intro untouched.io_intros fs_within attempts_within) auto

lemma or_cleanup_cases:
  assumes "run_state (or_cleanup W cfg wrap cs c) w = (r, w')"
  obtains (good) "r = Inr ()" "run_state (fs W cfg c) w = (Inr (), w')"
  | (bad) n e w1 where "r = Inl (wrap e)" "run_state (fs W cfg c) w = (Inl (n, e), w1)" "run_state (attempt_calls W cfg cs) w1 = (Inr (), w')"
proof -
  obtain x w1 where f: "run_state (fs W cfg c) w = (x, w1)" by force
  show thesis
  proof (cases x)
    case (Inr u)
    with assms f show thesis by (intro good) (auto simp: or_cleanup_def run_simps)
  next
    case (Inl p)
    obtain w2 where "run_state (attempt_calls W cfg cs) w1 = (Inr (), w2)" using attempts_ok by blast
    with assms f Inl show thesis by (intro bad [of "snd p" "fst p" w1]) (auto simp: or_cleanup_def run_simps split: prod.splits)
  qed
qed

lemma check_success:
  assumes "run_state (check m k) s = (Inr y, s')"
  obtains x s1 where "run_state m s = (Inr x, s1)" "run_state (k x) s1 = (Inr y, s')"
  using assms by (auto simp: run_check split: prod.splits sum.splits)

lemma or_cleanup_success: "run_state (or_cleanup W cfg wrap cs c) w = (Inr u, w') \<Longrightarrow> run_state (fs W cfg c) w = (Inr (), w')"
  by (erule or_cleanup_cases) auto

section \<open>Names\<close>

lemma ext_suffix: "has_suffix (filepath_Ext name) name"
proof (cases "CHR ''.'' \<in> set name")
  case True
  then obtain a b where n: "name = a @ CHR ''.'' # b" "CHR ''.'' \<notin> set b" by (meson split_list_last)
  then have "takeWhile (\<lambda>c. c \<noteq> CHR ''.'') (rev name) = rev b"
    by (simp add: takeWhile_append takeWhile_eq_all_conv [THEN iffD2])
  with n True show ?thesis by (simp add: filepath_Ext_def)
qed (simp add: filepath_Ext_def has_suffix_def has_prefix_def)

lemma name_parts: "rcName cfg = base_of cfg @ ext_of cfg"
proof -
  from ext_suffix [of "rcName cfg"] obtain b where "rcName cfg = b @ ext_of cfg" by (auto simp: ext_of_def has_suffix_iff)
  then show ?thesis by (simp add: base_of_def)
qed

lemma pad_chars: "c \<in> set (pad k n) \<Longrightarrow> 48 \<le> code_of c \<and> code_of c \<le> 57"
  using show_nat_chars by (auto simp: pad_def code_of_def)

lemma stamp_no_z: "CHR ''z'' \<notin> set (rotated_stamp t)"
proof -
  have "CHR ''z'' \<notin> set (pad k n)" for k n using pad_chars [of "CHR ''z''" k n] by (auto simp: code_of_def)
  then show ?thesis by (simp add: rotated_stamp_def Let_def split: prod.split)
qed

definition segment_of :: "rotate_config \<Rightarrow> string \<Rightarrow> bool" where
  "segment_of cfg n \<longleftrightarrow> (\<exists>t i. n = segment_name cfg (rotated_stamp t) i)"

lemma segment_z: "segment_of cfg n \<Longrightarrow> count_list n CHR ''z'' = count_list (rcName cfg) CHR ''z''"
  using stamp_no_z show_nat_no [of "CHR ''z''"]
  by (auto simp: segment_of_def segment_name_def name_parts [of cfg] count_list_0_iff code_of_def)

lemma segment_neq:
  assumes "segment_of cfg n"
  shows "n \<noteq> rcName cfg" "gz_of n \<noteq> rcName cfg" "gz_tmp n \<noteq> rcName cfg"
proof -
  have "length (rcName cfg) < length n"
    using assms by (auto simp: segment_of_def segment_name_def name_parts [of cfg])
  moreover from this have "length (rcName cfg) < length (gz_of n)" "length (rcName cfg) < length (gz_tmp n)"
    by (simp_all add: gz_tmp_def gz_of_def)
  ultimately show "n \<noteq> rcName cfg" "gz_of n \<noteq> rcName cfg" "gz_tmp n \<noteq> rcName cfg" by fastforce+
qed

lemma gz_neq [simp]: "gz_of n \<noteq> n" "n \<noteq> gz_of n" "gz_tmp n \<noteq> n" "n \<noteq> gz_tmp n" "gz_tmp n \<noteq> gz_of n" "gz_of n \<noteq> gz_tmp n"
  by (auto simp: gz_of_def gz_tmp_def)

lemma segments_apart:
  assumes "segment_of cfg n" "segment_of cfg m"
  shows "n \<noteq> gz_of m" "n \<noteq> gz_tmp m" "gz_of n \<noteq> gz_tmp m"
proof -
  from assms have "count_list n CHR ''z'' = count_list m CHR ''z''" by (simp add: segment_z)
  then show "n \<noteq> gz_of m" "n \<noteq> gz_tmp m" by (auto simp: gz_of_def gz_tmp_def)
  have "last (gz_of n) \<noteq> last (gz_tmp m)" by (simp add: gz_of_def gz_tmp_def)
  then show "gz_of n \<noteq> gz_tmp m" by metis
qed

text \<open>The search for a free name ends: the names tried are different.\<close>

lemma segment_name_inject [simp]: "segment_name cfg ts i = segment_name cfg ts j \<longleftrightarrow> i = j"
  by (auto simp: segment_name_def)

lemma free_name_Some: "free_name fuel cfg d ts i = Some n \<Longrightarrow>
    (\<exists>j. n = segment_name cfg ts j) \<and> \<not> pathExists d n \<and> \<not> pathExists d (gz_of n)"
  by (induction fuel cfg d ts i rule: free_name.induct) (auto simp: gz_of_def split: if_splits)

lemma free_name_None: "free_name fuel cfg d ts i = None \<Longrightarrow> j < fuel \<Longrightarrow>
    pathExists d (segment_name cfg ts (i + j)) \<or> pathExists d (gz_of (segment_name cfg ts (i + j)))"
proof (induction fuel arbitrary: i j)
  case (Suc fuel)
  show ?case
  proof (cases j)
    case (Suc k)
    with Suc.prems have "free_name fuel cfg d ts (Suc i) = None" "k < fuel" by (auto split: if_splits)
    from Suc.IH [OF this] Suc show ?thesis by simp
  qed (use Suc.prems in \<open>auto simp: gz_of_def split: if_splits\<close>)
qed simp

lemma free_name_found: "free_name (Suc (2 * length d)) cfg d ts i \<noteq> None"
proof
  assume none: "free_name (Suc (2 * length d)) cfg d ts i = None"
  let ?I = "{0..<Suc (2 * length d)}" and ?f = "\<lambda>j. segment_name cfg ts (i + j)"
  let ?A = "{j \<in> ?I. ?f j \<in> fst ` set d}" and ?B = "{j \<in> ?I. gz_of (?f j) \<in> fst ` set d}"
  have "?I \<subseteq> ?A \<union> ?B"
    using free_name_None [OF none] by (fastforce simp: pathExists_def map_of_eq_None_iff)
  then have "card ?I \<le> card (?A \<union> ?B)" by (intro card_mono) auto
  also have "\<dots> \<le> card ?A + card ?B" by (rule card_Un_le)
  also have "card ?A \<le> card (fst ` set d)" by (rule card_inj_on_le [of ?f]) (auto simp: inj_on_def)
  also have "card ?B \<le> card (fst ` set d)" by (rule card_inj_on_le [of "\<lambda>j. gz_of (?f j)"]) (auto simp: inj_on_def gz_of_def)
  finally have "card ?I \<le> 2 * card (fst ` set d)" by simp
  also have "card (fst ` set d) \<le> length d" by (metis card_length image_set length_map)
  finally show False by simp
qed

lemma rotatedName_free:
  obtains n where "run_state (rotatedName W cfg) w = (Some n, w)" "segment_of cfg n"
    "\<not> pathExists (fwDirectory w) n" "\<not> pathExists (fwDirectory w) (gz_of n)"
proof -
  let ?ts = "rotated_stamp (fwNow W (fwCalls w))"
  obtain n where n: "free_name (Suc (2 * length (fwDirectory w))) cfg (fwDirectory w) ?ts 0 = Some n"
    using free_name_found by blast
  with free_name_Some [OF n] show thesis
    by (intro that [of n]) (auto simp: rotatedName_def fw_now_def run_simps segment_of_def)
qed

section \<open>Compression keeps the segment\<close>

definition gzipped :: "fw_world \<Rightarrow> string \<Rightarrow> string" where
  "gzipped W s = fst (fwGzip W s) @ snd (fwGzip W s)"

text \<open>A segment is stored as it was, or compressed.\<close>

definition stored :: "fw_world \<Rightarrow> directory \<Rightarrow> string \<Rightarrow> string \<Rightarrow> bool" where
  "stored W d n s \<longleftrightarrow> pathExists d n \<and> file_at d n = s \<or> pathExists d (gz_of n) \<and> file_at d (gz_of n) = gzipped W s"

lemma stored_cong:
  "map_of d' n = map_of d n \<Longrightarrow> map_of d' (gz_of n) = map_of d (gz_of n) \<Longrightarrow> stored W d' n s = stored W d n s"
  by (simp add: stored_def file_at_def pathExists_def)

lemma refuses_simps [simp]:
  "fs_refuses cfg (FsCreate p) w = None" "fs_refuses cfg (FsWriteTo p s) w = None" "fs_refuses cfg (FsSyncOf p) w = None"
  "fs_refuses cfg (FsCloseOf p) w = None" "fs_refuses cfg (FsCloseSource p) w = None" "fs_refuses cfg FsMkdirAll w = None"
  "fs_refuses cfg FsOpenAppend w = None" "fs_refuses cfg FsStat w = None" "fs_refuses cfg FsCloseOpened w = None"
  "fs_refuses cfg (FsAppend s) w = closed_error (fwHandle w)" "fs_refuses cfg FsClose w = closed_error (fwHandle w)"
  "fs_refuses cfg FsSync w = closed_error (fwHandle w)" "fs_refuses cfg (FsTruncate k) w = missing_error (fwDirectory w) (rcName cfg)"
  "fs_refuses cfg (FsRename a b) w = missing_error (fwDirectory w) a"
  by (simp_all add: fs_refuses_def)

lemma touches_simps [simp]:
  "touches cfg (FsCreate p) = {p}" "touches cfg (FsWriteTo p s) = {p}" "touches cfg (FsSyncOf p) = {}"
  "touches cfg (FsCloseOf p) = {}" "touches cfg (FsCloseSource p) = {}" "touches cfg FsMkdirAll = {}"
  "touches cfg (FsRemove p) = {p}" "touches cfg (FsOpenSource p) = {}" "touches cfg FsStat = {}" "touches cfg FsCloseOpened = {}"
  "touches cfg FsOpenAppend = {rcName cfg}" "touches cfg (FsRename a b) = {a, b}" "touches cfg FsSync = {}"
  "touches cfg (FsAppend s) = {rcName cfg}" "touches cfg (FsTruncate k) = {rcName cfg}" "touches cfg (FsInfo p) = {}" "touches cfg FsReadDir = {}"
  by (simp_all add: touches_def)

lemma good_simps [simp]:
  "fs_good cfg now (FsCreate p) d = put_file now p [] d" "fs_good cfg now (FsWriteTo p s) d = put_file now p (file_at d p @ s) d"
  "fs_good cfg now (FsSyncOf p) d = d" "fs_good cfg now (FsCloseOf p) d = d" "fs_good cfg now (FsOpenSource p) d = d"
  "fs_good cfg now (FsCloseSource p) d = d" "fs_good cfg now FsMkdirAll d = d" "fs_good cfg now FsStat d = d"
  "fs_good cfg now FsSync d = d" "fs_good cfg now FsClose d = d" "fs_good cfg now FsReadDir d = d"
  "fs_good cfg now (FsRemove p) d = AList.delete p d"
  "fs_good cfg now (FsAppend s) d = put_file now (rcName cfg) (file_at d (rcName cfg) @ s) d"
  "fs_good cfg now (FsTruncate k) d = put_file now (rcName cfg) (take k (file_at d (rcName cfg))) d"
  "fs_good cfg now FsOpenAppend d = (if pathExists d (rcName cfg) then d else put_file now (rcName cfg) [] d)"
  by (simp_all add: fs_good_def)

lemma bad_simps [simp]:
  "fs_bad cfg now k (FsAppend s) d = put_file now (rcName cfg) (file_at d (rcName cfg) @ take k s) d"
  "fs_bad cfg now k (FsRename a b) d = d" "fs_bad cfg now k (FsRemove p) d = d" "fs_bad cfg now k FsClose d = d"
  "fs_bad cfg now k FsOpenAppend d = d" "fs_bad cfg now k (FsTruncate m) d = d" "fs_bad cfg now k FsSync d = d"
  by (simp_all add: fs_bad_def)

lemma gzip_into_within: "state_io_rel (within {gz_tmp src}) (gzip_into W cfg src)"
  unfolding gzip_into_def by (intro untouched.io_intros or_cleanup_within) auto

lemma step_iff:
  "run_state (check (or_cleanup W cfg wrap cs c) k) w = (Inr y, w') \<longleftrightarrow>
     (\<exists>w1. run_state (fs W cfg c) w = (Inr (), w1) \<and> run_state (k ()) w1 = (Inr y, w'))"
  "run_state (or_cleanup W cfg wrap cs c) w = (Inr u, w') \<longleftrightarrow> run_state (fs W cfg c) w = (Inr (), w')"
proof -
  show *: "run_state (or_cleanup W cfg wrap cs c) w = (Inr u, w') \<longleftrightarrow> run_state (fs W cfg c) w = (Inr (), w')" for u w'
  proof
    assume "run_state (or_cleanup W cfg wrap cs c) w = (Inr u, w')"
    then show "run_state (fs W cfg c) w = (Inr (), w')" by (rule or_cleanup_success)
  qed (simp add: or_cleanup_def run_simps)
  show "run_state (check (or_cleanup W cfg wrap cs c) k) w = (Inr y, w') \<longleftrightarrow>
     (\<exists>w1. run_state (fs W cfg c) w = (Inr (), w1) \<and> run_state (k ()) w1 = (Inr y, w'))"
    unfolding run_check using * [of "()"] by (cases "run_state (or_cleanup W cfg wrap cs c) w"; cases "fst (run_state (or_cleanup W cfg wrap cs c) w)") (auto, metis)
qed

lemma gzip_into_success:
  assumes "run_state (gzip_into W cfg src) w = (Inr u, w')"
  shows "pathExists (fwDirectory w') (gz_tmp src)" "file_at (fwDirectory w') (gz_tmp src) = gzipped W (file_at (fwDirectory w) src)"
proof -
  obtain body trailer where gz: "fwGzip W (file_at (fwDirectory w) src) = (body, trailer)" by force
  from assms obtain w1 w2 where o: "run_state (fs W cfg (FsOpenSource src)) w = (Inr (), w1)"
    and c: "run_state (fs W cfg (FsCreate (gz_tmp src))) w1 = (Inr (), w2)"
    and r: "run_state (let (body, trailer) = fwGzip W (file_at (fwDirectory w2) src) in
           check (or_cleanup W cfg id [FsWriteTo (gz_tmp src) trailer, FsCloseOf (gz_tmp src), FsRemove (gz_tmp src), FsCloseSource src] (FsWriteTo (gz_tmp src) body)) (\<lambda>_.
           check (or_cleanup W cfg id [FsCloseOf (gz_tmp src), FsRemove (gz_tmp src), FsCloseSource src] (FsWriteTo (gz_tmp src) trailer)) (\<lambda>_.
           check (or_cleanup W cfg id [FsCloseOf (gz_tmp src), FsRemove (gz_tmp src), FsCloseSource src] (FsSyncOf (gz_tmp src))) (\<lambda>_.
             or_cleanup W cfg id [FsRemove (gz_tmp src), FsCloseSource src] (FsCloseOf (gz_tmp src)))))) w2 = (Inr u, w')"
    by (auto simp: gzip_into_def Let_def step_iff(1))
  note d = fs_success(2) [OF o, simplified] fs_success(2) [OF c, simplified]
  then have "file_at (fwDirectory w2) src = file_at (fwDirectory w) src" by simp
  with r gz obtain w3 w4 w5 where b: "run_state (fs W cfg (FsWriteTo (gz_tmp src) body)) w2 = (Inr (), w3)"
    and t: "run_state (fs W cfg (FsWriteTo (gz_tmp src) trailer)) w3 = (Inr (), w4)"
    and y: "run_state (fs W cfg (FsSyncOf (gz_tmp src))) w4 = (Inr (), w5)"
    and z: "run_state (fs W cfg (FsCloseOf (gz_tmp src))) w5 = (Inr (), w')"
    by (auto simp: step_iff)
  have "fwDirectory w' = put_file (fwNow W (fwCalls w3)) (gz_tmp src) (body @ trailer) (fwDirectory w3)"
    using fs_success(2) [OF b] fs_success(2) [OF t] fs_success(2) [OF y] fs_success(2) [OF z] d by simp
  then show "pathExists (fwDirectory w') (gz_tmp src)" "file_at (fwDirectory w') (gz_tmp src) = gzipped W (file_at (fwDirectory w) src)"
    by (simp_all add: gz gzipped_def)
qed

text \<open>Whatever happens, the segment stays stored and nothing else changes but the temporary file.\<close>

lemma compressFile_keeps:
  assumes "run_state (compressFile W cfg src) w = (r, w')" and "pathExists (fwDirectory w) src"
  shows "within {src, gz_of src, gz_tmp src} w w'" "stored W (fwDirectory w') src (file_at (fwDirectory w) src)"
proof -
  let ?T = "{src, gz_of src, gz_tmp src}"
  have io: "state_io_rel (within ?T) (compressFile W cfg src)"
    unfolding compressFile_def
    by (intro untouched.io_intros or_cleanup_within fs_within io_within_mono [OF gzip_into_within]) auto
  from this assms(1) show "within ?T w w'" by (rule state_io_relD)
  have keep: "stored W (fwDirectory w'') src (file_at (fwDirectory w) src)" if "within {gz_tmp src} w w''" for w''
    using withinD(1) [OF that, of src] assms(2) by (simp add: stored_def file_at_def pathExists_def)
  obtain g w1 where g: "run_state (gzip_into W cfg src) w = (g, w1)" by force
  have w1: "within {gz_tmp src} w w1" using gzip_into_within g by (rule state_io_relD)
  show "stored W (fwDirectory w') src (file_at (fwDirectory w) src)"
  proof (cases g)
    case (Inl e)
    with assms(1) g w1 keep show ?thesis by (simp add: compressFile_def run_check)
  next
    case (Inr u)
    note tmp = gzip_into_success [OF g [unfolded Inr]]
    obtain q w2 where q: "run_state (or_cleanup W cfg id [FsRemove (gz_tmp src), FsCloseSource src]
        (FsRename (gz_tmp src) (gz_of src))) w1 = (q, w2)" by force
    from q show ?thesis
    proof (cases rule: or_cleanup_cases)
      case (bad n e w1')
      have "fwDirectory w1' = fwDirectory w1" using fs_failure(1) [OF bad(2)] by simp
      moreover have "within {gz_tmp src} w1' w2" by (rule state_io_relD [OF attempts_within bad(3)]) auto
      ultimately have "map_of (fwDirectory w2) src = map_of (fwDirectory w) src"
        using withinD(1) [OF w1, of src] withinD(1) [of "{gz_tmp src}" w1' w2 src] by simp
      then have "stored W (fwDirectory w2) src (file_at (fwDirectory w) src)"
        using assms(2) by (simp add: stored_def file_at_def pathExists_def)
      moreover have "w' = w2" using assms(1) g Inr q bad(1) by (simp add: compressFile_def run_check)
      ultimately show ?thesis by simp
    next
      case good
      obtain e where e: "map_of (fwDirectory w1) (gz_tmp src) = Some e" using tmp(1) by (auto simp: pathExists_def)
      have "fwDirectory w2 = AList.update (gz_of src) e (AList.delete (gz_tmp src) (fwDirectory w1))"
        using fs_success(2) [OF good(2)] e by (simp add: fs_good_def)
      then have gz: "map_of (fwDirectory w2) (gz_of src) = Some e" by simp
      obtain x w3 where x: "run_state (fs W cfg (FsCloseSource src)) w2 = (x, w3)" by force
      have "run_state (or_cleanup W cfg id [] (FsRemove src)) w3 = (r, w')"
        using assms(1) g Inr q good(1) x by (simp add: compressFile_def run_check)
      then have "within {src} w3 w'" by (intro state_io_relD [OF or_cleanup_within]) auto
      moreover have "within {} w2 w3" using x by (intro state_io_relD [OF fs_within]) auto
      ultimately have "map_of (fwDirectory w') (gz_of src) = Some e"
        using gz withinD(1) [of "{src}" w3 w' "gz_of src"] withinD(1) [of "{}" w2 w3 "gz_of src"] by simp
      with e tmp show ?thesis by (simp add: stored_def file_at_def pathExists_def)
    qed
  qed
qed

section \<open>Nothing is lost\<close>

text \<open>Opening creates the active file when it is missing and changes no file's content.\<close>

definition opens :: "rotate_config \<Rightarrow> file_writer \<Rightarrow> file_writer \<Rightarrow> bool" where
  "opens cfg w w' \<longleftrightarrow> within {rcName cfg} w w' \<and> file_at (fwDirectory w') (rcName cfg) = file_at (fwDirectory w) (rcName cfg)
     \<and> (pathExists (fwDirectory w) (rcName cfg) \<longrightarrow> pathExists (fwDirectory w') (rcName cfg))"

interpretation at_open: step_order "opens cfg" for cfg
  by unfold_locales (auto simp: opens_def within_def)

lemma fs_opens:
  assumes "c \<in> {FsMkdirAll, FsOpenAppend, FsStat, FsCloseOpened}"
  shows "state_io_rel (opens cfg) (fs W cfg c)"
proof
  fix r w w' assume run: "run_state (fs W cfg c) w = (r, w')"
  have "within {rcName cfg} w w'" using assms by (intro state_io_relD [OF fs_within run]) auto
  moreover have "fwDirectory w' = fwDirectory w
    \<or> \<not> pathExists (fwDirectory w) (rcName cfg) \<and> (\<exists>now. fwDirectory w' = put_file now (rcName cfg) [] (fwDirectory w))"
  proof (cases r)
    case (Inl p)
    with run fs_failure(1) [of W cfg c w "fst p" "snd p" w'] assms show ?thesis
      by (cases p) (auto simp: fs_bad_def split: if_splits)
  next
    case (Inr u)
    with run fs_success(2) [of W cfg c w u w'] assms show ?thesis by (auto simp: fs_good_def split: if_splits)
  qed
  moreover have "\<not> pathExists d n \<Longrightarrow> file_at d n = []" for d n by (simp add: pathExists_def file_at_def)
  ultimately show "opens cfg w w'" unfolding opens_def by auto
qed

lemma or_cleanup_opens:
  "set (c # cs) \<subseteq> {FsMkdirAll, FsOpenAppend, FsStat, FsCloseOpened} \<Longrightarrow> state_io_rel (opens cfg) (or_cleanup W cfg wrap cs c)"
  unfolding or_cleanup_def attempt_calls_def by (intro at_open.io_intros fs_opens) auto

definition opened :: "rotate_config \<Rightarrow> file_writer \<Rightarrow> bool" where
  "opened cfg w \<longleftrightarrow> fwHandle w = OpenHandle \<and> pathExists (fwDirectory w) (rcName cfg)
     \<and> fwSize w = length (file_at (fwDirectory w) (rcName cfg))"

lemma fw_open_outcome:
  assumes "run_state (fw_open W cfg) w = (r, w')"
  shows "\<forall>n. n \<noteq> rcName cfg \<longrightarrow> map_of (fwDirectory w') n = map_of (fwDirectory w) n"
    "file_at (fwDirectory w') (rcName cfg) = file_at (fwDirectory w) (rcName cfg)"
    "r = Inr () \<and> opened cfg w' \<or> (\<exists>e. r = Inl e) \<and> fwHandle w' = fwHandle w"
proof -
  let ?m = "if rcDir cfg \<noteq> [] \<and> rcDir cfg \<noteq> ''.''
            then or_cleanup W cfg (During ''filesink: create output directory'') [] FsMkdirAll else ok ()"
  let ?o = "or_cleanup W cfg (During (''filesink: open '' @ rcPath cfg)) [] FsOpenAppend"
  let ?s = "or_cleanup W cfg (During (''filesink: stat '' @ rcPath cfg)) [FsCloseOpened] FsStat"
  define calls where "calls = check ?m (\<lambda>_. check ?o (\<lambda>_. ?s))"
  have io: "state_io_rel (opens cfg) calls" unfolding calls_def by (intro at_open.io_intros or_cleanup_opens) auto
  obtain r1 w1 where c: "run_state calls w = (r1, w1)" by force
  from io c have o: "opens cfg w w1" by (rule state_io_relD)
  have after: "(r, w') = (case r1 of Inl e \<Rightarrow> (Inl e, w1)
      | Inr _ \<Rightarrow> (Inr (), w1\<lparr>fwHandle := OpenHandle, fwSize := length (file_at (fwDirectory w1) (rcName cfg)), fwOpenedAt := fwNow W (fwCalls w1)\<rparr>))"
    using assms c by (auto simp: fw_open_def calls_def run_check fw_now_def split: prod.splits sum.splits)
  have present: "pathExists (fwDirectory w1) (rcName cfg)" if r1: "r1 = Inr u" for u
  proof -
    obtain r0 w0 where m: "run_state ?m w = (r0, w0)" by force
    with c r1 obtain w2 where o: "run_state (fs W cfg FsOpenAppend) w0 = (Inr (), w2)" and s: "run_state (fs W cfg FsStat) w2 = (Inr (), w1)"
      unfolding calls_def by (cases r0) (auto simp: run_check [of ?m] step_iff)
    from fs_success(2) [OF o] fs_success(2) [OF s] show ?thesis by simp
  qed
  have w': "fwDirectory w' = fwDirectory w1" using after by (auto split: sum.splits)
  with o show "\<forall>n. n \<noteq> rcName cfg \<longrightarrow> map_of (fwDirectory w') n = map_of (fwDirectory w) n"
    "file_at (fwDirectory w') (rcName cfg) = file_at (fwDirectory w) (rcName cfg)" by (auto simp: opens_def within_def)
  show "r = Inr () \<and> opened cfg w' \<or> (\<exists>e. r = Inl e) \<and> fwHandle w' = fwHandle w"
    using after present o by (cases r1) (auto simp: opened_def opens_def within_def)
qed

text \<open>The record of what was written: the segments, oldest first, each with its text, then the active file.\<close>

definition archive :: "fw_world \<Rightarrow> rotate_config \<Rightarrow> directory \<Rightarrow> (string \<times> string) list \<Rightarrow> bool" where
  "archive W cfg d parts \<longleftrightarrow> distinct (map fst parts) \<and> (\<forall>(n, s) \<in> set parts. segment_of cfg n \<and> stored W d n s)"

definition recorded :: "rotate_config \<Rightarrow> directory \<Rightarrow> (string \<times> string) list \<Rightarrow> string" where
  "recorded cfg d parts = concat (map snd parts) @ file_at d (rcName cfg)"

definition writer_ok :: "rotate_config \<Rightarrow> file_writer \<Rightarrow> bool" where
  "writer_ok cfg w \<longleftrightarrow> fwHandle w = ClosedHandle \<or> opened cfg w"

lemma archive_cong:
  assumes "archive W cfg d parts" and "\<And>n. (\<exists>m. segment_of cfg m \<and> (n = m \<or> n = gz_of m)) \<Longrightarrow> pathExists d n \<Longrightarrow> map_of d' n = map_of d n"
  shows "archive W cfg d' parts"
  unfolding archive_def
proof (intro conjI ballI, use assms(1) in \<open>simp add: archive_def\<close>, clarify)
  fix n s assume "(n, s) \<in> set parts"
  with assms(1) have "segment_of cfg n" "stored W d n s" by (auto simp: archive_def)
  moreover from this have "pathExists d n \<Longrightarrow> map_of d' n = map_of d n" "pathExists d (gz_of n) \<Longrightarrow> map_of d' (gz_of n) = map_of d (gz_of n)"
    using assms(2) by blast+
  ultimately show "segment_of cfg n \<and> stored W d' n s"
    unfolding stored_def file_at_def pathExists_def by auto
qed

lemma archive_active: "archive W cfg d parts \<Longrightarrow> \<forall>n. n \<noteq> rcName cfg \<longrightarrow> map_of d' n = map_of d n \<Longrightarrow> archive W cfg d' parts"
  using segment_neq by (auto elim!: archive_cong)

lemma attempts_Nil [simp]: "run_state (attempt_calls W cfg []) w = (x, w') \<longleftrightarrow> x = Inr () \<and> w' = w"
  by (auto simp: attempt_calls_def)

text \<open>The active file becomes a segment.\<close>

lemma rotated_segment:
  assumes "archive W cfg (fwDirectory w) parts" and "segment_of cfg n"
    and free: "\<not> pathExists (fwDirectory w) n" "\<not> pathExists (fwDirectory w) (gz_of n)"
    and run: "run_state (fs W cfg (FsRename (rcName cfg) n)) w = (Inr u, w1)"
    and "within {n, gz_of n, gz_tmp n} w1 w2" and "stored W (fwDirectory w2) n (file_at (fwDirectory w1) n)"
  shows "archive W cfg (fwDirectory w2) (parts @ [(n, file_at (fwDirectory w) (rcName cfg))])"
    "file_at (fwDirectory w2) (rcName cfg) = []"
proof -
  note seg = segment_neq [OF assms(2)]
  obtain e where e: "map_of (fwDirectory w) (rcName cfg) = Some e"
    using fs_success(1) [OF run] by (auto simp: missing_error_def pathExists_def split: if_splits)
  then have d1: "fwDirectory w1 = AList.update n e (AList.delete (rcName cfg) (fwDirectory w))"
    using fs_success(2) [OF run] by (simp add: fs_good_def)
  have n: "file_at (fwDirectory w1) n = file_at (fwDirectory w) (rcName cfg)" using e by (simp add: d1 file_at_def)
  have d2: "map_of (fwDirectory w2) m = map_of (fwDirectory w1) m" if "m \<notin> {n, gz_of n, gz_tmp n}" for m
    using withinD(1) [OF assms(6) that] .
  show "file_at (fwDirectory w2) (rcName cfg) = []"
    using d2 [of "rcName cfg"] seg by (auto simp: file_at_def d1)
  have "archive W cfg (fwDirectory w2) parts"
  proof (rule archive_cong [OF assms(1)])
    fix m assume m: "\<exists>k. segment_of cfg k \<and> (m = k \<or> m = gz_of k)" "pathExists (fwDirectory w) m"
    from m(1) obtain k where k: "segment_of cfg k" "m = k \<or> m = gz_of k" by blast
    then have "m \<noteq> rcName cfg \<and> m \<noteq> gz_tmp n"
      using segment_neq [OF k(1)] segments_apart [OF k(1) assms(2)] by auto
    moreover have "m \<noteq> n" "m \<noteq> gz_of n" using m(2) free by auto
    ultimately show "map_of (fwDirectory w2) m = map_of (fwDirectory w) m" using d2 [of m] by (simp add: d1)
  qed
  moreover have "n \<notin> fst ` set parts" using assms(1) free by (auto simp: archive_def stored_def)
  ultimately show "archive W cfg (fwDirectory w2) (parts @ [(n, file_at (fwDirectory w) (rcName cfg))])"
    using assms(2,7) n by (auto simp: archive_def)
qed

lemma rotate_outcome:
  assumes "run_state (rotate_file W cfg) w = (r, w')" and "writer_ok cfg w" and "archive W cfg (fwDirectory w) parts"
    and "rcMaxBackups cfg \<le> 0"
  shows "\<exists>parts'. archive W cfg (fwDirectory w') parts' \<and> recorded cfg (fwDirectory w') parts' = recorded cfg (fwDirectory w) parts
    \<and> writer_ok cfg w' \<and> (r = Inr () \<longrightarrow> opened cfg w')"
proof -
  have open_handle: "fwHandle w = OpenHandle \<or> fwHandle w = ClosedHandle" using assms(2) by (auto simp: writer_ok_def opened_def)
  obtain r1 w1 where c: "run_state (or_cleanup W cfg (During ''filesink: close before rotate'') [] FsClose) w = (r1, w1)" by force
  then have w1: "fwDirectory w1 = fwDirectory w" "fwHandle w1 = ClosedHandle"
    using open_handle by (cases rule: or_cleanup_cases; auto dest: fs_success fs_failure)+
  show ?thesis
  proof (cases r1)
    case (Inl e)
    with assms(1) c have "w' = w1" "r = Inl e" by (simp_all add: rotate_file_def run_check)
    with w1 assms(3) show ?thesis by (intro exI [of _ parts]) (simp add: writer_ok_def)
  next
    case (Inr u)
    obtain n where n: "run_state (rotatedName W cfg) w1 = (Some n, w1)" "segment_of cfg n"
      "\<not> pathExists (fwDirectory w1) n" "\<not> pathExists (fwDirectory w1) (gz_of n)" by (rule rotatedName_free)
    obtain r2 w2 where ren: "run_state (or_cleanup W cfg (During ''filesink: rename on rotate'') [] (FsRename (rcName cfg) n)) w1 = (r2, w2)"
      by force
    let ?comp = "if rcCompress cfg
        then do { x \<leftarrow> compressFile W cfg n; (case x of Inr _ \<Rightarrow> skip | Inl e \<Rightarrow> fw_note (CompressionFailed e)) } else skip"
    from ren show ?thesis
    proof (cases rule: or_cleanup_cases)
      case (bad k e w1')
      then have "fwDirectory w2 = fwDirectory w" "fwHandle w2 = ClosedHandle" using w1 by (auto dest: fs_failure)
      moreover from bad assms(1) c Inr n(1) ren have "w' = w2" "r = r2" by (simp_all add: rotate_file_def run_check)
      ultimately show ?thesis using bad(1) assms(3) by (intro exI [of _ parts]) (simp add: writer_ok_def)
    next
      case good
      then have h2: "fwHandle w2 = ClosedHandle" using w1 by (auto dest: fs_success)
      have p2: "pathExists (fwDirectory w2) n"
        using fs_success(1,2) [OF good(2)]
        by (auto simp: fs_good_def missing_error_def pathExists_def split: option.splits if_splits)
      obtain w3 where cmp: "run_state ?comp w2 = ((), w3)" by (metis (full_types) surj_pair unit.exhaust)
      have w3: "within {n, gz_of n, gz_tmp n} w2 w3 \<and> stored W (fwDirectory w3) n (file_at (fwDirectory w2) n)"
      proof (cases "rcCompress cfg")
        case True
        obtain x w2' where x: "run_state (compressFile W cfg n) w2 = (x, w2')" by force
        from compressFile_keeps [OF x p2] cmp x True show ?thesis
          by (cases x) (auto simp: fw_note_def within_def)
      next
        case False
        with cmp p2 show ?thesis by (simp add: stored_def within_def)
      qed
      note seg = rotated_segment [OF assms(3) [folded w1(1)] n(2-4) good(2) conjunct1 [OF w3] conjunct2 [OF w3]]
      obtain r4 w4 where op: "run_state (fw_open W cfg) w3 = (r4, w4)" by force
      note o = fw_open_outcome [OF op]
      have w': "(r, w') = (case r4 of Inl e \<Rightarrow> (Inl e, w4) | Inr _ \<Rightarrow> (Inr (), w4\<lparr>fwNotes := fwNotes w4 @ [Rotated]\<rparr>))"
        using assms(1,4) c Inr n(1) ren good(1) cmp op
        by (auto simp: rotate_file_def run_check prune_def fw_note_def split: sum.splits)
      let ?parts = "parts @ [(n, file_at (fwDirectory w1) (rcName cfg))]"
      have "archive W cfg (fwDirectory w4) ?parts" using archive_active [OF seg(1) o(1)] .
      moreover have "recorded cfg (fwDirectory w4) ?parts = recorded cfg (fwDirectory w) parts"
        using o(2) seg(2) w1(1) by (simp add: recorded_def)
      moreover have "writer_ok cfg w4 \<and> (r4 = Inr () \<longrightarrow> opened cfg w4)"
        using o(3) h2 w3 by (auto simp: writer_ok_def within_def)
      ultimately show ?thesis using w' by (intro exI [of _ ?parts]) (cases r4; auto simp: writer_ok_def opened_def)
    qed
  qed
qed

text \<open>The error of a fragment that could not be taken back, and that of a flush.\<close>

definition rollback_failed :: "file_error \<Rightarrow> bool" where
  "rollback_failed err \<longleftrightarrow> (\<exists>e. err = During ''filesink: rollback of partial write failed'' e)"

definition flush_failed :: "file_error \<Rightarrow> bool" where
  "flush_failed err \<longleftrightarrow> (\<exists>e. err = During ''filesink: fsync'' e)"

definition rollback_refused :: "fw_world \<Rightarrow> bool" where
  "rollback_refused W \<longleftrightarrow> (\<exists>h k n e. fwAnswer W h (FsTruncate k) = FsBad n e)"

text \<open>What a write adds to the record, by its result.\<close>

definition write_adds :: "fw_world \<Rightarrow> rotate_config \<Rightarrow> string \<Rightarrow> file_error + nat \<Rightarrow> file_writer \<Rightarrow> string \<Rightarrow> bool" where
  "write_adds W cfg line r w extra \<longleftrightarrow>
     (case r of
        Inr n \<Rightarrow> n = length line + 1 \<and> extra = line @ [NL] \<and> opened cfg w
      | Inl err \<Rightarrow>
          extra = [] \<and> writer_ok cfg w
          \<or> extra = line @ [NL] \<and> opened cfg w \<and> rcFsync cfg \<and> flush_failed err
          \<or> prefix extra (line @ [NL]) \<and> rollback_failed err \<and> rollback_refused W)"

lemma append_outcome:
  assumes "run_state (fw_append W cfg line) w = (r, w')" and "writer_ok cfg w"
  shows "\<exists>extra. (\<forall>n. n \<noteq> rcName cfg \<longrightarrow> map_of (fwDirectory w') n = map_of (fwDirectory w) n)
    \<and> file_at (fwDirectory w') (rcName cfg) = file_at (fwDirectory w) (rcName cfg) @ extra \<and> write_adds W cfg line r w' extra"
proof -
  let ?buf = "line @ [NL]" and ?A = "file_at (fwDirectory w) (rcName cfg)"
  obtain r1 w1 where a: "run_state (fs W cfg (FsAppend ?buf)) w = (r1, w1)" by force
  have T1: "within {rcName cfg} w w1" using a by (intro state_io_relD [OF fs_within]) auto
  note outside = withinD(1) [OF T1]
  show ?thesis
  proof (cases r1)
    case (Inr u)
    note s = fs_success [OF a [unfolded Inr]]
    have o: "opened cfg w" using s(1) assms(2) by (auto simp: writer_ok_def closed_error_def)
    let ?w2 = "w1\<lparr>fwSize := fwSize w + length ?buf\<rparr>"
    have o2: "opened cfg ?w2" using o s by (simp add: opened_def)
    have d2: "file_at (fwDirectory w1) (rcName cfg) = ?A @ ?buf" using s(2) by simp
    show ?thesis
    proof (cases "rcFsync cfg")
      case False
      with assms(1) a Inr s(3) have "w' = ?w2" "r = Inr (length ?buf)" by (simp_all add: fw_append_def Let_def)
      with o2 d2 outside show ?thesis by (intro exI [of _ ?buf]) (simp add: write_adds_def)
    next
      case True
      obtain r3 w3 where y: "run_state (or_cleanup W cfg (During ''filesink: fsync'') [] FsSync) ?w2 = (r3, w3)" by force
      from y have w3: "fwDirectory w3 = fwDirectory w1" "fwSize w3 = fwSize ?w2" "fwHandle w3 = fwHandle w1"
        by (cases rule: or_cleanup_cases; auto dest: fs_success fs_failure)+
      then have o3: "opened cfg w3" using o2 by (simp add: opened_def)
      from True assms(1) a Inr s(3) y have "w' = w3" "r = (case r3 of Inl e \<Rightarrow> Inl e | Inr _ \<Rightarrow> Inr (length ?buf))"
        by (auto simp: fw_append_def Let_def run_check split: sum.splits)
      moreover have "\<forall>e. r3 = Inl e \<longrightarrow> flush_failed e" using y by (cases rule: or_cleanup_cases) (auto simp: flush_failed_def)
      ultimately show ?thesis using o3 d2 w3(1) outside True
        by (intro exI [of _ ?buf]) (auto simp: write_adds_def split: sum.splits)
    qed
  next
    case (Inl p)
    obtain n e where p: "p = (n, e)" by force
    note f = fs_failure [OF a [unfolded Inl p]]
    show ?thesis
    proof (cases "closed_error (fwHandle w)")
      case (Some e')
      with f have "n = 0" "fwDirectory w1 = fwDirectory w" by auto
      moreover from this assms(1) a Inl p have "w' = w1" "r = Inl e" by (simp_all add: fw_append_def Let_def)
      moreover have "fwHandle w1 = fwHandle w" "fwSize w1 = fwSize w" using f by auto
      ultimately show ?thesis using assms(2) by (intro exI [of _ "[]"]) (auto simp: write_adds_def writer_ok_def opened_def)
    next
      case None
      then have o: "opened cfg w" using assms(2) by (auto simp: writer_ok_def closed_error_def)
      have d1: "file_at (fwDirectory w1) (rcName cfg) = ?A @ take n ?buf" "pathExists (fwDirectory w1) (rcName cfg)"
        using f(1) None by simp_all
      have o1: "fwHandle w1 = OpenHandle" "fwSize w1 = length ?A" using f(4,6) o by (simp_all add: opened_def)
      show ?thesis
      proof (cases "n = 0")
        case True
        with assms(1) a Inl p have "w' = w1" "r = Inl e" by (simp_all add: fw_append_def Let_def)
        with True d1 o1 outside show ?thesis by (intro exI [of _ "[]"]) (auto simp: write_adds_def writer_ok_def opened_def)
      next
        case False
        obtain r2 w2 where t: "run_state (fs W cfg (FsTruncate (fwSize w1))) w1 = (r2, w2)" by force
        have T2: "within {rcName cfg} w1 w2" using t by (intro state_io_relD [OF fs_within]) auto
        have w': "w' = w2" "r = (case r2 of Inl (_, t) \<Rightarrow> Inl (During ''filesink: rollback of partial write failed'' t) | Inr _ \<Rightarrow> Inl e)"
          using assms(1) a Inl p False t by (auto simp: fw_append_def Let_def split: sum.splits prod.splits)
        have out2: "\<forall>m. m \<noteq> rcName cfg \<longrightarrow> map_of (fwDirectory w') m = map_of (fwDirectory w) m"
          using outside withinD(1) [OF T2] w'(1) by simp
        show ?thesis
        proof (cases r2)
          case (Inr v)
          note s2 = fs_success [OF t [unfolded Inr]]
          have "file_at (fwDirectory w2) (rcName cfg) = ?A" "pathExists (fwDirectory w2) (rcName cfg)"
            using s2(2) d1 o1(2) by simp_all
          with Inr w' s2(3,5) o1 out2 show ?thesis
            by (intro exI [of _ "[]"]) (auto simp: write_adds_def writer_ok_def opened_def)
        next
          case (Inl q)
          then obtain k te where q: "r2 = Inl (k, te)" by (cases q) auto
          have "fwDirectory w2 = fwDirectory w1" using fs_failure(1) [OF t [unfolded q]] by simp
          moreover have "rollback_refused W"
            using fs_failure(3) [OF t [unfolded q]] d1(2) by (auto simp: rollback_refused_def missing_error_def)
          ultimately have "fwDirectory w2 = fwDirectory w1" "write_adds W cfg line r w' (take n ?buf)"
            using w'(2) q take_is_prefix [of n ?buf] by (simp_all add: write_adds_def rollback_failed_def del: take_append)
          then show ?thesis using w'(1) d1 out2 by (intro exI [of _ "take n ?buf"]) simp
        qed
      qed
    qed
  qed
qed

lemma fw_write_outcome:
  assumes "run_state (fw_Write W cfg line) w = (r, w')" and "writer_ok cfg w" and "archive W cfg (fwDirectory w) parts"
    and "rcMaxBackups cfg \<le> 0"
  shows "\<exists>parts' extra. archive W cfg (fwDirectory w') parts' \<and> write_adds W cfg line r w' extra
    \<and> recorded cfg (fwDirectory w') parts' = recorded cfg (fwDirectory w) parts @ extra"
proof -
  let ?rot = "if shouldRotate cfg (length line + 1) w (fwNow W (fwCalls w)) then rotate_file W cfg else ok ()"
  obtain r1 w1 where rot: "run_state ?rot w = (r1, w1)" by force
  have run: "(r, w') = (case r1 of Inl e \<Rightarrow> (Inl e, w1) | Inr _ \<Rightarrow> run_state (fw_append W cfg line) w1)"
    using assms(1) rot by (simp add: fw_Write_def fw_now_def run_check split: sum.split)
  have "\<exists>parts1. archive W cfg (fwDirectory w1) parts1 \<and> recorded cfg (fwDirectory w1) parts1 = recorded cfg (fwDirectory w) parts
    \<and> writer_ok cfg w1"
    using rot rotate_outcome [OF _ assms(2-4), of r1 w1] assms(2,3) by (auto split: if_splits)
  then obtain parts1 where p: "archive W cfg (fwDirectory w1) parts1"
    "recorded cfg (fwDirectory w1) parts1 = recorded cfg (fwDirectory w) parts" "writer_ok cfg w1" by blast
  show ?thesis
  proof (cases r1)
    case (Inl e)
    with run p show ?thesis by (intro exI [of _ parts1] exI [of _ "[]"]) (simp add: write_adds_def)
  next
    case (Inr u)
    with run have "run_state (fw_append W cfg line) w1 = (r, w')" by simp
    from append_outcome [OF this p(3)] obtain extra where x:
      "\<forall>n. n \<noteq> rcName cfg \<longrightarrow> map_of (fwDirectory w') n = map_of (fwDirectory w1) n"
      "file_at (fwDirectory w') (rcName cfg) = file_at (fwDirectory w1) (rcName cfg) @ extra" "write_adds W cfg line r w' extra" by blast
    with p archive_active [OF p(1) x(1)] show ?thesis
      by (intro exI [of _ parts1] exI [of _ extra]) (simp add: recorded_def)
  qed
qed

text \<open>
A write of the rotating file sink loses nothing, whatever the disk answers to any of its calls:
  with no limit on the number of segments, the rotated segments (plain or compressed) in their
  order followed by the active file hold what they held before, and then exactly the line and its
  newline when the write succeeds, nothing when it fails - except that a failed flush may leave
  the whole line, and a fragment stays only when the disk refused to take it back, which the
  error says.
\<close>
theorem file_write_keeps:
  assumes "run_state (fw_Write W cfg line) w = (r, w')" and "writer_ok cfg w" and "archive W cfg (fwDirectory w) parts"
    and "rcMaxBackups cfg \<le> 0"
  shows "\<exists>parts' extra. archive W cfg (fwDirectory w') parts' \<and> write_adds W cfg line r w' extra
    \<and> recorded cfg (fwDirectory w') parts' = recorded cfg (fwDirectory w) parts @ extra"
  using assms by (rule fw_write_outcome)

section \<open>Retention\<close>

lemma stat_good:
  assumes "\<forall>h c. fwAnswer W h c = FsGood"
  shows "\<exists>w'. run_state (stat_segments W cfg es) w = (map (\<lambda>(n, e). (feMod e, n)) (filter (is_segment cfg) es), w')
    \<and> fwDirectory w' = fwDirectory w"
proof (induction es arbitrary: w)
  case (Cons x es)
  obtain n e where x: "x = (n, e)" by force
  obtain r w1 where f: "run_state (fs W cfg (FsInfo n)) w = (r, w1)" by force
  then have r: "r = Inr ()" "fwDirectory w1 = fwDirectory w"
    using assms by (auto simp: fs_run fs_refuses_def fs_good_def Let_def)
  from Cons.IH [of w] Cons.IH [of w1] show ?case
    using f r by (cases "is_segment cfg x") (auto simp: x)
qed simp

lemma remove_good:
  assumes "\<forall>h c. fwAnswer W h c = FsGood"
  shows "\<exists>w'. run_state (remove_segments W cfg ss) w = ((), w')
    \<and> (\<forall>n. map_of (fwDirectory w') n = (if n \<in> snd ` set ss then None else map_of (fwDirectory w) n))"
proof (induction ss arbitrary: w)
  case (Cons x ss)
  obtain m n where x: "x = (m, n)" by force
  obtain r w1 where f: "run_state (fs W cfg (FsRemove n)) w = (r, w1)" by force
  define w2 where "w2 = (case r of Inr _ \<Rightarrow> w1 | Inl (k, e) \<Rightarrow> w1\<lparr>fwNotes := fwNotes w1 @ [PruneFailed e]\<rparr>)"
  have "fwDirectory w1 = (if pathExists (fwDirectory w) n then AList.delete n (fwDirectory w) else fwDirectory w)"
    using f assms by (auto simp: fs_run fs_refuses_def missing_error_def Let_def split: option.splits if_splits)
  then have d: "map_of (fwDirectory w2) = (map_of (fwDirectory w))(n := None)"
    by (auto simp: w2_def pathExists_def split: sum.split prod.split)
  have step: "run_state (remove_segments W cfg (x # ss)) w = run_state (remove_segments W cfg ss) w2"
    using f by (cases r) (auto simp: x w2_def fw_note_def)
  from Cons.IH [of w2] obtain w3 where "run_state (remove_segments W cfg ss) w2 = ((), w3)"
    "\<forall>k. map_of (fwDirectory w3) k = (if k \<in> snd ` set ss then None else map_of (fwDirectory w2) k)" by blast
  then show ?case unfolding step by (auto simp: d x)
qed simp

lemma distinct_map_sort: "distinct (map f xs) \<Longrightarrow> distinct (map f (sort xs))"
  by (simp add: distinct_map)

lemma tagged_image: "(a, n) \<in> (\<lambda>(n, e). (f e, n)) ` X \<longleftrightarrow> (\<exists>e. (n, e) \<in> X \<and> a = f e)"
  by force

lemma sorted_take_drop: "sorted xs \<Longrightarrow> x \<in> set (take i xs) \<Longrightarrow> y \<in> set (drop i xs) \<Longrightarrow> x \<le> y"
  by (metis append_take_drop_id sorted_append)

lemma prune_good:
  assumes good: "\<forall>h c. fwAnswer W h c = FsGood" and k: "0 < rcMaxBackups cfg" and run: "run_state (prune W cfg) w = (u, w')"
    and L: "L = sort (map (\<lambda>(n, e). (feMod e, n)) (filter (is_segment cfg) (sort_key fst (fwDirectory w))))"
  shows "map_of (fwDirectory w') n =
    (if n \<in> snd ` set (take (length L - nat (rcMaxBackups cfg)) L) then None else map_of (fwDirectory w) n)"
proof -
  let ?L = "map (\<lambda>(n, e). (feMod e, n)) (filter (is_segment cfg) (sort_key fst (fwDirectory w)))"
  obtain r w1 where f: "run_state (fs W cfg FsReadDir) w = (r, w1)" by force
  then have r: "r = Inr ()" "fwDirectory w1 = fwDirectory w"
    using good by (auto simp: fs_run fs_refuses_def fs_good_def Let_def)
  obtain w2 where st: "run_state (stat_segments W cfg (sort_key fst (fwDirectory w))) w1 = (?L, w2)" "fwDirectory w2 = fwDirectory w"
    using stat_good [OF good, of cfg _ w1] r(2) by auto
  obtain w3 where rm: "run_state (remove_segments W cfg (take (length ?L - nat (rcMaxBackups cfg)) L)) w2 = ((), w3)"
    "\<And>n. map_of (fwDirectory w3) n = (if n \<in> snd ` set (take (length ?L - nat (rcMaxBackups cfg)) L) then None else map_of (fwDirectory w2) n)"
    using remove_good [OF good] by blast
  have len: "length L = length ?L" using L by simp
  have "w' = (if int (length ?L) \<le> rcMaxBackups cfg then w2 else w3)"
    using run k f r st(1) rm(1) unfolding L by (auto simp: prune_def split: if_splits)
  moreover have "int (length ?L) \<le> rcMaxBackups cfg \<Longrightarrow> length L - nat (rcMaxBackups cfg) = 0" using len by simp
  ultimately show ?thesis using rm(2) st(2) len by auto
qed

text \<open>The files that count as rotated segments of a writer.\<close>

definition segments_in :: "rotate_config \<Rightarrow> directory \<Rightarrow> string set" where
  "segments_in cfg d = {n. \<exists>e. map_of d n = Some e \<and> is_segment cfg (n, e)}"

definition age_of :: "directory \<Rightarrow> string \<Rightarrow> int" where
  "age_of d n = (case map_of d n of Some e \<Rightarrow> feMod e | None \<Rightarrow> 0)"

lemma prune_keeps_newest:
  assumes good: "\<forall>h c. fwAnswer W h c = FsGood" and k: "0 < rcMaxBackups cfg" and run: "run_state (prune W cfg) w = (u, w')"
    and dist: "distinct (map fst (fwDirectory w))"
  shows "\<exists>removed \<subseteq> segments_in cfg (fwDirectory w).
      (\<forall>n. map_of (fwDirectory w') n = (if n \<in> removed then None else map_of (fwDirectory w) n))
    \<and> card (segments_in cfg (fwDirectory w) - removed) = min (nat (rcMaxBackups cfg)) (card (segments_in cfg (fwDirectory w)))
    \<and> (\<forall>m \<in> removed. \<forall>n \<in> segments_in cfg (fwDirectory w) - removed.
         (age_of (fwDirectory w) m, m) \<le> (age_of (fwDirectory w) n, n))"
proof -
  let ?d = "fwDirectory w" and ?k = "nat (rcMaxBackups cfg)"
  let ?es = "filter (is_segment cfg) (sort_key fst ?d)"
  define L where "L = sort (map (\<lambda>(n, e). (feMod e, n)) ?es)"
  let ?i = "length L - ?k" and ?R = "snd ` set (take (length L - ?k) L)"
  have in_es: "(n, e) \<in> set ?es \<longleftrightarrow> map_of ?d n = Some e \<and> is_segment cfg (n, e)" for n e using dist by (auto simp: map_of_eq_Some_iff)
  have in_L: "(a, n) \<in> set L \<longleftrightarrow> n \<in> segments_in cfg ?d \<and> a = age_of ?d n" for a n
  proof -
    have "set L = (\<lambda>(n, e). (feMod e, n)) ` set ?es" unfolding L_def set_sort by (rule set_map)
    then have "(a, n) \<in> set L \<longleftrightarrow> (\<exists>e. (n, e) \<in> set ?es \<and> a = feMod e)" by (simp only: tagged_image)
    then show ?thesis unfolding in_es segments_in_def age_of_def mem_Collect_eq by (cases "map_of ?d n") simp_all
  qed
  have "distinct (map fst ?es)" by (rule distinct_map_filter) (use dist in \<open>simp add: distinct_map\<close>)
  moreover have "map fst ?es = map snd (map (\<lambda>(n, e). (feMod e, n)) ?es)" by (simp add: case_prod_beta)
  ultimately have "distinct (map snd (map (\<lambda>(n, e). (feMod e, n)) ?es))" by simp
  then have dL: "distinct (map snd L)" unfolding L_def by (rule distinct_map_sort)
  have S: "segments_in cfg ?d = snd ` set L" using in_L by force
  have split: "snd ` set L - ?R = snd ` set (drop ?i L)"
  proof -
    have "distinct (map snd (take ?i L @ drop ?i L))" using dL by simp
    then have "?R \<inter> snd ` set (drop ?i L) = {}" by (simp del: append_take_drop_id)
    moreover have "snd ` set L = ?R \<union> snd ` set (drop ?i L)" by (metis append_take_drop_id image_Un set_append)
    ultimately show ?thesis by blast
  qed
  have c1: "card (snd ` set (drop ?i L)) = min ?k (length L)"
  proof -
    have "distinct (map snd (drop ?i L))" using dL by (simp flip: drop_map)
    then have "card (snd ` set (drop ?i L)) = length (drop ?i L)" using distinct_card by fastforce
    then show ?thesis by (cases "?k \<le> length L") simp_all
  qed
  have c2: "card (snd ` set L) = length L" using dL distinct_card by fastforce
  have le: "(age_of ?d m, m) \<le> (age_of ?d n, n)" if "m \<in> ?R" "n \<in> snd ` set (drop ?i L)" for m n
  proof -
    have sL: "sorted L" by (simp add: L_def)
    from that obtain p q where pq: "p \<in> set (take ?i L)" "m = snd p" "q \<in> set (drop ?i L)" "n = snd q" by blast
    from pq have "p \<le> q" by (intro sorted_take_drop [OF sL])
    moreover have "p = (age_of ?d m, m)" "q = (age_of ?d n, n)"
      using in_L [of "fst p" m] in_L [of "fst q" n] pq by (auto intro: prod_eqI dest!: in_set_takeD in_set_dropD)
    ultimately show ?thesis by simp
  qed
  have "?R \<subseteq> segments_in cfg ?d" unfolding S by (auto dest: in_set_takeD)
  moreover note prune_good [OF good k run L_def]
  ultimately show ?thesis using c1 c2 le split unfolding S by (intro exI [of _ ?R]) auto
qed

text \<open>The files a rotation makes: the name of an instant and a number, plain or compressed.\<close>

definition made_by_rotation :: "rotate_config \<Rightarrow> string \<Rightarrow> bool" where
  "made_by_rotation cfg n \<longleftrightarrow>
     (\<exists>t i. n = segment_name cfg (rotated_stamp t) i \<or> n = gz_of (segment_name cfg (rotated_stamp t) i))"

definition rotated_in :: "rotate_config \<Rightarrow> directory \<Rightarrow> string set" where
  "rotated_in cfg d = {n. \<exists>e. map_of d n = Some e \<and> \<not> feDir e \<and> made_by_rotation cfg n}"

lemma made_is_segment:
  assumes "made_by_rotation cfg n" and "\<not> feDir e"
  shows "is_segment cfg (n, e)"
proof -
  obtain t i z where n: "n = base_of cfg @ ''-'' @ (rotated_stamp t @ (if i = 0 then [] else ''-'' @ show_nat i)) @ ext_of cfg @ z" and z: "z = [] \<or> z = ''.gz''"
    using assms(1) by (fastforce simp: made_by_rotation_def segment_name_def gz_of_def)
  have "length (rcName cfg) < length n" using name_parts [of cfg] n by simp
  moreover have "has_prefix (base_of cfg @ ''-'') n" using n by (auto simp: has_prefix_iff)
  moreover have "has_suffix (ext_of cfg) n \<or> has_suffix (ext_of cfg @ ''.gz'') n" using n z by (auto simp: has_suffix_iff)
  ultimately show ?thesis using assms(2) by (auto simp: is_segment_def)
qed

text \<open>
C16: Retention keeps the newest of the writer's own segments: on a disk where every call succeeds, in
  a directory where no other file's name begins like a segment's, pruning removes only files that a
  rotation of this writer made, leaves every other file as it was, and of the segments leaves
  \<open>max_backups\<close> (all, if there are fewer): the newest by modification time, then name. In a shared
  directory it also removes a stranger's file: \<open>prune_takes_foreign_file\<close>.
\<close>
theorem retention_keeps_newest:
  assumes "\<forall>h c. fwAnswer W h c = FsGood" and "0 < rcMaxBackups cfg" and "run_state (prune W cfg) w = (u, w')"
    and "distinct (map fst (fwDirectory w))"
    and own: "\<forall>n e. map_of (fwDirectory w) n = Some e \<and> has_prefix (base_of cfg @ ''-'') n \<longrightarrow> n = rcName cfg \<or> feDir e \<or> made_by_rotation cfg n"
  shows "\<exists>removed \<subseteq> rotated_in cfg (fwDirectory w).
      (\<forall>n. map_of (fwDirectory w') n = (if n \<in> removed then None else map_of (fwDirectory w) n))
    \<and> card (rotated_in cfg (fwDirectory w) - removed) = min (nat (rcMaxBackups cfg)) (card (rotated_in cfg (fwDirectory w)))
    \<and> (\<forall>m \<in> removed. \<forall>n \<in> rotated_in cfg (fwDirectory w) - removed.
         (age_of (fwDirectory w) m, m) \<le> (age_of (fwDirectory w) n, n))"
proof -
  have "segments_in cfg (fwDirectory w) = rotated_in cfg (fwDirectory w)"
    using own made_is_segment by (fastforce simp: segments_in_def rotated_in_def is_segment_def)
  with prune_keeps_newest [OF assms(1-4)] show ?thesis by simp
qed

text \<open>A directory with a file to rotate, beside the file of another sink whose name begins alike.\<close>

definition good_disk :: fw_world where
  "good_disk = \<lparr> fwAnswer = (\<lambda>_ _. FsGood), fwNow = (\<lambda>h. int (length h)), fwGzip = (\<lambda>s. (''gz'' @ s, [])) \<rparr>"

definition small_config :: rotate_config where
  "small_config = \<lparr> rcPath = ''e.jsonl'', rcDir = ''.'', rcName = ''e.jsonl'', rcMaxSize = 5, rcMaxAge = 0,
     rcMaxBackups = 0, rcCompress = True, rcFsync = False \<rparr>"

definition one_line :: file_writer where
  "one_line = \<lparr> fwHandle = OpenHandle, fwSize = 3, fwOpenedAt = 0,
     fwDirectory = [(''e.jsonl'', \<lparr> feContent = ''ab'' @ [NL], feMod = 0, feDir = False \<rparr>)], fwCalls = [], fwNotes = [] \<rparr>"

lemma one_line_ok: "writer_ok small_config one_line" "archive good_disk small_config (fwDirectory one_line) []"
  by (simp_all add: writer_ok_def opened_def one_line_def small_config_def file_at_def pathExists_def archive_def)

lemma file_write_keeps_witness:
  "\<exists>r w' parts' extra. run_state (fw_Write good_disk small_config ''cd'') one_line = (r, w')
     \<and> write_adds good_disk small_config ''cd'' r w' extra \<and> recorded small_config (fwDirectory w') parts' = ''ab'' @ [NL] @ extra"
proof -
  obtain r w' where run: "run_state (fw_Write good_disk small_config ''cd'') one_line = (r, w')" by force
  have "recorded small_config (fwDirectory one_line) [] = ''ab'' @ [NL]"
    by (simp add: recorded_def one_line_def small_config_def file_at_def)
  with file_write_keeps [OF run one_line_ok] show ?thesis using run by (fastforce simp: small_config_def)
qed

definition keep_one :: rotate_config where
  "keep_one = small_config\<lparr>rcMaxBackups := 1\<rparr>"

definition eth_file :: string where "eth_file = ''e-eth.jsonl''"
definition own_segment :: string where "own_segment = ''e-20260101T000000.000.jsonl''"

definition two_sinks :: file_writer where
  "two_sinks = one_line\<lparr>fwDirectory := [(''e.jsonl'', \<lparr> feContent = [], feMod = 9, feDir = False \<rparr>),
     (eth_file, \<lparr> feContent = ''ab'', feMod = 5, feDir = False \<rparr>),
     (own_segment, \<lparr> feContent = ''cd'', feMod = 8, feDir = False \<rparr>)]\<rparr>"

lemma map_of_filter_names: "distinct (map fst d) \<Longrightarrow> {n. \<exists>e. map_of d n = Some e \<and> P (n, e)} = fst ` set (filter P d)"
  by (auto simp: map_of_eq_Some_iff) force

lemma one_left: "R \<subseteq> {a, b} \<Longrightarrow> a \<noteq> b \<Longrightarrow> card ({a, b} - R) = 1 \<Longrightarrow> R = {a} \<or> R = {b}"
  by (cases "a \<in> R"; cases "b \<in> R") (auto simp: insert_Diff_if)

lemma two_sinks_facts:
  "segments_in keep_one (fwDirectory two_sinks) = {eth_file, own_segment}" "eth_file \<noteq> own_segment"
  "age_of (fwDirectory two_sinks) eth_file = 5" "age_of (fwDirectory two_sinks) own_segment = 8"
  "pathExists (fwDirectory two_sinks) own_segment" "distinct (map fst (fwDirectory two_sinks))"
proof -
  show "distinct (map fst (fwDirectory two_sinks))" by (simp add: two_sinks_def eth_file_def own_segment_def)
  then show "segments_in keep_one (fwDirectory two_sinks) = {eth_file, own_segment}"
    unfolding segments_in_def
    by (subst map_of_filter_names) (simp_all add: is_segment_def two_sinks_def keep_one_def small_config_def ext_of_def base_of_def
      filepath_Ext_def trim_suffix_def has_suffix_def has_prefix_def eth_file_def own_segment_def)
qed (simp_all add: two_sinks_def age_of_def pathExists_def eth_file_def own_segment_def)

text \<open>The file of the other sink goes.\<close>

lemma prune_takes_foreign_file:
  "\<exists>w'. run_state (prune good_disk keep_one) two_sinks = ((), w') \<and> \<not> pathExists (fwDirectory w') eth_file
     \<and> pathExists (fwDirectory w') own_segment"
proof -
  obtain w' where run: "run_state (prune good_disk keep_one) two_sinks = ((), w')" by (metis (full_types) surj_pair unit.exhaust)
  have g: "\<forall>h c. fwAnswer good_disk h c = FsGood" "0 < rcMaxBackups keep_one" "nat (rcMaxBackups keep_one) = 1"
    by (simp_all add: good_disk_def keep_one_def)
  obtain removed where rm: "removed \<subseteq> {eth_file, own_segment}"
    "\<forall>n. map_of (fwDirectory w') n = (if n \<in> removed then None else map_of (fwDirectory two_sinks) n)"
    "card ({eth_file, own_segment} - removed) = min 1 (card {eth_file, own_segment})"
    "\<forall>m \<in> removed. \<forall>n \<in> {eth_file, own_segment} - removed. (age_of (fwDirectory two_sinks) m, m) \<le> (age_of (fwDirectory two_sinks) n, n)"
    using prune_keeps_newest [OF g(1,2) run two_sinks_facts(6)] unfolding two_sinks_facts(1) g(3) by blast
  have "card ({eth_file, own_segment} - removed) = 1" using rm(3) two_sinks_facts(2) by simp
  then have "removed = {eth_file} \<or> removed = {own_segment}" using rm(1) two_sinks_facts(2) by (intro one_left) auto
  moreover have "removed \<noteq> {own_segment}"
  proof
    assume "removed = {own_segment}"
    then have "own_segment \<in> removed" "eth_file \<in> {eth_file, own_segment} - removed" using two_sinks_facts(2) by auto
    with rm(4) have "(8, own_segment) \<le> (5 :: int, eth_file)" unfolding two_sinks_facts(3,4) [symmetric] by blast
    then show False by simp
  qed
  ultimately have "removed = {eth_file}" by simp
  with run rm(2) two_sinks_facts(2,5) show ?thesis by (auto simp: pathExists_def)
qed

text \<open>Two segments of the writer itself, the older one compressed.\<close>

definition old_segment :: string where "old_segment = gz_of (segment_name keep_one (rotated_stamp 0) 0)"
definition new_segment :: string where "new_segment = segment_name keep_one (rotated_stamp 0) 1"

definition two_segments :: file_writer where
  "two_segments = one_line\<lparr>fwDirectory := [(''e.jsonl'', \<lparr> feContent = [], feMod = 9, feDir = False \<rparr>),
     (old_segment, \<lparr> feContent = ''gz'', feMod = 5, feDir = False \<rparr>),
     (new_segment, \<lparr> feContent = ''cd'', feMod = 8, feDir = False \<rparr>)]\<rparr>"

lemma two_segments_facts:
  "old_segment \<noteq> new_segment" "old_segment \<noteq> ''e.jsonl''" "new_segment \<noteq> ''e.jsonl''" "\<not> has_prefix (base_of keep_one @ ''-'') ''e.jsonl''"
  by code_simp+

lemma retention_keeps_newest_witness:
  "\<exists>w'. run_state (prune good_disk keep_one) two_segments = ((), w') \<and> map_of (fwDirectory w') old_segment = None
     \<and> map_of (fwDirectory w') new_segment = map_of (fwDirectory two_segments) new_segment
     \<and> map_of (fwDirectory w') ''e.jsonl'' = map_of (fwDirectory two_segments) ''e.jsonl''"
proof -
  note ne = two_segments_facts(1-3) two_segments_facts(1-3) [symmetric]
  have made: "made_by_rotation keep_one old_segment" "made_by_rotation keep_one new_segment"
    unfolding made_by_rotation_def old_segment_def new_segment_def by blast+
  obtain w' where run: "run_state (prune good_disk keep_one) two_segments = ((), w')" by (metis (full_types) surj_pair unit.exhaust)
  have g: "\<forall>h c. fwAnswer good_disk h c = FsGood" "0 < rcMaxBackups keep_one" "nat (rcMaxBackups keep_one) = 1"
    by (simp_all add: good_disk_def keep_one_def)
  have d: "distinct (map fst (fwDirectory two_segments))" using ne by (simp add: two_segments_def)
  have plain: "\<not> made_by_rotation keep_one ''e.jsonl''"
    using made_is_segment [of keep_one "''e.jsonl''" "\<lparr> feContent = [], feMod = 9, feDir = False \<rparr>"]
    by (auto simp: is_segment_def keep_one_def small_config_def)
  have "\<forall>n e. map_of (fwDirectory two_segments) n = Some e \<and> has_prefix (base_of keep_one @ ''-'') n
      \<longrightarrow> n = rcName keep_one \<or> feDir e \<or> made_by_rotation keep_one n"
    using made by (auto simp: two_segments_def keep_one_def small_config_def split: if_splits)
  from retention_keeps_newest [OF g(1,2) run d this] obtain removed where rm: "removed \<subseteq> rotated_in keep_one (fwDirectory two_segments)"
    "\<forall>n. map_of (fwDirectory w') n = (if n \<in> removed then None else map_of (fwDirectory two_segments) n)"
    "card (rotated_in keep_one (fwDirectory two_segments) - removed) = min 1 (card (rotated_in keep_one (fwDirectory two_segments)))"
    "\<forall>m \<in> removed. \<forall>n \<in> rotated_in keep_one (fwDirectory two_segments) - removed.
       (age_of (fwDirectory two_segments) m, m) \<le> (age_of (fwDirectory two_segments) n, n)" unfolding g(3) by blast
  have rot: "rotated_in keep_one (fwDirectory two_segments) = {old_segment, new_segment}"
    using made plain ne by (auto simp: rotated_in_def two_segments_def split: if_splits)
  have age: "age_of (fwDirectory two_segments) old_segment = 5" "age_of (fwDirectory two_segments) new_segment = 8"
    using ne by (simp_all add: age_of_def two_segments_def)
  have "card ({old_segment, new_segment} - removed) = 1" using rm(3) ne(1) unfolding rot by simp
  then have "removed = {old_segment} \<or> removed = {new_segment}" using rm(1) ne(1) unfolding rot by (intro one_left) auto
  moreover have "removed \<noteq> {new_segment}"
  proof
    assume "removed = {new_segment}"
    then have "new_segment \<in> removed" "old_segment \<in> {old_segment, new_segment} - removed" using ne by auto
    with rm(4) have "(8, new_segment) \<le> (5 :: int, old_segment)" unfolding rot age [symmetric] by blast
    then show False by simp
  qed
  ultimately have "removed = {old_segment}" by simp
  with run rm(2) ne show ?thesis by auto
qed

end
