(* ===== verification/FileSink.thy ===== *)
theory FileSink
  imports SinkBase FileWriter
begin

text \<open>
  \<^verbatim>\<open>evm-sink-file\<close>: \<^verbatim>\<open>src/internal/filesink/filesink.go\<close> and \<^verbatim>\<open>filter.go\<close>, on the rotating writer of
  FileWriter. Its retry loop is the one of the other sinks but for the missing second look at the
  context, so it is another instance of \<open>retry_loop\<close> and \<open>record_loop\<close>.
\<close>

section \<open>The filter\<close>

record file_filter =
  ffIncludeTypes :: "string list"
  ffExcludeTypes :: "string list"
  ffIncludeNames :: "string list"
  ffExcludeNames :: "string list"

definition file_toSet :: "string list \<Rightarrow> string list" where
  "file_toSet items = filter (\<lambda>s. s \<noteq> []) (map trim_space items)"

definition file_NewFilter :: "file_filter \<Rightarrow> file_filter" where
  "file_NewFilter opts =
     \<lparr> ffIncludeTypes = file_toSet (ffIncludeTypes opts), ffExcludeTypes = file_toSet (ffExcludeTypes opts),
       ffIncludeNames = file_toSet (ffIncludeNames opts), ffExcludeNames = file_toSet (ffExcludeNames opts) \<rparr>"

definition file_Allow :: "file_filter \<Rightarrow> envelope \<Rightarrow> bool" where
  "file_Allow f env =
     (if ffIncludeTypes f \<noteq> [] \<and> eType env \<notin> set (ffIncludeTypes f) then False
      else if eType env \<in> set (ffExcludeTypes f) then False
      else if ffIncludeNames f \<noteq> [] \<and> eName env \<notin> set (ffIncludeNames f) then False
      else if eName env \<in> set (ffExcludeNames f) then False
      else True)"

section \<open>The loop\<close>

text \<open>\<^verbatim>\<open>errors.Is\<close> and \<^verbatim>\<open>errors.As\<close> look through the wrapped errors.\<close>

fun file_Classify :: "file_error \<Rightarrow> failure_class" where
  "file_Classify ENOSPC = ClassTransient"
| "file_Classify EDQUOT = ClassTransient"
| "file_Classify (TransientError reason e) = ClassTransient"
| "file_Classify (During what e) = file_Classify e"
| "file_Classify ErrClosed = ClassPermanent"
| "file_Classify ErrNotExist = ClassPermanent"
| "file_Classify NilFile = ClassPermanent"
| "file_Classify (Fault what) = ClassPermanent"

definition file_New :: "sink_setup \<Rightarrow> string + sink_options" where
  "file_New st =
     (if \<not> spReader st then Inl ''filesink: reader is required''
      else if \<not> spTarget st then Inl ''filesink: writer is required''
      else
        (let Op = spOptions st;
             base = (if soBackoffBase Op \<le> 0 then 500 * millisecond else soBackoffBase Op);
             mx = (if soBackoffMax Op \<le> 0 then 30 * second else soBackoffMax Op)
         in Inr (Op\<lparr> soBackoffBase := base, soBackoffMax := mx \<rparr>)))"

definition file_jitter :: "(int \<Rightarrow> int) \<Rightarrow> int \<Rightarrow> int" where
  "file_jitter randInt d = (if d \<le> 0 then 0 else (let half = d div 2 in half + randInt (half + 1)))"

definition file_backoffFor :: "sink_options \<Rightarrow> (int \<Rightarrow> int) \<Rightarrow> nat \<Rightarrow> int" where
  "file_backoffFor Op randInt attempt =
     file_jitter randInt (backoff_Duration (int attempt) (soBackoffBase Op) (soBackoffMax Op))"

type_synonym file_hist = "(string, file_error) sink_hist"
type_synonym file_sink_world = "(string, file_error) sink_world"

definition file_clearBlocked :: "(file_hist, unit) state" where
  "file_clearBlocked = do { note_event (Blocked False); note_event (BackoffSeconds 0); note_event (EmitBlocked 0) }"

fun file_writeWithRetry :: "nat \<Rightarrow> sink_options \<Rightarrow> file_sink_world \<Rightarrow> nat \<Rightarrow> int option \<Rightarrow> string
    \<Rightarrow> (file_hist, file_error sink_error + bool) state" where
  "file_writeWithRetry 0 Op W attempt blockedSince payload = fail StillRetrying"
| "file_writeWithRetry (Suc fuel) Op W attempt blockedSince payload =
     do { cancelled \<leftarrow> sk_cancelled W;
          if cancelled then ok False
          else do {
            start \<leftarrow> sk_now W;
            werr \<leftarrow> sk_send W payload;
            (case werr of
               None \<Rightarrow> do {
                 (if attempt > 0 then file_clearBlocked else skip);
                 note_event (Reachable True);
                 note_event (ConsecutiveFailures 0);
                 ok True }
             | Some e \<Rightarrow> do {
                 note_event (FailedAs (file_Classify e));
                 if file_Classify e = ClassPermanent then do { file_clearBlocked; fail (PermanentFailure e) }
                 else do {
                   t \<leftarrow> sk_now W;
                   note_event (Blocked True);
                   note_event (ConsecutiveFailures (attempt + 1));
                   note_event Retried;
                   note_event (Reachable False);
                   note_event (EmitBlocked (t - (case blockedSince of None \<Rightarrow> start | Some b \<Rightarrow> b)));
                   h \<leftarrow> gets id;
                   note_event (BackoffSeconds (file_backoffFor Op (skRand W h) (attempt + 1)));
                   slept \<leftarrow> backoff_Sleep W (file_backoffFor Op (skRand W h) (attempt + 1));
                   if \<not> slept then ok False
                   else file_writeWithRetry fuel Op W (attempt + 1)
                          (Some (case blockedSince of None \<Rightarrow> start | Some b \<Rightarrow> b)) payload } }) } }"

definition file_turn :: "file_filter \<Rightarrow> sink_options \<Rightarrow> nat \<Rightarrow> file_sink_world \<Rightarrow> (file_hist, file_error sink_error + turn) state" where
  "file_turn F Op limit W =
     do { cancelled \<leftarrow> sk_cancelled W;
          if cancelled then ok Stop
          else do {
            r \<leftarrow> sk_read W;
            (case r of
               ReadEOF \<Rightarrow> ok Stop
             | ReadError e \<Rightarrow> do { cancelled2 \<leftarrow> sk_cancelled W; if cancelled2 then ok Stop else fail (ReadFailed e) }
             | ReadRecord env payload \<Rightarrow> do {
                 note_event Consumed;
                 if \<not> file_Allow F env then do { note_event FilteredOut; ok Again }
                 else do {
                   written \<leftarrow> file_writeWithRetry (Suc limit) Op W 0 None payload;
                   (case written of
                      Inl e \<Rightarrow> fail e
                    | Inr False \<Rightarrow> ok Stop
                    | Inr True \<Rightarrow> do { note_event (Delivered (eType env)); ok Again }) } }) } }"

fun file_Run :: "file_filter \<Rightarrow> sink_options \<Rightarrow> nat \<Rightarrow> nat \<Rightarrow> file_sink_world \<Rightarrow> (file_hist, file_error sink_error + turn) state" where
  "file_Run F Op 0 limit W = ok Again"
| "file_Run F Op (Suc n) limit W =
     check (file_turn F Op limit W) (\<lambda>t. case t of Stop \<Rightarrow> ok Stop | Again \<Rightarrow> file_Run F Op n limit W)"

definition file_prepare :: "file_filter \<Rightarrow> envelope \<Rightarrow> string \<Rightarrow> file_error sink_error + string option" where
  "file_prepare F env payload = (if file_Allow F env then Inr (Some payload) else Inr None)"

interpretation file_retry: retry_loop "\<lambda>fuel. file_writeWithRetry fuel Op" "file_Classify" "file_backoffFor Op" "file_clearBlocked" False
  for Op
  by unfold_locales (auto simp: file_clearBlocked_def run_simps intro!: state_ext split: option.split)

interpretation file_loop: record_loop "file_Classify" "\<lambda>limit W. file_writeWithRetry (Suc limit) Op W 0 None" "file_prepare F"
    "file_turn F Op" "file_Run F Op" for F Op
proof
  show "run_state (file_writeWithRetry (Suc limit) Op W 0 None m) h = (r, h') \<Longrightarrow>
       \<exists>t. h' = h @ t \<and> (\<forall>rr. Read rr \<notin> set t) \<and> records_read t = [] \<and> delivered_count t = 0
         \<and> set (attempted t) \<subseteq> {m} \<and> confirmed t = (if r = Inr True then [m] else [])" for limit W m h r h'
    using file_retry.outcome by blast
  show "\<forall>h. \<not> skCancelled W h \<and> skSleep W h \<Longrightarrow>
       \<forall>h m e. skSend W h m = Some e \<longrightarrow> file_Classify e = ClassTransient \<Longrightarrow>
       \<forall>h m. limit \<le> failures h \<longrightarrow> skSend W h m = None \<Longrightarrow>
       fst (run_state (file_writeWithRetry (Suc limit) Op W 0 None m) h) = Inr True" for W limit m h
    by (rule file_retry.survives) auto
  show "file_turn F Op limit W =
      do { c \<leftarrow> sk_cancelled W;
           if c then ok Stop
           else do {
             r \<leftarrow> sk_read W;
             (case r of
                ReadEOF \<Rightarrow> ok Stop
              | ReadError e \<Rightarrow> do { c2 \<leftarrow> sk_cancelled W; if c2 then ok Stop else fail (ReadFailed e) }
              | ReadRecord env payload \<Rightarrow> do {
                  note_event Consumed;
                  (case file_prepare F env payload of
                     Inl err \<Rightarrow> fail err
                   | Inr None \<Rightarrow> do { note_event FilteredOut; ok Again }
                   | Inr (Some m) \<Rightarrow>
                       check (file_writeWithRetry (Suc limit) Op W 0 None m) (\<lambda>posted.
                         if \<not> posted then ok Stop
                         else do { note_event (Delivered (eType env)); ok Again })) }) } }" for limit W
    unfolding file_turn_def
    by (intro state_ext) (auto simp: run_simps file_prepare_def split: read_result.split sum.split bool.split prod.split)
qed (auto simp: fun_eq_iff split: turn.split intro!: check_cong)

lemma file_messages: "messages_of (file_prepare F) rs = map snd (filter (\<lambda>(env, _). file_Allow F env) rs)"
  by (induction rs) (auto simp: file_prepare_def)

section \<open>On the rotating writer\<close>

text \<open>The sink's writes are the writer's: what the writer answers depends on the lines it was given.\<close>

fun writer_after :: "fw_world \<Rightarrow> rotate_config \<Rightarrow> file_writer \<Rightarrow> string list \<Rightarrow> file_writer" where
  "writer_after D cfg w [] = w"
| "writer_after D cfg w (l # ls) = writer_after D cfg (snd (run_state (fw_Write D cfg l) w)) ls"

definition write_result :: "fw_world \<Rightarrow> rotate_config \<Rightarrow> file_writer \<Rightarrow> string \<Rightarrow> file_error option" where
  "write_result D cfg w line = (case fst (run_state (fw_Write D cfg line) w) of Inl e \<Rightarrow> Some e | Inr _ \<Rightarrow> None)"

definition on_disk :: "fw_world \<Rightarrow> rotate_config \<Rightarrow> file_writer \<Rightarrow> file_sink_world \<Rightarrow> file_sink_world" where
  "on_disk D cfg w W = W\<lparr>skSend := (\<lambda>h line. write_result D cfg (writer_after D cfg w (attempted h)) line)\<rparr>"

lemma writer_after_append [simp]: "writer_after D cfg w (ls @ [l]) = snd (run_state (fw_Write D cfg l) (writer_after D cfg w ls))"
  by (induction ls arbitrary: w) auto

text \<open>Every attempt of a history has the outcome the world gives it.\<close>

definition follows :: "('m, 'e) sink_world \<Rightarrow> ('m, 'e) sink_hist \<Rightarrow> ('m, 'e) sink_hist \<Rightarrow> bool" where
  "follows W h h' \<longleftrightarrow> (\<exists>t. h' = h @ t \<and> (\<forall>a m r b. t = a @ Attempt m r # b \<longrightarrow> r = skSend W (h @ a) m))"

lemma follows_trans: "follows W h h1 \<Longrightarrow> follows W h1 h2 \<Longrightarrow> follows W h h2"
proof -
  assume "follows W h h1" "follows W h1 h2"
  then obtain t u where t: "h1 = h @ t" "\<forall>a m r b. t = a @ Attempt m r # b \<longrightarrow> r = skSend W (h @ a) m"
    and u: "h2 = h1 @ u" "\<forall>a m r b. u = a @ Attempt m r # b \<longrightarrow> r = skSend W (h1 @ a) m"
    by (auto simp: follows_def)
  have "r = skSend W (h @ a) m" if s: "t @ u = a @ Attempt m r # b" for a m r b
  proof (cases "length a < length t")
    case True
    then obtain c where "t = a @ Attempt m r # c"
      using s by (auto simp: append_eq_append_conv2 append_eq_Cons_conv)
    with t(2) show ?thesis by blast
  next
    case False
    then obtain c where "a = t @ c" "u = c @ Attempt m r # b"
      using s by (auto simp: append_eq_append_conv2 Cons_eq_append_conv)
    with u(2) t(1) show ?thesis by simp
  qed
  with t(1) u(1) show ?thesis unfolding follows_def by (intro exI [of _ "t @ u"]) auto
qed

interpretation faithful: step_order "follows W" for W
proof
  show "follows W h h" for h by (simp add: follows_def)
  show "follows W h t \<Longrightarrow> follows W t u \<Longrightarrow> follows W h u" for h t u by (rule follows_trans)
qed

lemma follows_note: "\<forall>m r. x \<noteq> Attempt m r \<Longrightarrow> state_io_rel (follows W) (note_event x)"
  by (auto simp: state_io_rel_def follows_def run_simps Cons_eq_append_conv)

lemma follows_steps:
  "state_io_rel (follows W) (sk_cancelled W)" "state_io_rel (follows W) (sk_now W)" "state_io_rel (follows W) (sk_read W)"
  "state_io_rel (follows W) (sk_send W m)" "state_io_rel (follows W) (backoff_Sleep W d)"
  by (auto simp: state_io_rel_def follows_def run_simps Cons_eq_append_conv backoff_Sleep_def split: if_splits)

lemma follows_clear: "state_io_rel (follows W) file_clearBlocked"
  unfolding file_clearBlocked_def by (intro faithful.io_intros follows_note) auto

lemmas follows_rules = faithful.io_intros follows_note follows_steps follows_clear

lemma writeWithRetry_follows: "state_io_rel (follows W) (file_writeWithRetry fuel Op W attempt since m)"
proof (induction fuel arbitrary: attempt since)
  case (Suc fuel)
  show ?case unfolding file_writeWithRetry.simps by (intro follows_rules Suc) auto
qed (simp add: faithful.io_fail)

lemma file_Run_follows: "state_io_rel (follows W) (file_Run F Op n limit W)"
proof (induction n)
  case (Suc n)
  have turn: "state_io_rel (follows W) (file_turn F Op limit W)"
    unfolding file_turn_def
    by (intro follows_rules writeWithRetry_follows) (auto split: read_result.split bool.split intro!: follows_rules writeWithRetry_follows)
  show ?case unfolding file_Run.simps by (intro faithful.io_check turn) (auto split: turn.split intro: Suc faithful.io_ok)
qed (simp add: faithful.io_ok)

text \<open>The disk after a history: the lines written again after a failed flush are those between.\<close>

definition line_texts :: "string list \<Rightarrow> string" where
  "line_texts ls = concat (map (\<lambda>l. l @ [NL]) ls)"

lemma line_texts_simps [simp]: "line_texts [] = []" "line_texts (ls @ [l]) = line_texts ls @ l @ [NL]"
  by (simp_all add: line_texts_def)

lemma on_disk_after:
  assumes "follows (on_disk D cfg w W) [] h" and "writer_ok cfg w" and "archive D cfg (fwDirectory w) parts"
    and "rcMaxBackups cfg \<le> 0" and "\<not> rollback_refused D"
  shows "\<exists>parts' ls. writer_ok cfg (writer_after D cfg w (attempted h))
    \<and> archive D cfg (fwDirectory (writer_after D cfg w (attempted h))) parts'
    \<and> recorded cfg (fwDirectory (writer_after D cfg w (attempted h))) parts' = recorded cfg (fwDirectory w) parts @ line_texts ls
    \<and> subseq (confirmed h) ls \<and> set ls \<subseteq> set (attempted h) \<and> (rcFsync cfg \<or> ls = confirmed h)"
  using assms(1)
proof (induction h rule: rev_induct)
  case Nil
  with assms show ?case by (intro exI [of _ parts] exI [of _ "[]"]) simp
next
  case (snoc x h)
  let ?w = "writer_after D cfg w (attempted h)"
  from snoc.prems have f: "\<forall>a m r b. h @ [x] = a @ Attempt m r # b \<longrightarrow> r = skSend (on_disk D cfg w W) a m" by (simp add: follows_def)
  have "follows (on_disk D cfg w W) [] h"
    unfolding follows_def
  proof (intro exI conjI allI impI)
    fix a m r b assume "h = a @ Attempt m r # b"
    then have "h @ [x] = a @ Attempt m r # (b @ [x])" by simp
    with f show "r = skSend (on_disk D cfg w W) ([] @ a) m" by (metis append_Nil)
  qed simp
  from snoc.IH [OF this] obtain parts1 ls where p: "writer_ok cfg ?w" "archive D cfg (fwDirectory ?w) parts1"
    "recorded cfg (fwDirectory ?w) parts1 = recorded cfg (fwDirectory w) parts @ line_texts ls" "subseq (confirmed h) ls"
    "set ls \<subseteq> set (attempted h)" "rcFsync cfg \<or> ls = confirmed h" by blast
  show ?case
  proof (cases "\<exists>m r. x = Attempt m r")
    case False
    then have "attempted [x] = []" "confirmed [x] = []" by (auto simp: attempted_def confirmed_def confirmed1_def split: sink_event.split)
    with p show ?thesis by (intro exI [of _ parts1] exI [of _ ls]) simp
  next
    case True
    then obtain m r where x: "x = Attempt m r" by blast
    obtain q w2 where run: "run_state (fw_Write D cfg m) ?w = (q, w2)" by force
    have r: "r = (case q of Inl e \<Rightarrow> Some e | Inr _ \<Rightarrow> None)"
      using f [rule_format, of h m r "[]"] run x by (simp add: on_disk_def write_result_def)
    have w2: "writer_after D cfg w (attempted (h @ [x])) = w2" using run by (simp add: x)
    from fw_write_outcome [OF run p(1,2) assms(4)] obtain parts2 extra where o: "archive D cfg (fwDirectory w2) parts2"
      "write_adds D cfg m q w2 extra" "recorded cfg (fwDirectory w2) parts2 = recorded cfg (fwDirectory ?w) parts1 @ extra" by blast
    have ok2: "writer_ok cfg w2" using o(2) assms(5) by (auto simp: write_adds_def writer_ok_def split: sum.splits)
    consider "extra = []" "r \<noteq> None" | "extra = m @ [NL]" "r = None \<or> rcFsync cfg"
      using o(2) assms(5) r by (auto simp: write_adds_def split: sum.splits)
    then show ?thesis
    proof cases
      case 1
      with p o ok2 show ?thesis unfolding w2
        by (intro exI [of _ parts2] exI [of _ ls]) (auto simp: x)
    next
      case 2
      have "subseq (confirmed (h @ [x])) (ls @ [m])" using p(4) by (auto simp: x intro: list_emb_append_mono list_emb_prefix)
      with 2 p o ok2 show ?thesis unfolding w2
        by (intro exI [of _ parts2] exI [of _ "ls @ [m]"]) (auto simp: x)
    qed
  qed
qed

section \<open>What the sink leaves on the disk\<close>

text \<open>
C15: The file sink records exactly the stream it was given: over any disk - failing writes, fragments,
  rotations, compression, an interrupted rotation - on which a fragment can be taken back, and
  without a limit on the segments, what the directory holds at any moment is what it held before
  followed by the lines of the records the filter allows, whole, once each, in stream order, up to
  the record being written; with a flush per line, a line whose flush failed may be there again.
\<close>
theorem file_sink_records_stream:
  assumes "run_state (file_Run F Op n limit (on_disk D cfg w W)) [] = (r, h)" and "writer_ok cfg w"
    and "archive D cfg (fwDirectory w) parts" and "rcMaxBackups cfg \<le> 0" and "\<not> rollback_refused D"
  shows "\<exists>parts' ls pending. archive D cfg (fwDirectory (writer_after D cfg w (attempted h))) parts'
    \<and> recorded cfg (fwDirectory (writer_after D cfg w (attempted h))) parts' = recorded cfg (fwDirectory w) parts @ line_texts ls
    \<and> map snd (filter (\<lambda>(env, _). file_Allow F env) (records_read h)) = confirmed h @ pending \<and> length pending \<le> 1
    \<and> (pending \<noteq> [] \<longrightarrow> r \<noteq> Inr Again \<and> last h \<noteq> Read ReadEOF)
    \<and> subseq (confirmed h) ls \<and> set ls \<subseteq> set (confirmed h @ pending) \<and> (rcFsync cfg \<or> ls = confirmed h)"
proof -
  from file_loop.in_order [OF assms(1)] obtain pending where l:
    "map snd (filter (\<lambda>(env, _). file_Allow F env) (records_read h)) = confirmed h @ pending"
    "set (attempted h) \<subseteq> set (map snd (filter (\<lambda>(env, _). file_Allow F env) (records_read h)))"
    "length pending \<le> 1" "pending \<noteq> [] \<longrightarrow> r \<noteq> Inr Again \<and> last h \<noteq> Read ReadEOF"
    unfolding file_messages append_Nil by blast
  have "follows (on_disk D cfg w W) [] h" by (rule state_io_relD [OF file_Run_follows assms(1)])
  from on_disk_after [OF this assms(2-5)] obtain parts' ls where
    "archive D cfg (fwDirectory (writer_after D cfg w (attempted h))) parts'"
    "recorded cfg (fwDirectory (writer_after D cfg w (attempted h))) parts' = recorded cfg (fwDirectory w) parts @ line_texts ls"
    "subseq (confirmed h) ls" "set ls \<subseteq> set (attempted h)" "rcFsync cfg \<or> ls = confirmed h" by blast
  with l show ?thesis by (intro exI [of _ parts'] exI [of _ ls] exI [of _ pending]) auto
qed

text \<open>A stream of one record, on a disk that works.\<close>

definition one_record_world :: file_sink_world where
  "one_record_world = \<lparr> skRead = one_record, skSend = (\<lambda>_ _. None), skReach = (\<lambda>_. None), skCancelled = (\<lambda>_. False),
     skSleep = (\<lambda>_. True), skTick = (\<lambda>_. True), skNow = (\<lambda>_. 0), skRand = (\<lambda>_ _. 0) \<rparr>"

definition all_records :: file_filter where
  "all_records = \<lparr> ffIncludeTypes = [], ffExcludeTypes = [], ffIncludeNames = [], ffExcludeNames = [] \<rparr>"

lemma file_sink_records_stream_witness:
  "\<exists>r h parts' ls. run_state (file_Run all_records quick_options 3 5 (on_disk good_disk small_config one_line one_record_world)) [] = (r, h)
     \<and> recorded small_config (fwDirectory (writer_after good_disk small_config one_line (attempted h))) parts'
         = ''ab'' @ [NL] @ line_texts ls \<and> ls = confirmed h"
proof -
  obtain r h where run: "run_state (file_Run all_records quick_options 3 5 (on_disk good_disk small_config one_line one_record_world)) [] = (r, h)"
    by force
  have "rcMaxBackups small_config \<le> 0" "\<not> rollback_refused good_disk" "\<not> rcFsync small_config"
    by (simp_all add: small_config_def good_disk_def rollback_refused_def)
  moreover have "recorded small_config (fwDirectory one_line) [] = ''ab'' @ [NL]"
    by (simp add: recorded_def one_line_def small_config_def file_at_def)
  ultimately show ?thesis using file_sink_records_stream [OF run one_line_ok] run by fastforce
qed

section \<open>A full disk in the middle of a rotation\<close>

lemma closed_write_fails:
  assumes "fwHandle w = ClosedHandle" and "run_state (fw_Write D cfg line) w = (r, w')"
  shows "\<exists>err. r = Inl err \<and> file_Classify err = ClassPermanent"
proof (cases "shouldRotate cfg (length line + 1) w (fwNow D (fwCalls w))")
  case True
  with assms show ?thesis
    by (auto simp: fw_Write_def fw_now_def run_check rotate_file_def or_cleanup_def attempt_calls_def fs_run closed_error_def Let_def)
next
  case False
  with assms show ?thesis
    by (auto simp: fw_Write_def fw_now_def run_check fw_append_def fs_run closed_error_def Let_def)
qed

text \<open>
C17: A disk that is full at the moment of a rotation stops the sink: when renaming the segment or opening
  the new file reports a full disk, the error is the retried kind, but the retry closes the file
  that is closed already, which is an error for good - the sink ends instead of waiting for space.
\<close>
theorem full_disk_at_rotation_stops:
  assumes "run_state (fw_Write D cfg line) (writer_after D cfg w (attempted h)) = (Inl e, w1)" and "fwHandle w1 = ClosedHandle"
    and "file_Classify e = ClassTransient"
    and "\<forall>h. \<not> skCancelled W h \<and> skSleep W h"
  shows "\<exists>e2 h'. run_state (file_writeWithRetry (Suc (Suc fuel)) Op (on_disk D cfg w W) attempt since line) h
    = (Inl (PermanentFailure e2), h') \<and> file_Classify e2 = ClassPermanent"
proof -
  let ?W = "on_disk D cfg w W"
  have go: "\<forall>h. \<not> skCancelled ?W h \<and> skSleep ?W h" using assms(4) by (simp add: on_disk_def)
  have send: "skSend ?W h line = Some e" using assms(1) by (simp add: on_disk_def write_result_def)
  have "\<not> skCancelled ?W h" "file_Classify e \<noteq> ClassPermanent" "\<not> (False \<and> skCancelled ?W (h @ [Attempt line (Some e)]))"
    using go assms(3) by simp_all
  from file_retry.transient_turn [where Op = Op and fuel = "Suc fuel" and attempt = attempt and since = since, OF this(1) send this(2,3)] go obtain t since' where
    t: "\<forall>x \<in> set t. signal x" "run_state (file_writeWithRetry (Suc (Suc fuel)) Op ?W attempt since line) h
      = run_state (file_writeWithRetry (Suc fuel) Op ?W (attempt + 1) since' line) (h @ Attempt line (Some e) # t)"
    by (metis (full_types))
  let ?h = "h @ Attempt line (Some e) # t"
  have "attempted ?h = attempted h @ [line]" using file_retry.signals [OF t(1)] by simp
  then have "writer_after D cfg w (attempted ?h) = w1" using assms(1) by simp
  then obtain e2 where e2: "skSend ?W ?h line = Some e2" "file_Classify e2 = ClassPermanent"
    using closed_write_fails [OF assms(2), of D cfg line] by (cases "run_state (fw_Write D cfg line) w1") (auto simp: on_disk_def write_result_def)
  then show ?thesis unfolding t(2) using go by (simp add: run_simps file_clearBlocked_def)
qed

text \<open>The disk is full when the segment is renamed.\<close>

definition full_disk :: fw_world where
  "full_disk = good_disk\<lparr>fwAnswer := (\<lambda>h c. case c of FsRename a b \<Rightarrow> FsBad 0 ENOSPC | _ \<Rightarrow> FsGood)\<rparr>"

lemma full_disk_rotation:
  "\<exists>w1. run_state (fw_Write full_disk small_config ''cd'') one_line = (Inl (During ''filesink: rename on rotate'' ENOSPC), w1)
     \<and> fwHandle w1 = ClosedHandle"
proof -
  let ?w = "one_line\<lparr>fwCalls := [FsClose], fwHandle := ClosedHandle\<rparr>"
  have close: "run_state (fs full_disk small_config FsClose) one_line = (Inr (), ?w)"
    by (simp add: fs_run full_disk_def one_line_def closed_error_def Let_def)
  obtain n where n: "run_state (rotatedName full_disk small_config) ?w = (Some n, ?w)" by (rule rotatedName_free)
  have "run_state (fs full_disk small_config (FsRename ''e.jsonl'' n)) ?w = (Inl (0, ENOSPC), ?w\<lparr>fwCalls := [FsClose, FsRename ''e.jsonl'' n]\<rparr>)"
    by (simp add: fs_run full_disk_def one_line_def missing_error_def pathExists_def Let_def)
  moreover have "rotate_config.rcName small_config = ''e.jsonl''" by (simp add: small_config_def)
  moreover have "shouldRotate small_config (Suc (Suc (Suc 0))) one_line t" for t by (simp add: shouldRotate_def small_config_def one_line_def)
  ultimately show ?thesis using close n
    by (simp add: fw_Write_def fw_now_def run_simps rotate_file_def or_cleanup_def attempt_calls_def)
qed

lemma full_disk_at_rotation_stops_witness:
  "\<exists>e2 h'. run_state (file_writeWithRetry 5 quick_options (on_disk full_disk small_config one_line one_record_world) 0 None ''cd'') []
    = (Inl (PermanentFailure e2), h') \<and> file_Classify e2 = ClassPermanent"
proof -
  obtain w1 where w1: "run_state (fw_Write full_disk small_config ''cd'') one_line = (Inl (During ''filesink: rename on rotate'' ENOSPC), w1)"
    "fwHandle w1 = ClosedHandle" using full_disk_rotation by blast
  have "run_state (fw_Write full_disk small_config ''cd'') (writer_after full_disk small_config one_line (attempted []))
    = (Inl (During ''filesink: rename on rotate'' ENOSPC), w1)" using w1(1) by simp
  from full_disk_at_rotation_stops [OF this w1(2), of one_record_world 3 quick_options 0 None]
  show ?thesis by (simp add: one_record_world_def eval_nat_numeral)
qed

end
