(* ===== verification/Transport.thy ===== *)
theory Transport
  imports Reader Backoff
begin

text \<open>
  The carrier of the record stream (\<^verbatim>\<open>internal/transport\<close>): which carrier a spec names, the socket file,
  the fan-out writer of a producer as a transition system whose steps are the critical sections of
  its goroutines, and the reconnecting reader of a sink. Named pipes (Windows) share both ends.
\<close>

section \<open>Specs\<close>

definition unixScheme :: string where "unixScheme = ''unix:''"
definition pipeScheme :: string where "pipeScheme = ''pipe:''"

text \<open>The host: \<^verbatim>\<open>runtime.GOOS\<close>, \<^verbatim>\<open>XDG_RUNTIME_DIR\<close>, \<^verbatim>\<open>os.TempDir()\<close>; joined paths are taken as clean.\<close>

record host =
  hsWindows :: bool
  hsRuntimeDir :: string
  hsTempDir :: string

definition DefaultSpec :: "host \<Rightarrow> string" where
  "DefaultSpec H =
     (if hsWindows H then pipeScheme @ ''evm-tools-records''
      else (let dir = (if hsRuntimeDir H = [] then hsTempDir H else hsRuntimeDir H) in
            unixScheme @ dir @ ''/evm-tools/records.sock''))"

definition resolveSocketKeyword :: "host \<Rightarrow> string \<Rightarrow> string" where
  "resolveSocketKeyword H spec = (if spec = ''socket'' then DefaultSpec H else spec)"

definition isStdAlias :: "string \<Rightarrow> string \<Rightarrow> bool" where
  "isStdAlias spec name \<longleftrightarrow> spec = [] \<or> spec = ''-'' \<or> spec = name"

datatype out_carrier = Discard | ListenUnix string bool | ListenPipe string bool

datatype in_carrier = StandardInput | DialUnix string | DialPipe string

definition OpenWriter :: "host \<Rightarrow> string \<Rightarrow> bool \<Rightarrow> string + out_carrier" where
  "OpenWriter H spec0 blockUntilConsumer =
     (let spec = resolveSocketKeyword H spec0 in
      if spec = [] then Inr Discard
      else if has_prefix unixScheme spec then Inr (ListenUnix (trim_prefix unixScheme spec) blockUntilConsumer)
      else if has_prefix pipeScheme spec then Inr (ListenPipe (trim_prefix pipeScheme spec) blockUntilConsumer)
      else if spec = ''-'' \<or> spec = ''stdout'' then Inl ''transport: stdout no longer carries records (it carries logs)''
      else Inl (''transport: unsupported --output '' @ spec))"

definition OpenReader :: "host \<Rightarrow> string \<Rightarrow> string + in_carrier" where
  "OpenReader H spec0 =
     (let spec = resolveSocketKeyword H spec0 in
      if isStdAlias spec ''stdin'' then Inr StandardInput
      else if has_prefix unixScheme spec then Inr (DialUnix (trim_prefix unixScheme spec))
      else if has_prefix pipeScheme spec then Inr (DialPipe (trim_prefix pipeScheme spec))
      else Inl (''transport: unsupported --input '' @ spec))"

text \<open>A producer and a sink that are given the same spec meet, on every host.\<close>

lemma same_spec_meets:
  "OpenWriter H spec b = Inr (ListenUnix path b) \<Longrightarrow> OpenReader H spec = Inr (DialUnix path)"
  "OpenWriter H spec b = Inr (ListenPipe path b) \<Longrightarrow> OpenReader H spec = Inr (DialPipe path)"
  by (auto simp: OpenWriter_def OpenReader_def isStdAlias_def Let_def unixScheme_def pipeScheme_def has_prefix_def split: if_splits)

section \<open>The socket file\<close>

text \<open>What is at the path, and whether a peer answers there.\<close>

datatype at_path = Nothing_there | Other_file | Socket_file bool

definition removeStaleSocket :: "at_path \<Rightarrow> at_path" where
  "removeStaleSocket a =
     (case a of
        Nothing_there \<Rightarrow> Nothing_there
      | Other_file \<Rightarrow> Other_file
      | Socket_file True \<Rightarrow> Socket_file True
      | Socket_file False \<Rightarrow> Nothing_there)"

text \<open>\<open>listen\<close> is the error of \<^verbatim>\<open>net.Listen\<close> on what is left at the path, \<open>chmod\<close> that of \<^verbatim>\<open>os.Chmod\<close>; the
error of creating the directory is ignored.\<close>

definition listenUnix :: "(at_path \<Rightarrow> string option) \<Rightarrow> string option \<Rightarrow> string \<Rightarrow> at_path \<Rightarrow> (string + unit) \<times> at_path" where
  "listenUnix listen chmod path a =
     (if path = [] then (Inl ''transport: empty unix socket path in --output'', a)
      else if length path > 103 then (Inl (''transport: unix socket path is too long: '' @ path), a)
      else
        (let a1 = removeStaleSocket a in
         case listen a1 of
           Some e \<Rightarrow> (Inl (''transport: listen '' @ path @ '': '' @ e), a1)
         | None \<Rightarrow>
             (case chmod of
                Some e \<Rightarrow> (Inl (''transport: secure socket '' @ path @ '': '' @ e), Nothing_there)
              | None \<Rightarrow> (Inr (), Socket_file True))))"

definition dialUnix :: "string \<Rightarrow> string + string" where
  "dialUnix path = (if path = [] then Inl ''transport: empty unix socket path in --input'' else Inr (unixScheme @ path))"

text \<open>A live peer's socket is never taken: binding an existing name fails.\<close>

lemma live_socket_kept:
  assumes "\<forall>a. a \<noteq> Nothing_there \<longrightarrow> listen a \<noteq> None" and "a \<in> {Socket_file True, Other_file}"
  shows "\<exists>e. listenUnix listen chmod path a = (Inl e, a)"
proof -
  have "a \<noteq> Nothing_there" using assms(2) by auto
  with assms(1) obtain e where "listen a = Some e" by blast
  with assms(2) show ?thesis by (auto simp: listenUnix_def removeStaleSocket_def Let_def)
qed

section \<open>The fan-out writer\<close>

text \<open>Where the goroutine of \<^verbatim>\<open>Write\<close> is: outside; at the lock with a record; sending the record to the
consumers of its snapshot, with those that failed and the number of those that did not.\<close>

datatype phase = Idle | Waiting string | Sending string "nat list" "nat list" nat

text \<open>The registered consumers, by number; what the accept loop and \<^verbatim>\<open>shutdown\<close> did; the bytes each
connection was handed; the records \<^verbatim>\<open>Write\<close> was called with and the results it gave.\<close>

record fan =
  fnConns :: "nat set"
  fnNext :: nat
  fnClosed :: bool
  fnAccepting :: bool
  fnPhase :: phase
  fnInbox :: "nat \<Rightarrow> string"
  fnCalls :: "string list"
  fnResults :: "bool list"

definition newFanout :: fan where
  "newFanout = \<lparr> fnConns = {}, fnNext = 0, fnClosed = False, fnAccepting = True, fnPhase = Idle,
     fnInbox = (\<lambda>_. []), fnCalls = [], fnResults = [] \<rparr>"

definition accepted :: "fan \<Rightarrow> fan" where
  "accepted f = f\<lparr>fnConns := insert (fnNext f) (fnConns f), fnNext := Suc (fnNext f), fnInbox := (fnInbox f)(fnNext f := [])\<rparr>"

text \<open>\<^verbatim>\<open>waitForConns\<close>: the constructor returns when it may.\<close>

definition waitForConns :: "fan \<Rightarrow> nat \<Rightarrow> bool \<Rightarrow> (bool + unit) option" where
  "waitForConns f n cancelled =
     (if card (fnConns f) < n \<and> \<not> fnClosed f then None
      else if fnClosed f then Some (Inl cancelled)
      else Some (Inr ()))"

inductive fan_step :: "bool \<Rightarrow> fan \<Rightarrow> fan \<Rightarrow> bool" for blockUntil where
  accept: "fnAccepting f \<Longrightarrow> \<not> fnClosed f \<Longrightarrow> fan_step blockUntil f (accepted f)"
| accept_ends: "fnAccepting f \<Longrightarrow> fan_step blockUntil f (f\<lparr>fnAccepting := False\<rparr>)"
| write_called: "fnPhase f = Idle \<Longrightarrow> fan_step blockUntil f (f\<lparr>fnPhase := Waiting p, fnCalls := fnCalls f @ [p]\<rparr>)"
| write_refused: "fnPhase f = Waiting p \<Longrightarrow> fnClosed f \<Longrightarrow>
    fan_step blockUntil f (f\<lparr>fnPhase := Idle, fnResults := fnResults f @ [False]\<rparr>)"
| write_begins: "fnPhase f = Waiting p \<Longrightarrow> \<not> fnClosed f \<Longrightarrow> fnConns f \<noteq> {} \<or> \<not> blockUntil \<Longrightarrow>
    distinct cs \<Longrightarrow> set cs = fnConns f \<Longrightarrow> fan_step blockUntil f (f\<lparr>fnPhase := Sending p cs [] 0\<rparr>)"
| sends: "fnPhase f = Sending p (c # cs) dead n \<Longrightarrow> c \<in> fnConns f \<Longrightarrow>
    fan_step blockUntil f (f\<lparr>fnPhase := Sending p cs dead (Suc n), fnInbox := (fnInbox f)(c := fnInbox f c @ p)\<rparr>)"
| send_fails: "fnPhase f = Sending p (c # cs) dead n \<Longrightarrow> k < length p \<Longrightarrow> c \<in> fnConns f \<or> k = 0 \<Longrightarrow>
    fan_step blockUntil f (f\<lparr>fnPhase := Sending p cs (dead @ [c]) n, fnInbox := (fnInbox f)(c := fnInbox f c @ take k p)\<rparr>)"
| write_retries: "fnPhase f = Sending p [] dead 0 \<Longrightarrow> blockUntil \<Longrightarrow>
    fan_step blockUntil f (f\<lparr>fnPhase := Waiting p, fnConns := fnConns f - set dead\<rparr>)"
| write_returns: "fnPhase f = Sending p [] dead n \<Longrightarrow> 0 < n \<or> \<not> blockUntil \<Longrightarrow>
    fan_step blockUntil f (f\<lparr>fnPhase := Idle, fnConns := fnConns f - set dead, fnResults := fnResults f @ [True]\<rparr>)"
| shutdown: "\<not> fnClosed f \<Longrightarrow> fan_step blockUntil f (f\<lparr>fnClosed := True, fnConns := {}\<rparr>)"

inductive_cases fan_stepE: "fan_step blockUntil f f'"

section \<open>What a consumer is handed\<close>

text \<open>How many of the records may be complete at some consumer; the number the next record a registered
consumer gets has.\<close>

definition avail :: "fan \<Rightarrow> nat" where
  "avail f = (let N = length (fnCalls f) in
     case fnPhase f of Idle \<Rightarrow> N | Waiting _ \<Rightarrow> N - 1 | Sending _ _ _ n \<Rightarrow> if n = 0 then N - 1 else N)"

definition next_of :: "bool \<Rightarrow> fan \<Rightarrow> nat \<Rightarrow> nat" where
  "next_of blk f i = (let N = length (fnCalls f) in
     case fnPhase f of Idle \<Rightarrow> N | Waiting _ \<Rightarrow> N - 1
     | Sending _ cs dead n \<Rightarrow> if i \<in> set cs \<union> set dead \<or> n = 0 \<and> blk then N - 1 else N)"

definition dead_of :: "fan \<Rightarrow> nat set" where
  "dead_of f = (case fnPhase f of Sending _ _ dead _ \<Rightarrow> set dead | _ \<Rightarrow> {})"

text \<open>Connection \<open>i\<close> was handed \<open>K i\<close> records from number \<open>A i\<close> on, and then a fragment of the next.\<close>

definition stretch :: "'a list \<Rightarrow> nat \<Rightarrow> nat \<Rightarrow> 'a list" where
  "stretch xs a k = take k (drop a xs)"

definition handed :: "(nat \<Rightarrow> nat) \<Rightarrow> (nat \<Rightarrow> nat) \<Rightarrow> (nat \<Rightarrow> string) \<Rightarrow> fan \<Rightarrow> nat \<Rightarrow> bool" where
  "handed A K F f i \<longleftrightarrow>
     fnInbox f i = concat (stretch (fnCalls f) (A i) (K i)) @ F i \<and> A i + K i \<le> length (fnCalls f) \<and> (0 < K i \<longrightarrow> A i + K i \<le> avail f)
     \<and> (F i \<noteq> [] \<longrightarrow> A i + K i < length (fnCalls f) \<and> (\<exists>r. r \<noteq> [] \<and> fnCalls f ! (A i + K i) = F i @ r))"

definition phase_ok :: "fan \<Rightarrow> bool" where
  "phase_ok f \<longleftrightarrow> (case fnPhase f of
       Idle \<Rightarrow> length (fnResults f) = length (fnCalls f)
     | Waiting p \<Rightarrow> fnCalls f \<noteq> [] \<and> last (fnCalls f) = p \<and> Suc (length (fnResults f)) = length (fnCalls f)
     | Sending p cs dead n \<Rightarrow> fnCalls f \<noteq> [] \<and> last (fnCalls f) = p \<and> Suc (length (fnResults f)) = length (fnCalls f)
         \<and> distinct (cs @ dead) \<and> set cs \<union> set dead \<subseteq> {..<fnNext f} \<and> (fnClosed f \<or> set cs \<union> set dead \<subseteq> fnConns f))"

text \<open>Record \<open>j\<close> is complete at some connection.\<close>

definition reached :: "(nat \<Rightarrow> nat) \<Rightarrow> (nat \<Rightarrow> nat) \<Rightarrow> fan \<Rightarrow> nat \<Rightarrow> bool" where
  "reached A K f j \<longleftrightarrow> (\<exists>i < fnNext f. A i \<le> j \<and> j < A i + K i)"

definition fan_inv :: "bool \<Rightarrow> (nat \<Rightarrow> nat) \<Rightarrow> (nat \<Rightarrow> nat) \<Rightarrow> (nat \<Rightarrow> string) \<Rightarrow> fan \<Rightarrow> bool" where
  "fan_inv blk A K F f \<longleftrightarrow>
     phase_ok f \<and> fnConns f \<subseteq> {..<fnNext f} \<and> (fnClosed f \<longrightarrow> fnConns f = {})
     \<and> (\<forall>i < fnNext f. handed A K F f i)
     \<and> (\<forall>i \<in> fnConns f. A i + K i = next_of blk f i \<and> (i \<notin> dead_of f \<longrightarrow> F i = []))
     \<and> (\<forall>p cs dead. fnPhase f = Sending p cs dead 0 \<longrightarrow> (\<forall>i \<in> fnConns f. i \<notin> set cs \<union> set dead \<longrightarrow> K i = 0))
     \<and> (blk \<longrightarrow> (\<forall>j < length (fnResults f). fnResults f ! j \<longrightarrow> reached A K f j)
          \<and> (\<forall>p cs dead n. fnPhase f = Sending p cs dead n \<longrightarrow> 0 < n \<longrightarrow> reached A K f (length (fnCalls f) - 1)))"

text \<open>How the numbers evolve.\<close>

definition evolves :: "(nat \<Rightarrow> nat) \<Rightarrow> (nat \<Rightarrow> nat) \<Rightarrow> fan \<Rightarrow> (nat \<Rightarrow> nat) \<Rightarrow> (nat \<Rightarrow> nat) \<Rightarrow> fan \<Rightarrow> bool" where
  "evolves A K f A' K' f' \<longleftrightarrow>
     (\<forall>i < fnNext f. A i \<le> A' i \<and> K i \<le> K' i \<and> (0 < K i \<longrightarrow> A' i = A i)) \<and> fnNext f \<le> fnNext f'
     \<and> prefix (fnCalls f) (fnCalls f') \<and> avail f \<le> avail f'"

lemma stretch_0 [simp]: "stretch xs a 0 = []"
  by (simp add: stretch_def)

lemma stretch_prefix: "prefix xs ys \<Longrightarrow> a + k \<le> length xs \<Longrightarrow> stretch ys a k = stretch xs a k"
  by (auto simp: stretch_def prefix_def)

lemma stretch_snoc:
  assumes "Suc (a + k) = length xs"
  shows "stretch xs a (Suc k) = stretch xs a k @ [last xs]"
proof -
  have "k < length (drop a xs)" using assms by simp
  then have "take (Suc k) (drop a xs) = take k (drop a xs) @ [drop a xs ! k]" by (rule take_Suc_conv_app_nth)
  moreover have "last xs = xs ! (a + k)" using assms by (cases xs rule: rev_cases) (auto simp: nth_append)
  ultimately show ?thesis using assms by (simp add: stretch_def)
qed

lemma handed_mono:
  assumes "handed A K F f i" and "fnInbox f' i = fnInbox f i" and "prefix (fnCalls f) (fnCalls f')" and "avail f \<le> avail f'"
  shows "handed A K F f' i"
  using assms stretch_prefix [OF assms(3), of "A i" "K i"] by (auto simp: handed_def prefix_def nth_append)

lemma evolves_refl: "prefix (fnCalls f) (fnCalls f') \<Longrightarrow> avail f \<le> avail f' \<Longrightarrow> fnNext f \<le> fnNext f' \<Longrightarrow> evolves A K f A K f'"
  by (simp add: evolves_def)

text \<open>The steps that leave the connections' numbers as they are.\<close>

definition calm :: "bool \<Rightarrow> fan \<Rightarrow> fan \<Rightarrow> bool" where
  "calm blk f f' \<longleftrightarrow> fnInbox f' = fnInbox f \<and> fnNext f' = fnNext f \<and> prefix (fnCalls f) (fnCalls f') \<and> avail f \<le> avail f'
     \<and> fnConns f' \<subseteq> fnConns f \<and> (fnClosed f' \<longrightarrow> fnConns f' = {}) \<and> phase_ok f'
     \<and> (\<forall>i \<in> fnConns f'. next_of blk f' i = next_of blk f i \<and> i \<notin> dead_of f)
     \<and> (\<forall>p cs dead n. fnPhase f' = Sending p cs dead n \<longrightarrow> 0 < n \<or> fnConns f' \<subseteq> set cs \<union> set dead)"

lemma calm_keeps:
  assumes inv: "fan_inv blk A K F f" and calm: "calm blk f f'"
    and res: "blk \<longrightarrow> (\<forall>j < length (fnResults f'). fnResults f' ! j \<longrightarrow> reached A K f j)"
    and snd: "blk \<longrightarrow> (\<forall>p cs dead n. fnPhase f' = Sending p cs dead n \<longrightarrow> 0 < n \<longrightarrow> reached A K f (length (fnCalls f') - 1))"
  shows "fan_inv blk A K F f' \<and> evolves A K f A K f'"
proof -
  have "\<forall>i < fnNext f'. handed A K F f' i"
    using inv calm by (auto simp: fan_inv_def calm_def intro: handed_mono [of A K F f])
  moreover have "reached A K f' j = reached A K f j" for j using calm by (simp add: reached_def calm_def)
  ultimately have "fan_inv blk A K F f'"
    unfolding fan_inv_def using inv calm res snd
    by (intro conjI) (auto simp: fan_inv_def calm_def subset_iff, (metis nat_neq_iff)?)
  with calm show ?thesis by (auto simp: calm_def intro: evolves_refl)
qed

lemma calm_step:
  assumes "fan_inv blk A K F f" and "calm blk f f'"
    and "blk \<longrightarrow> (\<forall>j < length (fnResults f'). fnResults f' ! j \<longrightarrow> reached A K f j)"
    and "blk \<longrightarrow> (\<forall>p cs dead n. fnPhase f' = Sending p cs dead n \<longrightarrow> 0 < n \<longrightarrow> reached A K f (length (fnCalls f') - 1))"
  shows "\<exists>A' K' F'. fan_inv blk A' K' F' f' \<and> evolves A K f A' K' f'"
  using calm_keeps [OF assms] by blast

lemma accept_keeps:
  assumes inv: "fan_inv blk A K F f" and "\<not> fnClosed f"
  defines "c \<equiv> fnNext f"
  shows "fan_inv blk (A(c := next_of blk f c)) (K(c := 0)) (F(c := [])) (accepted f)
    \<and> evolves A K f (A(c := next_of blk f c)) (K(c := 0)) (accepted f)"
proof -
  let ?A = "A(c := next_of blk f c)" and ?K = "K(c := 0)" and ?F = "F(c := [])" and ?f = "accepted f"
  have same: "avail ?f = avail f" "next_of blk ?f = next_of blk f" "dead_of ?f = dead_of f" "fnCalls ?f = fnCalls f"
      "fnPhase ?f = fnPhase f" "fnResults ?f = fnResults f"
    by (simp_all add: accepted_def avail_def next_of_def dead_of_def fun_eq_iff)
  have c: "c \<notin> fnConns f" using inv by (auto simp: fan_inv_def c_def)
  have new: "next_of blk f c \<le> length (fnCalls f)" by (simp add: next_of_def Let_def split: phase.split)
  have "\<forall>i < fnNext ?f. handed ?A ?K ?F ?f i"
    using inv new same by (auto simp: fan_inv_def handed_def accepted_def c_def less_Suc_eq avail_def)
  moreover have "reached ?A ?K ?f j" if "reached A K f j" for j
  proof -
    from that obtain i where "i < c" "A i \<le> j" "j < A i + K i" by (auto simp: reached_def c_def)
    then show ?thesis by (auto simp: reached_def accepted_def c_def intro!: exI [of _ i])
  qed
  moreover have "phase_ok ?f"
  proof -
    have "phase_ok f" using inv by (simp add: fan_inv_def)
    then show ?thesis by (cases "fnPhase f") (auto simp: phase_ok_def accepted_def)
  qed
  ultimately have "fan_inv blk ?A ?K ?F ?f"
    unfolding fan_inv_def same using inv assms(2) c
    by (intro conjI) (auto simp: fan_inv_def accepted_def c_def)
  then show ?thesis using same by (simp add: evolves_def accepted_def c_def)
qed

text \<open>One record more for a consumer: the number of those that were handed nothing yet may rise.\<close>

lemma sends_keeps:
  assumes inv: "fan_inv blk A K F f" and ph: "fnPhase f = Sending p (c # cs) dead n" and c: "c \<in> fnConns f"
  defines "f' \<equiv> f\<lparr>fnPhase := Sending p cs dead (Suc n), fnInbox := (fnInbox f)(c := fnInbox f c @ p)\<rparr>"
  defines "A' \<equiv> \<lambda>i. if i \<in> fnConns f \<and> i \<notin> set (c # cs) \<union> set dead \<and> K i = 0 then length (fnCalls f) else A i"
  shows "fan_inv blk A' (K(c := Suc (K c))) F f' \<and> evolves A K f A' (K(c := Suc (K c))) f'"
proof -
  let ?K = "K(c := Suc (K c))" and ?N = "length (fnCalls f)"
  have pk: "fnCalls f \<noteq> []" "last (fnCalls f) = p" "Suc (length (fnResults f)) = ?N" "distinct ((c # cs) @ dead)"
    "set (c # cs) \<union> set dead \<subseteq> {..<fnNext f}" "fnClosed f \<or> set (c # cs) \<union> set dead \<subseteq> fnConns f"
    using inv ph by (auto simp: fan_inv_def phase_ok_def)
  have cn: "c < fnNext f" "c \<notin> set cs" "c \<notin> set dead" "\<not> fnClosed f"
    using pk c inv by (auto simp: fan_inv_def)
  have ac: "A c + K c = ?N - 1" "F c = []" using inv c cn ph by (auto simp: fan_inv_def next_of_def Let_def dead_of_def)
  then have sc: "Suc (A c + K c) = ?N" using pk(1) by (cases "fnCalls f") auto
  have avail: "avail f \<le> avail f'" "avail f' = ?N" by (simp_all add: avail_def f'_def ph Let_def)
  have A: "A' i = A i" if "0 < K i" for i using that by (simp add: A'_def)
  have h: "handed A' ?K F f' i" if "i < fnNext f" for i
  proof -
    have hi: "handed A K F f i" using inv that by (simp add: fan_inv_def)
    show ?thesis
    proof (cases "i = c")
      case True
      have "stretch (fnCalls f) (A c) (Suc (K c)) = stretch (fnCalls f) (A c) (K c) @ [p]" using stretch_snoc [OF sc] pk(2) by simp
      moreover have "A' c = A c" by (simp add: A'_def)
      ultimately show ?thesis using hi True ac sc avail(2) by (simp add: handed_def f'_def)
    next
      case False
      have "F i = [] \<or> A' i = A i" using inv ph by (auto simp: A'_def fan_inv_def dead_of_def)
      then show ?thesis using hi False avail A [of i] by (auto simp: handed_def f'_def A'_def)
    qed
  qed
  have next': "A' i + ?K i = next_of blk f' i \<and> (i \<notin> dead_of f' \<longrightarrow> F i = [])" if i: "i \<in> fnConns f" for i
  proof -
    have o: "A i + K i = next_of blk f i" "i \<notin> dead_of f \<longrightarrow> F i = []" using inv i by (auto simp: fan_inv_def)
    have fresh: "n = 0 \<Longrightarrow> i \<notin> set (c # cs) \<union> set dead \<Longrightarrow> K i = 0" using inv i ph by (auto simp: fan_inv_def)
    show ?thesis using o fresh sc cn pk(1) i
      by (cases "i = c"; cases "i \<in> set cs \<union> set dead"; cases "n = 0")
        (auto simp: next_of_def f'_def ph Let_def A'_def dead_of_def)
  qed
  have r: "reached A' ?K f' j" if "reached A K f j" for j
    using that A by (fastforce simp: reached_def f'_def A'_def)
  have rc: "reached A' ?K f' (?N - 1)" using cn(1) sc by (auto simp: reached_def f'_def A'_def intro!: exI [of _ c])
  have ph': "phase_ok f'" using pk cn by (auto simp: phase_ok_def f'_def)
  have "fan_inv blk A' ?K F f'"
    unfolding fan_inv_def using inv h next' r rc ph' by (intro conjI) (auto simp: fan_inv_def f'_def)
  moreover have "A i \<le> A' i" if "i < fnNext f" for i
    using inv that by (auto simp: fan_inv_def handed_def A'_def)
  ultimately show ?thesis using A avail by (auto simp: evolves_def f'_def)
qed

lemma send_fails_keeps:
  assumes inv: "fan_inv blk A K F f" and ph: "fnPhase f = Sending p (c # cs) dead n" and k: "k < length p" "c \<in> fnConns f \<or> k = 0"
  defines "f' \<equiv> f\<lparr>fnPhase := Sending p cs (dead @ [c]) n, fnInbox := (fnInbox f)(c := fnInbox f c @ take k p)\<rparr>"
  shows "fan_inv blk A K (F(c := F c @ take k p)) f' \<and> evolves A K f A K f'"
proof -
  let ?F = "F(c := F c @ take k p)" and ?N = "length (fnCalls f)"
  have pk: "fnCalls f \<noteq> []" "last (fnCalls f) = p" "Suc (length (fnResults f)) = ?N" "distinct ((c # cs) @ dead)"
    "set (c # cs) \<union> set dead \<subseteq> {..<fnNext f}" "fnClosed f \<or> set (c # cs) \<union> set dead \<subseteq> fnConns f"
    using inv ph by (auto simp: fan_inv_def phase_ok_def)
  have avail: "avail f' = avail f" by (simp add: avail_def f'_def ph Let_def)
  have nx: "next_of blk f' = next_of blk f" by (auto simp: next_of_def f'_def ph Let_def fun_eq_iff)
  have h: "handed A K ?F f' i" if "i < fnNext f" for i
  proof -
    have hi: "handed A K F f i" using inv that by (simp add: fan_inv_def)
    show ?thesis
    proof (cases "i = c \<and> 0 < k")
      case True
      then have c: "c \<in> fnConns f" using k(2) by simp
      have "A c + K c = ?N - 1" "F c = []" using inv c ph pk(4) by (auto simp: fan_inv_def next_of_def Let_def dead_of_def)
      moreover from this have "\<exists>r. r \<noteq> [] \<and> fnCalls f ! (A c + K c) = take k p @ r"
        using pk(1,2) k(1) by (intro exI [of _ "drop k p"]) (simp add: last_conv_nth)
      moreover have "?N - 1 < ?N" using pk(1) by simp
      ultimately show ?thesis using hi True avail by (simp add: handed_def f'_def)
    next
      case False
      then show ?thesis using hi avail by (auto simp: handed_def f'_def)
    qed
  qed
  have ph': "phase_ok f'" using pk by (auto simp: phase_ok_def f'_def)
  have r: "reached A K f' j = reached A K f j" for j by (simp add: reached_def f'_def)
  have "fan_inv blk A K ?F f'"
    unfolding fan_inv_def nx r using inv h ph' ph
    by (intro conjI) (auto simp: fan_inv_def f'_def dead_of_def)
  then show ?thesis using avail by (auto simp: evolves_def f'_def)
qed

theorem fan_step_keeps:
  assumes "fan_step blk f f'" and inv: "fan_inv blk A K F f"
  shows "\<exists>A' K' F'. fan_inv blk A' K' F' f' \<and> evolves A K f A' K' f'"
  using assms(1)
proof cases
  case accept
  show ?thesis unfolding accept(1) by (intro exI) (rule accept_keeps [OF inv accept(3)])
next
  case accept_ends
  have "fan_inv blk A K F f'" using inv unfolding accept_ends(1)
    by (simp add: fan_inv_def handed_def avail_def next_of_def dead_of_def reached_def phase_ok_def cong: phase.case_cong)
  moreover have "evolves A K f A K f'" unfolding accept_ends(1) by (intro evolves_refl) (simp_all add: avail_def)
  ultimately show ?thesis by blast
next
  case (sends p c cs dead n)
  show ?thesis unfolding sends(1) by (intro exI) (rule sends_keeps [OF inv sends(2,3)])
next
  case (send_fails p c cs dead n k)
  show ?thesis unfolding send_fails(1) by (intro exI) (rule send_fails_keeps [OF inv send_fails(2-4)])
next
  case (write_called p)
  have "calm blk f f'" using inv write_called
    by (auto simp: calm_def fan_inv_def avail_def phase_ok_def next_of_def dead_of_def Let_def)
  then show ?thesis by (rule calm_step [OF inv]) (use inv write_called in \<open>auto simp: fan_inv_def\<close>)
next
  case (write_refused p)
  have "calm blk f f'" using inv write_refused
    by (auto simp: calm_def fan_inv_def avail_def phase_ok_def next_of_def dead_of_def Let_def)
  then show ?thesis by (rule calm_step [OF inv]) (use inv write_refused in \<open>auto simp: fan_inv_def nth_append less_Suc_eq\<close>)
next
  case (write_begins p cs)
  have "calm blk f f'" using inv write_begins
    by (auto simp: calm_def fan_inv_def avail_def phase_ok_def next_of_def dead_of_def Let_def)
  then show ?thesis by (rule calm_step [OF inv]) (use inv write_begins in \<open>auto simp: fan_inv_def\<close>)
next
  case (write_retries p dead)
  have "calm blk f f'" using inv write_retries
    by (auto simp: calm_def fan_inv_def avail_def phase_ok_def next_of_def dead_of_def Let_def)
  then show ?thesis by (rule calm_step [OF inv]) (use inv write_retries in \<open>auto simp: fan_inv_def\<close>)
next
  case (write_returns p dead n)
  have "calm blk f f'" using inv write_returns
    by (auto simp: calm_def fan_inv_def avail_def phase_ok_def next_of_def dead_of_def Let_def)
  moreover have "length (fnResults f) = length (fnCalls f) - 1" using inv write_returns by (auto simp: fan_inv_def phase_ok_def)
  ultimately show ?thesis
    by (intro calm_step [OF inv]) (use inv write_returns in \<open>auto simp: fan_inv_def nth_append less_Suc_eq\<close>)
next
  case shutdown
  have "calm blk f f'" using inv shutdown
    by (auto simp: calm_def fan_inv_def avail_def phase_ok_def next_of_def dead_of_def Let_def split: phase.splits)
  then show ?thesis by (rule calm_step [OF inv]) (use inv shutdown in \<open>auto simp: fan_inv_def\<close>)
qed

section \<open>A sink at the other end\<close>

text \<open>One sink reads through its reconnecting reader: the connection it is on, the bytes it has taken from
it, the lines it has handed on. Dialing and being accepted are one step; a connection may be given
up at any time, by either side, and what was not read from it is gone.\<close>

record pipe =
  ppFan :: fan
  ppLink :: "nat option"
  ppPos :: nat
  ppYielded :: "string list"

definition new_pipe :: pipe where
  "new_pipe = \<lparr> ppFan = newFanout, ppLink = None, ppPos = 0, ppYielded = [] \<rparr>"

inductive pipe_step :: "bool \<Rightarrow> pipe \<Rightarrow> pipe \<Rightarrow> bool" for blockUntil where
  producer: "fan_step blockUntil (ppFan s) f \<Longrightarrow> pipe_step blockUntil s (s\<lparr>ppFan := f\<rparr>)"
| connects: "ppLink s = None \<Longrightarrow> fnAccepting (ppFan s) \<Longrightarrow> \<not> fnClosed (ppFan s) \<Longrightarrow>
    pipe_step blockUntil s (s\<lparr>ppFan := accepted (ppFan s), ppLink := Some (fnNext (ppFan s)), ppPos := 0\<rparr>)"
| yields: "ppLink s = Some i \<Longrightarrow> drop (ppPos s) (fnInbox (ppFan s) i) = l @ NL # rest \<Longrightarrow> NL \<notin> set l \<Longrightarrow>
    pipe_step blockUntil s (s\<lparr>ppPos := ppPos s + length l + 1, ppYielded := ppYielded s @ [l @ [NL]]\<rparr>)"
| hangs_up: "ppLink s = Some i \<Longrightarrow> pipe_step blockUntil s (s\<lparr>ppLink := None\<rparr>)"

inductive reachable :: "bool \<Rightarrow> pipe \<Rightarrow> bool" for blockUntil where
  reachable_init: "reachable blockUntil new_pipe"
| reachable_step: "reachable blockUntil s \<Longrightarrow> pipe_step blockUntil s s' \<Longrightarrow> reachable blockUntil s'"

text \<open>The records are lines.\<close>

definition whole_line :: "string \<Rightarrow> bool" where
  "whole_line p \<longleftrightarrow> (\<exists>l. p = l @ [NL] \<and> NL \<notin> set l)"

definition only_lines :: "pipe \<Rightarrow> bool" where
  "only_lines s \<longleftrightarrow> (\<forall>p \<in> set (fnCalls (ppFan s)). whole_line p)"

text \<open>What the sink has: a subsequence from earlier connections, then the start of what this one was handed.\<close>

definition sink_inv :: "(nat \<Rightarrow> nat) \<Rightarrow> (nat \<Rightarrow> nat) \<Rightarrow> pipe \<Rightarrow> bool" where
  "sink_inv A K s \<longleftrightarrow>
     (case ppLink s of
        None \<Rightarrow> subseq (ppYielded s) (take (avail (ppFan s)) (fnCalls (ppFan s)))
      | Some i \<Rightarrow> i < fnNext (ppFan s) \<and>
          (\<exists>ys b m. subseq ys (take b (fnCalls (ppFan s))) \<and> b \<le> A i \<and> b \<le> avail (ppFan s) \<and> m \<le> K i
             \<and> ppYielded s = ys @ stretch (fnCalls (ppFan s)) (A i) m
             \<and> ppPos s = length (concat (stretch (fnCalls (ppFan s)) (A i) m))))"

lemma take_prefix: "prefix xs ys \<Longrightarrow> b \<le> length xs \<Longrightarrow> take b ys = take b xs"
  by (auto simp: prefix_def)

lemma avail_le: "avail f \<le> length (fnCalls f)"
  by (auto simp: avail_def Let_def split: phase.split)

lemma avail_le_next: "avail f \<le> next_of blk f (fnNext f)" if "phase_ok f"
  using that by (auto simp: avail_def next_of_def phase_ok_def Let_def split: phase.split)

lemma subseq_take_mono: "subseq ys (take a xs) \<Longrightarrow> a \<le> b \<Longrightarrow> subseq ys (take b xs)"
  by (metis list_emb_prefix min.absorb1 take_add take_take le_add_diff_inverse)

lemma subseq_stretch:
  assumes "subseq ys (take b xs)" and "b \<le> a"
  shows "subseq (ys @ stretch xs a m) (take (a + m) xs)"
proof -
  have "subseq (ys @ stretch xs a m) (take a xs @ stretch xs a m)"
    using subseq_take_mono [OF assms] by (intro list_emb_append_mono) auto
  then show ?thesis by (simp add: stretch_def take_add)
qed

lemma sink_linkedI:
  assumes "ppLink s = Some i" "i < fnNext (ppFan s)" "subseq ys (take b (fnCalls (ppFan s)))" "b \<le> A i" "b \<le> avail (ppFan s)" "m \<le> K i"
    "ppYielded s = ys @ stretch (fnCalls (ppFan s)) (A i) m" "ppPos s = length (concat (stretch (fnCalls (ppFan s)) (A i) m))"
  shows "sink_inv A K s"
  unfolding sink_inv_def assms(1) option.case using assms(2-8) by blast

text \<open>A step of the producer keeps what the sink has.\<close>

lemma sink_keeps_producer:
  assumes sink: "sink_inv A K s" and fan: "fan_inv blk A K F (ppFan s)" and ev: "evolves A K (ppFan s) A' K' f"
  shows "sink_inv A' K' (s\<lparr>ppFan := f\<rparr>)"
proof (cases "ppLink s")
  case None
  have "take (avail (ppFan s)) (fnCalls f) = take (avail (ppFan s)) (fnCalls (ppFan s))"
    using ev avail_le by (intro take_prefix) (auto simp: evolves_def)
  then have "subseq (ppYielded s) (take (avail (ppFan s)) (fnCalls f))" using sink None by (simp add: sink_inv_def)
  then have "subseq (ppYielded s) (take (avail f) (fnCalls f))"
    by (rule subseq_take_mono) (use ev in \<open>simp add: evolves_def\<close>)
  with None show ?thesis by (simp add: sink_inv_def)
next
  case (Some i)
  then obtain ys b m where m: "i < fnNext (ppFan s)" "subseq ys (take b (fnCalls (ppFan s)))" "b \<le> A i" "b \<le> avail (ppFan s)" "m \<le> K i"
    "ppYielded s = ys @ stretch (fnCalls (ppFan s)) (A i) m" "ppPos s = length (concat (stretch (fnCalls (ppFan s)) (A i) m))"
    using sink by (auto simp: sink_inv_def)
  have h: "A i + K i \<le> length (fnCalls (ppFan s))" using fan m(1) by (simp add: fan_inv_def handed_def)
  have e: "A i \<le> A' i" "K i \<le> K' i" "0 < K i \<longrightarrow> A' i = A i" "prefix (fnCalls (ppFan s)) (fnCalls f)" "avail (ppFan s) \<le> avail f"
    "fnNext (ppFan s) \<le> fnNext f" using ev m(1) by (auto simp: evolves_def)
  have "stretch (fnCalls f) (A' i) m = stretch (fnCalls (ppFan s)) (A i) m"
    using stretch_prefix [OF e(4), of "A i" m] h m(5) e(3) by (cases "m = 0") auto
  moreover have "take b (fnCalls f) = take b (fnCalls (ppFan s))" using e(4) m(3) h by (intro take_prefix) auto
  ultimately show ?thesis using Some m e by (intro sink_linkedI [of _ i ys b _ m]) auto
qed

lemma sink_keeps_connects:
  assumes "sink_inv A K s" and fan: "fan_inv blk A K F (ppFan s)" and "ppLink s = None"
  defines "c \<equiv> fnNext (ppFan s)"
  shows "sink_inv (A(c := next_of blk (ppFan s) c)) (K(c := 0)) (s\<lparr>ppFan := accepted (ppFan s), ppLink := Some c, ppPos := 0\<rparr>)"
proof -
  have same: "fnCalls (accepted (ppFan s)) = fnCalls (ppFan s)" "avail (accepted (ppFan s)) = avail (ppFan s)"
    "fnNext (accepted (ppFan s)) = Suc c" by (simp_all add: accepted_def avail_def c_def)
  have "avail (ppFan s) \<le> next_of blk (ppFan s) c" unfolding c_def using fan by (intro avail_le_next) (simp add: fan_inv_def)
  then show ?thesis using assms(1,3) same
    by (intro sink_linkedI [of _ c "ppYielded s" "avail (ppFan s)" _ 0]) (auto simp: sink_inv_def)
qed

lemma sink_keeps_hangs_up:
  assumes "sink_inv A K s" and fan: "fan_inv blk A K F (ppFan s)" and "ppLink s = Some i"
  shows "sink_inv A K (s\<lparr>ppLink := None\<rparr>)"
proof -
  let ?C = "fnCalls (ppFan s)"
  obtain ys b m where m: "i < fnNext (ppFan s)" "subseq ys (take b ?C)" "b \<le> A i" "b \<le> avail (ppFan s)" "m \<le> K i"
    "ppYielded s = ys @ stretch ?C (A i) m"
    using assms(1,3) by (auto simp: sink_inv_def)
  have "subseq (ys @ stretch ?C (A i) m) (take (avail (ppFan s)) ?C)"
  proof (cases "m = 0")
    case False
    have "0 < K i \<longrightarrow> A i + K i \<le> avail (ppFan s)" using fan m(1) by (simp add: fan_inv_def handed_def)
    with False m(5) have "A i + m \<le> avail (ppFan s)" by auto
    with subseq_stretch [OF m(2,3)] show ?thesis by (rule subseq_take_mono)
  qed (use subseq_take_mono [OF m(2,4)] in simp)
  with m(6) show ?thesis by (simp add: sink_inv_def)
qed

lemma stretch_split: "m \<le> k \<Longrightarrow> stretch C a k = stretch C a m @ stretch C (a + m) (k - m)"
  using take_add [of m "k - m" "drop a C"] by (simp add: stretch_def add.commute)

lemma stretch_Cons: "0 < k \<Longrightarrow> a < length C \<Longrightarrow> stretch C a k = C ! a # stretch C (Suc a) (k - 1)"
  by (cases k) (simp_all add: stretch_def flip: Cons_nth_drop_Suc)

text \<open>The next whole line on a connection is the next record it was handed.\<close>

lemma next_line:
  assumes lines: "\<forall>p \<in> set C. whole_line p" and h: "inbox = concat (stretch C a k) @ frag" "a + k \<le> length C" "m \<le> k"
    and frag: "frag \<noteq> [] \<longrightarrow> (\<exists>r. r \<noteq> [] \<and> a + k < length C \<and> C ! (a + k) = frag @ r)"
    and next': "drop (length (concat (stretch C a m))) inbox = l @ NL # rest" "NL \<notin> set l"
  shows "m < k \<and> l @ [NL] = C ! (a + m)"
proof -
  note stretch_split [OF h(3), of C a]
  then have d: "l @ NL # rest = concat (stretch C (a + m) (k - m)) @ frag" using h(1) next'(1) by simp
  show ?thesis
  proof (cases "m < k")
    case False
    then have f: "frag = l @ NL # rest" using d h(3) by (simp add: stretch_def)
    with frag obtain r where r: "r \<noteq> []" "a + k < length C" "C ! (a + k) = frag @ r" by auto
    then have "whole_line (frag @ r)" using lines nth_mem [OF r(2)] by simp
    then obtain x where x: "frag @ r = x @ [NL]" "NL \<notin> set x" by (auto simp: whole_line_def)
    then have "frag @ butlast r = x" using r(1) by (metis butlast_append butlast_snoc)
    with f x(2) show ?thesis by auto
  next
    case True
    then have "stretch C (a + m) (k - m) = C ! (a + m) # stretch C (Suc (a + m)) (k - Suc m)"
      using stretch_Cons [of "k - m" "a + m" C] h(2) by simp
    moreover have "whole_line (C ! (a + m))" using lines True h(2) by simp
    then obtain x where x: "C ! (a + m) = x @ [NL]" "NL \<notin> set x" by (auto simp: whole_line_def)
    ultimately have "l @ NL # rest = x @ NL # (concat (stretch C (Suc (a + m)) (k - Suc m)) @ frag)" using d by simp
    from arg_cong [OF this, of "split_on NL"] have "l = x" using next'(2) x(2) by (simp add: split_on_append)
    with True x(1) show ?thesis by simp
  qed
qed

lemma sink_keeps_yields:
  assumes sink: "sink_inv A K s" and fan: "fan_inv blk A K F (ppFan s)" and "only_lines s"
    and y: "ppLink s = Some i" "drop (ppPos s) (fnInbox (ppFan s) i) = l @ NL # rest" "NL \<notin> set l"
  shows "sink_inv A K (s\<lparr>ppPos := ppPos s + length l + 1, ppYielded := ppYielded s @ [l @ [NL]]\<rparr>)"
proof -
  let ?C = "fnCalls (ppFan s)"
  obtain ys b m where m: "i < fnNext (ppFan s)" "subseq ys (take b ?C)" "b \<le> A i" "b \<le> avail (ppFan s)" "m \<le> K i"
    "ppYielded s = ys @ stretch ?C (A i) m" "ppPos s = length (concat (stretch ?C (A i) m))"
    using sink y(1) by (auto simp: sink_inv_def)
  have h: "handed A K F (ppFan s) i" using fan m(1) by (simp add: fan_inv_def)
  have "m < K i \<and> l @ [NL] = ?C ! (A i + m)"
    using assms(3) h y(2,3) m(5,7)
    by (intro next_line [of ?C "fnInbox (ppFan s) i" "A i" "K i" "F i"]) (auto simp: only_lines_def handed_def)
  then have n: "m < K i" "l @ [NL] = ?C ! (A i + m)" by auto
  then have "stretch ?C (A i) (Suc m) = stretch ?C (A i) m @ [l @ [NL]]"
  proof -
    have "A i + K i \<le> length ?C" using h by (simp add: handed_def)
    with n(1) have "m < length (drop (A i) ?C)" "A i \<le> length ?C" by simp_all
    then show ?thesis using n(2) by (simp add: stretch_def take_Suc_conv_app_nth)
  qed
  with m n(1) y(1) show ?thesis by (intro sink_linkedI [of _ i ys b _ "Suc m"]) auto
qed

lemma reachable_inv:
  assumes "reachable blk s" and "only_lines s"
  shows "\<exists>A K F. fan_inv blk A K F (ppFan s) \<and> sink_inv A K s"
  using assms
proof (induction rule: reachable.induct)
  case reachable_init
  show ?case
    by (intro exI [of _ "\<lambda>_. 0"] exI [of _ "\<lambda>_. 0"] exI [of _ "\<lambda>_. []"])
      (simp add: new_pipe_def newFanout_def fan_inv_def phase_ok_def sink_inv_def)
next
  case (reachable_step s s')
  have ol: "only_lines s"
    using reachable_step(2,4)
  proof cases
    case (producer f)
    from producer(2) have "set (fnCalls (ppFan s)) \<subseteq> set (fnCalls f)" by cases (auto simp: accepted_def)
    with producer(1) reachable_step(4) show ?thesis by (auto simp: only_lines_def)
  qed (auto simp: only_lines_def accepted_def)
  with reachable_step.IH obtain A K F where inv: "fan_inv blk A K F (ppFan s)" "sink_inv A K s" by blast
  from reachable_step(2) show ?case
  proof cases
    case (producer f)
    from fan_step_keeps [OF producer(2) inv(1)] obtain A' K' F' where
      next': "fan_inv blk A' K' F' f" "evolves A K (ppFan s) A' K' f" by blast
    show ?thesis unfolding producer(1)
      using next'(1) sink_keeps_producer [OF inv(2,1) next'(2)]
      by (intro exI [of _ A'] exI [of _ K'] exI [of _ F'] conjI) simp_all
  next
    case connects
    from accept_keeps [OF inv(1) connects(4)] sink_keeps_connects [OF inv(2,1) connects(2)] connects(1)
    show ?thesis by (intro exI) (auto simp: fun_upd_def)
  next
    case (yields i l rest)
    from sink_keeps_yields [OF inv(2,1) ol yields(2-4)] inv(1) yields(1) show ?thesis by auto
  next
    case (hangs_up i)
    from sink_keeps_hangs_up [OF inv(2,1) hangs_up(2)] inv(1) hangs_up(1) show ?thesis by auto
  qed
qed

section \<open>In order, whole, and handed over\<close>

lemma reachable_fan_inv:
  assumes "reachable blk s"
  shows "\<exists>A K F. fan_inv blk A K F (ppFan s)"
  using assms
proof (induction rule: reachable.induct)
  case reachable_init
  show ?case
    by (intro exI [of _ "\<lambda>_. 0"] exI [of _ "\<lambda>_. 0"] exI [of _ "\<lambda>_. []"])
      (simp add: new_pipe_def newFanout_def fan_inv_def phase_ok_def)
next
  case (reachable_step s s')
  then obtain A K F where inv: "fan_inv blk A K F (ppFan s)" by blast
  from reachable_step(2) show ?case
  proof cases
    case (producer f)
    from fan_step_keeps [OF producer(2) inv] producer(1) show ?thesis by auto
  next
    case connects
    from accept_keeps [OF inv connects(4)] connects(1) show ?thesis by auto
  qed (use inv in auto)
qed

text \<open>
C12: A sink never hands on a torn, doubled or reordered record. Whatever the producer, the accept loop,
  the consumers' failures and the sink's reconnections do, the lines its reader has yielded are a
  subsequence of the records \<^verbatim>\<open>Write\<close> was called with: each whole, each at most once, in order.\<close>

theorem pipe_in_order:
  assumes "reachable blk s" and "only_lines s"
  shows "subseq (ppYielded s) (fnCalls (ppFan s))"
proof -
  from reachable_inv [OF assms] obtain A K F where inv: "fan_inv blk A K F (ppFan s)" "sink_inv A K s" by blast
  let ?C = "fnCalls (ppFan s)"
  have all: "subseq (ppYielded s) ?C" if "subseq (ppYielded s) (take b ?C)" for b
    using subseq_take_mono [OF that, of "max b (length ?C)"] by simp
  show ?thesis
  proof (cases "ppLink s")
    case None
    with inv(2) all show ?thesis by (auto simp: sink_inv_def)
  next
    case (Some i)
    with inv(2) obtain ys b m where m: "subseq ys (take b ?C)" "b \<le> A i" "ppYielded s = ys @ stretch ?C (A i) m"
      by (auto simp: sink_inv_def)
    from subseq_stretch [OF m(1,2)] m(3) all show ?thesis by metis
  qed
qed

lemma fan_inv_reached:
  "fan_inv blk A K F f \<Longrightarrow> blk \<Longrightarrow> j < length (fnResults f) \<Longrightarrow> fnResults f ! j \<Longrightarrow> reached A K f j"
  unfolding fan_inv_def by blast

text \<open>
C13: What each connection was handed is a gapless run of the records, cut off inside the next one at most;
  and with \<^verbatim>\<open>blockUntilConsumer\<close> a record whose \<^verbatim>\<open>Write\<close> succeeded was handed to some connection in full.\<close>

theorem fanout_hands_over:
  assumes "reachable blk s"
  shows "\<exists>A K. (\<forall>i < fnNext (ppFan s). \<exists>frag. fnInbox (ppFan s) i = concat (take (K i) (drop (A i) (fnCalls (ppFan s)))) @ frag
            \<and> A i + K i \<le> length (fnCalls (ppFan s))
            \<and> (frag \<noteq> [] \<longrightarrow> A i + K i < length (fnCalls (ppFan s)) \<and> strict_prefix frag (fnCalls (ppFan s) ! (A i + K i))))
       \<and> (blk \<longrightarrow> (\<forall>j < length (fnResults (ppFan s)). fnResults (ppFan s) ! j \<longrightarrow> (\<exists>i < fnNext (ppFan s). A i \<le> j \<and> j < A i + K i)))"
proof -
  from reachable_fan_inv [OF assms] obtain A K F where inv: "fan_inv blk A K F (ppFan s)" by blast
  have "\<exists>frag. fnInbox (ppFan s) i = concat (take (K i) (drop (A i) (fnCalls (ppFan s)))) @ frag
            \<and> A i + K i \<le> length (fnCalls (ppFan s))
            \<and> (frag \<noteq> [] \<longrightarrow> A i + K i < length (fnCalls (ppFan s)) \<and> strict_prefix frag (fnCalls (ppFan s) ! (A i + K i)))"
    if "i < fnNext (ppFan s)" for i
  proof -
    have "handed A K F (ppFan s) i" using inv that by (simp add: fan_inv_def)
    then have h: "fnInbox (ppFan s) i = concat (take (K i) (drop (A i) (fnCalls (ppFan s)))) @ F i" "A i + K i \<le> length (fnCalls (ppFan s))"
      "F i \<noteq> [] \<longrightarrow> A i + K i < length (fnCalls (ppFan s)) \<and> (\<exists>r. r \<noteq> [] \<and> fnCalls (ppFan s) ! (A i + K i) = F i @ r)"
      by (simp_all add: handed_def stretch_def)
    have "strict_prefix x y" if "r \<noteq> []" "y = x @ r" for x y r :: string
      using that by (simp add: strict_prefix_def)
    with h(3) have p: "F i \<noteq> [] \<longrightarrow> A i + K i < length (fnCalls (ppFan s)) \<and> strict_prefix (F i) (fnCalls (ppFan s) ! (A i + K i))"
      by blast
    show ?thesis by (rule exI [of _ "F i"], intro conjI) (rule h(1), rule h(2), rule p)
  qed
  moreover have "\<exists>i < fnNext (ppFan s). A i \<le> j \<and> j < A i + K i"
    if "blk" "j < length (fnResults (ppFan s))" "fnResults (ppFan s) ! j" for j
    using fan_inv_reached [OF inv that] unfolding reached_def .
  ultimately show ?thesis by (rule_tac exI [of _ A], rule_tac exI [of _ K], intro conjI allI impI)
qed

section \<open>A run\<close>

text \<open>One consumer, one record handed over; the sink reads it, or goes away before it does.\<close>

definition handed_over :: "string \<Rightarrow> pipe" where
  "handed_over p = \<lparr> ppFan = (accepted newFanout)\<lparr>fnInbox := (\<lambda>_. [])(0 := p), fnCalls := [p], fnResults := [True]\<rparr>,
     ppLink = Some 0, ppPos = 0, ppYielded = [] \<rparr>"

lemma producer_step:
  "reachable blk \<lparr> ppFan = f, ppLink = l, ppPos = n, ppYielded = y \<rparr> \<Longrightarrow> fan_step blk f f' \<Longrightarrow>
   reachable blk \<lparr> ppFan = f', ppLink = l, ppPos = n, ppYielded = y \<rparr>"
  using reachable_step [OF _ pipe_step.producer, of blk "\<lparr> ppFan = f, ppLink = l, ppPos = n, ppYielded = y \<rparr>" f'] by simp

lemma reachable_handed_over: "reachable blk (handed_over p)"
proof -
  let ?g = "\<lambda>ph ib calls res. \<lparr> fnConns = {0}, fnNext = 1, fnClosed = False, fnAccepting = True, fnPhase = ph,
      fnInbox = (\<lambda>_. [])(0 := ib), fnCalls = calls, fnResults = res \<rparr>"
  let ?s = "\<lambda>f. \<lparr> ppFan = f, ppLink = Some 0, ppPos = 0, ppYielded = [] \<rparr>"
  have "pipe_step blk new_pipe (new_pipe\<lparr>ppFan := accepted (ppFan new_pipe), ppLink := Some (fnNext (ppFan new_pipe)), ppPos := 0\<rparr>)"
    by (intro pipe_step.connects) (simp_all add: new_pipe_def newFanout_def)
  then have 0: "reachable blk (?s (?g Idle [] [] []))"
    using reachable_step [OF reachable_init] by (simp add: new_pipe_def newFanout_def accepted_def)
  have 1: "fan_step blk (?g Idle [] [] []) (?g (Waiting p) [] [p] [])"
    using fan_step.write_called [of "?g Idle [] [] []" blk p] by simp
  have 2: "fan_step blk (?g (Waiting p) [] [p] []) (?g (Sending p [0] [] 0) [] [p] [])"
    using fan_step.write_begins [of "?g (Waiting p) [] [p] []" p blk "[0]"] by simp
  have 3: "fan_step blk (?g (Sending p [0] [] 0) [] [p] []) (?g (Sending p [] [] (Suc 0)) p [p] [])"
    using fan_step.sends [of "?g (Sending p [0] [] 0) [] [p] []" p 0 "[]" "[]" 0 blk] by simp
  have 4: "fan_step blk (?g (Sending p [] [] (Suc 0)) p [p] []) (?g Idle p [p] [True])"
    using fan_step.write_returns [of "?g (Sending p [] [] (Suc 0)) p [p] []" p "[]" "Suc 0" blk] by simp
  have "reachable blk (?s (?g Idle p [p] [True]))"
    by (rule producer_step [OF producer_step [OF producer_step [OF producer_step [OF 0 1] 2] 3] 4])
  then show ?thesis by (simp add: handed_over_def newFanout_def accepted_def)
qed

lemma pipe_in_order_witness:
  "let s = (handed_over [NL])\<lparr>ppPos := 1, ppYielded := [[NL]]\<rparr> in
     reachable True s \<and> only_lines s \<and> subseq (ppYielded s) (fnCalls (ppFan s))"
proof -
  let ?s = "(handed_over [NL])\<lparr>ppPos := ppPos (handed_over [NL]) + length ([]::string) + 1, ppYielded := ppYielded (handed_over [NL]) @ [[] @ [NL]]\<rparr>"
  have r: "reachable True ?s"
    by (rule reachable_step [OF reachable_handed_over], rule pipe_step.yields [where i = 0 and rest = "[]"])
      (simp_all add: handed_over_def)
  moreover have l: "only_lines ?s" by (simp add: only_lines_def handed_over_def whole_line_def)
  ultimately show ?thesis using pipe_in_order [OF r l] by (simp add: handed_over_def)
qed

lemma fanout_hands_over_witness:
  "let s = handed_over ''a'' in reachable True s \<and> fnResults (ppFan s) = [True] \<and> (\<exists>A K. \<exists>i < fnNext (ppFan s). A i = (0::nat) \<and> 0 < (K i :: nat))"
proof -
  from fanout_hands_over [OF reachable_handed_over [of True "''a''"]] reachable_handed_over [of True "''a''"]
  show ?thesis by (auto simp: handed_over_def)
qed

text \<open>A record whose \<^verbatim>\<open>Write\<close> succeeded, with \<^verbatim>\<open>blockUntilConsumer\<close>, and that no sink ever sees: its only
  consumer went away with the record unread, and the next connection starts after it.\<close>

theorem confirmed_record_lost:
  "reachable True ((handed_over p)\<lparr>ppLink := None\<rparr>)
   \<and> fnResults (ppFan (handed_over p)) = [True] \<and> fnPhase (ppFan (handed_over p)) = Idle
   \<and> ppYielded (handed_over p) = [] \<and> next_of True (ppFan (handed_over p)) 1 = 1"
proof -
  have "reachable True ((handed_over p)\<lparr>ppLink := None\<rparr>)"
    by (rule reachable_step [OF reachable_handed_over], rule pipe_step.hangs_up) (simp add: handed_over_def)
  then show ?thesis by (simp add: handed_over_def accepted_def newFanout_def next_of_def)
qed

section \<open>The reconnecting reader\<close>

text \<open>What the next dials give: none, because the context ends while the reader waits; a refusal; or a
connection, with the bytes that arrive on it before it fails and whether it fails because the context ended.\<close>

datatype dial = Refused | Answered string bool

datatype read_error = End_of_file | Context_done

record rr =
  rrClosed :: bool
  rrDone :: bool
  rrBr :: "(string \<times> bool) option"
  rrPending :: string
  rrAttempt :: nat
  rrWaits :: "int list"

definition backoffBase :: int where "backoffBase = 500000000"
definition backoffMax :: int where "backoffMax = 30000000000"

definition backoffFor :: "(int \<Rightarrow> int) \<Rightarrow> nat \<Rightarrow> int" where
  "backoffFor rnd n = backoff_Jitter rnd (backoff_Duration (int n) backoffBase backoffMax)"

text \<open>\<^verbatim>\<open>connect\<close>, with the delays it slept for.\<close>

fun connect :: "(int \<Rightarrow> int) \<Rightarrow> rr \<Rightarrow> dial list \<Rightarrow> (read_error + unit) \<times> rr \<times> dial list" where
  "connect rnd r ds =
     (if rrClosed r then (Inl End_of_file, r, ds)
      else if rrDone r then (Inl Context_done, r, ds)
      else
        (case ds of
           [] \<Rightarrow> (Inl Context_done, r\<lparr>rrDone := True, rrAttempt := Suc (rrAttempt r)\<rparr>, [])
         | Answered bytes ends # ds' \<Rightarrow> (Inr (), r\<lparr>rrBr := Some (bytes, ends), rrAttempt := 0\<rparr>, ds')
         | Refused # ds' \<Rightarrow>
             (let n = Suc (rrAttempt r) in
              connect rnd (r\<lparr>rrAttempt := n, rrWaits := rrWaits r @ [backoffFor rnd n]\<rparr>) ds')))"

declare connect.simps [simp del]

definition newReconnectingReader :: "(int \<Rightarrow> int) \<Rightarrow> dial list \<Rightarrow> (read_error + unit) \<times> rr \<times> dial list" where
  "newReconnectingReader rnd ds =
     connect rnd \<lparr> rrClosed = False, rrDone = False, rrBr = None, rrPending = [], rrAttempt = 0, rrWaits = [] \<rparr> ds"

text \<open>\<^verbatim>\<open>bufio.Reader.ReadBytes\<close> up to a newline: \<^verbatim>\<open>None\<close> when the connection fails first.\<close>

definition ReadBytes :: "string \<Rightarrow> (string \<times> string) option" where
  "ReadBytes bs =
     (let l = takeWhile (\<lambda>c. c \<noteq> NL) bs in
      if NL \<in> set bs then Some (l @ [NL], drop (Suc (length l)) bs) else None)"

definition dropConn :: "rr \<Rightarrow> rr" where
  "dropConn r = r\<lparr>rrBr := None\<rparr>"

definition rr_Close :: "rr \<Rightarrow> rr" where
  "rr_Close r = r\<lparr>rrClosed := True\<rparr>"

lemma connect_consumes: "connect rnd r ds = (Inr u, r', ds') \<Longrightarrow> length ds' < length ds \<and> rrBr r' \<noteq> None"
proof (induction ds arbitrary: r)
  case (Cons d ds)
  then show ?case
    by (cases d) (auto simp: connect.simps [of rnd r "_ # ds"] Let_def split: if_splits intro: less_SucI)
qed (simp add: connect.simps split: if_splits)

text \<open>\<open>n\<close> is the size of the caller's buffer.\<close>

function (sequential) rr_Read :: "(int \<Rightarrow> int) \<Rightarrow> nat \<Rightarrow> rr \<Rightarrow> dial list \<Rightarrow> (read_error + string) \<times> rr \<times> dial list" where
  "rr_Read rnd n r ds =
     (if rrPending r \<noteq> [] then (Inr (take n (rrPending r)), r\<lparr>rrPending := drop n (rrPending r)\<rparr>, ds)
      else if rrDone r then (Inl Context_done, r, ds)
      else
        (case (if rrBr r = None then connect rnd r ds else (Inr (), r, ds)) of
           (Inl e, r1, ds1) \<Rightarrow> (Inl e, r1, ds1)
         | (Inr _, r1, ds1) \<Rightarrow>
             (case rrBr r1 of
                None \<Rightarrow> (Inl End_of_file, r1, ds1)
              | Some (bs, ends) \<Rightarrow>
                  (case ReadBytes bs of
                     None \<Rightarrow>
                       (if ends then (Inl Context_done, (dropConn r1)\<lparr>rrDone := True, rrClosed := True\<rparr>, ds1)
                        else rr_Read rnd n (dropConn r1) ds1)
                   | Some (line, rest) \<Rightarrow> rr_Read rnd n (r1\<lparr>rrBr := Some (rest, ends), rrPending := line\<rparr>) ds1))))"
  by pat_completeness auto

text \<open>Every turn of the loop uses up a line, a connection or a dial.\<close>

definition rr_left :: "rr \<Rightarrow> dial list \<Rightarrow> nat" where
  "rr_left r ds = (if rrPending r \<noteq> [] then 0 else Suc (2 * length ds + (if rrBr r = None then 0 else 1)))"

lemma ReadBytes_Some:
  "ReadBytes bs = Some (line, rest) \<Longrightarrow> bs = line @ rest \<and> (\<exists>l. line = l @ [NL] \<and> NL \<notin> set l)"
proof -
  assume a: "ReadBytes bs = Some (line, rest)"
  let ?l = "takeWhile (\<lambda>c. c \<noteq> NL) bs"
  from a have m: "NL \<in> set bs" "line = ?l @ [NL]" "rest = drop (Suc (length ?l)) bs" by (auto simp: ReadBytes_def Let_def split: if_splits)
  from split_list_first [OF m(1)] obtain ys zs where s: "bs = ys @ NL # zs" "NL \<notin> set ys" by blast
  then have "?l = ys" by (auto simp: takeWhile_append)
  with m s show ?thesis by auto
qed

termination rr_Read
proof (relation "measure (\<lambda>(rnd, n, r, ds). rr_left r ds)", goal_cases)
  case (2 rnd n r ds x r1 ds1 a b ends)
  then show ?case
    using connect_consumes [of rnd r ds]
    by (auto simp: rr_left_def dropConn_def split: if_splits dest!: sym [where t = "connect rnd r ds"])
next
  case (3 rnd n r ds)
  then show ?case by (auto simp: rr_left_def split: if_splits dest: ReadBytes_Some)
qed simp


text \<open>The caller's reads, with buffers of these sizes, until one fails.\<close>

fun rr_reads :: "(int \<Rightarrow> int) \<Rightarrow> nat list \<Rightarrow> rr \<Rightarrow> dial list \<Rightarrow> string \<times> rr \<times> dial list" where
  "rr_reads rnd [] r ds = ([], r, ds)"
| "rr_reads rnd (n # ns) r ds =
     (case rr_Read rnd n r ds of
        (Inl e, r1, ds1) \<Rightarrow> ([], r1, ds1)
      | (Inr out, r1, ds1) \<Rightarrow> (case rr_reads rnd ns r1 ds1 of (out', r2, ds2) \<Rightarrow> (out @ out', r2, ds2)))"

text \<open>The whole lines of what arrives on a connection; of the connections still to come; of those at hand.\<close>

definition whole :: "string \<Rightarrow> string" where
  "whole bs = concat (map (\<lambda>l. l @ [NL]) (butlast (split_on NL bs)))"

definition to_come :: "dial list \<Rightarrow> string" where
  "to_come ds = concat (map (\<lambda>d. case d of Refused \<Rightarrow> [] | Answered bs _ \<Rightarrow> whole bs) ds)"

definition due :: "rr \<Rightarrow> string" where
  "due r = rrPending r @ (case rrBr r of None \<Rightarrow> [] | Some (bs, _) \<Rightarrow> whole bs)"

lemma whole_no_line: "ReadBytes bs = None \<Longrightarrow> whole bs = []"
  by (auto simp: ReadBytes_def whole_def Let_def split_on_no_sep split: if_splits)

lemma whole_line_rest: "ReadBytes bs = Some (line, rest) \<Longrightarrow> whole bs = line @ whole rest"
  by (auto simp: whole_def split_on_append dest!: ReadBytes_Some)

lemma connect_keeps:
  "connect rnd r ds = (res, r', ds') \<Longrightarrow> rrBr r = None \<Longrightarrow>
     due r' @ to_come ds' = due r @ to_come ds \<and> (isl res \<longrightarrow> rrDone r' \<or> rrClosed r') \<and> rrPending r' = rrPending r"
proof (induction ds arbitrary: r)
  case (Cons d ds)
  then show ?case
    by (cases d) (fastforce simp: connect.simps [of rnd r "_ # ds"] to_come_def due_def Let_def split: if_splits)+
qed (auto simp: connect.simps due_def to_come_def split: if_splits)

lemma rr_Read_keeps:
  assumes "rr_Read rnd n r ds = (res, r', ds')" and "0 < n"
  shows "(case res of Inl _ \<Rightarrow> [] | Inr out \<Rightarrow> out) @ due r' @ to_come ds' = due r @ to_come ds
    \<and> (isl res \<longrightarrow> rrDone r' \<or> rrClosed r') \<and> (\<not> isl res \<longrightarrow> projr res \<noteq> [])"
  using assms
proof (induction rnd n r ds rule: rr_Read.induct)
  case (1 rnd n r ds)
  note simps = rr_Read.simps [of rnd n r ds]
  show ?case
  proof (cases "rrPending r \<noteq> [] \<or> rrDone r")
    case True
    with 1(3,4) simps show ?thesis by (auto simp: due_def split: if_splits)
  next
    case False
    obtain c r1 ds1 where c: "(if rrBr r = None then connect rnd r ds else (Inr (), r, ds)) = (c, r1, ds1)"
      by (metis prod_cases3)
    have k: "due r1 @ to_come ds1 = due r @ to_come ds" "isl c \<longrightarrow> rrDone r1 \<or> rrClosed r1" "rrPending r1 = []"
      using c connect_keeps [of rnd r ds c r1 ds1] False by (auto split: if_splits)
    show ?thesis
    proof (cases c)
      case (Inl e)
      with c False 1(3) simps k show ?thesis by auto
    next
      case (Inr u)
      with c obtain bs ends where b: "rrBr r1 = Some (bs, ends)"
        using connect_consumes [of rnd r ds u r1 ds1] by (auto split: if_splits)
      show ?thesis
      proof (cases "ReadBytes bs")
        case None
        have d: "due (dropConn r1) = due r1" using b k(3) whole_no_line [OF None] by (simp add: due_def dropConn_def)
        show ?thesis
        proof (cases ends)
          case True
          with False c Inr b None 1(3) simps k d show ?thesis by (auto simp: due_def dropConn_def)
        next
          case e: False
          have "rr_Read rnd n (dropConn r1) ds1 = (res, r', ds')" using False c Inr b None e 1(3) simps by simp
          from 1(1) [OF _ _ c [symmetric] _ _ b _ None e this 1(4)] False Inr k(1) d show ?thesis by simp
        qed
      next
        case (Some lr)
        obtain line rest where lr: "lr = (line, rest)" by (cases lr)
        let ?r = "r1\<lparr>rrBr := Some (rest, ends), rrPending := line\<rparr>"
        have d: "due ?r = due r1" using b k(3) whole_line_rest [of bs line rest] Some lr by (simp add: due_def)
        have "rr_Read rnd n ?r ds1 = (res, r', ds')" using False c Inr b Some lr 1(3) simps by simp
        from 1(2) [OF _ _ c [symmetric] _ _ b _ Some lr [symmetric] this 1(4)] False Inr k(1) d show ?thesis by simp
      qed
    qed
  qed
qed


text \<open>
C14: The reconnecting reader hands its caller exactly the whole lines of the connections it had, one
  connection after the other, whatever sizes the caller reads in: what was read, with what is at hand
  and what is still to come, is always all of it. What arrives of a line before a connection fails is
  dropped, and nothing else is; a read fails only when the context is done or the reader closed.\<close>

theorem reader_serves_whole_lines:
  assumes "newReconnectingReader rnd ds = (Inr (), r, ds1)" and "\<forall>n \<in> set ns. 0 < n"
    and "rr_reads rnd ns r ds1 = (out, r', ds')"
  shows "out @ due r' @ to_come ds' = to_come ds \<and> (length out < length ns \<longrightarrow> rrDone r' \<or> rrClosed r')"
proof -
  have "due r @ to_come ds1 = to_come ds"
    using connect_keeps [OF assms(1) [unfolded newReconnectingReader_def]] by (auto simp: due_def)
  moreover have "out @ due r' @ to_come ds' = due r @ to_come ds1 \<and> (length out < length ns \<longrightarrow> rrDone r' \<or> rrClosed r')"
    using assms(2,3)
  proof (induction ns arbitrary: r ds1 out)
    case (Cons n ns)
    obtain res r1 ds2 where step: "rr_Read rnd n r ds1 = (res, r1, ds2)" by (metis prod_cases3)
    note k = rr_Read_keeps [OF step]
    show ?case
    proof (cases res)
      case (Inl e)
      with Cons.prems k step show ?thesis by auto
    next
      case (Inr o1)
      with Cons.prems(2) step obtain o2 where o: "rr_reads rnd ns r1 ds2 = (o2, r', ds')" "out = o1 @ o2"
        by (auto split: prod.splits)
      obtain x xs where "o1 = x # xs" using k Cons.prems(1) Inr by (cases o1) auto
      with Cons.IH [OF _ o(1)] Cons.prems(1) k Inr o(2) show ?thesis by auto
    qed
  qed simp
  ultimately show ?thesis by simp
qed

lemma reader_serves_whole_lines_witness:
  "\<exists>r ds1 r' ds'. newReconnectingReader (\<lambda>_. 0) [Refused, Answered (''a'' @ NL # ''b'') False, Answered (''c'' @ [NL]) True] = (Inr (), r, ds1)
     \<and> rr_reads (\<lambda>_. 0) [1, 5, 5] r ds1 = (''a'' @ NL # ''c'' @ [NL], r', ds')
     \<and> (''a'' @ NL # ''c'' @ [NL]) @ due r' @ to_come ds' = to_come [Refused, Answered (''a'' @ NL # ''b'') False, Answered (''c'' @ [NL]) True]"
proof -
  let ?ds = "[Refused, Answered (''a'' @ NL # ''b'') False, Answered (''c'' @ [NL]) True]"
  obtain r ds1 where r: "newReconnectingReader (\<lambda>_. 0) ?ds = (Inr (), r, ds1)"
    and rr: "r = \<lparr> rrClosed = False, rrDone = False, rrBr = Some (''a'' @ NL # ''b'', False), rrPending = [], rrAttempt = 0, rrWaits = [backoffFor (\<lambda>_. 0) 1] \<rparr>"
      "ds1 = [Answered (''c'' @ [NL]) True]"
    by (simp add: newReconnectingReader_def connect.simps Let_def)
  obtain r' ds' where e: "rr_reads (\<lambda>_. 0) [1, 5, 5] r ds1 = (''a'' @ NL # ''c'' @ [NL], r', ds')"
    unfolding rr by (simp add: rr_Read.simps connect.simps ReadBytes_def dropConn_def)
  from reader_serves_whole_lines [OF r _ e] r e show ?thesis by auto
qed

end
