(* ===== verification/Config.thy ===== *)
theory Config
  imports Numerals "HOL-Library.AList"
begin

text \<open>
  Configuration (\<^verbatim>\<open>internal/config\<close>): which file is read, which keys a flag or the environment
  overrides, the expansion of environment references, the commands that provide a value, and the
  part of the settings a tool decodes. The libraries that parse the file, merge the sources and fill
  the structs are parameters: their result is the tree of settings the functions start from.
\<close>

section \<open>Values with references\<close>

type_synonym environ = "string \<Rightarrow> string option"

abbreviation (input) dollar :: char where "dollar \<equiv> CHR ''$''"
abbreviation (input) obrace :: char where "obrace \<equiv> CHR ''{''"
abbreviation (input) cbrace :: char where "cbrace \<equiv> CHR ''}''"

text \<open>\<^verbatim>\<open>strings.Index(expr, ":-")\<close>, with what is before and after it.\<close>

fun cut_default :: "string \<Rightarrow> (string \<times> string) option" where
  "cut_default [] = None"
| "cut_default (c # s) =
     (if has_prefix '':-'' (c # s) then Some ([], drop 1 s)
      else map_option (\<lambda>(n, d). (c # n, d)) (cut_default s))"

definition expandExpr :: "environ \<Rightarrow> string \<Rightarrow> string + string" where
  "expandExpr env expr =
     (let (name0, def) = (case cut_default expr of Some (n, d) \<Rightarrow> (n, Some d) | None \<Rightarrow> (expr, None));
          name = trim_space name0 in
      if name = [] then Inl (''empty variable name in ${'' @ expr @ ''}'')
      else
        (case (env name, def) of
           (Some [], None) \<Rightarrow> Inr []
         | (Some (c # v), _) \<Rightarrow> Inr (c # v)
         | (_, Some d) \<Rightarrow> Inr d
         | (None, None) \<Rightarrow> Inl (''environment variable '' @ name @ '' referenced in config is not set'')))"

text \<open>The loop of \<^verbatim>\<open>expandString\<close> on what is left of the value.\<close>

function (sequential) expand_from :: "environ \<Rightarrow> string \<Rightarrow> string + string" where
  "expand_from env [] = Inr []"
| "expand_from env (c # s) =
     (if c \<noteq> dollar then map_sum id (Cons c) (expand_from env s)
      else if has_prefix [dollar] s then map_sum id (Cons dollar) (expand_from env (drop 1 s))
      else if has_prefix [obrace] s then
        (case index_byte cbrace (drop 1 s) of
           None \<Rightarrow> Inl ''unterminated ${...} in value''
         | Some n \<Rightarrow>
             (case expandExpr env (take n (drop 1 s)) of
                Inl e \<Rightarrow> Inl e
              | Inr val \<Rightarrow> map_sum id ((@) val) (expand_from env (drop (n + 2) s))))
      else map_sum id (Cons dollar) (expand_from env s))"
  by pat_completeness auto

termination expand_from
  by (relation "measure (\<lambda>(env, s). length s)") auto

definition expandString :: "environ \<Rightarrow> string \<Rightarrow> string + string" where
  "expandString env s = (if dollar \<notin> set s then Inr s else expand_from env s)"

text \<open>What a value means: literal text, in which a dollar sign is written twice, and references.\<close>

datatype piece = Lit string | Ref string "string option"

definition escape :: "string \<Rightarrow> string" where
  "escape s = concat (map (\<lambda>c. if c = dollar then [dollar, dollar] else [c]) s)"

fun written :: "piece \<Rightarrow> string" where
  "written (Lit s) = escape s"
| "written (Ref n None) = [dollar, obrace] @ n @ [cbrace]"
| "written (Ref n (Some d)) = [dollar, obrace] @ n @ '':-'' @ d @ [cbrace]"

fun meant :: "environ \<Rightarrow> piece \<Rightarrow> string option" where
  "meant env (Lit s) = Some s"
| "meant env (Ref n None) = env n"
| "meant env (Ref n (Some d)) = Some (case env n of None \<Rightarrow> d | Some v \<Rightarrow> if v = [] then d else v)"

definition proper_piece :: "piece \<Rightarrow> bool" where
  "proper_piece p \<longleftrightarrow>
     (case p of
        Lit _ \<Rightarrow> True
      | Ref n d \<Rightarrow> n \<noteq> [] \<and> CHR '':'' \<notin> set n \<and> cbrace \<notin> set n \<and> trim_space n = n
          \<and> (case d of None \<Rightarrow> True | Some d \<Rightarrow> cbrace \<notin> set d))"

fun all_of :: "'a option list \<Rightarrow> 'a list option" where
  "all_of [] = Some []"
| "all_of (x # xs) = Option.bind x (\<lambda>y. map_option (Cons y) (all_of xs))"

lemma cut_default_name: "CHR '':'' \<notin> set n \<Longrightarrow> cut_default n = None"
  by (induction n) (auto simp: has_prefix_def)

lemma cut_default_both: "CHR '':'' \<notin> set n \<Longrightarrow> cut_default (n @ '':-'' @ d) = Some (n, d)"
  by (induction n) (auto simp: has_prefix_def)

lemma expand_escape: "expand_from env (escape s @ t) = map_sum id ((@) s) (expand_from env t)"
  by (induction s; cases "expand_from env t") (auto simp: escape_def has_prefix_def)

lemma expand_reference:
  assumes "cbrace \<notin> set e"
  shows "expand_from env ([dollar, obrace] @ e @ cbrace # t) =
     (case expandExpr env e of Inl m \<Rightarrow> Inl m | Inr v \<Rightarrow> map_sum id ((@) v) (expand_from env t))"
proof -
  have i: "index_byte cbrace (e @ cbrace # t) = Some (length e)" using assms by (rule index_byte_append)
  have d: "drop (length e + 2) (obrace # e @ cbrace # t) = t"
    unfolding numeral_2_eq_2 add_Suc_right by simp
  show ?thesis using i by (cases "expandExpr env e") (simp_all add: has_prefix_def d)
qed

lemma expand_piece:
  assumes "proper_piece p"
  shows "expand_from env (written p @ t) =
     (case meant env p of
        None \<Rightarrow> Inl (case p of Ref n _ \<Rightarrow> ''environment variable '' @ n @ '' referenced in config is not set'' | _ \<Rightarrow> [])
      | Some v \<Rightarrow> map_sum id ((@) v) (expand_from env t))"
proof (cases p)
  case (Lit s)
  then show ?thesis by (simp add: expand_escape)
next
  case (Ref n d)
  then have n: "n \<noteq> []" "CHR '':'' \<notin> set n" "cbrace \<notin> set n" "trim_space n = n" using assms by (simp_all add: proper_piece_def)
  show ?thesis
  proof (cases d)
    case None
    with Ref n expand_reference [of n env t] show ?thesis
      by (auto simp: expandExpr_def cut_default_name split: option.splits list.splits)
  next
    case (Some d')
    with Ref have "cbrace \<notin> set (n @ '':-'' @ d')" using assms n by (simp add: proper_piece_def)
    from expand_reference [OF this, of env t] Some Ref n show ?thesis
      by (auto simp: expandExpr_def cut_default_both [OF n(2), simplified] split: option.splits list.splits)
  qed
qed


text \<open>
C18: A configuration value means what it says: whatever the environment, literal text with its dollar
  signs doubled comes back as it was, a reference gives the variable, or its default when the variable
  is unset or empty, and a reference without a default to an unset variable is an error and nothing else is.\<close>

theorem expand_means:
  assumes "\<forall>p \<in> set ps. proper_piece p"
  shows "(case expandString env (concat (map written ps)) of Inl _ \<Rightarrow> None | Inr v \<Rightarrow> Some v) = map_option concat (all_of (map (meant env) ps))"
proof -
  have none: "expand_from env s = Inr s" if "dollar \<notin> set s" for s using that by (induction s) auto
  have "(case expand_from env (concat (map written ps)) of Inl _ \<Rightarrow> None | Inr v \<Rightarrow> Some v) = map_option concat (all_of (map (meant env) ps))"
    using assms
  proof (induction ps)
    case (Cons p ps)
    then have p: "proper_piece p" by simp
    show ?case
      using Cons expand_piece [OF p, of env "concat (map written ps)"]
      by (cases "meant env p"; cases "expand_from env (concat (map written ps))"; cases "all_of (map (meant env) ps)") auto
  qed simp
  then show ?thesis using none [of "concat (map written ps)"]
    by (cases "dollar \<in> set (concat (map written ps))") (simp_all only: expandString_def if_True if_False not_not simp_thms)
qed

lemma expand_means_witness:
  "expandString (\<lambda>n. if n = ''KEY'' then Some ''s3'' else None) ''https://rpc/${KEY}?net=${NET:-main}&$$x'' = Inr ''https://rpc/s3?net=main&$x''"
proof -
  let ?env = "\<lambda>n. if n = ''KEY'' then Some ''s3'' else None"
  let ?ps = "[Lit ''https://rpc/'', Ref ''KEY'' None, Lit ''?net='', Ref ''NET'' (Some ''main''), Lit ''&$x'']"
  have "\<forall>p \<in> set ?ps. proper_piece p" by code_simp
  from expand_means [OF this, of ?env] show ?thesis
    by (simp add: escape_def split: sum.splits)
qed

section \<open>Settings\<close>

text \<open>The merged settings: strings, other scalars, tables (in the order a range over the Go map visits
their keys, which may be any), arrays.\<close>

datatype setting = Str string | Scalar string | Tab "(string \<times> setting) list" | Arr "setting list"

type_synonym table = "(string \<times> setting) list"

text \<open>A \<^verbatim>\<open>Loader\<close>: the environment, \<^verbatim>\<open>flagKeys\<close>, \<^verbatim>\<open>viper.InConfig\<close>; the shell, given the commands run before,
gives a command's standard output, or its error and its standard error; \<^verbatim>\<open>None\<close> when there is no \<^verbatim>\<open>sh\<close>.\<close>

record loader =
  ldEnv :: environ
  ldFlagKeys :: "string \<Rightarrow> bool"
  ldInConfig :: "string \<Rightarrow> bool"
  ldShell :: "(string list \<Rightarrow> string \<Rightarrow> (string \<times> string) + string) option"

definition EnvPrefix :: string where "EnvPrefix = ''EVM_TOOLS''"
definition cmdSuffix :: string where "cmdSuffix = ''_cmd''"

definition joinPath :: "string \<Rightarrow> string \<Rightarrow> string" where
  "joinPath path key = (if path = [] then key else path @ ''.'' @ key)"

definition labelOf :: "string \<Rightarrow> string" where
  "labelOf path = (if path = [] then ''value'' else path)"

definition itemPath :: "string \<Rightarrow> nat \<Rightarrow> string" where
  "itemPath path i = path @ ''['' @ show_nat i @ '']''"

definition envKey :: "string \<Rightarrow> string" where
  "envKey dottedPath = EnvPrefix @ ''_'' @ to_upper (map (\<lambda>c. if c = CHR ''.'' then CHR ''_'' else c) dottedPath)"

definition isBindingOverride :: "loader \<Rightarrow> string \<Rightarrow> bool" where
  "isBindingOverride L dottedPath \<longleftrightarrow>
     dottedPath \<noteq> [] \<and> (ldFlagKeys L dottedPath \<or> ldEnv L (envKey dottedPath) \<noteq> None)"

text \<open>\<^verbatim>\<open>interpolateValue\<close>: its three cases, and the two loops.\<close>

fun interpolateValue :: "loader \<Rightarrow> string \<Rightarrow> setting \<Rightarrow> string + setting"
  and interpolate_table :: "loader \<Rightarrow> string \<Rightarrow> table \<Rightarrow> string + table"
  and interpolate_array :: "loader \<Rightarrow> string \<Rightarrow> nat \<Rightarrow> setting list \<Rightarrow> string + setting list" where
  "interpolateValue L path (Tab t) = map_sum id Tab (interpolate_table L path t)"
| "interpolateValue L path (Arr xs) = map_sum id Arr (interpolate_array L path 0 xs)"
| "interpolateValue L path (Str s) = Inr (Str s)"
| "interpolateValue L path (Scalar s) = Inr (Scalar s)"
| "interpolate_table L path [] = Inr []"
| "interpolate_table L path ((k, v) # t) =
     (let child = joinPath path k in
      case (if has_suffix cmdSuffix k then Inr v
            else
              (case v of
                 Str s \<Rightarrow>
                   (if isBindingOverride L child then Inr v
                    else (case expandString (ldEnv L) s of Inl e \<Rightarrow> Inl (child @ '': '' @ e) | Inr out \<Rightarrow> Inr (Str out)))
               | _ \<Rightarrow> interpolateValue L child v)) of
        Inl e \<Rightarrow> Inl e
      | Inr v' \<Rightarrow> map_sum id (Cons (k, v')) (interpolate_table L path t))"
| "interpolate_array L path i [] = Inr []"
| "interpolate_array L path i (v # xs) =
     (case (case v of
              Str s \<Rightarrow> (case expandString (ldEnv L) s of Inl e \<Rightarrow> Inl (itemPath (labelOf path) i @ '': '' @ e) | Inr out \<Rightarrow> Inr (Str out))
            | _ \<Rightarrow> interpolateValue L (itemPath path i) v) of
        Inl e \<Rightarrow> Inl e
      | Inr v' \<Rightarrow> map_sum id (Cons v') (interpolate_array L path (Suc i) xs))"

section \<open>Commands\<close>

text \<open>The commands run so far are threaded through.\<close>

definition runCmd :: "loader \<Rightarrow> string \<Rightarrow> string list \<Rightarrow> (string + string) \<times> string list" where
  "runCmd L command hist =
     (case ldShell L of
        None \<Rightarrow> (Inl ''cannot run _cmd: no shell (sh) found in PATH'', hist)
      | Some sh \<Rightarrow>
          (case sh hist command of
             Inr stdout \<Rightarrow> (Inr (trim_space stdout), hist @ [command])
           | Inl (err, stderr) \<Rightarrow>
               (Inl (''_cmd failed: '' @ err @ (let msg = trim_space stderr in if msg = [] then [] else '': '' @ msg)), hist @ [command])))"

text \<open>The first loop of \<^verbatim>\<open>resolveCmd\<close>: the keys of the node.\<close>

fun cmd_keys :: "string \<Rightarrow> table \<Rightarrow> string + string list" where
  "cmd_keys path [] = Inr []"
| "cmd_keys path ((k, v) # t) =
     (if \<not> has_suffix cmdSuffix k then cmd_keys path t
      else (case v of Str _ \<Rightarrow> map_sum id (Cons k) (cmd_keys path t) | _ \<Rightarrow> Inl (joinPath path k @ '': _cmd value must be a string'')))"

text \<open>The body of the second loop. A key that is gone, or no longer a string, panics.\<close>

definition resolve_key :: "loader \<Rightarrow> string \<Rightarrow> bool \<Rightarrow> string \<Rightarrow> table \<Rightarrow> string list \<Rightarrow> (string + table) \<times> string list" where
  "resolve_key L path inArray key node hist =
     (let field = trim_suffix cmdSuffix key; fieldPath = joinPath path field in
      case map_of node key of
        Some (Str command) \<Rightarrow>
          (if inArray \<and> map_of node field \<noteq> None then (Inl (labelOf path @ '': set either '' @ field @ '' or '' @ key @ '', not both''), hist)
           else if \<not> inArray \<and> ldInConfig L fieldPath then
             (Inl (''set either '' @ fieldPath @ '' or '' @ fieldPath @ cmdSuffix @ '' in the config, not both''), hist)
           else if \<not> inArray \<and> isBindingOverride L fieldPath then (Inr (AList.delete key node), hist)
           else
             (case expandString (ldEnv L) command of
                Inl e \<Rightarrow> (Inl (fieldPath @ '': '' @ e), hist)
              | Inr expanded \<Rightarrow>
                  (case runCmd L expanded hist of
                     (Inl e, hist') \<Rightarrow> (Inl (fieldPath @ '': '' @ e), hist')
                   | (Inr out, hist') \<Rightarrow> (Inr (AList.update field (Str out) (AList.delete key node)), hist'))))
      | _ \<Rightarrow> (Inl ''panic: interface conversion'', hist))"

fun run_cmd_keys :: "loader \<Rightarrow> string \<Rightarrow> bool \<Rightarrow> string list \<Rightarrow> table \<Rightarrow> string list \<Rightarrow> (string + table) \<times> string list" where
  "run_cmd_keys L path inArray [] node hist = (Inr node, hist)"
| "run_cmd_keys L path inArray (key # keys) node hist =
     (case resolve_key L path inArray key node hist of
        (Inl e, hist') \<Rightarrow> (Inl e, hist')
      | (Inr node', hist') \<Rightarrow> run_cmd_keys L path inArray keys node' hist')"

text \<open>The nodes below a node.\<close>

fun weight :: "setting \<Rightarrow> nat" where
  "weight (Str _) = 0"
| "weight (Scalar _) = 0"
| "weight (Tab t) = Suc (sum_list (map (\<lambda>(k, v). weight v) t))"
| "weight (Arr xs) = Suc (sum_list (map weight xs))"

definition table_weight :: "table \<Rightarrow> nat" where
  "table_weight t = sum_list (map (\<lambda>(k, v). weight v) t)"

lemma table_weight_simps [simp]:
  "table_weight [] = 0" "table_weight ((k, v) # t) = weight v + table_weight t" "weight (Tab t) = Suc (table_weight t)"
  by (simp_all add: table_weight_def)

lemma table_weight_delete: "table_weight (AList.delete k t) \<le> table_weight t"
  by (induction t) auto

lemma table_weight_update: "table_weight (AList.update k (Str s) t) \<le> table_weight t"
  by (induction t) auto

lemma resolve_key_weight:
  assumes "resolve_key L path ia key node hist = (Inr node', hist')"
  shows "table_weight node' \<le> table_weight node"
proof -
  have "node' = AList.delete key node \<or> (\<exists>f s. node' = AList.update f (Str s) (AList.delete key node))"
    using assms by (auto simp: resolve_key_def Let_def split: option.splits setting.splits sum.splits prod.splits if_splits)
  then show ?thesis
    using table_weight_delete [of key node] table_weight_update [of _ _ "AList.delete key node"] order_trans by blast
qed

lemma run_cmd_keys_weight:
  "run_cmd_keys L path ia keys node hist = (Inr node', hist') \<Longrightarrow> table_weight node' \<le> table_weight node"
proof (induction keys arbitrary: node hist)
  case (Cons key keys)
  then obtain n h where n: "resolve_key L path ia key node hist = (Inr n, h)" "run_cmd_keys L path ia keys n h = (Inr node', hist')"
    by (auto split: prod.splits sum.splits)
  from Cons.IH [OF n(2)] resolve_key_weight [OF n(1)] show ?case by simp
qed simp

text \<open>\<^verbatim>\<open>resolveCmd\<close>, and its third loop: over the tables below the node as the second loop left it.\<close>

function (sequential) resolveCmd :: "loader \<Rightarrow> string \<Rightarrow> bool \<Rightarrow> table \<Rightarrow> string list \<Rightarrow> (string + table) \<times> string list"
  and cmd_children :: "loader \<Rightarrow> string \<Rightarrow> bool \<Rightarrow> table \<Rightarrow> string list \<Rightarrow> (string + table) \<times> string list"
  and cmd_elements :: "loader \<Rightarrow> string \<Rightarrow> nat \<Rightarrow> setting list \<Rightarrow> string list \<Rightarrow> (string + setting list) \<times> string list" where
  "resolveCmd L path inArray node hist =
     (case cmd_keys path node of
        Inl e \<Rightarrow> (Inl e, hist)
      | Inr keys \<Rightarrow>
          (case run_cmd_keys L path inArray keys node hist of
             (Inl e, hist') \<Rightarrow> (Inl e, hist')
           | (Inr node', hist') \<Rightarrow> cmd_children L path inArray node' hist'))"
| "cmd_children L path inArray [] hist = (Inr [], hist)"
| "cmd_children L path inArray ((k, v) # t) hist =
     (case (case v of
              Tab c \<Rightarrow> map_prod (map_sum id Tab) id (resolveCmd L (joinPath path k) inArray c hist)
            | Arr xs \<Rightarrow> map_prod (map_sum id Arr) id (cmd_elements L (joinPath path k) 0 xs hist)
            | _ \<Rightarrow> (Inr v, hist)) of
        (Inl e, hist') \<Rightarrow> (Inl e, hist')
      | (Inr v', hist') \<Rightarrow> map_prod (map_sum id (Cons (k, v'))) id (cmd_children L path inArray t hist'))"
| "cmd_elements L path i [] hist = (Inr [], hist)"
| "cmd_elements L path i (v # xs) hist =
     (case (case v of
              Tab c \<Rightarrow> map_prod (map_sum id Tab) id (resolveCmd L (itemPath path i) True c hist)
            | _ \<Rightarrow> (Inr v, hist)) of
        (Inl e, hist') \<Rightarrow> (Inl e, hist')
      | (Inr v', hist') \<Rightarrow> map_prod (map_sum id (Cons v')) id (cmd_elements L path (Suc i) xs hist'))"
  by pat_completeness auto

termination resolveCmd
proof (relation "measures
    [\<lambda>x. case x of Inl (L, p, ia, n, h) \<Rightarrow> table_weight n | Inr (Inl (L, p, ia, n, h)) \<Rightarrow> table_weight n | Inr (Inr (L, p, i, xs, h)) \<Rightarrow> sum_list (map weight xs),
     \<lambda>x. case x of Inl _ \<Rightarrow> 1 | _ \<Rightarrow> 0,
     \<lambda>x. case x of Inl _ \<Rightarrow> 0 | Inr (Inl (L, p, ia, n, h)) \<Rightarrow> length n | Inr (Inr (L, p, i, xs, h)) \<Rightarrow> length xs]", goal_cases)
  case (2 L path ia node hist keys x h)
  then show ?case
    using run_cmd_keys_weight [of L path ia keys node hist _ h] by (cases x) (simp_all add: order.order_iff_strict [symmetric])
qed (auto simp: le_less table_weight_def)


declare resolveCmd.simps [simp del]

text \<open>\<^verbatim>\<open>firstCmdKey\<close>, on the same nodes.\<close>

fun firstCmdKey :: "table \<Rightarrow> string \<Rightarrow> string"
  and first_in :: "setting \<Rightarrow> string \<Rightarrow> string"
  and first_element :: "setting list \<Rightarrow> string \<Rightarrow> nat \<Rightarrow> string" where
  "firstCmdKey [] path = []"
| "firstCmdKey ((k, v) # t) path =
     (if has_suffix cmdSuffix k then joinPath path k
      else (let p = first_in v (joinPath path k) in if p \<noteq> [] then p else firstCmdKey t path))"
| "first_in (Tab c) path = firstCmdKey c path"
| "first_in (Arr xs) path = first_element xs path 0"
| "first_in (Str _) path = []"
| "first_in (Scalar _) path = []"
| "first_element [] path i = []"
| "first_element (Tab c # xs) path i = (let p = firstCmdKey c (itemPath path i) in if p \<noteq> [] then p else first_element xs path (Suc i))"
| "first_element (_ # xs) path i = first_element xs path (Suc i)"

definition resolve :: "loader \<Rightarrow> table \<Rightarrow> bool \<Rightarrow> (string + table) \<times> string list" where
  "resolve L settings allowExec =
     (if \<not> allowExec \<and> firstCmdKey settings [] \<noteq> [] then
        (Inl (''config key '' @ firstCmdKey settings [] @ '' uses command execution, which is disabled''), [])
      else
        (case interpolate_table L [] settings of
           Inl e \<Rightarrow> (Inl e, [])
         | Inr t \<Rightarrow> if allowExec then resolveCmd L [] False t [] else (Inr t, [])))"

definition sharedKeys :: "string list" where
  "sharedKeys = [''chain'', ''rpc'', ''metrics'', ''log'', ''output'', ''input'', ''dead_letter_file'']"

text \<open>\<open>decode\<close> is the library's decoder into the tool's struct; an empty key names no tool.\<close>

definition strictDecode :: "loader \<Rightarrow> (table \<Rightarrow> string + 'a) \<Rightarrow> string \<Rightarrow> table \<Rightarrow> bool \<Rightarrow> (string + 'a) \<times> string list" where
  "strictDecode L decode toolKey all allowExec =
     (let settings = filter (\<lambda>(k, _). k \<in> set sharedKeys \<or> k = toolKey) all in
      case resolve L settings allowExec of
        (Inl e, hist) \<Rightarrow> (Inl e, hist)
      | (Inr t, hist) \<Rightarrow> (map_sum (\<lambda>e. ''decode '' @ toolKey @ '' config: '' @ e) id (decode t), hist))"

section \<open>Which commands run\<close>

text \<open>The commands a configuration may run: those at a \<^verbatim>\<open>_cmd\<close> key whose field is set neither beside it nor, outside
arrays, in the file, by a flag or by the environment.\<close>

definition runs_here :: "loader \<Rightarrow> string \<Rightarrow> bool \<Rightarrow> table \<Rightarrow> string \<Rightarrow> bool" where
  "runs_here L path inArray node field \<longleftrightarrow>
     (if inArray then map_of node field = None
      else \<not> ldInConfig L (joinPath path field) \<and> \<not> isBindingOverride L (joinPath path field))"

definition may_run :: "loader \<Rightarrow> string \<Rightarrow> bool \<Rightarrow> table \<Rightarrow> string list" where
  "may_run L path inArray node =
     concat (map (\<lambda>(k, v). case v of
         Str s \<Rightarrow> (if has_suffix cmdSuffix k \<and> runs_here L path inArray node (trim_suffix cmdSuffix k) then [s] else [])
       | _ \<Rightarrow> []) node)"

fun sites :: "loader \<Rightarrow> string \<Rightarrow> bool \<Rightarrow> setting \<Rightarrow> string list"
  and sites_table :: "loader \<Rightarrow> string \<Rightarrow> bool \<Rightarrow> table \<Rightarrow> string list"
  and sites_elements :: "loader \<Rightarrow> string \<Rightarrow> nat \<Rightarrow> setting list \<Rightarrow> string list" where
  "sites L path ia (Tab t) = may_run L path ia t @ sites_table L path ia t"
| "sites L path ia (Arr xs) = sites_elements L path 0 xs"
| "sites L path ia (Str _) = []"
| "sites L path ia (Scalar _) = []"
| "sites_table L path ia [] = []"
| "sites_table L path ia ((k, v) # t) = sites L (joinPath path k) ia v @ sites_table L path ia t"
| "sites_elements L path i [] = []"
| "sites_elements L path i (Tab c # xs) = sites L (itemPath path i) True (Tab c) @ sites_elements L path (Suc i) xs"
| "sites_elements L path i (_ # xs) = sites_elements L path (Suc i) xs"



definition within :: "loader \<Rightarrow> string list \<Rightarrow> string list \<Rightarrow> string list \<Rightarrow> bool" where
  "within L S hist hist' \<longleftrightarrow>
     (\<exists>new. hist' = hist @ new \<and> (\<forall>c \<in> set new. \<exists>s \<in> set S. expandString (ldEnv L) s = Inr c))"

lemma runs_refl [simp]: "within L S hist hist"
  by (simp add: within_def)

















text \<open>Expanding the references changes neither the command keys nor which commands may run.\<close>

definition cmd_entries :: "table \<Rightarrow> table" where
  "cmd_entries t = filter (\<lambda>(k, _). has_suffix cmdSuffix k) t"

lemma may_run_entries:
  "may_run L path ia node = concat (map (\<lambda>(k, v). case v of Str s \<Rightarrow> if runs_here L path ia node (trim_suffix cmdSuffix k) then [s] else [] | _ \<Rightarrow> []) (cmd_entries node))"
proof -
  have "concat (map (\<lambda>(k, v). case v of Str s \<Rightarrow> if has_suffix cmdSuffix k \<and> P k then [s] else [] | _ \<Rightarrow> []) u)
      = concat (map (\<lambda>(k, v). case v of Str s \<Rightarrow> if P k then [s] else [] | _ \<Rightarrow> []) (cmd_entries u))" for P u
    by (induction u) (auto simp: cmd_entries_def split: setting.split)
  then show ?thesis unfolding may_run_def .
qed




definition demo_loader :: loader where
  "demo_loader = \<lparr> ldEnv = (\<lambda>n. if n = ''EVM_TOOLS_CHAIN'' then Some ''1'' else None), ldFlagKeys = (\<lambda>_. False),
     ldInConfig = (\<lambda>_. False), ldShell = Some (\<lambda>_ _. Inr ''key'') \<rparr>"


text \<open>A variable that is set but empty counts as an override here, although the settings library ignores it:
  the file's value keeps its reference unexpanded.\<close>

theorem empty_variable_blocks_expansion:
  assumes "ldEnv L (envKey ''chain'') = Some []" and "ldEnv L ''CHAIN'' = Some ''1''"
  shows "resolve L [(''chain'', Str ''${CHAIN}'')] False = (Inr [(''chain'', Str ''${CHAIN}'')], [])"
  using assms by (simp add: resolve_def isBindingOverride_def joinPath_def cmdSuffix_def has_suffix_def has_prefix_def)

lemma empty_variable_blocks_expansion_witness:
  "resolve (demo_loader\<lparr>ldEnv := (\<lambda>n. if n = ''EVM_TOOLS_CHAIN'' then Some [] else if n = ''CHAIN'' then Some ''1'' else None)\<rparr>)
     [(''chain'', Str ''${CHAIN}'')] False = (Inr [(''chain'', Str ''${CHAIN}'')], [])"
  by (rule empty_variable_blocks_expansion; code_simp)


text \<open>With command execution off, settings that could have run a command are refused.\<close>

lemma cmd_entries_Nil: "cmd_entries [] = []"
  by (simp add: cmd_entries_def)

lemma first_none_no_sites:
  shows "firstCmdKey t path = [] \<Longrightarrow> cmd_entries t = [] \<and> sites_table L q ia t = []"
    and "first_in v path = [] \<Longrightarrow> sites L q ia v = []"
    and "first_element xs path i = [] \<Longrightarrow> sites_elements L q j xs = []"
proof (induction t path and v path and xs path i arbitrary: q ia and q ia and q j rule: firstCmdKey_first_in_first_element.induct)
  case (2 k v t path)
  then have k: "\<not> has_suffix cmdSuffix k" by (auto simp: joinPath_def cmdSuffix_def has_suffix_def has_prefix_def split: if_splits)
  with 2 show ?case by (auto simp: cmd_entries_def Let_def split: if_splits)
qed (auto simp: may_run_entries cmd_entries_Nil Let_def split: if_splits)

lemma exec_off_is_loud:
  "resolve L settings False = (Inr t, hist) \<Longrightarrow> sites L [] False (Tab settings) = []"
  using first_none_no_sites(1) [of settings "[]" L "[]" False]
  by (auto simp: resolve_def may_run_entries split: if_splits)

section \<open>What the expansion reaches\<close>

datatype hop = Key string | Item nat

fun at :: "hop list \<Rightarrow> setting \<Rightarrow> setting option" where
  "at [] v = Some v"
| "at (Key k # ps) (Tab t) = Option.bind (map_of t k) (at ps)"
| "at (Item i # ps) (Arr xs) = (if i < length xs then at ps (xs ! i) else None)"
| "at _ _ = None"

text \<open>The strings the expansion leaves alone: those behind a command key, and those a flag or the environment overrides.\<close>

fun kept :: "loader \<Rightarrow> string \<Rightarrow> hop list \<Rightarrow> bool" where
  "kept L path [] = False"
| "kept L path (Key k # ps) = (has_suffix cmdSuffix k \<or> (if ps = [] then isBindingOverride L (joinPath path k) else kept L (joinPath path k) ps))"
| "kept L path (Item i # ps) = kept L (itemPath path i) ps"

definition becomes :: "loader \<Rightarrow> bool \<Rightarrow> string \<Rightarrow> setting option \<Rightarrow> bool" where
  "becomes L keep s v \<longleftrightarrow> (\<exists>s'. v = Some (Str s') \<and> (if keep then s' = s else expandString (ldEnv L) s = Inr s'))"

lemma at_string: "at ps (Str s) = Some v \<longleftrightarrow> ps = [] \<and> v = Str s" "at ps (Scalar s) = Some v \<longleftrightarrow> ps = [] \<and> v = Scalar s"
  by (cases ps; cases "hd ps"; auto)+

lemma at_node: "at ps v = Some (Str s) \<Longrightarrow> v \<noteq> Str s \<Longrightarrow> ps \<noteq> []"
  by auto

lemma interpolate_array_length: "interpolate_array L p i xs = Inr xs' \<Longrightarrow> length xs' = length xs"
proof (induction xs arbitrary: i xs')
  case (Cons v xs)
  then show ?case by (cases "interpolate_array L p (Suc i) xs") (auto split: sum.splits setting.splits)
qed simp

lemma interpolate_reaches:
  shows "interpolateValue L p v = Inr v' \<Longrightarrow> at ps v = Some (Str s) \<Longrightarrow> ps \<noteq> [] \<Longrightarrow> becomes L (kept L p ps) s (at ps v')"
    and "interpolate_table L p t = Inr t' \<Longrightarrow> at (Key k # ps) (Tab t) = Some (Str s) \<Longrightarrow> becomes L (kept L p (Key k # ps)) s (at (Key k # ps) (Tab t'))"
    and "interpolate_array L p i xs = Inr xs' \<Longrightarrow> n < length xs \<Longrightarrow> at ps (xs ! n) = Some (Str s) \<Longrightarrow>
      length xs' = length xs \<and> becomes L (kept L (itemPath p (i + n)) ps) s (at ps (xs' ! n))"
proof (induction L p v and L p t and L p i xs arbitrary: v' ps s and t' k ps s and xs' n ps s
    rule: interpolateValue_interpolate_table_interpolate_array.induct)
  case (1 L path t)
  then obtain t1 where "interpolate_table L path t = Inr t1" "v' = Tab t1" by (cases "interpolate_table L path t") auto
  with 1 show ?case by (cases ps; cases "hd ps") auto
next
  case (2 L path xs)
  then obtain xs1 where x: "interpolate_array L path 0 xs = Inr xs1" "v' = Arr xs1" by (cases "interpolate_array L path 0 xs") auto
  from 2(3,4) obtain n qs where "ps = Item n # qs" "n < length xs" "at qs (xs ! n) = Some (Str s)"
    by (cases ps; cases "hd ps") (auto split: if_splits)
  with 2(1) [OF x(1), of n qs s] x(2) show ?case by simp
next
  case (6 L path j v t)
  let ?c = "if has_suffix cmdSuffix j then Inr v
     else (case v of
         Str s \<Rightarrow> (if isBindingOverride L (joinPath path j) then Inr v
             else (case expandString (ldEnv L) s of Inl e \<Rightarrow> Inl (joinPath path j @ '': '' @ e) | Inr out \<Rightarrow> Inr (Str out)))
       | _ \<Rightarrow> interpolateValue L (joinPath path j) v)"
  obtain v1 t1 where c: "?c = Inr v1" "interpolate_table L path t = Inr t1" "t' = (j, v1) # t1"
    using 6(5) by (auto simp: Let_def split: sum.splits) (cases "interpolate_table L path t"; auto)+
  show ?case
  proof (cases "k = j")
    case True
    with 6(6) have v: "at ps v = Some (Str s)" by simp
    have "becomes L (kept L path (Key k # ps)) s (at ps v1)"
    proof (cases "has_suffix cmdSuffix j")
      case True
      with c(1) v \<open>k = j\<close> show ?thesis by (auto simp: becomes_def)
    next
      case False
      with c(1) v \<open>k = j\<close> 6(1-3) show ?thesis
        by (cases v) (auto simp: becomes_def at_string split: if_splits sum.splits)
    qed
    with c(3) True show ?thesis by simp
  next
    case False
    with 6(4) [OF refl c(1) c(2), of k ps s] 6(6) c(3) show ?thesis by simp
  qed
next
  case (8 L path i v xs)
  let ?c = "case v of
      Str s \<Rightarrow> (case expandString (ldEnv L) s of Inl e \<Rightarrow> Inl (itemPath (labelOf path) i @ '': '' @ e) | Inr out \<Rightarrow> Inr (Str out))
    | _ \<Rightarrow> interpolateValue L (itemPath path i) v"
  obtain v1 xs1 where c: "?c = Inr v1" "interpolate_array L path (Suc i) xs = Inr xs1" "xs' = v1 # xs1"
    using 8(5) by (auto split: sum.splits) (cases "interpolate_array L path (Suc i) xs"; auto)+
  show ?case
  proof (cases n)
    case 0
    with 8(7) have v: "at ps v = Some (Str s)" by simp
    have "becomes L (kept L (itemPath path i) ps) s (at ps v1)"
    proof (cases v)
      case (Tab t)
      with c(1) v at_node [of ps v s] 8(1-3) show ?thesis by auto
    next
      case (Arr ys)
      with c(1) v at_node [of ps v s] 8(1-3) show ?thesis by auto
    qed (use c(1) v in \<open>auto simp: becomes_def at_string split: sum.splits\<close>)
    moreover have "length xs1 = length xs" using c(2) by (rule interpolate_array_length)
    ultimately show ?thesis using c(3) 0 by simp
  next
    case (Suc m)
    with 8(4) [OF c(1) c(2), of m ps s] 8(6,7) c(3) show ?thesis by simp
  qed
qed (auto simp: at_string)

text \<open>
C20: Expanding the settings changes what it should and nothing else: wherever a string stands in the tree, the
  expanded tree has at the same place the expansion of that string, or the string itself when it is
  behind a command key or a flag or the environment overrides its key.\<close>

theorem interpolation_exact:
  assumes "interpolateValue L [] (Tab settings) = Inr v" and "at ps (Tab settings) = Some (Str s)"
  shows "\<exists>s'. at ps v = Some (Str s') \<and> (if kept L [] ps then s' = s else expandString (ldEnv L) s = Inr s')"
proof -
  have "ps \<noteq> []" using assms(2) by auto
  from interpolate_reaches(1) [OF assms this] show ?thesis by (simp add: becomes_def)
qed

lemma interpolation_exact_witness:
  "\<exists>v. interpolateValue demo_loader [] (Tab [(''chain'', Str ''${X}''), (''rpc'', Arr [Str ''a$$b''])]) = Inr v
     \<and> at [Key ''rpc'', Item 0] v = Some (Str ''a$b'') \<and> at [Key ''chain''] v = Some (Str ''${X}'')"
proof -
  let ?s = "[(''chain'', Str ''${X}''), (''rpc'', Arr [Str ''a$$b''])]"
  have v: "interpolateValue demo_loader [] (Tab ?s) = Inr (Tab [(''chain'', Str ''${X}''), (''rpc'', Arr [Str ''a$b''])])" by code_simp
  have a: "at [Key ''rpc'', Item 0] (Tab ?s) = Some (Str ''a$$b'')" by code_simp
  from interpolation_exact [OF v a] v show ?thesis by simp
qed

section \<open>Sources\<close>

text \<open>The file: an explicit one, or the first that exists among the defaults; \<open>is_file\<close> is \<^verbatim>\<open>os.Stat\<close> of a path that
is no directory. The home and user configuration directories are arguments.\<close>

definition searchPaths :: "string \<Rightarrow> string \<Rightarrow> string list" where
  "searchPaths homeDir userConfigDir = [homeDir @ ''/.evm-tools'', userConfigDir @ ''/evm-tools'', ''/etc/evm-tools'']"

definition configBaseNames :: "string list" where "configBaseNames = [''config'', ''evm-tools'']"
definition configExt :: string where "configExt = ''toml''"

definition findDefaultConfig :: "(string \<Rightarrow> bool) \<Rightarrow> string \<Rightarrow> string \<Rightarrow> string option" where
  "findDefaultConfig is_file home user =
     find is_file (concat (map (\<lambda>dir. map (\<lambda>name. dir @ ''/'' @ name @ ''.'' @ configExt) configBaseNames) (searchPaths home user)))"

text \<open>\<open>read\<close> is the library's parser; the result is the file's settings, or none.\<close>

definition readConfigFile :: "(string \<Rightarrow> bool) \<Rightarrow> string \<Rightarrow> string \<Rightarrow> (string \<Rightarrow> string + table) \<Rightarrow> string \<Rightarrow> string + table" where
  "readConfigFile is_file home user read explicit =
     (if explicit \<noteq> [] then map_sum (\<lambda>e. ''read config '' @ explicit @ '': '' @ e) id (read explicit)
      else
        (case findDefaultConfig is_file home user of
           None \<Rightarrow> Inr []
         | Some path \<Rightarrow> map_sum (\<lambda>e. ''read config '' @ path @ '': '' @ e) id (read path)))"

definition flagBindings :: "(string \<times> string) list" where
  "flagBindings = [
     (''chain'', ''chain''), (''rpc-url'', ''rpc.url''), (''rpc-client-cert'', ''rpc.client_cert''),
     (''rpc-client-key'', ''rpc.client_key''), (''rpc-ca-cert'', ''rpc.ca_cert''), (''rpc-server-name'', ''rpc.server_name''),
     (''rpc-require-mtls'', ''rpc.require_mtls''), (''log-level'', ''log.level''), (''log-format'', ''log.format''),
     (''from-block'', ''stream.from_block''), (''poll-interval'', ''stream.poll_interval''),
     (''interval'', ''balance.interval''), (''every-blocks'', ''balance.every_blocks''), (''brokers'', ''kafka.brokers''),
     (''topic'', ''kafka.topic''), (''url'', ''webhook.url''), (''path'', ''file.path''),
     (''queue-url'', ''aws_sqs.queue_url''), (''topic-arn'', ''aws_sns.topic_arn''), (''table'', ''postgres.table''),
     (''stream'', ''redis.stream'')]"

definition bindEnvKeys :: "string list" where
  "bindEnvKeys = [
     ''chain'', ''rpc.url'', ''rpc.client_cert'', ''rpc.client_key'', ''rpc.ca_cert'', ''rpc.server_name'',
     ''rpc.require_mtls'', ''metrics.enabled'', ''metrics.addr'', ''metrics.path'', ''log.level'', ''log.format'',
     ''stream.from_block'', ''stream.poll_interval'', ''stream.log_chunk_blocks'', ''stream.reorg_depth'',
     ''stream.head_staleness_threshold'', ''stream.checkpoint_file'', ''stream.metrics.enabled'', ''stream.metrics.addr'',
     ''stream.metrics.path'', ''balance.interval'', ''balance.every_blocks'', ''balance.max_concurrency'',
     ''balance.target_timeout'', ''balance.head_staleness_threshold'', ''balance.metrics.enabled'', ''balance.metrics.addr'',
     ''balance.metrics.path'', ''kafka.brokers'', ''kafka.topic'', ''kafka.partition_key'', ''kafka.required_acks'',
     ''kafka.delivery_mode'', ''kafka.readiness_probe_interval'', ''kafka.sasl.mechanism'', ''kafka.sasl.username'',
     ''kafka.sasl.password'', ''kafka.tls.enabled'', ''kafka.tls.ca_cert'', ''kafka.tls.client_cert'',
     ''kafka.tls.client_key'', ''kafka.tls.server_name'', ''kafka.metrics.enabled'', ''kafka.metrics.addr'',
     ''kafka.metrics.path'', ''webhook.url'', ''webhook.method'', ''webhook.timeout'', ''webhook.backoff_base'',
     ''webhook.backoff_max'', ''webhook.health_url'', ''webhook.readiness_probe_interval'', ''webhook.auth.header'',
     ''webhook.auth.value'', ''webhook.metrics.enabled'', ''webhook.metrics.addr'', ''webhook.metrics.path'', ''file.path'',
     ''file.max_size_mb'', ''file.rotation_interval'', ''file.max_backups'', ''file.compress'', ''file.fsync'',
     ''file.backoff_base'', ''file.backoff_max'', ''file.metrics.enabled'', ''file.metrics.addr'', ''file.metrics.path'',
     ''aws_sqs.queue_url'', ''aws_sqs.region'', ''aws_sqs.endpoint_url'', ''aws_sqs.backoff_base'', ''aws_sqs.backoff_max'',
     ''aws_sqs.readiness_probe_interval'', ''aws_sqs.metrics.enabled'', ''aws_sqs.metrics.addr'', ''aws_sqs.metrics.path'',
     ''aws_sns.topic_arn'', ''aws_sns.region'', ''aws_sns.endpoint_url'', ''aws_sns.backoff_base'', ''aws_sns.backoff_max'',
     ''aws_sns.readiness_probe_interval'', ''aws_sns.metrics.enabled'', ''aws_sns.metrics.addr'', ''aws_sns.metrics.path'',
     ''postgres.dsn'', ''postgres.table'', ''postgres.create_table'', ''postgres.backoff_base'', ''postgres.backoff_max'',
     ''postgres.readiness_probe_interval'', ''postgres.metrics.enabled'', ''postgres.metrics.addr'', ''postgres.metrics.path'',
     ''redis.url'', ''redis.stream'', ''redis.field'', ''redis.max_len'', ''redis.dedup'', ''redis.dedup_ttl'',
     ''redis.backoff_base'', ''redis.backoff_max'', ''redis.readiness_probe_interval'', ''redis.metrics.enabled'',
     ''redis.metrics.addr'', ''redis.metrics.path'']"

definition setDefaults :: "(string \<times> setting) list" where
  "setDefaults = [
     (''log.level'', Str ''info''), (''log.format'', Str ''text''), (''metrics.enabled'', Scalar ''false''),
     (''metrics.path'', Str ''/metrics''), (''output'', Str ''''), (''input'', Str ''''), (''dead_letter_file'', Str ''''),
     (''stream.poll_interval'', Str ''2s''), (''stream.log_chunk_blocks'', Scalar ''2000''),
     (''stream.from_block'', Str ''latest''), (''stream.reorg_depth'', Scalar ''64''),
     (''stream.metrics.path'', Str ''/metrics''), (''stream.metrics.addr'', Str '':9000''),
     (''balance.metrics.path'', Str ''/metrics''), (''balance.metrics.addr'', Str '':9001''),
     (''kafka.partition_key'', Str ''identity''), (''kafka.required_acks'', Str ''all''),
     (''kafka.delivery_mode'', Str ''at-least-once''), (''kafka.backoff_base'', Str ''500ms''),
     (''kafka.backoff_max'', Str ''30s''), (''kafka.batch_timeout'', Str ''200ms''),
     (''kafka.readiness_probe_interval'', Str ''15s''), (''webhook.readiness_probe_interval'', Str ''15s''),
     (''kafka.metrics.path'', Str ''/metrics''), (''kafka.metrics.addr'', Str '':9002''), (''webhook.method'', Str ''POST''),
     (''webhook.timeout'', Str ''10s''), (''webhook.backoff_base'', Str ''500ms''), (''webhook.backoff_max'', Str ''30s''),
     (''webhook.metrics.path'', Str ''/metrics''), (''webhook.metrics.addr'', Str '':9003''),
     (''file.backoff_base'', Str ''500ms''), (''file.backoff_max'', Str ''30s''), (''file.metrics.path'', Str ''/metrics''),
     (''file.metrics.addr'', Str '':9004''), (''aws_sqs.backoff_base'', Str ''500ms''), (''aws_sqs.backoff_max'', Str ''30s''),
     (''aws_sqs.readiness_probe_interval'', Str ''15s''), (''aws_sqs.metrics.path'', Str ''/metrics''),
     (''aws_sqs.metrics.addr'', Str '':9005''), (''aws_sns.backoff_base'', Str ''500ms''),
     (''aws_sns.backoff_max'', Str ''30s''), (''aws_sns.readiness_probe_interval'', Str ''15s''),
     (''aws_sns.metrics.path'', Str ''/metrics''), (''aws_sns.metrics.addr'', Str '':9006''),
     (''postgres.table'', Str ''evm_records''), (''postgres.backoff_base'', Str ''500ms''),
     (''postgres.backoff_max'', Str ''30s''), (''postgres.readiness_probe_interval'', Str ''15s''),
     (''postgres.metrics.path'', Str ''/metrics''), (''postgres.metrics.addr'', Str '':9007''),
     (''redis.field'', Str ''data''), (''redis.dedup'', Scalar ''true''), (''redis.backoff_base'', Str ''500ms''),
     (''redis.backoff_max'', Str ''30s''), (''redis.readiness_probe_interval'', Str ''15s''),
     (''redis.metrics.path'', Str ''/metrics''), (''redis.metrics.addr'', Str '':9008'')]"

text \<open>\<^verbatim>\<open>bindChangedFlags\<close>: the changed flags in the order of the visit; \<open>bnd\<close> is \<^verbatim>\<open>viper.BindPFlag\<close>'s error. The result
is the error and \<^verbatim>\<open>flagKeys\<close>.\<close>

fun bindChangedFlags :: "(string \<Rightarrow> string \<Rightarrow> string option) \<Rightarrow> string list \<Rightarrow> string list \<Rightarrow> string option \<times> string list" where
  "bindChangedFlags bnd [] flagKeys = (None, flagKeys)"
| "bindChangedFlags bnd (f # fs) flagKeys =
     (case map_of flagBindings f of
        None \<Rightarrow> bindChangedFlags bnd fs flagKeys
      | Some key \<Rightarrow>
          (case bnd key f of
             Some e \<Rightarrow> (Some (''bind flag --'' @ f @ '': '' @ e), flagKeys)
           | None \<Rightarrow> bindChangedFlags bnd fs (key # flagKeys)))"

text \<open>\<^verbatim>\<open>New\<close>, but for the library's own state: the loader.\<close>

definition New_loader :: "loader \<Rightarrow> (string \<Rightarrow> string \<Rightarrow> string option) \<Rightarrow> string + table \<Rightarrow> string list \<Rightarrow> string + loader" where
  "New_loader L0 bnd file changed =
     (case file of
        Inl e \<Rightarrow> Inl e
      | Inr _ \<Rightarrow>
          (case bindChangedFlags bnd changed [] of
             (Some e, _) \<Rightarrow> Inl e
           | (None, keys) \<Rightarrow> Inr (L0\<lparr>ldFlagKeys := (\<lambda>k. k \<in> set keys)\<rparr>)))"

text \<open>Every key a flag overrides is one the environment overrides too.\<close>

lemma flag_keys_bound: "snd ` set flagBindings \<subseteq> set bindEnvKeys"
  by code_simp

lemma bindChangedFlags_keys:
  "bindChangedFlags bnd fs keys = (None, keys') \<Longrightarrow> set keys' = set keys \<union> {k. \<exists>f \<in> set fs. map_of flagBindings f = Some k}"
  by (induction bnd fs keys rule: bindChangedFlags.induct) (auto split: option.splits)

text \<open>A home directory's file wins over the user's and the host's, whatever its name.\<close>

lemma home_config_wins:
  assumes "is_file (home @ ''/.evm-tools/evm-tools.toml'')"
  shows "findDefaultConfig is_file home user \<in> {Some (home @ ''/.evm-tools/config.toml''), Some (home @ ''/.evm-tools/evm-tools.toml'')}"
  using assms by (simp add: findDefaultConfig_def searchPaths_def configBaseNames_def configExt_def)

section \<open>Decoding a tool's settings\<close>

record MetricsConfig =
  mcEnabled :: "bool option"
  mcAddr :: string
  mcPath :: string

definition IsEnabled :: "MetricsConfig \<Rightarrow> bool" where
  "IsEnabled m \<longleftrightarrow> mcEnabled m = Some True"

record RPCConfig =
  rpcURL :: string
  rpcClientCert :: string
  rpcClientKey :: string
  rpcCACert :: string
  rpcServerName :: string
  rpcRequireMTLS :: bool

record LogConfig =
  lcLevel :: string
  lcFormat :: string

record Shared =
  shChain :: string
  shRPC :: RPCConfig
  shMetrics :: MetricsConfig
  shLog :: LogConfig
  shOutput :: string
  shInput :: string
  shDeadLetterFile :: string
  shAllowExec :: bool

text \<open>\<open>dec\<close> is the library's decoder into the shared part and the tool's section; the permission to run commands is
no key of the file, so it is set after decoding.\<close>

definition decode_tool :: "string \<Rightarrow> loader \<Rightarrow> (table \<Rightarrow> string + Shared \<times> 'a) \<Rightarrow> table \<Rightarrow> bool \<Rightarrow> (string + Shared \<times> 'a) \<times> string list" where
  "decode_tool key L dec all allowExec =
     map_prod (map_sum id (\<lambda>(sh, c). (sh\<lparr>shAllowExec := allowExec\<rparr>, c))) id (strictDecode L dec key all allowExec)"

definition DecodeShared :: "loader \<Rightarrow> (table \<Rightarrow> string + Shared \<times> unit) \<Rightarrow> table \<Rightarrow> bool \<Rightarrow> (string + Shared \<times> unit) \<times> string list" where
  "DecodeShared = decode_tool []"

definition DecodeStream where "DecodeStream = decode_tool ''stream''"
definition DecodeBalance where "DecodeBalance = decode_tool ''balance''"
definition DecodeKafka where "DecodeKafka = decode_tool ''kafka''"
definition DecodeWebhook where "DecodeWebhook = decode_tool ''webhook''"
definition DecodeFile where "DecodeFile = decode_tool ''file''"
definition DecodeAWSSQS where "DecodeAWSSQS = decode_tool ''aws_sqs''"
definition DecodeAWSSNS where "DecodeAWSSNS = decode_tool ''aws_sns''"
definition DecodePostgres where "DecodePostgres = decode_tool ''postgres''"
definition DecodeRedis where "DecodeRedis = decode_tool ''redis''"

text \<open>One file serves every tool: another tool's section neither changes what this one decodes nor runs a command.\<close>

lemma sibling_sections_ignored:
  assumes "k \<notin> set sharedKeys" and "k \<noteq> key"
  shows "decode_tool key L dec (all1 @ (k, v) # all2) allowExec = decode_tool key L dec (all1 @ all2) allowExec"
  using assms by (simp add: decode_tool_def strictDecode_def)

text \<open>With command execution off no command runs, and what is decoded had none to run.\<close>

lemma decode_runs_nothing:
  "decode_tool key L dec all False = (r, hist) \<Longrightarrow> hist = []"
  by (auto simp: decode_tool_def strictDecode_def resolve_def Let_def split: sum.splits if_splits prod.splits)

end
