(* ===== verification/Settings.thy ===== *)
theory Settings
  imports Sinks FileSink Polling BalanceTargets Config Transport
begin

text \<open>
  From decoded settings to a running tool (the validators of \<^verbatim>\<open>internal/cli\<close>): durations, the metrics
  endpoint, the flags that need no file, and for each tool the checks that the commands validate and run
  share. \<^verbatim>\<open>time.ParseDuration\<close> is the parameter \<open>pd\<close>, a count of nanoseconds.
\<close>

type_synonym duration_parser = "string \<Rightarrow> string + int"

section \<open>Durations\<close>

definition parseDurationDefault :: "duration_parser \<Rightarrow> string \<Rightarrow> int \<Rightarrow> string \<Rightarrow> string + int" where
  "parseDurationDefault pd s def name =
     (if trim_space s = [] then Inr def
      else
        (case pd s of
           Inl e \<Rightarrow> Inl (name @ '': invalid duration '' @ s @ '': '' @ e)
         | Inr d \<Rightarrow> if d \<le> 0 then Inl (name @ '': duration must be positive, got '' @ s) else Inr d))"

definition disable_spellings :: "string list" where
  "disable_spellings = [''0'', ''0s'', ''off'', ''none'', ''disabled'']"

definition parseProbeInterval :: "duration_parser \<Rightarrow> string \<Rightarrow> string \<Rightarrow> string + int" where
  "parseProbeInterval pd s name =
     (let t = to_lower (trim_space s) in
      if t = [] then Inr (15 * second)
      else if t \<in> set disable_spellings then Inr 0
      else
        (case pd t of
           Inl e \<Rightarrow> Inl (name @ '': invalid duration '' @ s @ '': '' @ e)
         | Inr d \<Rightarrow> if d \<le> 0 then Inr 0 else Inr d))"

definition parseDisableableDuration :: "duration_parser \<Rightarrow> string \<Rightarrow> string \<Rightarrow> string + int" where
  "parseDisableableDuration pd s name =
     (let t = to_lower (trim_space s) in
      if t = [] \<or> t \<in> set disable_spellings then Inr 0
      else
        (case pd t of
           Inl e \<Rightarrow> Inl (name @ '': invalid duration '' @ s @ '': '' @ e)
         | Inr d \<Rightarrow> if d < 0 then Inl (name @ '': duration must be positive or a disable spelling, got '' @ s) else Inr d))"

definition parseRotationInterval :: "duration_parser \<Rightarrow> string \<Rightarrow> string + int" where
  "parseRotationInterval pd s =
     (let t = to_lower (trim_space s) in
      if t = [] \<or> t \<in> set disable_spellings then Inr 0
      else
        (case pd s of
           Inl e \<Rightarrow> Inl (''file.rotation_interval: invalid duration '' @ s @ '': '' @ e)
         | Inr d \<Rightarrow> if d \<le> 0 then Inl (''file.rotation_interval: duration must be positive, got '' @ s) else Inr d))"

lemma parseDurationDefault_pos: "parseDurationDefault pd s def name = Inr d \<Longrightarrow> 0 < def \<Longrightarrow> 0 < d"
  by (auto simp: parseDurationDefault_def split: if_splits sum.splits)

lemma parseProbeInterval_nonneg: "parseProbeInterval pd s name = Inr d \<Longrightarrow> 0 \<le> d"
  by (auto simp: parseProbeInterval_def Let_def second_def millisecond_def split: if_splits sum.splits)

lemma parseRotationInterval_nonneg: "parseRotationInterval pd s = Inr d \<Longrightarrow> 0 \<le> d"
  by (auto simp: parseRotationInterval_def Let_def split: if_splits sum.splits)

lemma parseDisableableDuration_nonneg: "parseDisableableDuration pd s name = Inr d \<Longrightarrow> 0 \<le> d"
  by (auto simp: parseDisableableDuration_def Let_def split: if_splits sum.splits)

section \<open>The metrics endpoint\<close>

record resolvedMetrics =
  rmEnabled :: bool
  rmAddr :: string
  rmPath :: string

text \<open>The flags, each with whether the user set it.\<close>

record commandFlags =
  cfMetrics :: "bool option"
  cfMetricsAddr :: "string option"
  cfMetricsPath :: "string option"

definition resolveMetrics :: "commandFlags \<Rightarrow> MetricsConfig \<Rightarrow> MetricsConfig \<Rightarrow> string \<Rightarrow> resolvedMetrics" where
  "resolveMetrics cmd shared tool defaultAddr =
     (let enabled = (case mcEnabled tool of Some b \<Rightarrow> b | None \<Rightarrow> IsEnabled shared);
          addr1 = (if mcAddr tool \<noteq> [] then mcAddr tool else mcAddr shared);
          path1 = (if mcPath tool \<noteq> [] then mcPath tool else mcPath shared);
          addr2 = (if addr1 = [] then defaultAddr else addr1);
          path2 = (if path1 = [] then ''/metrics'' else path1) in
      \<lparr> rmEnabled = (case cfMetrics cmd of Some b \<Rightarrow> b | None \<Rightarrow> enabled),
        rmAddr = (case cfMetricsAddr cmd of Some a \<Rightarrow> a | None \<Rightarrow> addr2),
        rmPath = (case cfMetricsPath cmd of Some p \<Rightarrow> p | None \<Rightarrow> path2) \<rparr>)"

text \<open>The built-in default of a key.\<close>

definition builtin :: "string \<Rightarrow> string" where
  "builtin key = (case map_of setDefaults key of Some (Str s) \<Rightarrow> s | _ \<Rightarrow> [])"

text \<open>
The shared metrics address and path are never used. The settings library gives a key the user did not
  set its built-in default (the two hypotheses on the tool's own section), every tool's own section has
  one, and a tool's own section outranks the shared one: whatever the user writes in the shared
  section, a tool whose own section and flags say nothing listens where its default says.\<close>

theorem shared_metrics_ignored:
  assumes "(tool, addr) \<in> set [(''stream'', '':9000''), (''balance'', '':9001''), (''kafka'', '':9002''), (''webhook'', '':9003''),
      (''file'', '':9004''), (''aws_sqs'', '':9005''), (''aws_sns'', '':9006''), (''postgres'', '':9007''), (''redis'', '':9008'')]"
    and "mcAddr own = builtin (tool @ ''.metrics.addr'')" and "mcPath own = builtin (tool @ ''.metrics.path'')"
    and "cfMetricsAddr cmd = None" and "cfMetricsPath cmd = None"
  shows "rmAddr (resolveMetrics cmd shared own defaultAddr) = addr \<and> rmPath (resolveMetrics cmd shared own defaultAddr) = ''/metrics''"
proof -
  have "builtin (tool @ ''.metrics.addr'') = addr \<and> builtin (tool @ ''.metrics.path'') = ''/metrics'' \<and> addr \<noteq> []"
    using assms(1) by (simp add: builtin_def setDefaults_def) (elim disjE conjE; simp)
  with assms(2-5) show ?thesis by (simp add: resolveMetrics_def)
qed

lemma shared_metrics_ignored_witness:
  "rmAddr (resolveMetrics \<lparr> cfMetrics = None, cfMetricsAddr = None, cfMetricsPath = None \<rparr>
      \<lparr> mcEnabled = Some True, mcAddr = ''127.0.0.1:9999'', mcPath = [] \<rparr>
      \<lparr> mcEnabled = None, mcAddr = '':9002'', mcPath = ''/metrics'' \<rparr> '':9002'') = '':9002''"
  by (rule shared_metrics_ignored [where tool = "''kafka''", THEN conjunct1]) (simp_all add: builtin_def setDefaults_def)


section \<open>The Kafka sink\<close>

record KafkaConfig =
  kcBrokers :: "string list"
  kcTopic :: string
  kcTopicByType :: "(string \<times> string) list"
  kcPartitionKey :: string
  kcRequiredAcks :: string
  kcDeliveryMode :: string
  kcBackoffBase :: string
  kcBackoffMax :: string
  kcBatchTimeout :: string
  kcReadinessProbeInterval :: string
  kcSASLMechanism :: string
  kcSASLUsername :: string
  kcSASLPassword :: string
  kcTLSEnabled :: "bool option"
  kcTLSCACert :: string
  kcTLSClientCert :: string
  kcTLSClientKey :: string
  kcTLSServerName :: string
  kcTLSInsecureSkipVerify :: bool
  kcMetrics :: MetricsConfig

record WriterConfig =
  wcBrokers :: "string list"
  wcBatchTimeout :: int
  wcIdempotent :: bool
  wcSASLMechanism :: string
  wcSASLUsername :: string
  wcSASLPassword :: string
  wcTLSEnabled :: bool
  wcTLSCACert :: string
  wcTLSClientCert :: string
  wcTLSClientKey :: string
  wcTLSServerName :: string
  wcTLSInsecureSkipVerify :: bool
  wcDialTimeout :: int
  wcTopics :: "string list"

record resolvedKafka =
  rkRouter :: router
  rkWriter :: WriterConfig
  rkBackoffBase :: int
  rkBackoffMax :: int
  rkProbeInterval :: int

definition key_mode_of :: "string \<Rightarrow> key_mode" where
  "key_mode_of s =
     (if s = [] then KeyUnset else if s = ''identity'' then KeyIdentity else if s = ''dedup'' then KeyDedup
      else if s = ''none'' then KeyNone else KeyOther s)"

definition deliveryModeDesc :: "bool \<Rightarrow> string" where
  "deliveryModeDesc idempotent = (if idempotent then ''idempotent'' else ''at-least-once'')"

definition resolveDeliveryMode :: "string \<Rightarrow> string + bool" where
  "resolveDeliveryMode mode =
     (let m = to_lower (trim_space mode) in
      if m \<in> {[], ''at-least-once'', ''plain''} then Inr False
      else if m = ''idempotent'' then Inr True
      else Inl (''kafka.delivery_mode='' @ mode @ '' is not supported''))"

definition normalizeBrokers :: "string list \<Rightarrow> string list" where
  "normalizeBrokers bs = filter (\<lambda>p. p \<noteq> []) (map trim_space (concat (map (split_on CHR '','') bs)))"

definition redactBrokers :: "string list \<Rightarrow> string" where
  "redactBrokers brokers =
     (if length brokers \<le> 3 then join '','' brokers
      else join '','' (take 3 brokers) @ '',... ('' @ show_nat (length brokers) @ '' total)'')"

definition partitionKeyDesc :: "string \<Rightarrow> string" where
  "partitionKeyDesc mode = (if trim_space mode = [] then ''identity'' else mode)"

text \<open>The topics, each once, in the order they are met; the per-type ones in the order of a range over the map.\<close>

fun topics_from :: "string list \<Rightarrow> string list \<Rightarrow> string list" where
  "topics_from out [] = out"
| "topics_from out (t # ts) =
     (let t' = trim_space t in topics_from (if t' \<noteq> [] \<and> t' \<notin> set out then out @ [t'] else out) ts)"

definition topicSet :: "string \<Rightarrow> (string \<times> string) list \<Rightarrow> string list" where
  "topicSet defaultTopic byType = topics_from [] (defaultTopic # map snd byType)"

definition validateKafka :: "duration_parser \<Rightarrow> KafkaConfig \<Rightarrow> string + resolvedKafka" where
  "validateKafka pd k =
     (let brokers = normalizeBrokers (kcBrokers k) in
      if brokers = [] then Inl ''kafka.brokers is required''
      else if kcTopic k = [] \<and> kcTopicByType k = [] then Inl ''a default kafka.topic or a [kafka].topic_by_type mapping is required''
      else
        (case NewRouter (kcTopic k) (map_of (kcTopicByType k)) (key_mode_of (kcPartitionKey k)) of Inl e \<Rightarrow> Inl e | Inr router \<Rightarrow>
         if to_lower (trim_space (kcRequiredAcks k)) \<notin> {[], ''all''} then
           Inl (''kafka.required_acks='' @ kcRequiredAcks k @ '' is not supported'')
         else
        (case resolveDeliveryMode (kcDeliveryMode k) of Inl e \<Rightarrow> Inl e | Inr idempotent \<Rightarrow>
        (case parseDurationDefault pd (kcBackoffBase k) (500 * millisecond) ''kafka.backoff_base'' of Inl e \<Rightarrow> Inl e | Inr base \<Rightarrow>
        (case parseDurationDefault pd (kcBackoffMax k) (30 * second) ''kafka.backoff_max'' of Inl e \<Rightarrow> Inl e | Inr mx \<Rightarrow>
        (case parseDurationDefault pd (kcBatchTimeout k) (200 * millisecond) ''kafka.batch_timeout'' of Inl e \<Rightarrow> Inl e | Inr batch \<Rightarrow>
        (case parseProbeInterval pd (kcReadinessProbeInterval k) ''kafka.readiness_probe_interval'' of Inl e \<Rightarrow> Inl e | Inr probe \<Rightarrow>
           let tls = (case kcTLSEnabled k of Some b \<Rightarrow> b | None \<Rightarrow> trim_space (kcSASLMechanism k) \<noteq> []) in
           Inr \<lparr> rkRouter = router,
                 rkWriter = \<lparr> wcBrokers = brokers, wcBatchTimeout = batch, wcIdempotent = idempotent,
                    wcSASLMechanism = kcSASLMechanism k, wcSASLUsername = kcSASLUsername k, wcSASLPassword = kcSASLPassword k,
                    wcTLSEnabled = tls, wcTLSCACert = kcTLSCACert k, wcTLSClientCert = kcTLSClientCert k, wcTLSClientKey = kcTLSClientKey k,
                    wcTLSServerName = kcTLSServerName k, wcTLSInsecureSkipVerify = kcTLSInsecureSkipVerify k,
                    wcDialTimeout = 10 * second, wcTopics = topicSet (kcTopic k) (kcTopicByType k) \<rparr>,
                 rkBackoffBase = base, rkBackoffMax = mx, rkProbeInterval = probe \<rparr>)))))))"

text \<open>The material of the publisher: what the mechanism is, whether the files of the certificates load (\<open>bad\<close> gives
the reason), and the checks of \<^verbatim>\<open>NewKafkaPublisher\<close> before the library builds the client.\<close>

datatype sasl_mechanism = PlainAuth string string | ScramSha256 string string | ScramSha512 string string

definition saslMechanism :: "WriterConfig \<Rightarrow> string + sasl_mechanism option" where
  "saslMechanism cfg =
     (let mech = to_lower (trim_space (wcSASLMechanism cfg)); u = wcSASLUsername cfg; p = wcSASLPassword cfg in
      if mech = [] then Inr None
      else if u = [] then Inl ''kafkasink: SASL username is required when a mechanism is set''
      else if mech = ''plain'' then Inr (Some (PlainAuth u p))
      else if mech = ''scram-sha-256'' then Inr (Some (ScramSha256 u p))
      else if mech = ''scram-sha-512'' then Inr (Some (ScramSha512 u p))
      else Inl (''kafkasink: unsupported SASL mechanism '' @ wcSASLMechanism cfg))"

record tls_config =
  tcServerName :: string
  tcInsecureSkipVerify :: bool
  tcRootCAs :: "string option"
  tcKeyPair :: "(string \<times> string) option"

text \<open>\<open>read_ca\<close> is the error of reading a bundle, \<open>certs\<close> whether it holds a certificate, \<open>pair_ok\<close> whether a key pair loads.\<close>

definition tlsConfig :: "(string \<Rightarrow> string option) \<Rightarrow> (string \<Rightarrow> bool) \<Rightarrow> (string \<Rightarrow> string \<Rightarrow> bool) \<Rightarrow> WriterConfig \<Rightarrow> string + tls_config option" where
  "tlsConfig read_ca certs pair_ok cfg =
     (if \<not> wcTLSEnabled cfg then Inr None
      else
        (let ca = wcTLSCACert cfg; cert = wcTLSClientCert cfg; key = wcTLSClientKey cfg in
         case (if ca = [] then None
               else (case read_ca ca of
                       Some e \<Rightarrow> Some (''kafkasink: read ca_cert '' @ ca @ '': '' @ e)
                     | None \<Rightarrow> if certs ca then None else Some (''kafkasink: ca_cert '' @ ca @ '' contains no valid certificates''))) of
           Some e \<Rightarrow> Inl e
         | None \<Rightarrow>
             if (cert = []) \<noteq> (key = []) then Inl ''kafkasink: set both tls.client_cert and tls.client_key, or neither''
             else if cert \<noteq> [] \<and> \<not> pair_ok cert key then Inl (''kafkasink: load client keypair ('' @ cert @ ''/'' @ key @ ''): invalid certificate or key'')
             else Inr (Some \<lparr> tcServerName = wcTLSServerName cfg, tcInsecureSkipVerify = wcTLSInsecureSkipVerify cfg,
                              tcRootCAs = (if ca = [] then None else Some ca),
                              tcKeyPair = (if cert = [] then None else Some (cert, key)) \<rparr>)))"

text \<open>What the client is built with.\<close>

record client_options =
  coBrokers :: "string list"
  coLinger :: int
  coTLS :: "tls_config option"
  coSASL :: "sasl_mechanism option"
  coDialTimeout :: "int option"
  coIdempotent :: bool
  coInFlight :: "nat option"
  coTopics :: "string list"

definition NewKafkaPublisher :: "(string \<Rightarrow> string option) \<Rightarrow> (string \<Rightarrow> bool) \<Rightarrow> (string \<Rightarrow> string \<Rightarrow> bool) \<Rightarrow> WriterConfig \<Rightarrow> string + client_options" where
  "NewKafkaPublisher read_ca certs pair_ok cfg =
     (if wcBrokers cfg = [] then Inl ''kafkasink: at least one broker is required''
      else (case saslMechanism cfg of Inl e \<Rightarrow> Inl e | Inr mech \<Rightarrow>
           (case tlsConfig read_ca certs pair_ok cfg of Inl e \<Rightarrow> Inl e | Inr tls \<Rightarrow>
              if mech \<noteq> None \<and> tls = None then Inl ''kafkasink: SASL requires TLS; set [kafka.tls].enabled = true (with CA/cert material)''
              else Inr \<lparr> coBrokers = wcBrokers cfg,
                         coLinger = (if wcBatchTimeout cfg \<le> 0 then 200 * millisecond else wcBatchTimeout cfg),
                         coTLS = tls, coSASL = mech,
                         coDialTimeout = (if wcDialTimeout cfg > 0 then Some (wcDialTimeout cfg) else None),
                         coIdempotent = wcIdempotent cfg,
                         coInFlight = (if wcIdempotent cfg then None else Some 1),
                         coTopics = wcTopics cfg \<rparr>)))"

lemma trim_space_idem: "trim_space (trim_space s) = trim_space s"
proof -
  let ?t = "dropWhile is_ascii_space s"
  let ?r = "dropWhile is_ascii_space (rev ?t)"
  obtain x where x: "?t = rev ?r @ x"
    by (metis rev_append rev_rev_ident takeWhile_dropWhile_id)
  have "dropWhile is_ascii_space (rev ?r) = rev ?r"
  proof (cases "rev ?r")
    case (Cons c cs)
    then have "?t = c # cs @ x" using x by simp
    then have "\<not> is_ascii_space c" by (metis dropWhile_eq_Cons_conv)
    with Cons show ?thesis by simp
  next
    case Nil
    then show ?thesis by (simp only: dropWhile.simps)
  qed
  then show ?thesis by (simp add: trim_space_def)
qed

lemma set_trim_space: "set (trim_space s) \<subseteq> set s"
  by (auto simp: trim_space_def dest!: set_dropWhileD)

lemma normalizeBrokers_proper:
  assumes "b \<in> set (normalizeBrokers bs)"
  shows "b \<noteq> [] \<and> trim_space b = b \<and> CHR '','' \<notin> set b"
proof -
  from assms obtain x p where p: "x \<in> set bs" "p \<in> set (split_on CHR '','' x)" "b = trim_space p" "b \<noteq> []"
    by (auto simp: normalizeBrokers_def)
  then show ?thesis using split_on_sep_free [OF p(2)] set_trim_space [of p] trim_space_idem by auto
qed

definition kafka_setup :: "resolvedKafka \<Rightarrow> sink_setup" where
  "kafka_setup r = \<lparr> spReader = True, spTarget = True,
     spOptions = \<lparr> soBackoffBase = rkBackoffBase r, soBackoffMax = rkBackoffMax r, soProbeInterval = rkProbeInterval r, soProbeTimeout = 0 \<rparr> \<rparr>"

lemma tlsConfig_enabled: "tlsConfig read_ca certs pair_ok cfg = Inr t \<Longrightarrow> (t \<noteq> None) = wcTLSEnabled cfg"
  by (auto simp: tlsConfig_def Let_def split: if_splits option.splits)

lemma publisher_tls:
  assumes "NewKafkaPublisher read_ca certs pair_ok cfg = Inr co"
  shows "(coSASL co \<noteq> None \<longrightarrow> coTLS co \<noteq> None) \<and> (wcTLSEnabled cfg \<longrightarrow> coTLS co \<noteq> None) \<and> (coIdempotent co \<or> coInFlight co = Some 1)"
proof -
  obtain mech tls where t: "tlsConfig read_ca certs pair_ok cfg = Inr tls" and "\<not> (mech \<noteq> None \<and> tls = None)"
    and "coSASL co = mech" "coTLS co = tls" "coIdempotent co = wcIdempotent cfg" "coInFlight co = (if wcIdempotent cfg then None else Some 1)"
    using assms by (auto simp: NewKafkaPublisher_def split: if_splits sum.splits)
  with tlsConfig_enabled [OF t] show ?thesis by auto
qed

lemma NewRouter_topic: "NewRouter t m q = Inr R \<Longrightarrow> roDefaultTopic R = t"
  by (auto simp: NewRouter_def split: if_splits key_mode.splits)

lemma validateKafka_parts:
  assumes "validateKafka pd k = Inr r"
  shows "normalizeBrokers (kcBrokers k) \<noteq> []" "wcBrokers (rkWriter r) = normalizeBrokers (kcBrokers k)"
    and "0 < rkBackoffBase r" "0 < rkBackoffMax r" "0 < wcBatchTimeout (rkWriter r)" "0 \<le> rkProbeInterval r"
    and "wcTLSEnabled (rkWriter r) = (case kcTLSEnabled k of Some b \<Rightarrow> b | None \<Rightarrow> trim_space (kcSASLMechanism k) \<noteq> [])"
    and "wcSASLMechanism (rkWriter r) = kcSASLMechanism k"
    and "NewRouter (kcTopic k) (map_of (kcTopicByType k)) (key_mode_of (kcPartitionKey k)) = Inr (rkRouter r)"
  using assms parseDurationDefault_pos [of pd] parseProbeInterval_nonneg [of pd]
  by (auto simp: validateKafka_def Let_def second_def millisecond_def split: if_splits sum.splits)

text \<open>
C37: Kafka settings that pass validation are safe to run with: the brokers are proper addresses, every record
  has a topic when there is a default one, the sink's loop takes the resolved delays as they are, and
  the publisher, when its material loads, never sends the SASL credentials over a connection
  without TLS - which it uses unasked as soon as a mechanism is set - and keeps one request in flight
  unless it is idempotent.\<close>

theorem validated_kafka_is_safe:
  assumes "validateKafka pd k = Inr r"
  shows "wcBrokers (rkWriter r) \<noteq> [] \<and> (\<forall>b \<in> set (wcBrokers (rkWriter r)). b \<noteq> [] \<and> trim_space b = b \<and> CHR '','' \<notin> set b)
    \<and> (kcTopic k \<noteq> [] \<longrightarrow> (\<forall>env. \<exists>t key. Route (rkRouter r) env = Inr (t, key)))
    \<and> (\<exists>Op. kafka_New True (kafka_setup r) = Inr Op \<and> options_ok Op \<and> soBackoffBase Op = rkBackoffBase r \<and> soBackoffMax Op = rkBackoffMax r)
    \<and> (NewKafkaPublisher read_ca certs pair_ok (rkWriter r) = Inr co \<longrightarrow>
      (coSASL co \<noteq> None \<longrightarrow> coTLS co \<noteq> None) \<and> (kcTLSEnabled k = None \<and> trim_space (kcSASLMechanism k) \<noteq> [] \<longrightarrow> coTLS co \<noteq> None)
      \<and> (coIdempotent co \<or> coInFlight co = Some 1))"
proof -
  note parts = validateKafka_parts [OF assms]
  have "wcBrokers (rkWriter r) \<noteq> [] \<and> (\<forall>b \<in> set (wcBrokers (rkWriter r)). b \<noteq> [] \<and> trim_space b = b \<and> CHR '','' \<notin> set b)"
    using parts(1,2) normalizeBrokers_proper by auto
  moreover have "roDefaultTopic (rkRouter r) = kcTopic k"
    using parts(9) by (rule NewRouter_topic)
  then have "kcTopic k \<noteq> [] \<longrightarrow> (\<forall>env. \<exists>t key. Route (rkRouter r) env = Inr (t, key))"
    by (auto simp: Route_def route_topic_def Let_def split: option.splits)
  moreover have "\<exists>Op. kafka_New True (kafka_setup r) = Inr Op \<and> options_ok Op \<and> soBackoffBase Op = rkBackoffBase r \<and> soBackoffMax Op = rkBackoffMax r"
    using parts(3-6) by (auto simp: kafka_New_def kafka_setup_def options_ok_def Let_def second_def millisecond_def)
  moreover have "NewKafkaPublisher read_ca certs pair_ok (rkWriter r) = Inr co \<longrightarrow>
      (coSASL co \<noteq> None \<longrightarrow> coTLS co \<noteq> None) \<and> (kcTLSEnabled k = None \<and> trim_space (kcSASLMechanism k) \<noteq> [] \<longrightarrow> coTLS co \<noteq> None)
      \<and> (coIdempotent co \<or> coInFlight co = Some 1)"
    using publisher_tls [of read_ca certs pair_ok "rkWriter r" co] parts(7) by simp
  ultimately show ?thesis by blast
qed

definition demo_kafka :: KafkaConfig where
  "demo_kafka = \<lparr> kcBrokers = [''a:9092, b:9092''], kcTopic = ''t'', kcTopicByType = [], kcPartitionKey = ''identity'', kcRequiredAcks = ''ALL'',
     kcDeliveryMode = [], kcBackoffBase = [], kcBackoffMax = [], kcBatchTimeout = [], kcReadinessProbeInterval = ''off'',
     kcSASLMechanism = ''plain'', kcSASLUsername = ''u'', kcSASLPassword = ''p'', kcTLSEnabled = None, kcTLSCACert = [], kcTLSClientCert = [],
     kcTLSClientKey = [], kcTLSServerName = [], kcTLSInsecureSkipVerify = False, kcMetrics = \<lparr> mcEnabled = None, mcAddr = [], mcPath = [] \<rparr> \<rparr>"

lemma validated_kafka_is_safe_witness:
  "\<exists>r co. validateKafka (\<lambda>_. Inl []) demo_kafka = Inr r \<and> wcBrokers (rkWriter r) = [''a:9092'', ''b:9092'']
     \<and> NewKafkaPublisher (\<lambda>_. None) (\<lambda>_. True) (\<lambda>_ _. True) (rkWriter r) = Inr co \<and> coTLS co \<noteq> None"
proof -
  obtain r where r: "validateKafka (\<lambda>_. Inl []) demo_kafka = Inr r" and b: "wcBrokers (rkWriter r) = [''a:9092'', ''b:9092'']"
    and w: "wcSASLMechanism (rkWriter r) = ''plain'' \<and> wcSASLUsername (rkWriter r) = ''u'' \<and> wcTLSEnabled (rkWriter r)
      \<and> wcTLSCACert (rkWriter r) = [] \<and> wcTLSClientCert (rkWriter r) = [] \<and> wcTLSClientKey (rkWriter r) = []"
  proof -
    have "normalizeBrokers (kcBrokers demo_kafka) = [''a:9092'', ''b:9092'']" "resolveDeliveryMode (kcDeliveryMode demo_kafka) = Inr False"
      "parseDurationDefault (\<lambda>_. Inl []) [] d n = Inr d" "to_lower (trim_space (kcRequiredAcks demo_kafka)) = ''all''"
      "parseProbeInterval (\<lambda>_. Inl []) (kcReadinessProbeInterval demo_kafka) n = Inr 0" for d n
      by code_simp+
    moreover have "NewRouter (kcTopic demo_kafka) (map_of (kcTopicByType demo_kafka)) (key_mode_of (kcPartitionKey demo_kafka))
        = Inr \<lparr> roDefaultTopic = ''t'', roByType = Map.empty, roKeyMode = KeyIdentity \<rparr>"
      by (simp add: NewRouter_def key_mode_of_def demo_kafka_def)
    moreover have "trim_space (kcSASLMechanism demo_kafka) \<noteq> []" by code_simp
    moreover have "kcTopic demo_kafka \<noteq> []" "kcTLSEnabled demo_kafka = None" "kcSASLMechanism demo_kafka = ''plain''" "kcSASLUsername demo_kafka = ''u''"
      "kcTLSCACert demo_kafka = []" "kcTLSClientCert demo_kafka = []" "kcTLSClientKey demo_kafka = []" "kcBackoffBase demo_kafka = []"
      "kcBackoffMax demo_kafka = []" "kcBatchTimeout demo_kafka = []"
      by (simp_all add: demo_kafka_def)
    ultimately show ?thesis by (intro that) (auto simp: validateKafka_def)
  qed
  obtain co where co: "NewKafkaPublisher (\<lambda>_. None) (\<lambda>_. True) (\<lambda>_ _. True) (rkWriter r) = Inr co"
    using b w by (simp add: NewKafkaPublisher_def saslMechanism_def tlsConfig_def trim_space_def is_ascii_space_def to_lower_def lower_char_def code_of_def)
  have "kcTLSEnabled demo_kafka = None \<and> trim_space (kcSASLMechanism demo_kafka) \<noteq> []"
    by (simp add: demo_kafka_def trim_space_def is_ascii_space_def code_of_def)
  with validated_kafka_is_safe [OF r] co r b show ?thesis by blast
qed


section \<open>The other sinks\<close>

text \<open>What a run hands to a sink's constructor; the probe's time limit is left to it.\<close>

definition setup_of :: "int \<Rightarrow> int \<Rightarrow> int \<Rightarrow> sink_setup" where
  "setup_of base mx probe = \<lparr> spReader = True, spTarget = True,
     spOptions = \<lparr> soBackoffBase = base, soBackoffMax = mx, soProbeInterval = probe, soProbeTimeout = 0 \<rparr> \<rparr>"

record filter_lists =
  flIncludeTypes :: "string list"
  flExcludeTypes :: "string list"
  flIncludeNames :: "string list"
  flExcludeNames :: "string list"

definition lists_summary :: "filter_lists \<Rightarrow> string" where
  "lists_summary fc =
     ''include_types='' @ show_nat (length (flIncludeTypes fc)) @ '' exclude_types='' @ show_nat (length (flExcludeTypes fc)) @
     '' include_names='' @ show_nat (length (flIncludeNames fc)) @ '' exclude_names='' @ show_nat (length (flExcludeNames fc))"

definition no_lists :: "filter_lists \<Rightarrow> bool" where
  "no_lists fc \<longleftrightarrow> flIncludeTypes fc = [] \<and> flExcludeTypes fc = [] \<and> flIncludeNames fc = [] \<and> flExcludeNames fc = []"

subsection \<open>Webhook\<close>

record WebhookConfig =
  whURL :: string
  whMethod :: string
  whHeaders :: "(string \<times> string) list"
  whTimeout :: string
  whBackoffBase :: string
  whBackoffMax :: string
  whHealthURL :: string
  whReadinessProbeInterval :: string
  whAuthHeader :: string
  whAuthValue :: string
  whFilters :: filter_lists
  whField :: "(string \<times> string \<times> string) option"
  whMetrics :: MetricsConfig

record resolvedWebhook =
  rwPoster :: poster_config
  rwFilter :: filter_set
  rwRedactedURL :: string
  rwFilterSummary :: string
  rwBackoffBase :: int
  rwBackoffMax :: int
  rwProbeInterval :: int

definition field_op_of :: "string \<Rightarrow> field_op" where
  "field_op_of s = (if s = ''eq'' then OpEq else if s = ''gt'' then OpGt else if s = ''lt'' then OpLt else OpOther s)"

definition buildWebhookFilter :: "filter_lists \<Rightarrow> (string \<times> string \<times> string) option \<Rightarrow> string + filter_set \<times> string" where
  "buildWebhookFilter fc field =
     (case NewFilter \<lparr> foIncludeTypes = flIncludeTypes fc, foExcludeTypes = flExcludeTypes fc, foIncludeNames = flIncludeNames fc,
             foExcludeNames = flExcludeNames fc,
             foField = map_option (\<lambda>(f, p, v). \<lparr> fcField = f, fcOp = field_op_of p, fcValue = v \<rparr>) field \<rparr> of
        Inl e \<Rightarrow> Inl e
      | Inr flt \<Rightarrow>
          Inr (flt, if no_lists fc \<and> field = None then ''forward all''
                       else lists_summary fc @ '' field='' @ (if field \<noteq> None then ''true'' else ''false'')))"

definition validateWebhook :: "duration_parser \<Rightarrow> WebhookConfig \<Rightarrow> string + resolvedWebhook" where
  "validateWebhook pd wh =
     (if whURL wh = [] then Inl ''webhook.url is required''
      else
        (case buildWebhookFilter (whFilters wh) (whField wh) of Inl e \<Rightarrow> Inl e | Inr (flt, summary) \<Rightarrow>
        (case parseDurationDefault pd (whTimeout wh) (10 * second) ''webhook.timeout'' of Inl e \<Rightarrow> Inl e | Inr timeout \<Rightarrow>
        (case parseDurationDefault pd (whBackoffBase wh) (500 * millisecond) ''webhook.backoff_base'' of Inl e \<Rightarrow> Inl e | Inr base \<Rightarrow>
        (case parseDurationDefault pd (whBackoffMax wh) (30 * second) ''webhook.backoff_max'' of Inl e \<Rightarrow> Inl e | Inr mx \<Rightarrow>
        (case (if whHealthURL wh = [] then Inr 0 else parseProbeInterval pd (whReadinessProbeInterval wh) ''webhook.readiness_probe_interval'') of
           Inl e \<Rightarrow> Inl e
         | Inr probe \<Rightarrow>
           Inr \<lparr> rwPoster = \<lparr> pcURL = whURL wh, pcMethod = whMethod wh, pcHeaders = whHeaders wh, pcAuthHeader = whAuthHeader wh,
                   pcAuthValue = whAuthValue wh, pcTimeout = timeout, pcHealthURL = whHealthURL wh \<rparr>,
                 rwFilter = flt, rwRedactedURL = webhook_RedactURL (whURL wh), rwFilterSummary = summary,
                 rwBackoffBase = base, rwBackoffMax = mx, rwProbeInterval = probe \<rparr>))))))"

subsection \<open>File\<close>

record FileConfig =
  flcPath :: string
  flcMaxSizeMB :: int
  flcRotationInterval :: string
  flcMaxBackups :: int
  flcCompress :: bool
  flcFsync :: bool
  flcBackoffBase :: string
  flcBackoffMax :: string
  flcFilters :: filter_lists
  flcMetrics :: MetricsConfig

text \<open>The resolved settings but for the text of the interval in the start-up log.\<close>

record resolvedFile =
  rfPath :: string
  rfMaxSize :: int
  rfMaxSizeMB :: int
  rfMaxAge :: int
  rfMaxBackups :: int
  rfCompress :: bool
  rfFsync :: bool
  rfFilter :: file_filter
  rfFilterSummary :: string
  rfBackoffBase :: int
  rfBackoffMax :: int

definition buildFileFilter :: "filter_lists \<Rightarrow> file_filter \<times> string" where
  "buildFileFilter fc =
     (file_NewFilter \<lparr> ffIncludeTypes = flIncludeTypes fc, ffExcludeTypes = flExcludeTypes fc,
                       ffIncludeNames = flIncludeNames fc, ffExcludeNames = flExcludeNames fc \<rparr>,
      if no_lists fc then ''write all'' else lists_summary fc)"

definition validateFile :: "duration_parser \<Rightarrow> FileConfig \<Rightarrow> string + resolvedFile" where
  "validateFile pd fc =
     (if trim_space (flcPath fc) = [] then Inl ''file.path is required''
      else if flcMaxSizeMB fc < 0 then Inl (''file.max_size_mb must be >= 0 (got '' @ show_int (flcMaxSizeMB fc) @ '')'')
      else if flcMaxBackups fc < 0 then Inl (''file.max_backups must be >= 0 (got '' @ show_int (flcMaxBackups fc) @ '')'')
      else
        (case parseRotationInterval pd (flcRotationInterval fc) of Inl e \<Rightarrow> Inl e | Inr maxAge \<Rightarrow>
        (case parseDurationDefault pd (flcBackoffBase fc) (500 * millisecond) ''file.backoff_base'' of Inl e \<Rightarrow> Inl e | Inr base \<Rightarrow>
        (case parseDurationDefault pd (flcBackoffMax fc) (30 * second) ''file.backoff_max'' of Inl e \<Rightarrow> Inl e | Inr mx \<Rightarrow>
           (let (flt, summary) = buildFileFilter (flcFilters fc) in
            Inr \<lparr> rfPath = flcPath fc, rfMaxSize = wrap64 (flcMaxSizeMB fc * 1024 * 1024), rfMaxSizeMB = flcMaxSizeMB fc, rfMaxAge = maxAge,
                  rfMaxBackups = flcMaxBackups fc, rfCompress = flcCompress fc, rfFsync = flcFsync fc, rfFilter = flt,
                  rfFilterSummary = summary, rfBackoffBase = base, rfBackoffMax = mx \<rparr>)))))"

text \<open>The writer's configuration in \<^verbatim>\<open>fileRun\<close>; \<open>dir\<close> and \<open>name\<close> are the two parts of the path.\<close>

definition writer_config_of :: "string \<Rightarrow> string \<Rightarrow> resolvedFile \<Rightarrow> rotate_config" where
  "writer_config_of dir name r =
     \<lparr> rcPath = rfPath r, rcDir = dir, rotate_config.rcName = name, rcMaxSize = rfMaxSize r, rcMaxAge = rfMaxAge r,
       rcMaxBackups = rfMaxBackups r, rcCompress = rfCompress r, rcFsync = rfFsync r \<rparr>"

subsection \<open>AWS\<close>

record AWSCommon =
  acRegion :: string
  acEndpointURL :: string
  acBackoffBase :: string
  acBackoffMax :: string
  acReadinessProbeInterval :: string
  acMetrics :: MetricsConfig

record resolvedAWS =
  raRegion :: string
  raEndpointURL :: string
  raFIFO :: bool
  raBackoffBase :: int
  raBackoffMax :: int
  raProbeInterval :: int

definition resolveAWSCommon :: "duration_parser \<Rightarrow> AWSCommon \<Rightarrow> bool \<Rightarrow> string + resolvedAWS" where
  "resolveAWSCommon pd c fifo =
     (case parseDurationDefault pd (acBackoffBase c) (500 * millisecond) ''backoff_base'' of Inl e \<Rightarrow> Inl e | Inr bb \<Rightarrow>
     (case parseDurationDefault pd (acBackoffMax c) (30 * second) ''backoff_max'' of Inl e \<Rightarrow> Inl e | Inr bm \<Rightarrow>
     (case parseProbeInterval pd (acReadinessProbeInterval c) ''readiness_probe_interval'' of Inl e \<Rightarrow> Inl e | Inr probe \<Rightarrow>
        Inr \<lparr> raRegion = acRegion c, raEndpointURL = acEndpointURL c, raFIFO = fifo, raBackoffBase = bb, raBackoffMax = bm,
              raProbeInterval = probe \<rparr>)))"

definition validate_aws :: "string \<Rightarrow> string \<Rightarrow> duration_parser \<Rightarrow> string \<Rightarrow> AWSCommon \<Rightarrow> string + resolvedAWS" where
  "validate_aws section key pd destination c =
     (if trim_space destination = [] then Inl (section @ ''.'' @ key @ '' is required'')
      else map_sum (\<lambda>e. section @ '': '' @ e) id (resolveAWSCommon pd c (has_suffix ''.fifo'' destination)))"

definition validateAWSSQS :: "duration_parser \<Rightarrow> string \<Rightarrow> AWSCommon \<Rightarrow> string + resolvedAWS" where
  "validateAWSSQS = validate_aws ''aws_sqs'' ''queue_url''"

definition validateAWSSNS :: "duration_parser \<Rightarrow> string \<Rightarrow> AWSCommon \<Rightarrow> string + resolvedAWS" where
  "validateAWSSNS = validate_aws ''aws_sns'' ''topic_arn''"

subsection \<open>Postgres and Redis\<close>

record PostgresConfig =
  pgcDSN :: string
  pgcTable :: string
  pgcCreateTable :: bool
  pgcBackoffBase :: string
  pgcBackoffMax :: string
  pgcReadinessProbeInterval :: string
  pgcMetrics :: MetricsConfig

record resolvedPostgres =
  rpTable :: string
  rpBackoffBase :: int
  rpBackoffMax :: int
  rpProbeInterval :: int

definition validatePostgres :: "duration_parser \<Rightarrow> PostgresConfig \<Rightarrow> string + resolvedPostgres" where
  "validatePostgres pd cfg =
     (if trim_space (pgcDSN cfg) = [] then Inl ''postgres.dsn is required''
      else
        (let t = trim_space (pgcTable cfg); table = (if t = [] then ''evm_records'' else t) in
         if \<not> ValidateTableName table then Inl (''pgsink: invalid table name '' @ table)
         else
        (case parseDurationDefault pd (pgcBackoffBase cfg) (500 * millisecond) ''postgres.backoff_base'' of Inl e \<Rightarrow> Inl e | Inr bb \<Rightarrow>
        (case parseDurationDefault pd (pgcBackoffMax cfg) (30 * second) ''postgres.backoff_max'' of Inl e \<Rightarrow> Inl e | Inr bm \<Rightarrow>
        (case parseProbeInterval pd (pgcReadinessProbeInterval cfg) ''postgres.readiness_probe_interval'' of Inl e \<Rightarrow> Inl e | Inr probe \<Rightarrow>
           Inr \<lparr> rpTable = table, rpBackoffBase = bb, rpBackoffMax = bm, rpProbeInterval = probe \<rparr>)))))"

record RedisConfig =
  rdcURL :: string
  rdcStream :: string
  rdcField :: string
  rdcMaxLen :: int
  rdcDedup :: "bool option"
  rdcDedupTTL :: string
  rdcBackoffBase :: string
  rdcBackoffMax :: string
  rdcReadinessProbeInterval :: string
  rdcMetrics :: MetricsConfig

record resolvedRedis =
  rrStream :: string
  rrField :: string
  rrMaxLen :: int
  rrDedup :: bool
  rrDedupTTL :: int
  rrBackoffBase :: int
  rrBackoffMax :: int
  rrProbeInterval :: int

definition validateRedis :: "duration_parser \<Rightarrow> RedisConfig \<Rightarrow> string + resolvedRedis" where
  "validateRedis pd cfg =
     (if trim_space (rdcURL cfg) = [] then Inl ''redis.url is required''
      else if trim_space (rdcStream cfg) = [] then Inl ''redis.stream is required''
      else if rdcMaxLen cfg < 0 then Inl (''redis.max_len must be >= 0 (got '' @ show_int (rdcMaxLen cfg) @ '')'')
      else
        (let f = trim_space (rdcField cfg); field = (if f = [] then ''data'' else f) in
        (case parseDurationDefault pd (rdcBackoffBase cfg) (500 * millisecond) ''redis.backoff_base'' of Inl e \<Rightarrow> Inl e | Inr bb \<Rightarrow>
        (case parseDurationDefault pd (rdcBackoffMax cfg) (30 * second) ''redis.backoff_max'' of Inl e \<Rightarrow> Inl e | Inr bm \<Rightarrow>
        (case parseProbeInterval pd (rdcReadinessProbeInterval cfg) ''redis.readiness_probe_interval'' of Inl e \<Rightarrow> Inl e | Inr probe \<Rightarrow>
        (case parseDisableableDuration pd (rdcDedupTTL cfg) ''redis.dedup_ttl'' of Inl e \<Rightarrow> Inl e | Inr ttl \<Rightarrow>
           Inr \<lparr> rrStream = trim_space (rdcStream cfg), rrField = field, rrMaxLen = rdcMaxLen cfg, rrDedup = (rdcDedup cfg \<noteq> Some False),
                 rrDedupTTL = ttl, rrBackoffBase = bb, rrBackoffMax = bm, rrProbeInterval = probe \<rparr>))))))"

text \<open>The client's configuration in \<^verbatim>\<open>redisRun\<close>.\<close>

definition redis_client_config :: "resolvedRedis \<Rightarrow> client_config" where
  "redis_client_config r =
     \<lparr> ccStream = rrStream r, ccField = rrField r, ccMaxLen = rrMaxLen r, ccDedup = rrDedup r, ccDedupTTL = rrDedupTTL r, ccDedupPrefix = [] \<rparr>"


subsection \<open>What a run makes of them\<close>

definition taken_as_is :: "(sink_setup \<Rightarrow> string + sink_options) \<Rightarrow> int \<Rightarrow> int \<Rightarrow> int \<Rightarrow> bool" where
  "taken_as_is New base mx probe \<longleftrightarrow>
     (\<exists>Op. New (setup_of base mx probe) = Inr Op \<and> options_ok Op \<and> soBackoffBase Op = base \<and> soBackoffMax Op = mx \<and> soProbeInterval Op = probe)"

lemma taken_as_is_constructors:
  assumes "0 < base" and "0 < mx"
  shows "taken_as_is webhook_New base mx probe" "taken_as_is aws_New base mx probe" "taken_as_is pg_New base mx probe"
    "taken_as_is redis_New base mx probe" "taken_as_is file_New base mx 0"
  using assms by (auto simp: taken_as_is_def setup_of_def sink_constructors file_New_def options_ok_def Let_def second_def millisecond_def)

lemma default_delays: "0 < 500 * millisecond" "0 < 30 * second" "0 < 10 * second"
  by (simp_all add: second_def millisecond_def)

lemma validateWebhook_delays: "validateWebhook pd w = Inr r \<Longrightarrow> 0 < rwBackoffBase r \<and> 0 < rwBackoffMax r \<and> 0 < pcTimeout (rwPoster r)"
  by (auto simp: validateWebhook_def default_delays split: if_splits sum.splits prod.splits intro: parseDurationDefault_pos)

lemma validateFile_delays: "validateFile pd f = Inr r \<Longrightarrow> 0 < rfBackoffBase r \<and> 0 < rfBackoffMax r \<and> 0 \<le> rfMaxAge r \<and> 0 \<le> rfMaxBackups r"
  by (auto simp: validateFile_def default_delays split: if_splits sum.splits prod.splits
      intro: parseDurationDefault_pos dest: parseRotationInterval_nonneg)

lemma validate_aws_delays: "validate_aws section key pd d c = Inr r \<Longrightarrow> 0 < raBackoffBase r \<and> 0 < raBackoffMax r \<and> raFIFO r = has_suffix ''.fifo'' d"
  by (auto simp: validate_aws_def resolveAWSCommon_def default_delays split: if_splits sum.splits intro: parseDurationDefault_pos)

lemma validatePostgres_delays: "validatePostgres pd c = Inr r \<Longrightarrow> 0 < rpBackoffBase r \<and> 0 < rpBackoffMax r \<and> ValidateTableName (rpTable r)"
  by (auto simp: validatePostgres_def Let_def default_delays split: if_splits sum.splits intro: parseDurationDefault_pos)

lemma validateRedis_delays:
  "validateRedis pd c = Inr r \<Longrightarrow> 0 < rrBackoffBase r \<and> 0 < rrBackoffMax r \<and> trim_space (rrStream r) \<noteq> [] \<and> 0 \<le> rrMaxLen r \<and> 0 \<le> rrDedupTTL r"
  by (auto simp: validateRedis_def Let_def default_delays trim_space_idem split: if_splits sum.splits
      intro: parseDurationDefault_pos dest: parseDisableableDuration_nonneg)

subsection \<open>The command validate and what a run builds\<close>

text \<open>\<^verbatim>\<open>webhookValidate\<close>: the settings, then the poster, which is built and thrown away.\<close>

definition webhookValidate :: "duration_parser \<Rightarrow> WebhookConfig \<Rightarrow> string option" where
  "webhookValidate pd w =
     (case validateWebhook pd w of
        Inl e \<Rightarrow> Some e
      | Inr r \<Rightarrow> (case NewHTTPPoster (rwPoster r) of Inl e \<Rightarrow> Some (''webhook poster: '' @ e) | Inr _ \<Rightarrow> None))"

text \<open>\<^verbatim>\<open>NewSQSPublisher\<close> and \<^verbatim>\<open>NewSNSPublisher\<close>: where to publish, and whether as FIFO.\<close>

definition NewSQSPublisher :: "string \<Rightarrow> bool \<Rightarrow> string + string \<times> bool" where
  "NewSQSPublisher queueURL fifo =
     (let q = trim_space queueURL in if q = [] then Inl ''awssink: sqs queue_url is required'' else Inr (q, fifo))"

definition NewSNSPublisher :: "string \<Rightarrow> bool \<Rightarrow> string + string \<times> bool" where
  "NewSNSPublisher topicARN fifo =
     (let t = trim_space topicARN in if t = [] then Inl ''awssink: sns topic_arn is required'' else Inr (t, fifo))"

text \<open>\<^verbatim>\<open>NewInserter\<close>: \<open>db\<close> is the error the driver answers a call with; the statements are for the quoted table.\<close>

datatype pg_call = ParseConfig string | OpenPool | CreateTable string | AcquireConn | PrepareInsert string

definition NewInserter :: "(pg_call \<Rightarrow> string option) \<Rightarrow> string \<Rightarrow> string \<Rightarrow> string \<Rightarrow> bool \<Rightarrow> string + string" where
  "NewInserter db target dsn table createTable =
     (if \<not> ValidateTableName table then Inl (''pgsink: invalid table name '' @ table)
      else
        (case db (ParseConfig dsn) of Some e \<Rightarrow> Inl (''pgsink: parse dsn: '' @ e) | None \<Rightarrow>
        (case db OpenPool of Some e \<Rightarrow> Inl (''pgsink: connect to '' @ target @ '': '' @ e) | None \<Rightarrow>
        (case (if createTable then db (CreateTable (quoteIdent table)) else None) of
           Some e \<Rightarrow> Inl (''pgsink: create table '' @ table @ '': '' @ e)
         | None \<Rightarrow>
        (case db AcquireConn of Some e \<Rightarrow> Inl (''pgsink: connect to '' @ target @ '': '' @ e) | None \<Rightarrow>
        (case db (PrepareInsert (quoteIdent table)) of
           Some e \<Rightarrow> Inl (''pgsink: target table '' @ table @ '' must exist: '' @ e)
         | None \<Rightarrow> Inr (quoteIdent table)))))))"

lemma NewInserter_refuses:
  "ValidateTableName table \<Longrightarrow> isl (NewInserter db target dsn table createTable) \<Longrightarrow> \<exists>c. db c \<noteq> None"
  by (auto simp: NewInserter_def split: option.splits if_splits)

lemma NewHTTPPoster_keeps:
  "NewHTTPPoster cfg = Inr hp \<Longrightarrow> 0 < pcTimeout cfg \<Longrightarrow>
     hpTimeout hp = pcTimeout cfg \<and> hpURL hp = trim_space (pcURL cfg) \<and> is_http (hpURL hp) \<and> hpMethod hp \<in> {''POST'', ''PUT'', ''PATCH''}"
  by (auto simp: NewHTTPPoster_def Let_def split: if_splits)

text \<open>
  From \<open>2 ^ 43\<close> megabytes the bytes wrap below zero, which the writer takes for no limit: validation
  accepts a limit that a run does not keep.
\<close>

lemma huge_max_size_is_no_limit:
  assumes "validateFile pd f = Inr rf" and "2 ^ 43 \<le> flcMaxSizeMB f" and "flcMaxSizeMB f < 2 ^ 44"
  shows "rcMaxSize (writer_config_of dir name rf) < 0"
proof -
  have "wrap64 (flcMaxSizeMB f * 1024 * 1024) = flcMaxSizeMB f * 1024 * 1024 - 2 ^ 64"
    using assms(2,3) by (intro wrap64_over) simp_all
  with assms show ?thesis
    by (auto simp: validateFile_def writer_config_of_def split: if_splits sum.splits prod.splits)
qed

text \<open>
  The suffix of a FIFO queue is looked for in the settings as they are written, the publisher
  trims them: with a blank at the end, a FIFO queue is published to as a standard one.
\<close>

lemma trailing_blank_hides_fifo:
  assumes "validateAWSSQS pd ''https://q.fifo '' a = Inr ra"
  shows "NewSQSPublisher ''https://q.fifo '' (raFIFO ra) = Inr (''https://q.fifo'', False)"
proof -
  have "\<not> has_suffix ''.fifo'' ''https://q.fifo ''" "trim_space ''https://q.fifo '' = ''https://q.fifo''" by code_simp+
  with validate_aws_delays assms show ?thesis by (auto simp: validateAWSSQS_def NewSQSPublisher_def)
qed

lemma validateFile_writer:
  assumes "validateFile pd f = Inr rf"
  shows "fw_NewWriter W (writer_config_of dir name rf) = fw_open W (writer_config_of dir name rf)"
    and "0 \<le> rcMaxAge (writer_config_of dir name rf)" "0 \<le> rcMaxBackups (writer_config_of dir name rf)"
    and "flcMaxSizeMB f < 2 ^ 43 \<Longrightarrow> rcMaxSize (writer_config_of dir name rf) = flcMaxSizeMB f * 1048576"
proof -
  have "rfPath rf = flcPath f \<and> trim_space (flcPath f) \<noteq> [] \<and> 0 \<le> flcMaxSizeMB f
      \<and> rfMaxSize rf = wrap64 (flcMaxSizeMB f * 1024 * 1024)"
    using assms by (auto simp: validateFile_def split: if_splits sum.splits prod.splits)
  then show "fw_NewWriter W (writer_config_of dir name rf) = fw_open W (writer_config_of dir name rf)"
    "flcMaxSizeMB f < 2 ^ 43 \<Longrightarrow> rcMaxSize (writer_config_of dir name rf) = flcMaxSizeMB f * 1048576"
    by (simp_all add: fw_NewWriter_def writer_config_of_def wrap64_id)
  show "0 \<le> rcMaxAge (writer_config_of dir name rf)" "0 \<le> rcMaxBackups (writer_config_of dir name rf)"
    using validateFile_delays [OF assms] by (simp_all add: writer_config_of_def)
qed

text \<open>
C38: Of what the command validate accepts, nothing is refused by the program's own checks when a run
  builds the sink, and the numbers are those validated: the webhook's poster is built, with the
  time limit as it is and an http URL; the file writer goes on to open its file, with limits that
  are not negative and, below 2 ^ 43 megabytes, the size in bytes; the AWS publisher is built;
  Postgres' inserter fails only by an answer of the database driver and Redis' appender only by a
  URL its library refuses; and every sink's loop, given its reader and its destination, takes the
  positive delays and the probe interval unchanged. The parsing of the DSN and of the Redis URL,
  the AWS credentials, the listening address and the input are for the run to find out.\<close>

theorem validated_settings_run:
  "(webhookValidate pd w = None \<longrightarrow> (\<exists>r hp. validateWebhook pd w = Inr r \<and> NewHTTPPoster (rwPoster r) = Inr hp
        \<and> 0 < hpTimeout hp \<and> hpTimeout hp = pcTimeout (rwPoster r) \<and> is_http (hpURL hp)
        \<and> taken_as_is webhook_New (rwBackoffBase r) (rwBackoffMax r) (rwProbeInterval r)))
   \<and> (validateFile pd f = Inr rf \<longrightarrow> fw_NewWriter W (writer_config_of dir name rf) = fw_open W (writer_config_of dir name rf)
        \<and> 0 \<le> rcMaxAge (writer_config_of dir name rf) \<and> 0 \<le> rcMaxBackups (writer_config_of dir name rf)
        \<and> (flcMaxSizeMB f < 2 ^ 43 \<longrightarrow> rcMaxSize (writer_config_of dir name rf) = flcMaxSizeMB f * 1048576)
        \<and> taken_as_is file_New (rfBackoffBase rf) (rfBackoffMax rf) 0)
   \<and> (validateAWSSQS pd q a = Inr rq \<longrightarrow> NewSQSPublisher q (raFIFO rq) = Inr (trim_space q, has_suffix ''.fifo'' q)
        \<and> taken_as_is aws_New (raBackoffBase rq) (raBackoffMax rq) (raProbeInterval rq))
   \<and> (validateAWSSNS pd q a = Inr rn \<longrightarrow> NewSNSPublisher q (raFIFO rn) = Inr (trim_space q, has_suffix ''.fifo'' q)
        \<and> taken_as_is aws_New (raBackoffBase rn) (raBackoffMax rn) (raProbeInterval rn))
   \<and> (validatePostgres pd p = Inr rp \<longrightarrow>
        (isl (NewInserter db target (pgcDSN p) (rpTable rp) (pgcCreateTable p)) \<longrightarrow> (\<exists>c. db c \<noteq> None))
        \<and> taken_as_is pg_New (rpBackoffBase rp) (rpBackoffMax rp) (rpProbeInterval rp))
   \<and> (validateRedis pd d = Inr rd \<longrightarrow> (isl (NewAppender url_ok (redis_client_config rd)) \<longrightarrow> \<not> url_ok)
        \<and> 0 \<le> ccDedupTTL (redis_client_config rd) \<and> 0 \<le> ccMaxLen (redis_client_config rd)
        \<and> taken_as_is redis_New (rrBackoffBase rd) (rrBackoffMax rd) (rrProbeInterval rd))"
proof (intro conjI impI)
  show "\<exists>r hp. validateWebhook pd w = Inr r \<and> NewHTTPPoster (rwPoster r) = Inr hp
        \<and> 0 < hpTimeout hp \<and> hpTimeout hp = pcTimeout (rwPoster r) \<and> is_http (hpURL hp)
        \<and> taken_as_is webhook_New (rwBackoffBase r) (rwBackoffMax r) (rwProbeInterval r)" if "webhookValidate pd w = None"
  proof -
    from that obtain r hp where r: "validateWebhook pd w = Inr r" and hp: "NewHTTPPoster (rwPoster r) = Inr hp"
      by (auto simp: webhookValidate_def split: sum.splits)
    with validateWebhook_delays [OF r] NewHTTPPoster_keeps [OF hp] show ?thesis by (auto simp: taken_as_is_constructors)
  qed
next
  assume "validateRedis pd d = Inr rd"
  note ok = validateRedis_delays [OF this]
  show "\<not> url_ok" if "isl (NewAppender url_ok (redis_client_config rd))"
    using that ok by (auto simp: NewAppender_def redis_client_config_def split: if_splits)
  show "0 \<le> ccDedupTTL (redis_client_config rd)" "0 \<le> ccMaxLen (redis_client_config rd)"
    "taken_as_is redis_New (rrBackoffBase rd) (rrBackoffMax rd) (rrProbeInterval rd)"
    using ok by (simp_all add: redis_client_config_def taken_as_is_constructors)
next
  assume "validatePostgres pd p = Inr rp"
  note ok = validatePostgres_delays [OF this]
  show "\<exists>c. db c \<noteq> None" if "isl (NewInserter db target (pgcDSN p) (rpTable rp) (pgcCreateTable p))"
    using NewInserter_refuses [OF _ that] ok by blast
  show "taken_as_is pg_New (rpBackoffBase rp) (rpBackoffMax rp) (rpProbeInterval rp)"
    using ok by (simp add: taken_as_is_constructors)
next
  assume v: "validateAWSSQS pd q a = Inr rq"
  then have "trim_space q \<noteq> []" by (auto simp: validateAWSSQS_def validate_aws_def split: if_splits)
  with v validate_aws_delays show "NewSQSPublisher q (raFIFO rq) = Inr (trim_space q, has_suffix ''.fifo'' q)"
    "taken_as_is aws_New (raBackoffBase rq) (raBackoffMax rq) (raProbeInterval rq)"
    by (auto simp: NewSQSPublisher_def validateAWSSQS_def taken_as_is_constructors)
next
  assume v: "validateAWSSNS pd q a = Inr rn"
  then have "trim_space q \<noteq> []" by (auto simp: validateAWSSNS_def validate_aws_def split: if_splits)
  with v validate_aws_delays show "NewSNSPublisher q (raFIFO rn) = Inr (trim_space q, has_suffix ''.fifo'' q)"
    "taken_as_is aws_New (raBackoffBase rn) (raBackoffMax rn) (raProbeInterval rn)"
    by (auto simp: NewSNSPublisher_def validateAWSSNS_def taken_as_is_constructors)
next
  assume v: "validateFile pd f = Inr rf"
  show "taken_as_is file_New (rfBackoffBase rf) (rfBackoffMax rf) 0"
    using validateFile_delays [OF v] by (simp add: taken_as_is_constructors)
qed (simp_all add: validateFile_writer)

definition demo_redis :: RedisConfig where
  "demo_redis = \<lparr> rdcURL = ''redis://h'', rdcStream = '' s '', rdcField = [], rdcMaxLen = 0, rdcDedup = None, rdcDedupTTL = ''off'', rdcBackoffBase = [],
     rdcBackoffMax = [], rdcReadinessProbeInterval = ''0'', rdcMetrics = \<lparr> mcEnabled = None, mcAddr = [], mcPath = [] \<rparr> \<rparr>"

definition demo_webhook :: WebhookConfig where
  "demo_webhook = \<lparr> whURL = '' https://h/x'', whMethod = ''put'', whHeaders = [], whTimeout = [], whBackoffBase = [], whBackoffMax = [],
     whHealthURL = [], whReadinessProbeInterval = [], whAuthHeader = [], whAuthValue = [],
     whFilters = \<lparr> flIncludeTypes = [], flExcludeTypes = [], flIncludeNames = [], flExcludeNames = [] \<rparr>, whField = None,
     whMetrics = \<lparr> mcEnabled = None, mcAddr = [], mcPath = [] \<rparr> \<rparr>"

lemma validated_settings_run_witness:
  "(\<exists>r. validateRedis (\<lambda>_. Inl []) demo_redis = Inr r \<and> rrStream r = ''s'' \<and> taken_as_is redis_New (rrBackoffBase r) (rrBackoffMax r) (rrProbeInterval r))
   \<and> (\<exists>r hp. validateWebhook (\<lambda>_. Inl []) demo_webhook = Inr r \<and> NewHTTPPoster (rwPoster r) = Inr hp \<and> 0 < hpTimeout hp)"
proof
  have "case validateRedis (\<lambda>_. Inl []) demo_redis of Inl _ \<Rightarrow> False | Inr r \<Rightarrow> rrStream r = ''s''" by code_simp
  then obtain r where r: "validateRedis (\<lambda>_. Inl []) demo_redis = Inr r" "rrStream r = ''s''" by (auto split: sum.splits)
  with validated_settings_run [of "\<lambda>_. Inl []" _ _ _ _ _ _ _ _ _ _ _ _ _ _ demo_redis r]
  show "\<exists>r. validateRedis (\<lambda>_. Inl []) demo_redis = Inr r \<and> rrStream r = ''s'' \<and> taken_as_is redis_New (rrBackoffBase r) (rrBackoffMax r) (rrProbeInterval r)"
    by blast
  have "webhookValidate (\<lambda>_. Inl []) demo_webhook = None" by code_simp
  with validated_settings_run [of "\<lambda>_. Inl []" demo_webhook]
  show "\<exists>r hp. validateWebhook (\<lambda>_. Inl []) demo_webhook = Inr r \<and> NewHTTPPoster (rwPoster r) = Inr hp \<and> 0 < hpTimeout hp"
    by blast
qed

section \<open>The producers\<close>

record StreamConfig =
  stcFromBlock :: string
  stcPollInterval :: string
  stcLogChunkBlocks :: int
  stcReorgDepth :: int
  stcHeadStalenessThreshold :: string
  stcCheckpointFile :: string
  stcMetrics :: MetricsConfig
  stcContracts :: "stream_contract list"
  stcNativeTransfers :: native_config

text \<open>The flags of evm-stream: the switches and the events with whether the user set them.\<close>

record stream_flags =
  sfNativeTransfers :: "bool option"
  sfIncludeInternal :: "bool option"
  sfContracts :: "string list"
  sfEvents :: "string list"
  sfEventsChanged :: bool

fun add_contracts :: "string list \<Rightarrow> string list \<Rightarrow> stream_contract list \<Rightarrow> stream_contract list" where
  "add_contracts events [] cs = cs"
| "add_contracts events (a # as) cs =
     (let addr = trim_space a in
      add_contracts events as
        (if addr = [] then cs
         else cs @ [\<lparr> scName = addr, scAddress = addr, scEvents = events, scABI = [], scABIFile = [], scSignatures = [] \<rparr>]))"

definition applyStreamFlags :: "stream_flags \<Rightarrow> StreamConfig \<Rightarrow> string + StreamConfig" where
  "applyStreamFlags f cfg =
     (let n = stcNativeTransfers cfg;
          n1 = (case sfNativeTransfers f of Some b \<Rightarrow> n\<lparr>ncEnabled := b\<rparr> | None \<Rightarrow> n);
          n2 = (case sfIncludeInternal f of Some b \<Rightarrow> n1\<lparr>ncIncludeInternal := b\<rparr> | None \<Rightarrow> n1) in
      if sfEventsChanged f \<and> sfContracts f = [] then Inl ''--events requires at least one --contract''
      else
        (let events = (if sfEvents f = [] then [''Transfer''] else sfEvents f) in
         Inr (cfg\<lparr>stcNativeTransfers := n2, stcContracts := add_contracts events (sfContracts f) (stcContracts cfg)\<rparr>)))"

definition validateStream :: "duration_parser \<Rightarrow> Shared \<Rightarrow> StreamConfig \<Rightarrow> string option" where
  "validateStream pd sh cfg =
     (if rpcURL (shRPC sh) = [] then Some ''rpc.url is required''
      else if stcLogChunkBlocks cfg \<le> 0 then Some (''stream.log_chunk_blocks must be positive (got '' @ show_int (stcLogChunkBlocks cfg) @ '')'')
      else
        (case pd (stcPollInterval cfg) of
           Inl e \<Rightarrow> Some (''invalid stream.poll_interval '' @ stcPollInterval cfg @ '': '' @ e)
         | Inr _ \<Rightarrow>
             (case ValidateFromBlock (stcFromBlock cfg) of
                Some e \<Rightarrow> Some e
              | None \<Rightarrow>
                  if stcReorgDepth cfg < 0 then Some (''stream.reorg_depth must be >= 0 (got '' @ show_int (stcReorgDepth cfg) @ ''; 0 disables reorg handling)'')
                  else
                    (case parseDisableableDuration pd (stcHeadStalenessThreshold cfg) ''stream.head_staleness_threshold'' of
                       Inl e \<Rightarrow> Some e
                     | Inr _ \<Rightarrow>
                         if stcContracts cfg = [] \<and> \<not> ncEnabled (stcNativeTransfers cfg) then Some ''nothing to monitor''
                         else if ncIncludeInternal (stcNativeTransfers cfg) \<and> \<not> ncEnabled (stcNativeTransfers cfg) then
                           Some ''native_transfers.include_internal requires native_transfers.enabled''
                         else None))))"

text \<open>The options of the stream in \<^verbatim>\<open>streamRun\<close>: the integers are converted as they are.\<close>

definition stream_options_of :: "string \<Rightarrow> int \<Rightarrow> StreamConfig \<Rightarrow> options" where
  "stream_options_of chainName chainID cfg =
     \<lparr> oChainName = chainName, oChainID = chainID, oLogChunkBlocks = word_of_int (stcLogChunkBlocks cfg), oFromBlock = stcFromBlock cfg,
       oReorgDepth = word_of_int (stcReorgDepth cfg), oCheckpoint = (trim_space (stcCheckpointFile cfg) \<noteq> []) \<rparr>"

text \<open>A reload: the decoded settings, with the flags; what is staged, or the reason the running set is kept.\<close>

definition reloadStreamWatchSet :: "(stream_contract list \<Rightarrow> string + resolved_contract list) \<Rightarrow> stream_flags \<Rightarrow> string + StreamConfig
    \<Rightarrow> string + resolved_contract list \<times> native_filter" where
  "reloadStreamWatchSet resolve_contracts f decoded =
     (case decoded of Inl e \<Rightarrow> Inl e | Inr cfg0 \<Rightarrow>
     (case applyStreamFlags f cfg0 of Inl e \<Rightarrow> Inl e | Inr cfg \<Rightarrow>
     (case resolve_contracts (stcContracts cfg) of Inl e \<Rightarrow> Inl e | Inr cs \<Rightarrow>
        Inr (cs, NativeFilterFromConfig (stcNativeTransfers cfg)))))"

lemma add_contracts_append:
  "add_contracts events as cs = cs @ map (\<lambda>a. \<lparr> scName = a, scAddress = a, scEvents = events, scABI = [], scABIFile = [], scSignatures = [] \<rparr>)
     (filter (\<lambda>a. a \<noteq> []) (map trim_space as))"
  by (induction events as cs rule: add_contracts.induct) (auto simp: Let_def)


text \<open>
C39: A validated producer starts: with settings that validate accepts, resolving the start height fails only when
  the node does not answer, the log ranges are not empty, and there is something to monitor.\<close>

theorem validated_stream_starts:
  assumes "validateStream pd sh cfg = None" and "stcLogChunkBlocks cfg < 2 ^ 63"
  shows "(run_state (configured_start W (stream_options_of chain chainID cfg)) s = (Inl e, s') \<longrightarrow> (\<exists>r. e = RpcErr r))
    \<and> 0 < oLogChunkBlocks (stream_options_of chain chainID cfg)
    \<and> (stcContracts cfg \<noteq> [] \<or> nfEnabled (NativeFilterFromConfig (stcNativeTransfers cfg)))"
proof -
  have v: "0 < stcLogChunkBlocks cfg" "ValidateFromBlock (stcFromBlock cfg) = None" "stcContracts cfg \<noteq> [] \<or> ncEnabled (stcNativeTransfers cfg)"
    using assms(1) by (auto simp: validateStream_def split: if_splits sum.splits option.splits)
  have "stcContracts cfg \<noteq> [] \<or> nfEnabled (NativeFilterFromConfig (stcNativeTransfers cfg))"
    using v(3) by (simp add: NativeFilterFromConfig_def)
  moreover have "uint (word_of_int (stcLogChunkBlocks cfg) :: u64) = stcLogChunkBlocks cfg"
    using v(1) assms(2) by (simp add: uint_word_of_int_eq take_bit_int_eq_self)
  then have "0 < oLogChunkBlocks (stream_options_of chain chainID cfg)"
    using v(1) by (simp add: stream_options_of_def word_less_def)
  moreover have "run_state (configured_start W (stream_options_of chain chainID cfg)) s = (Inl e, s') \<longrightarrow> (\<exists>r. e = RpcErr r)"
    using v(2) by (auto simp: configured_start_def ValidateFromBlock_def stream_options_of_def Let_def client_BlockNumber_def run_simps
        split: if_splits option.splits sum.splits prod.splits)
  ultimately show ?thesis by blast
qed

text \<open>
  What validation leaves open: it only parses the poll interval. A positive one is accepted by the
  stream's constructor with everything else validated; zero or less passes the command validate
  and is refused when the stream is run.
\<close>

lemma validated_stream_new:
  assumes "validateStream pd sh cfg = None" and "stcLogChunkBlocks cfg < 2 ^ 63"
  shows "stream_New True True poll (stream_options_of chain chainID cfg) cs nf
    = (if poll \<le> 0 then Inl ''stream: poll_interval must be positive'' else Inr (new_stream (stream_options_of chain chainID cfg) cs nf))"
proof -
  have "0 < stcLogChunkBlocks cfg" using assms(1) by (auto simp: validateStream_def split: if_splits)
  then have "uint (word_of_int (stcLogChunkBlocks cfg) :: u64) \<noteq> 0"
    using assms(2) by (simp add: uint_word_of_int_eq take_bit_int_eq_self)
  then have "oLogChunkBlocks (stream_options_of chain chainID cfg) \<noteq> 0" by (auto simp: stream_options_of_def)
  then show ?thesis by (simp add: stream_New_def)
qed

definition demo_stream :: StreamConfig where
  "demo_stream = \<lparr> stcFromBlock = '' 17 '', stcPollInterval = ''2s'', stcLogChunkBlocks = 2000, stcReorgDepth = 64, stcHeadStalenessThreshold = [],
     stcCheckpointFile = [], stcMetrics = \<lparr> mcEnabled = None, mcAddr = [], mcPath = [] \<rparr>, stcContracts = [],
     stcNativeTransfers = \<lparr> ncEnabled = True, ncIncludeInternal = False, ncFrom = [], ncTo = [] \<rparr> \<rparr>"

definition demo_shared :: Shared where
  "demo_shared = \<lparr> shChain = [], shRPC = \<lparr> rpcURL = ''http://n'', rpcClientCert = [], rpcClientKey = [], rpcCACert = [], rpcServerName = [],
     rpcRequireMTLS = False \<rparr>, shMetrics = \<lparr> mcEnabled = None, mcAddr = [], mcPath = [] \<rparr>, shLog = \<lparr> lcLevel = [], lcFormat = [] \<rparr>,
     shOutput = [], shInput = [], shDeadLetterFile = [], shAllowExec = False \<rparr>"

lemma validated_stream_starts_witness:
  "validateStream (\<lambda>_. Inr 2000000000) demo_shared demo_stream = None \<and> 0 < oLogChunkBlocks (stream_options_of ''c'' 1 demo_stream)"
proof -
  have v: "validateStream (\<lambda>_. Inr 2000000000) demo_shared demo_stream = None" by code_simp
  from validated_stream_starts [OF v] v show ?thesis by (simp add: demo_stream_def)
qed

text \<open>
A reload takes what a start refuses. Settings from which every contract was removed, and in which native
  transfers are off, are refused by validate and by run; on a reload they are staged, and the running
  process goes on, monitoring nothing.\<close>

theorem reload_stages_nothing_to_monitor:
  assumes "stcContracts cfg = []" and "\<not> ncEnabled (stcNativeTransfers cfg)"
    and "sfNativeTransfers f = None" and "sfContracts f = []" and "\<not> sfEventsChanged f" and "resolve_contracts [] = Inr []"
  shows "\<exists>cfg' nf. applyStreamFlags f cfg = Inr cfg' \<and> validateStream pd sh cfg' \<noteq> None
    \<and> reloadStreamWatchSet resolve_contracts f (Inr cfg) = Inr ([], nf) \<and> \<not> nfEnabled nf"
proof -
  obtain cfg' where c: "applyStreamFlags f cfg = Inr cfg'" "stcContracts cfg' = []" "\<not> ncEnabled (stcNativeTransfers cfg')"
    using assms(1-5) by (cases "sfIncludeInternal f") (auto simp: applyStreamFlags_def)
  then have "validateStream pd sh cfg' \<noteq> None" by (auto simp: validateStream_def split: sum.split option.split)
  with c assms(6) show ?thesis by (simp add: reloadStreamWatchSet_def NativeFilterFromConfig_def)
qed

definition no_flags :: stream_flags where
  "no_flags = \<lparr> sfNativeTransfers = None, sfIncludeInternal = None, sfContracts = [], sfEvents = [], sfEventsChanged = False \<rparr>"

definition emptied_stream :: StreamConfig where
  "emptied_stream = demo_stream\<lparr>stcNativeTransfers := \<lparr> ncEnabled = False, ncIncludeInternal = False, ncFrom = [], ncTo = [] \<rparr>\<rparr>"

lemma reload_stages_nothing_to_monitor_witness:
  "\<exists>nf. reloadStreamWatchSet (\<lambda>_. Inr []) no_flags (Inr emptied_stream) = Inr ([], nf) \<and> \<not> nfEnabled nf"
proof -
  have "stcContracts emptied_stream = []" "\<not> ncEnabled (stcNativeTransfers emptied_stream)" "sfNativeTransfers no_flags = None"
    "sfContracts no_flags = []" "\<not> sfEventsChanged no_flags" by (simp_all add: emptied_stream_def demo_stream_def no_flags_def)
  from reload_stages_nothing_to_monitor [OF this, of "\<lambda>_. Inr []"] show ?thesis by blast
qed

subsection \<open>evm-balance\<close>

record balance_settings =
  bsConfig :: balance_config
  bsMaxConcurrency :: int
  bsTargetTimeout :: string
  bsHeadStalenessThreshold :: string
  bsMetrics :: MetricsConfig

fun add_natives :: "string list \<Rightarrow> native_target list \<Rightarrow> native_target list" where
  "add_natives [] ts = ts"
| "add_natives (a # as) ts =
     (let addr = trim_space a in add_natives as (if addr = [] then ts else ts @ [\<lparr> nttName = addr, nttAddress = addr \<rparr>]))"

fun add_erc20s :: "string list \<Rightarrow> erc20_target list \<Rightarrow> string + erc20_target list" where
  "add_erc20s [] ts = Inr ts"
| "add_erc20s (p # ps) ts =
     (let pair = trim_space p in
      if pair = [] then add_erc20s ps ts
      else
        (let (token, holder) = (case split_on CHR '':'' pair of [t, h] \<Rightarrow> (trim_space t, trim_space h) | _ \<Rightarrow> ([], [])) in
         if token = [] \<or> holder = [] then Inl (''--erc20 '' @ pair @ '' must be token:holder'')
         else add_erc20s ps (ts @ [\<lparr> ettName = pair, ettToken = token, ettAddress = holder, ettDecimals = None \<rparr>])))"

definition applyBalanceFlags :: "string list \<Rightarrow> string list \<Rightarrow> balance_settings \<Rightarrow> string + balance_settings" where
  "applyBalanceFlags natives erc20s bs =
     (let cfg = (bsConfig bs)\<lparr>bcNative := add_natives natives (bcNative (bsConfig bs))\<rparr> in
      case add_erc20s erc20s (bcERC20 cfg) of
        Inl e \<Rightarrow> Inl e
      | Inr ts \<Rightarrow> Inr (bs\<lparr>bsConfig := cfg\<lparr>bcERC20 := ts\<rparr>\<rparr>))"

definition validateBalance :: "duration_parser \<Rightarrow> Shared \<Rightarrow> balance_settings \<Rightarrow> string + resolved" where
  "validateBalance pd sh bs =
     (if rpcURL (shRPC sh) = [] then Inl ''rpc.url is required''
      else if bsMaxConcurrency bs < 0 then Inl (''balance.max_concurrency must be >= 0 (got '' @ show_int (bsMaxConcurrency bs) @ ''; 0 uses the built-in default)'')
      else
        (case parseDisableableDuration pd (bsTargetTimeout bs) ''balance.target_timeout'' of Inl e \<Rightarrow> Inl e | Inr _ \<Rightarrow>
        (case parseDisableableDuration pd (bsHeadStalenessThreshold bs) ''balance.head_staleness_threshold'' of Inl e \<Rightarrow> Inl e | Inr _ \<Rightarrow>
           map_sum (\<lambda>e. ''resolve balance config: '' @ e) id (Resolve pd (bsConfig bs)))))"

text \<open>A reload: what is staged, or the reason the running set is kept.\<close>

definition reloadBalanceTargets :: "duration_parser \<Rightarrow> string list \<Rightarrow> string list \<Rightarrow> string + balance_settings \<Rightarrow> string + resolved" where
  "reloadBalanceTargets pd natives erc20s decoded =
     (case decoded of Inl e \<Rightarrow> Inl e | Inr bs0 \<Rightarrow>
     (case applyBalanceFlags natives erc20s bs0 of Inl e \<Rightarrow> Inl e | Inr bs \<Rightarrow>
     (case Resolve pd (bsConfig bs) of Inl e \<Rightarrow> Inl e | Inr r \<Rightarrow>
        if length (rsvNative r) + length (rsvERC20 r) + length (rsvContracts r) + length (rsvERC721Balances r) + length (rsvERC721Ownership r) = 0
        then Inl ''reloaded config has no targets to poll'' else Inr r)))"

text \<open>A pair written on the command line names the target it says; what a reload stages is never empty.\<close>

lemma erc20_flag_reads_back:
  assumes "t \<noteq> []" "h \<noteq> []" "trim_space t = t" "trim_space h = h" "CHR '':'' \<notin> set (t @ h)" "trim_space (t @ '':'' @ h) = t @ '':'' @ h"
  shows "add_erc20s [t @ '':'' @ h] ts = Inr (ts @ [\<lparr> ettName = t @ '':'' @ h, ettToken = t, ettAddress = h, ettDecimals = None \<rparr>])"
  using assms split_on_append [of "CHR '':''" t h] by (simp add: split_on_no_sep)

lemma reload_never_empties:
  "reloadBalanceTargets pd natives erc20s decoded = Inr r \<Longrightarrow>
     rsvNative r \<noteq> [] \<or> rsvERC20 r \<noteq> [] \<or> rsvContracts r \<noteq> [] \<or> rsvERC721Balances r \<noteq> [] \<or> rsvERC721Ownership r \<noteq> []"
  by (auto simp: reloadBalanceTargets_def split: sum.splits if_splits)

section \<open>Checking the node\<close>

record checkResult =
  crOK :: bool
  crEndpoint :: string
  crChainID :: int
  crBlockNumber :: int
  crError :: string
  crErrorType :: string
  crTraceSupported :: "bool option"
  crTraceBackend :: string
  crTraceError :: string

text \<open>The answers of the node: to the cheap block-level trace and to the parity one, as errors; \<open>text\<close> shows an error.\<close>

definition probeTraceSupport :: "(rpc_error \<Rightarrow> string) \<Rightarrow> rpc_error option \<Rightarrow> rpc_error option \<Rightarrow> checkResult \<Rightarrow> checkResult" where
  "probeTraceSupport text block parity res =
     (case block of
        None \<Rightarrow> res\<lparr>crTraceSupported := Some True, crTraceBackend := ''debug_traceBlockByNumber''\<rparr>
      | Some e \<Rightarrow>
          if \<not> IsMethodUnsupported e then res\<lparr>crTraceError := text e\<rparr>
          else
            (case parity of
               None \<Rightarrow> res\<lparr>crTraceSupported := Some True, crTraceBackend := ''trace_block''\<rparr>
             | Some e2 \<Rightarrow>
                 if \<not> IsMethodUnsupported e2 then res\<lparr>crTraceError := text e2\<rparr>
                 else res\<lparr>crTraceSupported := Some False\<rparr>))"

text \<open>\<open>client\<close> is the constructor's error; \<open>classify\<close> names the class of an error. The result, and the command's error.\<close>

definition runCheckRPC :: "(rpc_error \<Rightarrow> string) \<Rightarrow> (rpc_error \<Rightarrow> string) \<Rightarrow> string \<Rightarrow> string option \<Rightarrow> rpc_error + int \<Rightarrow> rpc_error + int
    \<Rightarrow> (rpc_error option \<times> rpc_error option) option \<Rightarrow> checkResult \<times> string option" where
  "runCheckRPC text classify endpoint client chainID blockNum probe =
     (let res0 = \<lparr> crOK = False, crEndpoint = endpoint, crChainID = 0, crBlockNumber = 0, crError = [], crErrorType = [],
                   crTraceSupported = None, crTraceBackend = [], crTraceError = [] \<rparr>;
          failed = (\<lambda>res. (res, Some (''rpc check failed: '' @ endpoint))) in
      case client of
        Some e \<Rightarrow> failed (res0\<lparr>crError := e\<rparr>)
      | None \<Rightarrow>
          (case chainID of
             Inl e \<Rightarrow> failed (res0\<lparr>crError := text e, crErrorType := classify e\<rparr>)
           | Inr cid \<Rightarrow>
               (case blockNum of
                  Inl e \<Rightarrow> failed (res0\<lparr>crChainID := cid, crError := text e, crErrorType := classify e\<rparr>)
                | Inr b \<Rightarrow>
                    let res = res0\<lparr>crChainID := cid, crBlockNumber := b, crOK := True\<rparr> in
                    (case probe of None \<Rightarrow> (res, None) | Some (blk, parity) \<Rightarrow> (probeTraceSupport text blk parity res, None)))))"

text \<open>
  A check that succeeds prints the node's own chain and height; that traces are supported it prints
  exactly when one of the two probed backends answered, with the name of the one that did, and that
  they are not exactly when both rejected the method - which a node serving only single
  transactions does as well, though a run can use it.\<close>

lemma check_rpc_reports:
  assumes "runCheckRPC text classify endpoint client chainID blockNum probe = (res, None)"
  shows "client = None \<and> chainID = Inr (crChainID res) \<and> blockNum = Inr (crBlockNumber res) \<and> crOK res"
    and "crTraceSupported res = Some True \<longleftrightarrow>
      (\<exists>blk parity. probe = Some (blk, parity) \<and>
        (blk = None \<and> crTraceBackend res = ''debug_traceBlockByNumber''
         \<or> (\<exists>e. blk = Some e \<and> IsMethodUnsupported e) \<and> parity = None \<and> crTraceBackend res = ''trace_block''))"
    and "crTraceSupported res = Some False \<longleftrightarrow>
      (\<exists>e1 e2. probe = Some (Some e1, Some e2) \<and> IsMethodUnsupported e1 \<and> IsMethodUnsupported e2)"
  using assms by (auto simp: runCheckRPC_def probeTraceSupport_def Let_def split: option.splits sum.splits if_splits)

lemma check_rpc_failed:
  "runCheckRPC text classify endpoint client chainID blockNum probe = (res, Some e) \<Longrightarrow>
     \<not> crOK res \<and> (client \<noteq> None \<or> isl chainID \<or> isl blockNum) \<and> crTraceSupported res = None"
  by (auto simp: runCheckRPC_def Let_def split: option.splits sum.splits)

end
