(* ===== verification/Health.thy ===== *)
theory Health
  imports Sinks FileSink Polling ChangeChain Json
begin

text \<open>
  Liveness and readiness (\<^verbatim>\<open>internal/metrics/server.go\<close>, the health adapters of the sinks and the
  write watchdog of the producers' \<^verbatim>\<open>helpers.go\<close>). \<^verbatim>\<open>Health\<close> is the record \<open>health\<close>; what the loops of
  the producers and of the sinks tell it is read off their histories. Durations are nanoseconds,
  clocks count nanoseconds since the epoch.
\<close>

section \<open>Health\<close>

record health =
  hlLive :: bool
  hlReachable :: bool
  hlEmitBlockedMillis :: int
  hlLag :: u64
  hlHeadUnixMillis :: int
  hlHeadKnown :: bool
  hlEmitBlockedThreshold :: int
  hlLagThreshold :: u64
  hlHeadStalenessThreshold :: int

definition NewHealth :: "int \<Rightarrow> u64 \<Rightarrow> health" where
  "NewHealth emitBlockedThreshold lagThreshold =
     \<lparr> hlLive = True, hlReachable = False, hlEmitBlockedMillis = 0, hlLag = 0, hlHeadUnixMillis = 0, hlHeadKnown = False,
       hlEmitBlockedThreshold = emitBlockedThreshold, hlLagThreshold = lagThreshold, hlHeadStalenessThreshold = 0 \<rparr>"

definition SetHeadStalenessThreshold :: "int \<Rightarrow> health \<Rightarrow> health" where
  "SetHeadStalenessThreshold d H = H\<lparr>hlHeadStalenessThreshold := d\<rparr>"

text \<open>\<^verbatim>\<open>Duration.Milliseconds\<close> rounds towards zero; \<^verbatim>\<open>Time.Sub\<close> saturates.\<close>

definition milliseconds :: "int \<Rightarrow> int" where
  "milliseconds d = (if d < 0 then - ((- d) div millisecond) else d div millisecond)"

definition time_sub :: "int \<Rightarrow> int \<Rightarrow> int" where
  "time_sub a b = max (- (2 ^ 63)) (min (2 ^ 63 - 1) (a - b))"

text \<open>What the rest of the program tells it; the time of a block is in seconds.\<close>

datatype health_call =
    SetLive bool
  | SetRPCReachable bool
  | SetEmitBlocked int
  | SetLag u64
  | SetHeadTime int

primrec health_apply :: "health_call \<Rightarrow> health \<Rightarrow> health" where
  "health_apply (SetLive v) H = H\<lparr>hlLive := v\<rparr>"
| "health_apply (SetRPCReachable v) H = H\<lparr>hlReachable := v\<rparr>"
| "health_apply (SetEmitBlocked d) H = H\<lparr>hlEmitBlockedMillis := milliseconds d\<rparr>"
| "health_apply (SetLag n) H = H\<lparr>hlLag := n\<rparr>"
| "health_apply (SetHeadTime t) H = H\<lparr>hlHeadUnixMillis := wrap64 (t * 1000), hlHeadKnown := True\<rparr>"

abbreviation told :: "health_call list \<Rightarrow> health \<Rightarrow> health" where
  "told \<equiv> fold health_apply"

text \<open>The reason not to be ready at an instant of the wall clock; \<open>None\<close> when ready.\<close>

definition readyReason :: "int \<Rightarrow> health \<Rightarrow> string option" where
  "readyReason now H =
     (if \<not> hlLive H then Some ''process not live''
      else if \<not> hlReachable H then Some ''rpc unreachable''
      else if 0 < hlEmitBlockedThreshold H \<and> hlEmitBlockedThreshold H \<le> wrap64 (hlEmitBlockedMillis H * millisecond) then
        Some ''record write blocked beyond threshold''
      else if 0 < hlLagThreshold H \<and> hlLagThreshold H < hlLag H then Some ''lag beyond threshold''
      else if 0 < hlHeadStalenessThreshold H \<and> hlHeadKnown H
          \<and> hlHeadStalenessThreshold H \<le> time_sub now (hlHeadUnixMillis H * millisecond) then
        Some ''chain head stale (no new block within threshold)''
      else None)"

text \<open>The thresholds of the producers; a sink has no lag.\<close>

definition readyEmitBlockedThreshold :: int where "readyEmitBlockedThreshold = 30 * second"
definition readyLagThreshold :: u64 where "readyLagThreshold = 5000"

definition NewSinkHealth :: "health \<Rightarrow> health" where
  "NewSinkHealth H = health_apply (SetRPCReachable True) H"

definition sink_health :: health where
  "sink_health = NewSinkHealth (NewHealth readyEmitBlockedThreshold 0)"

definition producer_health :: "int \<Rightarrow> health" where
  "producer_health staleness =
     health_apply (SetRPCReachable True) (SetHeadStalenessThreshold staleness (NewHealth readyEmitBlockedThreshold readyLagThreshold))"

section \<open>The server\<close>

text \<open>What an answer carries: the status and the body, or the page of the metrics.\<close>

datatype health_answer = Answer nat string | MetricsPage | NotFound

definition writeStatus :: "nat \<Rightarrow> string \<Rightarrow> health_answer" where
  "writeStatus code msg = Answer code (encode_json False (JObj [(''status'', JStr msg)]) @ [CHR 0x0A])"

datatype handler = Healthz | Readyz | MetricsHandler

text \<open>The router of \<^verbatim>\<open>net/http\<close> for patterns without a method or wildcards: a pattern must hold a slash, and
registering one twice panics. A request takes the pattern that is its path, or else the longest one
that ends in a slash and is a prefix of it.\<close>

type_synonym mux = "(string \<times> handler) list"

definition mux_Handle :: "string \<Rightarrow> handler \<Rightarrow> mux \<Rightarrow> string + mux" where
  "mux_Handle pat h m =
     (if pat = [] then Inl ''http: invalid pattern''
      else if CHR ''/'' \<notin> set pat then Inl (''parsing '' @ pat @ '': host/path missing /'')
      else if pat \<in> set (map fst m) then Inl (''pattern '' @ pat @ '' conflicts with pattern '' @ pat)
      else Inr ((pat, h) # m))"

fun longest :: "mux \<Rightarrow> (string \<times> handler) option" where
  "longest [] = None"
| "longest (r # m) = (case longest m of None \<Rightarrow> Some r | Some b \<Rightarrow> Some (if length (fst b) \<le> length (fst r) then r else b))"

definition mux_route :: "mux \<Rightarrow> string \<Rightarrow> handler option" where
  "mux_route m path =
     (case map_of m path of
        Some h \<Rightarrow> Some h
      | None \<Rightarrow> map_option snd (longest (filter (\<lambda>(pat, _). has_suffix ''/'' pat \<and> has_prefix pat path) m)))"

record server_options =
  svAddr :: string
  svMetricsEnabled :: bool
  svMetricsPath :: string
  svRegistry :: bool
  svHealth :: bool

datatype server_result = ServerPanic string | ServerError string | ServerOf mux

text \<open>\<open>listen\<close> is the error of binding the address.\<close>

definition NewServer :: "(string \<Rightarrow> string option) \<Rightarrow> server_options \<Rightarrow> server_result" where
  "NewServer listen opts =
     (if \<not> svHealth opts then ServerError ''metrics: server requires a Health''
      else
        (let path = (if svMetricsPath opts = [] then ''/metrics'' else svMetricsPath opts) in
         if svMetricsEnabled opts \<and> \<not> svRegistry opts then ServerError ''metrics: server requires a Registry when metrics are enabled''
         else
           (case (let m = [(''/readyz'', Readyz), (''/healthz'', Healthz)] in if svMetricsEnabled opts then mux_Handle path MetricsHandler m else Inr m) of
              Inl p \<Rightarrow> ServerPanic p
            | Inr m \<Rightarrow>
                (case listen (svAddr opts) of
                   Some e \<Rightarrow> ServerError (''metrics: listen on '' @ svAddr opts @ '': '' @ e)
                 | None \<Rightarrow> ServerOf m))))"

definition serve :: "mux \<Rightarrow> int \<Rightarrow> health \<Rightarrow> string \<Rightarrow> health_answer" where
  "serve m now H path =
     (case mux_route m path of
        None \<Rightarrow> NotFound
      | Some MetricsHandler \<Rightarrow> MetricsPage
      | Some Healthz \<Rightarrow> if hlLive H then writeStatus 200 ''ok'' else writeStatus 503 ''not live''
      | Some Readyz \<Rightarrow>
          (case readyReason now H of None \<Rightarrow> writeStatus 200 ''ready'' | Some reason \<Rightarrow> writeStatus 503 reason))"

lemma served_health:
  assumes "NewServer listen opts = ServerOf m"
  shows "mux_route m ''/healthz'' = Some Healthz \<and> mux_route m ''/readyz'' = Some Readyz"
  using assms by (auto simp: NewServer_def mux_Handle_def mux_route_def Let_def split: if_splits option.splits)

section \<open>What a sink tells\<close>

primrec sink_calls :: "('m, 'e) sink_event \<Rightarrow> health_call list" where
  "sink_calls (Read r) = []"
| "sink_calls (Attempt m e) = []"
| "sink_calls Consumed = []"
| "sink_calls FilteredOut = []"
| "sink_calls (Delivered t) = []"
| "sink_calls (FailedAs c) = []"
| "sink_calls Retried = []"
| "sink_calls (BackoffSeconds d) = []"
| "sink_calls (Blocked b) = []"
| "sink_calls (ConsecutiveFailures n) = []"
| "sink_calls (Reachable b) = [SetRPCReachable b]"
| "sink_calls (EmitBlocked d) = [SetEmitBlocked d]"
| "sink_calls (SleptFor d b) = []"
| "sink_calls (Probed e) = []"

definition sink_shown :: "health \<Rightarrow> ('m, 'e) sink_hist \<Rightarrow> health" where
  "sink_shown H h = told (concat (map sink_calls h)) H"

lemma sink_shown_simps [simp]:
  "sink_shown H [] = H" "sink_shown H (a @ b) = sink_shown (sink_shown H a) b"
  "sink_shown H (x # h) = sink_shown (told (sink_calls x) H) h"
  by (simp_all add: sink_shown_def)

text \<open>Between two records nothing is reported that stands against being ready.\<close>

definition untroubled :: "health \<Rightarrow> bool" where
  "untroubled H \<longleftrightarrow> hlReachable H \<and> hlEmitBlockedMillis H = 0"

context retry_loop
begin

lemma readiness:
  "run_state (loop fuel W attempt since m) h = (r, h') \<Longrightarrow> (attempt = 0 \<longrightarrow> hlEmitBlockedMillis (sink_shown H h) = 0) \<Longrightarrow>
     (r = Inr True \<longrightarrow> untroubled (sink_shown H h'))
     \<and> (r = Inl StillRetrying \<and> (0 < fuel \<or> \<not> hlReachable (sink_shown H h)) \<longrightarrow> \<not> hlReachable (sink_shown H h'))"
proof (induction fuel arbitrary: attempt since h)
  case 0
  then show ?case by (auto simp: no_fuel)
next
  case (Suc fuel)
  show ?case
  proof (cases "skCancelled W h")
    case True
    with Suc.prems show ?thesis by (auto simp: one_turn run_simps)
  next
    case nc: False
    show ?thesis
    proof (cases "skSend W h m")
      case None
      with nc Suc.prems show ?thesis
        by (cases "attempt = 0") (auto simp: one_turn run_simps clears untroubled_def milliseconds_def)
    next
      case (Some e)
      let ?s = "case since of None \<Rightarrow> skNow W h | Some b \<Rightarrow> b"
      let ?h1 = "h @ [Attempt m (Some e)]"
      show ?thesis
      proof (cases "rechecks \<and> skCancelled W ?h1 \<or> classify e = ClassPermanent")
        case True
        have "r = Inr False \<or> r = Inl (PermanentFailure e)"
        proof (cases "rechecks \<and> skCancelled W ?h1")
          case True
          with Some nc Suc.prems(1) show ?thesis by (simp add: one_turn run_simps)
        next
          case False
          with True Some nc Suc.prems(1) show ?thesis by (cases rechecks) (simp_all add: one_turn run_simps clears)
        qed
        then show ?thesis by auto
      next
        case go: False
        let ?pre = "[FailedAs (classify e), Blocked True, ConsecutiveFailures (attempt + 1), Retried, Reachable False,
          EmitBlocked (skNow W (?h1 @ [FailedAs (classify e)]) - ?s)]"
        let ?d = "delay (skRand W (?h1 @ ?pre)) (attempt + 1)"
        let ?h2 = "?h1 @ ?pre @ [BackoffSeconds ?d]"
        let ?b = "if ?d \<le> 0 then \<not> skCancelled W ?h2 else skSleep W ?h2"
        let ?h3 = "?h2 @ (if ?d \<le> 0 then [] else [SleptFor ?d ?b])"
        obtain b h3 where run: "run_state (loop (Suc fuel) W attempt since m) h =
             (if b then run_state (loop fuel W (attempt + 1) (Some ?s) m) h3 else (Inr False, h3))"
          and down: "\<not> hlReachable (sink_shown H h3)"
        proof (rule that [of ?b ?h3])
          show "run_state (loop (Suc fuel) W attempt since m) h =
             (if ?b then run_state (loop fuel W (attempt + 1) (Some ?s) m) ?h3 else (Inr False, ?h3))"
            using Some nc go by (cases rechecks) (simp_all add: one_turn run_simps backoff_Sleep_def)
        qed simp
        show ?thesis
        proof (cases b)
          case True
          with run Suc.prems(1) have "run_state (loop fuel W (attempt + 1) (Some ?s) m) h3 = (r, h')" by simp
          from Suc.IH [OF this] down show ?thesis by simp
        next
          case False
          with run Suc.prems(1) show ?thesis by auto
        qed
      qed
    qed
  qed
qed

end

text \<open>A loop that reads a record only when it reports nothing against being ready, and that reports its
destination unreachable for as long as it is retrying.\<close>

locale reporting_loop = record_loop classify deliver prepare turn run
  for classify :: "'e \<Rightarrow> failure_class"
    and deliver :: "nat \<Rightarrow> ('m, 'e) sink_world \<Rightarrow> 'm \<Rightarrow> (('m, 'e) sink_hist, 'e sink_error + bool) state"
    and prepare :: "envelope \<Rightarrow> string \<Rightarrow> 'e sink_error + 'm option"
    and turn :: "nat \<Rightarrow> ('m, 'e) sink_world \<Rightarrow> (('m, 'e) sink_hist, 'e sink_error + turn) state"
    and run :: "nat \<Rightarrow> nat \<Rightarrow> ('m, 'e) sink_world \<Rightarrow> (('m, 'e) sink_hist, 'e sink_error + turn) state" +
  assumes reports: "run_state (deliver limit W m) h = (r, h') \<Longrightarrow> untroubled (sink_shown H h) \<Longrightarrow>
       (r = Inr True \<longrightarrow> untroubled (sink_shown H h')) \<and> (r = Inl StillRetrying \<longrightarrow> \<not> hlReachable (sink_shown H h'))"
    and refusal: "prepare env p = Inl err \<Longrightarrow> err \<noteq> StillRetrying"
begin

lemma turn_reports:
  assumes "run_state (turn limit W) h = (r, h')" and "untroubled (sink_shown H h)"
  shows "(r = Inr Again \<longrightarrow> untroubled (sink_shown H h')) \<and> (r = Inl StillRetrying \<longrightarrow> \<not> hlReachable (sink_shown H h'))"
proof (cases "\<exists>env p m. \<not> skCancelled W h \<and> skRead W h = ReadRecord env p \<and> prepare env p = Inr (Some m)")
  case True
  then obtain env p m where nc: "\<not> skCancelled W h" and rd: "skRead W h = ReadRecord env p" and pr: "prepare env p = Inr (Some m)" by blast
  let ?h = "h @ [Read (ReadRecord env p), Consumed]"
  obtain d h2 where del: "run_state (deliver limit W m) ?h = (d, h2)" by force
  have "untroubled (sink_shown H ?h)" using assms(2) by simp
  note rep = reports [OF del this]
  from assms(1) nc rd pr del have "(r, h') = (case d of Inl e \<Rightarrow> (Inl e, h2) | Inr posted \<Rightarrow> if \<not> posted then (Inr Stop, h2) else (Inr Again, h2 @ [Delivered (eType env)]))"
    by (auto simp: turn_eq run_simps split: sum.splits if_splits)
  with rep show ?thesis by (auto split: sum.splits if_splits)
next
  case False
  with assms show ?thesis
    by (auto simp: turn_eq run_simps dest: refusal split: if_splits read_result.splits sum.splits option.splits)
qed

lemma run_reports:
  "run_state (run n limit W) h = (r, h') \<Longrightarrow> untroubled (sink_shown H h) \<Longrightarrow>
     (r = Inr Again \<longrightarrow> untroubled (sink_shown H h')) \<and> (r = Inl StillRetrying \<longrightarrow> \<not> hlReachable (sink_shown H h'))"
proof (induction n arbitrary: h)
  case 0
  then show ?case by (auto simp: run_0 run_simps)
next
  case (Suc n)
  obtain t h1 where t: "run_state (turn limit W) h = (t, h1)" by force
  note rep = turn_reports [OF t Suc.prems(2)]
  show ?case
  proof (cases "t = Inr Again")
    case True
    with t rep Suc.prems(1) have "run_state (run n limit W) h1 = (r, h')" "untroubled (sink_shown H h1)" by (auto simp: run_Suc run_simps)
    then show ?thesis by (rule Suc.IH)
  next
    case False
    then have "r = t \<and> h' = h1"
      using t Suc.prems(1) by (cases t; cases "projr t") (auto simp: run_Suc run_simps)
    with rep show ?thesis by simp
  qed
qed

end

text \<open>Every sink is such a loop.\<close>

lemma retrying_loop_reports:
  assumes "run_state (loop (Suc limit) W 0 None m) h = (r, h')" and "untroubled (sink_shown H h)"
    and "retry_loop loop classify delay clear rechecks"
  shows "(r = Inr True \<longrightarrow> untroubled (sink_shown H h')) \<and> (r = Inl StillRetrying \<longrightarrow> \<not> hlReachable (sink_shown H h'))"
  using retry_loop.readiness [OF assms(3,1), of H] assms(2) by (simp add: untroubled_def)

interpretation kafka_reports: reporting_loop "kafka_Classify" "\<lambda>limit W. kafka_publishWithRetry (Suc limit) Op W 0 None" "kafka_prepare R"
    "kafka_turn R Op" "kafka_Run R Op" for R Op
  by unfold_locales (rule retrying_loop_reports [OF _ _ kafka_retry.retry_loop_axioms], assumption+,
    auto simp: kafka_prepare_def split: sum.splits prod.splits)

interpretation webhook_reports: reporting_loop "webhook_Classify" "\<lambda>limit W. webhook_postWithRetry (Suc limit) Op W 0 None" "webhook_prepare P F"
    "webhook_turn P F Op" "webhook_Run P F Op" for P F Op
  by unfold_locales (rule retrying_loop_reports [OF _ _ webhook_retry.retry_loop_axioms], assumption+,
    auto simp: webhook_prepare_def split: if_splits)

interpretation aws_reports: reporting_loop "aws_Classify S" "\<lambda>limit W. aws_deliverWithRetry (Suc limit) S Op W 0 None" "aws_prepare S fifo"
    "aws_turn fifo S Op" "aws_Run fifo S Op" for S fifo Op
  by unfold_locales (rule retrying_loop_reports [OF _ _ aws_retry.retry_loop_axioms], assumption+,
    auto simp: aws_prepare_def split: if_splits)

interpretation pg_reports: reporting_loop "pg_Classify" "\<lambda>limit W. pg_insertWithRetry (Suc limit) Op W 0 None" "pg_prepare"
    "pg_turn Op" "pg_Run Op" for Op
  by unfold_locales (rule retrying_loop_reports [OF _ _ pg_retry.retry_loop_axioms], assumption+, auto simp: pg_prepare_def)

interpretation redis_reports: reporting_loop "redis_Classify" "\<lambda>limit W. redis_appendWithRetry (Suc limit) Op W 0 None" "redis_prepare"
    "redis_turn Op" "redis_Run Op" for Op
  by unfold_locales (rule retrying_loop_reports [OF _ _ redis_retry.retry_loop_axioms], assumption+, auto simp: redis_prepare_def)

interpretation file_reports: reporting_loop "file_Classify" "\<lambda>limit W. file_writeWithRetry (Suc limit) Op W 0 None" "file_prepare F"
    "file_turn F Op" "file_Run F Op" for F Op
  by unfold_locales (rule retrying_loop_reports [OF _ _ file_retry.retry_loop_axioms], assumption+,
    auto simp: file_prepare_def split: if_splits)

interpretation stdout_reports: reporting_loop "\<lambda>_. ClassPermanent" "\<lambda>limit. stdout_deliver" "\<lambda>env payload. Inr (Some (line_of payload))"
    "\<lambda>limit. stdout_turn" "\<lambda>n limit. stdout_Run n"
  by unfold_locales (auto simp: stdout_deliver_run untroubled_def split: option.splits stdout_error.splits)

lemma sink_calls_keep:
  "hlLive (sink_shown H h) = hlLive H" "hlEmitBlockedThreshold (sink_shown H h) = hlEmitBlockedThreshold H"
  "hlLagThreshold (sink_shown H h) = hlLagThreshold H" "hlHeadStalenessThreshold (sink_shown H h) = hlHeadStalenessThreshold H"
  by (induction h arbitrary: H; simp; case_tac a; simp)+

definition honest :: "int \<Rightarrow> 'e sink_error + turn \<Rightarrow> ('m, 'e) sink_hist \<Rightarrow> bool" where
  "honest now r h \<longleftrightarrow>
     (case r of
        Inr Again \<Rightarrow> readyReason now (sink_shown sink_health h) = None
      | Inl StillRetrying \<Rightarrow> readyReason now (sink_shown sink_health h) = Some ''rpc unreachable''
      | _ \<Rightarrow> True)"

lemma sink_health_parts:
  "hlLive sink_health" "hlEmitBlockedThreshold sink_health = 30000000000" "hlLagThreshold sink_health = 0"
  "hlHeadStalenessThreshold sink_health = 0" "untroubled sink_health"
  by (simp_all add: sink_health_def NewSinkHealth_def NewHealth_def readyEmitBlockedThreshold_def second_def millisecond_def untroubled_def)

lemma honestI:
  assumes "(r = Inr Again \<longrightarrow> untroubled (sink_shown sink_health h)) \<and> (r = Inl StillRetrying \<longrightarrow> \<not> hlReachable (sink_shown sink_health h))"
  shows "honest now r h"
  using assms
  by (auto simp: honest_def readyReason_def sink_calls_keep sink_health_parts untroubled_def wrap64_def split: sum.splits turn.splits sink_error.splits)

lemma started_calm: "untroubled (sink_shown sink_health [])"
  by (simp add: sink_health_parts)

text \<open>
C40: A sink without an active probe tells the truth about itself: from its start, for every input,
  destination, clock and random source, it reads as ready after any number of turns of its loop,
  whatever failures and retries lie behind it, and for as long as it is still retrying a record it
  reads as not ready, its destination unreachable.
\<close>

theorem sinks_report_honestly:
  "(run_state (kafka_Run R kOp n limit kW) [] = (kr, kh) \<longrightarrow> honest now kr kh)
   \<and> (run_state (webhook_Run P F wOp n limit wW) [] = (wr, wh) \<longrightarrow> honest now wr wh)
   \<and> (run_state (aws_Run fifo S aOp n limit aW) [] = (ar, ah) \<longrightarrow> honest now ar ah)
   \<and> (run_state (pg_Run pOp n limit pW) [] = (pr, ph) \<longrightarrow> honest now pr ph)
   \<and> (run_state (redis_Run rOp n limit rW) [] = (rr, rh) \<longrightarrow> honest now rr rh)
   \<and> (run_state (file_Run FF fOp n limit fW) [] = (fr, fh) \<longrightarrow> honest now fr fh)
   \<and> (run_state (stdout_Run n sW) [] = (sr, sh) \<longrightarrow> honest now sr sh)"
  by (intro conjI impI; rule honestI;
      (erule kafka_reports.run_reports [OF _ started_calm] | erule webhook_reports.run_reports [OF _ started_calm] | erule aws_reports.run_reports [OF _ started_calm]
      | erule pg_reports.run_reports [OF _ started_calm] | erule redis_reports.run_reports [OF _ started_calm] | erule file_reports.run_reports [OF _ started_calm]
      | erule stdout_reports.run_reports [OF _ started_calm]))

lemma flaky_cluster_runs:
  "\<exists>h1 h2. run_state (kafka_Run one_topic quick_options (Suc 0) (Suc (Suc 0)) flaky_cluster) [] = (Inr Again, h1)
     \<and> run_state (kafka_Run one_topic quick_options (Suc 0) 0 flaky_cluster) [] = (Inl StillRetrying, h2)"
  by (simp add: kafka_turn_def run_simps flaky_cluster_def flaky_broker_def one_record_def kafka_Classify_def
      kafka_permanent_def kafka_Publish_def Route_def route_topic_def one_topic_def kafka_clearBlocked_def
      backoff_Sleep_def kafka_backoffFor_def kafka_jitter_def backoff_Duration_def quick_options_def)

lemma sinks_report_honestly_witness:
  "\<exists>h1 h2. run_state (kafka_Run one_topic quick_options (Suc 0) (Suc (Suc 0)) flaky_cluster) [] = (Inr Again, h1)
     \<and> readyReason 7 (sink_shown sink_health h1) = None
     \<and> run_state (kafka_Run one_topic quick_options (Suc 0) 0 flaky_cluster) [] = (Inl StillRetrying, h2)
     \<and> readyReason 7 (sink_shown sink_health h2) = Some ''rpc unreachable''"
proof -
  obtain h1 h2 where r: "run_state (kafka_Run one_topic quick_options (Suc 0) (Suc (Suc 0)) flaky_cluster) [] = (Inr Again, h1)"
    "run_state (kafka_Run one_topic quick_options (Suc 0) 0 flaky_cluster) [] = (Inl StillRetrying, h2)"
    using flaky_cluster_runs by blast
  note honest_runs = sinks_report_honestly [THEN conjunct1, rule_format, of one_topic quick_options "Suc 0" _ flaky_cluster _ _ 7]
  have "honest 7 (Inr Again :: publish_error sink_error + turn) h1" "honest 7 (Inl StillRetrying :: publish_error sink_error + turn) h2"
    using honest_runs [OF r(1)] honest_runs [OF r(2)] .
  with r show ?thesis by (simp add: honest_def)
qed

text \<open>The probe beside the loop cannot hide a stall.\<close>

lemma probe_cannot_hide_stall:
  assumes "30000 \<le> milliseconds d" and "milliseconds d < 2 ^ 43"
  shows "readyReason now (told [SetEmitBlocked d, SetRPCReachable True] sink_health) = Some ''record write blocked beyond threshold''"
proof -
  have "wrap64 (milliseconds d * millisecond) = milliseconds d * millisecond"
    using assms by (intro wrap64_id) (auto simp: millisecond_def)
  then show ?thesis
    using assms(1) by (simp add: readyReason_def sink_health_parts millisecond_def sink_health_def NewSinkHealth_def NewHealth_def
        readyEmitBlockedThreshold_def second_def)
qed

section \<open>The write watchdog of the producers\<close>

text \<open>\<^verbatim>\<open>blockTrackingEmitter.Emit\<close>: while the write is under way a ticker republishes how long it has taken; when
it has returned, the final span is published. \<open>ticks\<close> are the instants at which the watchdog ran.\<close>

definition watchdogInterval :: int where "watchdogInterval = 250 * millisecond"

definition watchdog_calls :: "int \<Rightarrow> int list \<Rightarrow> health_call list" where
  "watchdog_calls start ticks = map (\<lambda>t. SetEmitBlocked (time_sub t start)) ticks"

definition tracked_Emit :: "int \<Rightarrow> int list \<Rightarrow> int \<Rightarrow> 'e option \<Rightarrow> health_call list \<times> 'e option" where
  "tracked_Emit start ticks end inner = (watchdog_calls start ticks @ [SetEmitBlocked (time_sub end start)], inner)"

text \<open>The ticks of \<^verbatim>\<open>time.NewTicker\<close> up to an instant.\<close>

definition ticks_until :: "int \<Rightarrow> int \<Rightarrow> int list" where
  "ticks_until start now = map (\<lambda>k. start + int k * watchdogInterval) [1..<Suc (nat ((now - start) div watchdogInterval))]"

lemma watchdog_last:
  assumes "watchdogInterval \<le> now - start"
  shows "hlEmitBlockedMillis (told (watchdog_calls start (ticks_until start now)) H)
     = milliseconds (time_sub (start + ((now - start) div watchdogInterval) * watchdogInterval) start)"
proof -
  have "1 \<le> (now - start) div watchdogInterval" using assms by (simp add: watchdogInterval_def millisecond_def)
  then obtain k where k: "nat ((now - start) div watchdogInterval) = Suc k"
    by (cases "nat ((now - start) div watchdogInterval)") auto
  let ?f = "\<lambda>k. start + int k * watchdogInterval"
  have "ticks_until start now = map ?f [1..<Suc k] @ [?f (Suc k)]" by (simp add: ticks_until_def k)
  moreover have "(now - start) div watchdogInterval = int (Suc k)" using k by linarith
  ultimately show ?thesis by (simp add: watchdog_calls_def del: upt_Suc)
qed

lemma told_emits:
  assumes "\<forall>c \<in> set cs. \<exists>d. c = SetEmitBlocked d"
  shows "hlLive (told cs H) = hlLive H" "hlReachable (told cs H) = hlReachable H" "hlLag (told cs H) = hlLag H"
    "hlHeadUnixMillis (told cs H) = hlHeadUnixMillis H" "hlHeadKnown (told cs H) = hlHeadKnown H"
    "hlEmitBlockedThreshold (told cs H) = hlEmitBlockedThreshold H" "hlLagThreshold (told cs H) = hlLagThreshold H"
    "hlHeadStalenessThreshold (told cs H) = hlHeadStalenessThreshold H"
  using assms by (induction cs arbitrary: H) auto

lemma told_keeps_thresholds:
  "hlEmitBlockedThreshold (told cs H) = hlEmitBlockedThreshold H" "hlLagThreshold (told cs H) = hlLagThreshold H"
  "hlHeadStalenessThreshold (told cs H) = hlHeadStalenessThreshold H"
  by (induction cs arbitrary: H; simp; case_tac a; simp)+

lemma blocked_not_ready:
  assumes "hlEmitBlockedThreshold H = readyEmitBlockedThreshold" and "hlEmitBlockedMillis H = milliseconds d"
    and "readyEmitBlockedThreshold \<le> d" and "d < 2 ^ 63"
  shows "readyReason now H = Some (if \<not> hlLive H then ''process not live'' else if \<not> hlReachable H then ''rpc unreachable''
     else ''record write blocked beyond threshold'')"
proof -
  have "0 \<le> d" using assms(3) by (simp add: readyEmitBlockedThreshold_def second_def millisecond_def)
  then have m: "milliseconds d * millisecond \<le> d" "30000 \<le> milliseconds d" "0 \<le> milliseconds d"
    using assms(3) by (auto simp: milliseconds_def millisecond_def readyEmitBlockedThreshold_def second_def)
  then have "wrap64 (milliseconds d * millisecond) = milliseconds d * millisecond"
    using assms(4) by (intro wrap64_id) (auto simp: millisecond_def)
  with assms(1,2) m(2) show ?thesis
    by (auto simp: readyReason_def readyEmitBlockedThreshold_def second_def millisecond_def)
qed

text \<open>A wedged write shows. While a producer's write has not returned, whatever was reported before, the
  producer reads as not ready from 30.25 seconds on - the threshold and one tick - however long the
  write hangs, and when nothing worse was reported the blocked write is the reason given.\<close>

theorem wedged_write_shows:
  assumes "readyEmitBlockedThreshold + watchdogInterval \<le> now - start" and "now - start < 2 ^ 62"
    and "hlEmitBlockedThreshold H = readyEmitBlockedThreshold"
  shows "readyReason wall (told (watchdog_calls start (ticks_until start now)) H)
     = Some (if \<not> hlLive H then ''process not live'' else if \<not> hlReachable H then ''rpc unreachable''
        else ''record write blocked beyond threshold'')"
proof -
  let ?d = "((now - start) div watchdogInterval) * watchdogInterval"
  have b: "readyEmitBlockedThreshold \<le> ?d" "?d \<le> now - start" "watchdogInterval \<le> now - start"
    using assms(1) by (auto simp: readyEmitBlockedThreshold_def watchdogInterval_def second_def millisecond_def)
  have "time_sub (start + ?d) start = ?d"
    using b assms(2) by (auto simp: time_sub_def readyEmitBlockedThreshold_def second_def millisecond_def)
  with watchdog_last [OF b(3), of H] have "hlEmitBlockedMillis (told (watchdog_calls start (ticks_until start now)) H) = milliseconds ?d"
    by simp
  moreover have "\<forall>c \<in> set (watchdog_calls start (ticks_until start now)). \<exists>d. c = SetEmitBlocked d"
    by (auto simp: watchdog_calls_def)
  ultimately show ?thesis
    using blocked_not_ready [OF _ _ b(1), of _ wall] b(2) assms(2,3) by (simp add: told_emits)
qed

lemma wedged_write_shows_witness:
  "readyReason 0 (told (watchdog_calls 0 (ticks_until 0 (31 * second))) (producer_health 0)) = Some ''record write blocked beyond threshold''"
  by (subst wedged_write_shows) (simp_all add: readyEmitBlockedThreshold_def watchdogInterval_def second_def millisecond_def
      producer_health_def SetHeadStalenessThreshold_def NewHealth_def)

text \<open>A write that was blocked for 30 seconds and has returned leaves its producer not ready until the next
  record is written: no other report lifts it, whatever the polls find and however long ago the write
  came through. On a quiet chain the producer reads as blocked while nothing is.\<close>

theorem finished_write_still_counts:
  assumes "readyEmitBlockedThreshold \<le> finish - start" and "finish - start < 2 ^ 62"
    and "hlEmitBlockedThreshold H = readyEmitBlockedThreshold" and "\<forall>d. SetEmitBlocked d \<notin> set later"
  shows "readyReason wall (told later (told (fst (tracked_Emit start ticks finish None)) H)) \<noteq> None"
proof -
  have keep: "hlEmitBlockedMillis (told cs G) = hlEmitBlockedMillis G" if "\<forall>d. SetEmitBlocked d \<notin> set cs" for cs G
    using that by (induction cs arbitrary: G) (simp, case_tac a, auto)
  have "time_sub finish start = finish - start"
    using assms(1,2) by (auto simp: time_sub_def readyEmitBlockedThreshold_def second_def millisecond_def)
  then have "hlEmitBlockedMillis (told later (told (fst (tracked_Emit start ticks finish (None :: unit option))) H)) = milliseconds (finish - start)"
    using keep [OF assms(4)] by (simp add: tracked_Emit_def)
  from blocked_not_ready [OF _ this assms(1), of wall] assms(2,3) show ?thesis
    by (simp add: told_keeps_thresholds tracked_Emit_def)
qed

lemma finished_write_still_counts_witness:
  "readyReason 99 (told [SetRPCReachable True, SetLag 0] (told (fst (tracked_Emit 0 [] (40 * second) (None :: unit option))) (producer_health 0))) \<noteq> None"
  by (rule finished_write_still_counts) (simp_all add: readyEmitBlockedThreshold_def second_def millisecond_def
      producer_health_def SetHeadStalenessThreshold_def NewHealth_def)

section \<open>What the producers tell\<close>

fun stream_calls :: "happening \<Rightarrow> health_call list" where
  "stream_calls (Metric (HealthRPCReachable b)) = [SetRPCReachable b]"
| "stream_calls (Metric (HealthLag n)) = [SetLag n]"
| "stream_calls (Metric (HealthHeadBlockTime t)) = [SetHeadTime t]"
| "stream_calls _ = []"

fun balance_calls :: "bal_event \<Rightarrow> health_call list" where
  "balance_calls (Gauge (HReachable b)) = [SetRPCReachable b]"
| "balance_calls (Gauge (HLag n)) = [SetLag n]"
| "balance_calls (Gauge (HHeadBlockTime t)) = [SetHeadTime t]"
| "balance_calls _ = []"

definition stream_shown :: "health \<Rightarrow> hist \<Rightarrow> health" where
  "stream_shown H h = told (concat (map stream_calls h)) H"

definition balance_shown :: "health \<Rightarrow> bal_hist \<Rightarrow> health" where
  "balance_shown H h = told (concat (map balance_calls h)) H"

lemma shown_append [simp]:
  "stream_shown H (a @ b) = stream_shown (stream_shown H a) b" "balance_shown H (c @ d) = balance_shown (balance_shown H c) d"
  by (simp_all add: stream_shown_def balance_shown_def)

lemma run_failed_reports:
  assumes "run_state (run_failed W v e) s = (Continue v', s')"
  shows "\<not> hlReachable (stream_shown H (history s')) \<and> rFailures v' = rFailures v + 1"
  using assms by (cases e) (auto simp: run_failed_def run_simps cancelled_def stream_shown_def split: if_splits)

lemma run_succeeded_reports:
  assumes "run_state (run_succeeded W Op v next) s = (Continue v', s')"
  shows "hlReachable (stream_shown H (history s')) \<and> rFailures v' = 0"
  using assms by (auto simp: run_succeeded_def run_simps save_cursor_def stream_shown_def Let_def split: if_splits)

lemma tick_reports:
  assumes "run_state (tick W Op f) p = (Going f', p')"
  shows "hlReachable (balance_shown H (pHistory p')) \<longleftrightarrow> f' = 0"
proof -
  obtain r q where r: "run_state (check (bal_BlockNumber W) (\<lambda>head. do { gauge (GHead head); sampleAll W Op head })) p = (r, q)" by force
  show ?thesis
  proof (cases r)
    case (Inl e)
    with assms r have "run_state (handleError W Op f e) q = (Going f', p')" and "\<not> bCancelled W (pHistory q)"
      by (auto simp: tick_def run_simps bal_cancelled_def split: if_splits)
    then show ?thesis
      by (auto simp: handleError_def handleFailure_def bal_sleep_def run_simps gauge_def happened_def ask_def bal_cancelled_def Let_def
          balance_shown_def split: if_splits)
  next
    case (Inr u)
    with assms r show ?thesis by (auto simp: tick_def run_simps onSuccess_def gauge_def happened_def balance_shown_def)
  qed
qed

text \<open>What a producer reports about its node is the outcome of its last poll: after every turn of the loop of
  evm-stream, and after every tick of evm-balance, it reads as reachable exactly when that turn
  succeeded - and the count of consecutive failures is zero just then.\<close>

theorem producers_report_last_poll:
  "(run_state (run_iter W Op v) s = (Continue v', s') \<longrightarrow>
      (hlReachable (stream_shown H (history s')) \<longleftrightarrow> rFailures v' = 0) \<and> rFailures v' \<in> {0, rFailures v + 1})
   \<and> (run_state (tick BW BOp f) p = (Going f', p') \<longrightarrow>
      (hlReachable (balance_shown H (pHistory p')) \<longleftrightarrow> f' = 0) \<and> f' \<in> {0, f + 1})"
proof (intro conjI impI)
  assume run: "run_state (run_iter W Op v) s = (Continue v', s')"
  obtain nx err s1 where "run_state (do { stage_reload W; applyPendingReload; pollOnce W Op (rNext v) }) s = ((nx, err), s1)"
    by (metis prod.exhaust)
  with run have "run_state (case err of Some e \<Rightarrow> run_failed W v e | None \<Rightarrow> run_succeeded W Op v nx) s1 = (Continue v', s')"
    by (auto simp: run_iter_def run_simps split: prod.splits)
  then have "\<not> hlReachable (stream_shown H (history s')) \<and> rFailures v' = rFailures v + 1
      \<or> hlReachable (stream_shown H (history s')) \<and> rFailures v' = 0"
    by (cases err) (auto dest: run_failed_reports [of _ _ _ _ _ _ H] run_succeeded_reports [of _ _ _ _ _ _ _ H])
  then show "hlReachable (stream_shown H (history s')) \<longleftrightarrow> rFailures v' = 0" "rFailures v' \<in> {0, rFailures v + 1}" by auto
next
  assume t: "run_state (tick BW BOp f) p = (Going f', p')"
  then show "hlReachable (balance_shown H (pHistory p')) \<longleftrightarrow> f' = 0" by (rule tick_reports)
  show "f' \<in> {0, f + 1}"
    using t by (auto simp: tick_def run_simps handleError_def split: if_splits sum.splits prod.splits)
qed

text \<open>A failed write is reported as an unreachable node, although the node answered.\<close>

lemma failed_write_blames_node:
  assumes "run_state (run_failed W v (EmitErr (emit_error.EmitFailed m))) s = (Continue v', s')" and "hlLive (stream_shown H (history s'))"
  shows "readyReason now (stream_shown H (history s')) = Some ''rpc unreachable''"
  using run_failed_reports [OF assms(1), of H] assms(2) by (simp add: readyReason_def)

text \<open>With the block cadence the retry delay never grows. As long as the node answers with its height, a failing
  read - of any target, for any number of turns - counts as the first failure every time, because the
  height alone resets the count: the failures counted after any number of turns are at most one, and
  the delay before the next attempt is that of a first failure.\<close>

theorem block_cadence_never_backs_off:
  assumes "\<forall>h. \<exists>n. bHead W h = Inr n"
  shows "run_state (runBlockCadence n W Op v) p = (BGoing v' w, p') \<and> bvFailures v \<le> 1 \<longrightarrow> bvFailures v' \<le> 1"
proof (induction n arbitrary: v p)
  case 0
  then show ?case by (auto simp: run_simps)
next
  case (Suc n)
  have iter: "bvFailures u \<le> 1" if "run_state (block_iter W Op v) p = (BGoing u b, q)" for u b q
  proof -
    have failed: "bvFailures u \<le> 1" if "run_state (block_failed W Op x e) y = (BGoing u b, z)" and "bvFailures x = 0" for x e y z
      using that by (auto simp: block_failed_def handleError_def run_simps split: if_splits prod.splits bal_outcome.splits)
    show ?thesis
      using that assms
      by (auto simp: block_iter_def run_simps bal_BlockNumber_def ask_def happened_def Let_def
          split: sum.splits if_splits prod.splits dest!: failed)
        (metis sum.simps(4) Inl_Inr_False)+
  qed
  obtain r q where it: "run_state (block_iter W Op v) p = (r, q)" by force
  show ?case
  proof (cases r)
    case (BFinished e)
    with it show ?thesis by (simp add: run_simps)
  next
    case (BGoing u b)
    with it iter have "bvFailures u \<le> 1" by blast
    with Suc.IH [of u q] it BGoing show ?thesis by (simp add: run_simps)
  qed
qed

definition mute_node :: bal_world where
  "mute_node = moving_node\<lparr> bBalance := (\<lambda>_ _ _. Inl DeadlineExceeded) \<rparr>"

lemma mute_node_runs:
  "\<exists>v p. run_state (runBlockCadence (Suc (Suc 0)) mute_node every_three first_vars) (fresh_poller one_account) = (BGoing v False, p) \<and> bvFailures v = 1"
  "\<exists>p. run_state (tick mute_node every_minute 2) (fresh_poller one_account) = (Going 3, p)"
  by (simp_all add: sample_run_defs mute_node_def every_three_def block_iter_def first_vars_def block_due_def refreshHeadTime_def
      block_failed_def handleError_def handleFailure_def permanent_error_def tick_def bal_sleep_def bal_backoffFor_def
      backoff_Jitter_def backoff_Duration_def run_simps)

lemma producers_report_last_poll_witness:
  "\<exists>p. run_state (tick mute_node every_minute 2) (fresh_poller one_account) = (Going 3, p)
     \<and> \<not> hlReachable (balance_shown (producer_health 0) (pHistory p))"
proof -
  obtain p where t: "run_state (tick mute_node every_minute 2) (fresh_poller one_account) = (Going 3, p)" using mute_node_runs(2) by blast
  from producers_report_last_poll [THEN conjunct2, rule_format, OF t, of "producer_health 0"] t show ?thesis by auto
qed

lemma block_cadence_never_backs_off_witness:
  "\<exists>v p. run_state (runBlockCadence (Suc (Suc 0)) mute_node every_three first_vars) (fresh_poller one_account) = (BGoing v False, p)
     \<and> bvFailures v = 1 \<and> bvFailures v \<le> 1"
proof -
  obtain v p where r: "run_state (runBlockCadence (Suc (Suc 0)) mute_node every_three first_vars) (fresh_poller one_account) = (BGoing v False, p)"
    and one: "bvFailures v = 1" using mute_node_runs(1) by blast
  have "\<forall>h. \<exists>n. bHead mute_node h = Inr n" by (simp add: mute_node_def moving_node_def)
  from block_cadence_never_backs_off [OF this, of "Suc (Suc 0)" every_three first_vars] r one show ?thesis
    by (auto simp: first_vars_def)
qed

section \<open>What the server answers\<close>

lemma longest_in: "longest m = Some r \<Longrightarrow> r \<in> set m"
  by (induction m arbitrary: r) (auto split: option.splits if_splits)

lemma route_in: "mux_route m p = Some h \<Longrightarrow> h \<in> snd ` set m"
  by (force simp: mux_route_def image_iff split: option.splits dest!: longest_in map_of_SomeD)

text \<open>The path of the metrics page.\<close>

definition metrics_path :: "server_options \<Rightarrow> string" where
  "metrics_path opts = (if svMetricsPath opts = [] then ''/metrics'' else svMetricsPath opts)"

lemma server_routes:
  assumes "NewServer listen opts = ServerOf m"
  shows "m = (if svMetricsEnabled opts then [(metrics_path opts, MetricsHandler)] else []) @ [(''/readyz'', Readyz), (''/healthz'', Healthz)]
    \<and> (svMetricsEnabled opts \<longrightarrow> metrics_path opts \<noteq> ''/readyz'' \<and> metrics_path opts \<noteq> ''/healthz'')"
  using assms by (cases "svMetricsEnabled opts") (auto simp: NewServer_def mux_Handle_def metrics_path_def Let_def split: if_splits option.splits)

lemma metrics_path_panics:
  assumes "svMetricsEnabled opts" and "svRegistry opts" and "svHealth opts"
    and "metrics_path opts \<in> {''/healthz'', ''/readyz''} \<or> CHR ''/'' \<notin> set (metrics_path opts)"
  shows "\<exists>e. NewServer listen opts = ServerPanic e"
proof -
  have "isl (mux_Handle (metrics_path opts) MetricsHandler [(''/readyz'', Readyz), (''/healthz'', Healthz)])"
    using assms(4) by (auto simp: mux_Handle_def)
  then show ?thesis using assms(1-3) by (auto simp: NewServer_def metrics_path_def Let_def isl_def)
qed

text \<open>The health endpoints answer whatever the metrics are. A server that starts answers the liveness
  path with 200 exactly while the process is live, and the readiness path with 200 exactly when there
  is no reason not to be ready - or with that reason; it serves the metrics under their path exactly
  when they are enabled; and a metrics path that is one of the two health paths, or holds no slash,
  never gives a server: the program panics while it starts.\<close>

theorem health_endpoints_answer:
  assumes "NewServer listen opts = r" and "svMetricsEnabled opts \<longrightarrow> svRegistry opts" and "svHealth opts"
  shows "(\<forall>m. r = ServerOf m \<longrightarrow>
        serve m now H ''/healthz'' = (if hlLive H then writeStatus 200 ''ok'' else writeStatus 503 ''not live'')
      \<and> serve m now H ''/readyz'' = (case readyReason now H of None \<Rightarrow> writeStatus 200 ''ready'' | Some e \<Rightarrow> writeStatus 503 e)
      \<and> (svMetricsEnabled opts \<longrightarrow> serve m now H (metrics_path opts) = MetricsPage)
      \<and> (\<not> svMetricsEnabled opts \<longrightarrow> (\<forall>p. serve m now H p \<noteq> MetricsPage)))
    \<and> (svMetricsEnabled opts \<and> (metrics_path opts \<in> {''/healthz'', ''/readyz''} \<or> CHR ''/'' \<notin> set (metrics_path opts)) \<longrightarrow> (\<exists>e. r = ServerPanic e))"
proof (intro conjI allI impI)
  fix m assume "r = ServerOf m"
  with assms(1) have m: "m = (if svMetricsEnabled opts then [(metrics_path opts, MetricsHandler)] else []) @ [(''/readyz'', Readyz), (''/healthz'', Healthz)]"
    and free: "svMetricsEnabled opts \<longrightarrow> metrics_path opts \<noteq> ''/readyz'' \<and> metrics_path opts \<noteq> ''/healthz''"
    using server_routes by blast+
  show "serve m now H ''/healthz'' = (if hlLive H then writeStatus 200 ''ok'' else writeStatus 503 ''not live'')"
    "serve m now H ''/readyz'' = (case readyReason now H of None \<Rightarrow> writeStatus 200 ''ready'' | Some e \<Rightarrow> writeStatus 503 e)"
    using m free by (auto simp: serve_def mux_route_def)
  show "serve m now H (metrics_path opts) = MetricsPage" if "svMetricsEnabled opts"
    using m that by (simp add: serve_def mux_route_def)
  show "serve m now H p \<noteq> MetricsPage" if "\<not> svMetricsEnabled opts" for p
    using m that route_in [of m p] by (auto simp: serve_def writeStatus_def split: option.splits handler.splits)
next
  assume "svMetricsEnabled opts \<and> (metrics_path opts \<in> {''/healthz'', ''/readyz''} \<or> CHR ''/'' \<notin> set (metrics_path opts))"
  with assms show "\<exists>e. r = ServerPanic e" using metrics_path_panics by blast
qed

lemma health_endpoints_answer_witness:
  "(\<exists>e. NewServer (\<lambda>_. None) \<lparr> svAddr = '':9000'', svMetricsEnabled = True, svMetricsPath = ''/healthz'', svRegistry = True, svHealth = True \<rparr>
      = ServerPanic e)
   \<and> (\<exists>m. NewServer (\<lambda>_. None) \<lparr> svAddr = '':9000'', svMetricsEnabled = True, svMetricsPath = [], svRegistry = True, svHealth = True \<rparr>
      = ServerOf m \<and> serve m 0 sink_health ''/metrics'' = MetricsPage)"
proof
  show "\<exists>e. NewServer (\<lambda>_. None) \<lparr> svAddr = '':9000'', svMetricsEnabled = True, svMetricsPath = ''/healthz'', svRegistry = True, svHealth = True \<rparr>
      = ServerPanic e"
    using health_endpoints_answer [OF refl, of "\<lparr> svAddr = '':9000'', svMetricsEnabled = True, svMetricsPath = ''/healthz'', svRegistry = True, svHealth = True \<rparr>"]
    by (simp add: metrics_path_def)
  obtain m where m: "NewServer (\<lambda>_. None) \<lparr> svAddr = '':9000'', svMetricsEnabled = True, svMetricsPath = [], svRegistry = True, svHealth = True \<rparr> = ServerOf m"
    by (simp add: NewServer_def mux_Handle_def)
  with health_endpoints_answer [OF m] show "\<exists>m. NewServer (\<lambda>_. None) \<lparr> svAddr = '':9000'', svMetricsEnabled = True,
      svMetricsPath = [], svRegistry = True, svHealth = True \<rparr> = ServerOf m \<and> serve m 0 sink_health ''/metrics'' = MetricsPage"
    by (auto simp: metrics_path_def)
qed

end
