(* ===== verification/Spec2Isabelle.thy ===== *)
theory Spec2Isabelle
  imports Sinks Polling ChangeChain DeadLetter Checkpoint FileSink Transport Config Settings Health
begin

text \<open>
  \<^bold>\<open>A verification development for evm-tools\<close>

  evm-tools is a suite of small programs joined by a pipe. Two producers read an EVM chain over
  JSON-RPC and print records, one JSON object per line: \<^verbatim>\<open>evm-stream\<close> (events, native and
  internal transfers, reorg markers) and \<^verbatim>\<open>evm-balance\<close> (periodic samples and changes of
  balances, ownership and contract observations). Sinks read those lines, over a socket or standard
  input, and deliver each one, at least once and in order, to Kafka, a webhook, SQS/SNS, Postgres,
  Redis, a rotated file or standard output.

  \<^bold>\<open>Reading the model.\<close> Operations that change state are computations of the library's
  \<open>state\<close> monad; a Go call that returns a value and an error is a computation of a sum, the error
  on the left (\<open>check\<close> of Prelude is the idiom \<^verbatim>\<open>if err != nil { return err }\<close>). Heights are
  \<open>64 word\<close>, durations and Go's \<^verbatim>\<open>int\<close> are \<open>int\<close> with the wrap written out
  (\<open>wrap64\<close>) where the code can reach it, \<^verbatim>\<open>big.Int\<close> is \<open>int\<close>. What is outside the program - the
  node, the broker, the data base, the clock, the random source, the scheduler, signals - is a
  record of functions (\<open>world\<close>, \<open>bal_world\<close>, \<open>sink_world\<close>) from the history of everything done so far to
  the next answer, so every property holds for every behaviour of it, and every schedule.

  \<^bold>\<open>Theories, in the order of the calls.\<close>
  \<^item> Prelude, Numerals, Units: the computations above, Go's string functions, decimal and hex text,
    \<^verbatim>\<open>formatUnits\<close> and RFC 3339 instants. \<open>step_order\<close> is the locale of the relations between a state
    and a later one that every program built from the combinators keeps.
  \<^item> Records (\<^verbatim>\<open>internal/record\<close>): the envelope, the payloads, \<open>DedupKey\<close>, \<open>PartitionIdentity\<close>.
  \<^item> Rpc (\<^verbatim>\<open>internal/rpc\<close>, \<^verbatim>\<open>internal/chain\<close>): one round trip with its body cap, error classes, hex
    quantities, unsupported methods, chain resolution.
  \<^item> Abi (\<^verbatim>\<open>stream/abi.go\<close>, \<^verbatim>\<open>builtin_abi.go\<close>, \<^verbatim>\<open>resolve.go\<close>): event signatures and topics, the override
    parser, the resolution of a contract. Decode (\<^verbatim>\<open>stream/decode.go\<close>): topics and data to values.
  \<^item> StreamBase, Reorg, Traces, Native, OnchainStream, Polling (\<^verbatim>\<open>internal/stream\<close>): state and world of
    evm-stream; the reorg window and the fork search; the four trace back ends; the receipt pool;
    the poll with its chunks, cursor, reload and run loop; what a run does to the chain.
  \<^item> BalanceAbi, BalanceTargets, Sampling, SamplingFacts, ChangeChain (\<^verbatim>\<open>internal/balance\<close>): call data
    and results; configuration and constructor; reading, change detection, the two cadences and the
    hot reload; what a tick and a run promise.
  \<^item> Checkpoint (\<^verbatim>\<open>internal/checkpoint\<close>): the saved cursor on a disk that fails and loses power.
  \<^item> Json, Wire, Reader (\<^verbatim>\<open>internal/record\<close>, with \<^verbatim>\<open>encoding/json\<close>, \<^verbatim>\<open>bufio\<close> and UTF-8 as far as they are
    used): the text of a record, the writer of a producer and the line reader of a sink with its
    poison-line hook. DeadLetter (\<^verbatim>\<open>internal/deadletter\<close>): the file those lines go to.
  \<^item> Transport (\<^verbatim>\<open>internal/transport\<close>): the socket between them as a step relation - fan-out,
    connections, torn lines, reconnects - and the specs that name it.
  \<^item> Backoff (\<^verbatim>\<open>internal/backoff\<close>), SinkBase, and one theory per sink: KafkaSink, PgSink, RedisSink,
    AwsSink, Webhook, StdoutSink, FileWriter and FileSink, with Sinks for what holds of all of them. SinkBase states the
    contract the sinks share as two locales, \<open>retry_loop\<close> (send until confirmed) and \<open>record_loop\<close>
    (read, prepare, deliver, advance); each sink interprets both on its own loop, and its
    properties are consequences of \<open>in_order\<close> and \<open>all_confirmed\<close>.
  \<^item> Config (\<^verbatim>\<open>internal/config\<close>): references, defaults, overrides and command keys of the settings.
    Settings (\<^verbatim>\<open>internal/cli\<close>): the validators that the commands validate and run share, what a run
    builds of what they accept, the reloads, the check of a node.
  \<^item> Health (\<^verbatim>\<open>internal/metrics/server.go\<close>, \<^verbatim>\<open>stream/helpers.go\<close>): liveness and readiness, the health
    routes, what loops report. The locale \<open>reporting_loop\<close> extends \<open>record_loop\<close>; every sink
    interprets it.

  \<^bold>\<open>What the lemmas show.\<close> Identity: equal keys mean equal logical records, within the bounds the
  theorems name. Coverage: a poll reads every height once and in order, a saved cursor never runs
  ahead of what was read, a reorg rewinds to the highest common ancestor; a cursor read after a
  crash is whole. Decoding: inverse of the ABI encoding, no panic on static data. Transfers: exactly
  the successful value moves (of CALLs, creations and self-destructs). Samples: every target, one
  block, gapless changes, completed ticks a cadence apart. The pipe: records with texts in UTF-8
  read back as they were written, lines are whole and in order, bad ones are kept. Delivery: no
  loss, no reordering, no duplicate among the confirmed messages; bounded outages end in a
  confirmation. Settings: expansion means what it says, commands run only where due, what validates
  is not refused by the program's own checks. Health: a sink says what is so. Every property that
  needs a bound, a healthy disk or the absence of a reload states it; a few state a defect of the
  code and say so in their text, and lemmas beside the properties show where a bound is reached
  (\<open>huge_ttl_never_expires\<close>, \<open>huge_max_size_is_no_limit\<close>, \<open>partial_tick_is_taken_again\<close>,
  \<open>acknowledged_save_can_be_lost\<close>, \<open>invalid_byte_is_replaced\<close>, \<open>prune_takes_foreign_file\<close>).

  \<^bold>\<open>Fuel.\<close> The endless loops (\<open>Run\<close> of a producer or sink) take a number of turns, and their properties
  hold for every number. Retry loops take a bound on their attempts; \<open>survives\<close> gives the bound that
  suffices for an outage of given length. The chunk and split loops of a poll are bounded by the
  width of the range; \<open>poll_returns\<close> shows the bound is never what ends them. The search for a free
  segment name has twice the files and one as fuel, more than names can be taken; the JSON parser
  twice the length of its input, of which every call consumes a part. Every other recursion is
  structural or comes with a measure.

  \<^bold>\<open>Not modelled.\<close> The metrics registry and its HTTP server, the wiring of commands, signals and
  start-up logging, build information and the permissions of key files, and the Windows pipes beside
  their specs. The parser, merger and decoder of the settings, \<^verbatim>\<open>time.ParseDuration\<close>, Keccak, \<^verbatim>\<open>math/big\<close>
  floats, gzip, TLS and the clients of node, brokers and data bases are parameters. Readiness is
  stated for sinks without the concurrent probe.
\<close>

end
